(* ===== verification/Prelude.thy ===== *)
theory Prelude
  imports Main "HOL-Library.AList"
begin

text \<open>
  What every component theory shares: the representation of Rust's hash maps, time stamps,
  truncated division, the result type, and the contract of a component whose operations keep
  an invariant.

  A \<open>HashMap<K, V>\<close> is an association list with distinct keys.  The order of the list stands
  for the table's iteration order, which Rust leaves unspecified; no property of the
  development depends on it.
\<close>

subsection \<open>Collections of rules\<close>

named_theorems keeps \<open>preservation of a component invariant by one operation\<close>
named_theorems hm_laws \<open>the lookup laws of the hash-map operations\<close>

subsection \<open>Results and time\<close>

type_synonym ('e, 'a) result = "'e + 'a"

abbreviation Err :: "'e \<Rightarrow> ('e, 'a) result" where "Err \<equiv> Inl"
abbreviation Ok :: "'a \<Rightarrow> ('e, 'a) result" where "Ok \<equiv> Inr"

text \<open>An instant is a number of nanoseconds; a duration is a difference of instants.\<close>

type_synonym instant = int

definition nanos :: "int \<Rightarrow> int" where
  "nanos secs = secs * 1000000000"

text \<open>Rust's integer division truncates towards zero.\<close>

definition tdiv :: "int \<Rightarrow> int \<Rightarrow> int" where
  "tdiv a b = sgn a * sgn b * (\<bar>a\<bar> div \<bar>b\<bar>)"

definition num_seconds :: "int \<Rightarrow> int" where
  "num_seconds d = tdiv d 1000000000"

definition num_days :: "int \<Rightarrow> int" where
  "num_days d = tdiv (num_seconds d) 86400"

lemma tdiv_nonneg: "0 \<le> a \<Longrightarrow> 0 < b \<Longrightarrow> tdiv a b = a div b"
  by (cases "a = 0") (simp_all add: tdiv_def sgn_if)

lemma tdiv_small: "\<bar>a\<bar> < b \<Longrightarrow> tdiv a b = 0"
  by (simp add: tdiv_def)

subsection \<open>Hash maps\<close>

type_synonym ('k, 'v) hash_map = "('k \<times> 'v) list"

definition hm_empty :: "('k, 'v) hash_map" where
  "hm_empty = []"

definition hm_get :: "'k \<Rightarrow> ('k, 'v) hash_map \<Rightarrow> 'v option" where
  "hm_get k m = map_of m k"

definition hm_insert :: "'k \<Rightarrow> 'v \<Rightarrow> ('k, 'v) hash_map \<Rightarrow> ('k, 'v) hash_map" where
  "hm_insert k v m = AList.update k v m"

definition hm_remove :: "'k \<Rightarrow> ('k, 'v) hash_map \<Rightarrow> ('k, 'v) hash_map" where
  "hm_remove k m = AList.delete k m"

text \<open>\<open>map.entry(k).or_insert(d)\<close> followed by a change \<open>f\<close> of the entry.\<close>

definition hm_upsert :: "'k \<Rightarrow> 'v \<Rightarrow> ('v \<Rightarrow> 'v) \<Rightarrow> ('k, 'v) hash_map \<Rightarrow> ('k, 'v) hash_map" where
  "hm_upsert k d f m = hm_insert k (f (case hm_get k m of None \<Rightarrow> d | Some v \<Rightarrow> v)) m"

text \<open>\<open>if let Some(e) = map.get_mut(k) { f(e) }\<close>\<close>

definition hm_modify :: "'k \<Rightarrow> ('v \<Rightarrow> 'v) \<Rightarrow> ('k, 'v) hash_map \<Rightarrow> ('k, 'v) hash_map" where
  "hm_modify k f m = (case hm_get k m of None \<Rightarrow> m | Some v \<Rightarrow> hm_insert k (f v) m)"

text \<open>\<open>for e in map.values_mut() { f(e) }\<close> and \<open>map.retain(|k, v| P(k, v))\<close>\<close>

definition hm_map :: "('v \<Rightarrow> 'v) \<Rightarrow> ('k, 'v) hash_map \<Rightarrow> ('k, 'v) hash_map" where
  "hm_map f m = AList.map_ran (\<lambda>_. f) m"

definition hm_retain :: "('k \<Rightarrow> 'v \<Rightarrow> bool) \<Rightarrow> ('k, 'v) hash_map \<Rightarrow> ('k, 'v) hash_map" where
  "hm_retain P m = filter (\<lambda>(k, v). P k v) m"

definition hm_keys :: "('k, 'v) hash_map \<Rightarrow> 'k list" where
  "hm_keys m = map fst m"

definition hm_len :: "('k, 'v) hash_map \<Rightarrow> nat" where
  "hm_len m = length m"

definition hm_wf :: "('k, 'v) hash_map \<Rightarrow> bool" where
  "hm_wf m \<longleftrightarrow> distinct (map fst m)"

lemma hm_get_empty [simp, hm_laws]: "hm_get k hm_empty = None"
  by (simp add: hm_get_def hm_empty_def)

lemma hm_get_insert [simp, hm_laws]:
  "hm_get k' (hm_insert k v m) = (if k' = k then Some v else hm_get k' m)"
  by (simp add: hm_get_def hm_insert_def AList.update_conv')

lemma hm_get_remove [simp, hm_laws]:
  "hm_get k' (hm_remove k m) = (if k' = k then None else hm_get k' m)"
  by (simp add: hm_get_def hm_remove_def AList.delete_conv')

lemma hm_get_upsert [simp, hm_laws]:
  "hm_get k' (hm_upsert k d f m) =
     (if k' = k then Some (f (case hm_get k m of None \<Rightarrow> d | Some v \<Rightarrow> v)) else hm_get k' m)"
  by (simp add: hm_upsert_def)

lemma hm_get_modify [simp, hm_laws]:
  "hm_get k' (hm_modify k f m) = (if k' = k then map_option f (hm_get k m) else hm_get k' m)"
  by (auto simp: hm_modify_def split: option.split)

lemma hm_get_map [simp, hm_laws]: "hm_get k (hm_map f m) = map_option f (hm_get k m)"
  by (simp add: hm_get_def hm_map_def AList.map_ran_conv)

lemma hm_get_retain [hm_laws]:
  assumes "hm_wf m"
  shows "hm_get k (hm_retain P m) =
    (case hm_get k m of None \<Rightarrow> None | Some v \<Rightarrow> if P k v then Some v else None)"
  using assms
proof (induction m)
  case Nil
  then show ?case by (simp add: hm_get_def hm_retain_def)
next
  case (Cons kv m)
  obtain k0 v0 where kv: "kv = (k0, v0)" by (cases kv)
  have none: "hm_get k0 m = None"
    using Cons.prems by (simp add: kv hm_wf_def hm_get_def map_of_eq_None_iff)
  have ih: "map_of (filter (\<lambda>(k, v). P k v) m) k =
      (case map_of m k of None \<Rightarrow> None | Some v \<Rightarrow> if P k v then Some v else None)"
    using Cons by (simp add: kv hm_wf_def hm_get_def hm_retain_def)
  show ?case
    using none ih by (auto simp: kv hm_get_def hm_retain_def split: option.splits)
qed

lemma hm_wf_empty [simp, intro]: "hm_wf hm_empty"
  by (simp add: hm_wf_def hm_empty_def)

lemma hm_wf_insert [simp, intro]: "hm_wf m \<Longrightarrow> hm_wf (hm_insert k v m)"
  by (simp add: hm_wf_def hm_insert_def AList.distinct_update)

lemma hm_wf_remove [simp, intro]: "hm_wf m \<Longrightarrow> hm_wf (hm_remove k m)"
  by (simp add: hm_wf_def hm_remove_def AList.distinct_delete)

lemma hm_wf_upsert [simp, intro]: "hm_wf m \<Longrightarrow> hm_wf (hm_upsert k d f m)"
  by (simp add: hm_upsert_def)

lemma hm_wf_modify [simp, intro]: "hm_wf m \<Longrightarrow> hm_wf (hm_modify k f m)"
  by (simp add: hm_modify_def split: option.split)

lemma hm_wf_map [simp, intro]: "hm_wf m \<Longrightarrow> hm_wf (hm_map f m)"
  by (simp add: hm_wf_def hm_map_def AList.distinct_map_ran)

lemma hm_wf_retain [simp, intro]: "hm_wf m \<Longrightarrow> hm_wf (hm_retain P m)"
  by (simp add: hm_wf_def hm_retain_def distinct_map_filter)

lemma hm_in_set: "hm_wf m \<Longrightarrow> (k, v) \<in> set m \<longleftrightarrow> hm_get k m = Some v"
  by (simp add: hm_wf_def hm_get_def)

lemma hm_key_iff: "k \<in> set (hm_keys m) \<longleftrightarrow> hm_get k m \<noteq> None"
  by (auto simp: hm_keys_def hm_get_def map_of_eq_None_iff)

lemma hm_len_keys: "hm_wf m \<Longrightarrow> hm_len m = card (set (hm_keys m))"
  by (metis hm_keys_def hm_len_def hm_wf_def distinct_card length_map)

lemma hm_len_remove_le: "hm_len (hm_remove k m) \<le> hm_len m"
  by (simp add: hm_len_def hm_remove_def AList.length_delete_le)

lemma length_update_le: "length (AList.update k v m) \<le> Suc (length m)"
  by (induction m) auto

lemma length_update_present: "k \<in> fst ` set m \<Longrightarrow> length (AList.update k v m) = length m"
  by (induction m) auto

lemma hm_len_insert_le: "hm_len (hm_insert k v m) \<le> Suc (hm_len m)"
  by (simp add: hm_len_def hm_insert_def length_update_le)

lemma hm_len_insert_present: "hm_get k m \<noteq> None \<Longrightarrow> hm_len (hm_insert k v m) = hm_len m"
  by (simp add: hm_len_def hm_insert_def hm_get_def length_update_present map_of_eq_None_iff)

lemma length_delete_less: "k \<in> fst ` set m \<Longrightarrow> length (AList.delete k m) < length m"
  by (auto simp: AList.delete_eq intro: length_filter_less)

lemma hm_len_remove_less: "hm_get k m \<noteq> None \<Longrightarrow> hm_len (hm_remove k m) < hm_len m"
  by (simp add: hm_len_def hm_remove_def hm_get_def map_of_eq_None_iff length_delete_less)

subsection \<open>The map contract\<close>

text \<open>
  What a component may assume of the map it keeps its entries in: the lookup laws after an
  insertion and after a removal, and the invariant.  The derived operations and their laws are
  proved once here.
\<close>

locale keyed_map =
  fixes empty :: "'m"
    and get :: "'k \<Rightarrow> 'm \<Rightarrow> 'v option"
    and insert :: "'k \<Rightarrow> 'v \<Rightarrow> 'm \<Rightarrow> 'm"
    and remove :: "'k \<Rightarrow> 'm \<Rightarrow> 'm"
    and wf :: "'m \<Rightarrow> bool"
  assumes get_empty: "get k empty = None"
    and get_insert: "wf m \<Longrightarrow> get k' (insert k v m) = (if k' = k then Some v else get k' m)"
    and get_remove: "wf m \<Longrightarrow> get k' (remove k m) = (if k' = k then None else get k' m)"
    and wf_empty: "wf empty"
    and wf_insert: "wf m \<Longrightarrow> wf (insert k v m)"
    and wf_remove: "wf m \<Longrightarrow> wf (remove k m)"
begin

lemma insert_then_remove:
  "wf m \<Longrightarrow> get k m = None \<Longrightarrow> get k' (remove k (insert k v m)) = get k' m"
  by (simp add: get_insert get_remove wf_insert)

lemma insert_frame: "wf m \<Longrightarrow> k' \<noteq> k \<Longrightarrow> get k' (insert k v m) = get k' m"
  by (simp add: get_insert)

lemma remove_frame: "wf m \<Longrightarrow> k' \<noteq> k \<Longrightarrow> get k' (remove k m) = get k' m"
  by (simp add: get_remove)

lemma fold_insert_get:
  "wf m \<Longrightarrow> k \<notin> fst ` set kvs \<Longrightarrow> get k (fold (\<lambda>(k, v). insert k v) kvs m) = get k m"
  by (induction kvs arbitrary: m) (auto simp: get_insert wf_insert)

lemma wf_fold_insert_by: "wf m \<Longrightarrow> wf (fold (\<lambda>e. insert (key e) (val e)) xs m)"
  by (induction xs arbitrary: m) (auto simp: wf_insert)

lemma fold_insert_by_miss:
  "wf m \<Longrightarrow> k \<notin> key ` set xs \<Longrightarrow> get k (fold (\<lambda>e. insert (key e) (val e)) xs m) = get k m"
  by (induction xs arbitrary: m) (auto simp: get_insert wf_insert)

lemma fold_insert_by_hit:
  assumes "wf m" and "distinct (map key xs)" and "e \<in> set xs"
  shows "get (key e) (fold (\<lambda>e. insert (key e) (val e)) xs m) = Some (val e)"
  using assms
proof (induction xs arbitrary: m)
  case Nil
  then show ?case by simp
next
  case (Cons x xs)
  show ?case
  proof (cases "e \<in> set xs")
    case True
    with Cons show ?thesis by (simp add: wf_insert)
  next
    case False
    with Cons.prems have "e = x" "key e \<notin> key ` set xs" by auto
    with Cons.prems show ?thesis by (simp add: fold_insert_by_miss wf_insert get_insert)
  qed
qed

lemma fold_remove_get:
  "wf m \<Longrightarrow> get k (fold remove ks m) = (if k \<in> set ks then None else get k m)"
  by (induction ks arbitrary: m) (auto simp: get_remove wf_remove)

lemma wf_fold_remove: "wf m \<Longrightarrow> wf (fold remove ks m)"
  by (induction ks arbitrary: m) (auto simp: wf_remove)

end

interpretation hm: keyed_map hm_empty hm_get hm_insert hm_remove hm_wf
  by unfold_locales auto

subsection \<open>Components as machines\<close>

text \<open>
  A component is a machine: a set of initial states, one function per operation, and an
  invariant the initial states satisfy and every operation keeps.  What a client learns is
  that the invariant holds after every sequence of operations.
\<close>

definition runs :: "('op \<Rightarrow> 's \<Rightarrow> 's) \<Rightarrow> 'op list \<Rightarrow> 's \<Rightarrow> 's" where
  "runs step ops s = fold step ops s"

lemma runs_simps [simp]:
  "runs step [] s = s"
  "runs step (x # xs) s = runs step xs (step x s)"
  by (simp_all add: runs_def)

lemma runs_append: "runs step (xs @ ys) s = runs step ys (runs step xs s)"
  by (simp add: runs_def)

locale machine =
  fixes initial :: "'s \<Rightarrow> bool"
    and step :: "'op \<Rightarrow> 's \<Rightarrow> 's"
    and invar :: "'s \<Rightarrow> bool"
  assumes initial_invar: "initial s \<Longrightarrow> invar s"
    and step_invar: "invar s \<Longrightarrow> invar (step x s)"
begin

lemma runs_invar: "invar s \<Longrightarrow> invar (runs step xs s)"
  by (induction xs arbitrary: s) (auto intro: step_invar)

lemma reachable_invar: "initial s \<Longrightarrow> invar (runs step xs s)"
  by (rule runs_invar) (rule initial_invar)

end

text \<open>
  A bounded machine also promises a size bound in every state that satisfies the invariant:
  the contract of every registry that must not grow without limit.
\<close>

locale bounded_machine = machine initial step invar
  for initial :: "'s \<Rightarrow> bool" and step :: "'op \<Rightarrow> 's \<Rightarrow> 's" and invar :: "'s \<Rightarrow> bool" +
  fixes measure_of :: "'s \<Rightarrow> nat"
    and bound :: nat
  assumes invar_bound: "invar s \<Longrightarrow> measure_of s \<le> bound"
begin

lemma runs_bound: "initial s \<Longrightarrow> measure_of (runs step xs s) \<le> bound"
  by (rule invar_bound) (rule reachable_invar)

end

lemma map_filter_append: "List.map_filter f (xs @ ys) = List.map_filter f xs @ List.map_filter f ys"
  by (simp add: List.map_filter_def)

end
