(* ===== verification/Rust_Text.thy ===== *)
theory Rust_Text
  imports Prelude "HOL-Library.Sublist"
begin

text \<open>
  The part of Rust's \<open>str\<close> the components use, and the JSON values tools receive.

  A Rust \<open>char\<close> is represented by HOL's \<open>char\<close>, that is by the Unicode scalar values below
  256; on these the functions below are exact (lower-casing and white space included).
  Functions that look at the UTF-8 bytes of a string are not expressed through this type.

  A \<open>serde_json::Value\<close> is a tree; a number keeps its text.  Its rendering as compact JSON is
  code of the \<open>serde_json\<close> package and stays a parameter of the definitions that use it.
\<close>

subsection \<open>Characters\<close>

definition is_ws :: "char \<Rightarrow> bool" where
  "is_ws c \<longleftrightarrow> (let n = (of_char c :: nat) in (9 \<le> n \<and> n \<le> 13) \<or> n = 32 \<or> n = 133 \<or> n = 160)"

definition lower_char :: "char \<Rightarrow> char" where
  "lower_char c = (let n = (of_char c :: nat) in
     if (65 \<le> n \<and> n \<le> 90) \<or> (192 \<le> n \<and> n \<le> 222 \<and> n \<noteq> 215) then char_of (n + 32) else c)"

definition is_ascii_digit :: "char \<Rightarrow> bool" where
  "is_ascii_digit c \<longleftrightarrow> (let n = (of_char c :: nat) in 48 \<le> n \<and> n \<le> 57)"

definition to_lowercase :: "string \<Rightarrow> string" where
  "to_lowercase s = map lower_char s"

lemma lower_char_idem [simp]: "lower_char (lower_char c) = lower_char c"
  by (auto simp: lower_char_def Let_def)

lemma lower_char_ws [simp]: "is_ws (lower_char c) \<longleftrightarrow> is_ws c"
  by (auto simp: lower_char_def is_ws_def Let_def)

lemma to_lowercase_idem [simp]: "to_lowercase (to_lowercase s) = to_lowercase s"
  by (simp add: to_lowercase_def comp_def)

lemma to_lowercase_Nil [simp]: "to_lowercase s = [] \<longleftrightarrow> s = []"
  by (simp add: to_lowercase_def)

subsection \<open>Splitting, trimming, joining\<close>

fun split_on :: "(char \<Rightarrow> bool) \<Rightarrow> string \<Rightarrow> string list" where
  "split_on P [] = [[]]"
| "split_on P (c # cs) =
     (if P c then [] # split_on P cs
      else (case split_on P cs of [] \<Rightarrow> [[c]] | w # ws \<Rightarrow> (c # w) # ws))"

definition split_whitespace :: "string \<Rightarrow> string list" where
  "split_whitespace s = filter (\<lambda>w. w \<noteq> []) (split_on is_ws s)"

definition trim :: "string \<Rightarrow> string" where
  "trim s = rev (dropWhile is_ws (rev (dropWhile is_ws s)))"

definition trim_end_matches :: "char \<Rightarrow> string \<Rightarrow> string" where
  "trim_end_matches c s = rev (dropWhile (\<lambda>d. d = c) (rev s))"

fun join_with :: "string \<Rightarrow> string list \<Rightarrow> string" where
  "join_with sep [] = []"
| "join_with sep [w] = w"
| "join_with sep (w # v # ws) = w @ sep @ join_with sep (v # ws)"

fun contains_str :: "string \<Rightarrow> string \<Rightarrow> bool" where
  "contains_str sub [] = (sub = [])"
| "contains_str sub (c # cs) = (prefix sub (c # cs) \<or> contains_str sub cs)"

text \<open>\<open>str::lines\<close>, \<open>str::strip_prefix\<close>, \<open>str::strip_suffix\<close> and \<open>str::trim_matches\<close>.\<close>

definition strip_prefix :: "string \<Rightarrow> string \<Rightarrow> string option" where
  "strip_prefix p s = (if prefix p s then Some (drop (length p) s) else None)"

definition strip_suffix :: "string \<Rightarrow> string \<Rightarrow> string option" where
  "strip_suffix p s = (if suffix p s then Some (take (length s - length p) s) else None)"

definition trim_matches :: "(char \<Rightarrow> bool) \<Rightarrow> string \<Rightarrow> string" where
  "trim_matches P s = rev (dropWhile P (rev (dropWhile P s)))"

definition strip_cr :: "string \<Rightarrow> string" where
  "strip_cr l = (if l \<noteq> [] \<and> last l = CHR 0x0D then butlast l else l)"

definition rust_lines :: "string \<Rightarrow> string list" where
  "rust_lines s =
     (let ps = split_on (\<lambda>c. c = CHR 0x0A) s in
      map strip_cr (butlast ps) @ (if last ps = [] then [] else [last ps]))"

text \<open>The index of the first occurrence of a pattern, and \<open>str::split\<close> by a string.\<close>

fun find_str :: "string \<Rightarrow> string \<Rightarrow> nat option" where
  "find_str sub [] = (if sub = [] then Some 0 else None)"
| "find_str sub (c # cs) = (if prefix sub (c # cs) then Some 0 else map_option Suc (find_str sub cs))"

function split_str :: "string \<Rightarrow> string \<Rightarrow> string list" where
  "split_str sep s =
     (if sep = [] \<or> s = [] then [s]
      else case find_str sep s of
        None \<Rightarrow> [s]
      | Some i \<Rightarrow> take i s # split_str sep (drop (i + length sep) s))"
  by pat_completeness auto
termination
  by (relation "measure (\<lambda>(sep, s). length s)") auto

declare split_str.simps [simp del]

lemma split_on_nonempty [simp]: "split_on P s \<noteq> []"
  by (induction s) (auto split: list.splits)

lemma split_on_no_sep: "\<forall>c \<in> set s. \<not> P c \<Longrightarrow> split_on P s = [s]"
  by (induction s) auto

lemma split_on_pieces: "w \<in> set (split_on P s) \<Longrightarrow> c \<in> set w \<Longrightarrow> \<not> P c"
proof (induction s arbitrary: w)
  case Nil
  then show ?case by simp
next
  case (Cons a s)
  then show ?case
    by (auto split: if_splits list.splits) blast+
qed

lemma split_whitespace_pieces:
  "w \<in> set (split_whitespace s) \<Longrightarrow> w \<noteq> [] \<and> (\<forall>c \<in> set w. \<not> is_ws c)"
  by (auto simp: split_whitespace_def dest: split_on_pieces)

lemma split_whitespace_word:
  "w \<noteq> [] \<Longrightarrow> \<forall>c \<in> set w. \<not> is_ws c \<Longrightarrow> split_whitespace w = [w]"
  by (simp add: split_whitespace_def split_on_no_sep)

lemma split_on_prefix_word:
  "\<forall>c \<in> set w. \<not> P c \<Longrightarrow> P d \<Longrightarrow> split_on P (w @ d # s) = w # split_on P s"
  by (induction w) auto

lemma split_whitespace_first:
  "w \<noteq> [] \<Longrightarrow> \<forall>c \<in> set w. \<not> is_ws c \<Longrightarrow> is_ws d \<Longrightarrow>
   split_whitespace (w @ d # s) = w # split_whitespace s"
  by (simp add: split_whitespace_def split_on_prefix_word)

lemma split_on_snoc_line:
  "\<forall>c \<in> set l. c \<noteq> CHR 0x0A \<Longrightarrow> rust_lines (l @ CHR 0x0A # s) = strip_cr l # rust_lines s"
  by (simp add: rust_lines_def split_on_prefix_word Let_def)

lemma rust_lines_Nil [simp]: "rust_lines [] = []"
  by (simp add: rust_lines_def)

lemma rust_lines_concat:
  assumes "\<forall>l \<in> set ls. CHR 0x0A \<notin> set l"
  shows "rust_lines (concat (map (\<lambda>l. l @ [CHR 0x0A]) ls)) = map strip_cr ls"
  using assms
proof (induction ls)
  case (Cons l ls)
  then have "\<forall>c \<in> set l. c \<noteq> CHR 0x0A" by auto
  with Cons split_on_snoc_line [of l] show ?case by simp
qed simp

lemma rust_lines_pieces:
  assumes "l \<in> set (rust_lines s)"
  shows "CHR 0x0A \<notin> set l"
proof -
  let ?ps = "split_on (\<lambda>c. c = CHR 0x0A) s"
  have cr: "set (strip_cr w) \<subseteq> set w" for w by (auto simp: strip_cr_def dest: in_set_butlastD)
  have "\<exists>w \<in> set ?ps. set l \<subseteq> set w"
    using assms cr last_in_set [of ?ps] by (auto simp: rust_lines_def Let_def split: if_splits dest!: in_set_butlastD)
  then show ?thesis using split_on_pieces by blast
qed

lemma set_trim: "set (trim s) \<subseteq> set s"
  by (auto simp: trim_def dest!: set_dropWhileD)

lemma trim_fixed_hd: "trim (c # s) \<noteq> [] \<and> hd (trim (c # s)) = c" if "\<not> is_ws c"
proof -
  have "dropWhile is_ws (rev s @ [c]) = dropWhile is_ws (rev s) @ [c]" 
    using that by (induction "rev s" arbitrary: s) (auto simp: dropWhile_append)
  then show ?thesis using that by (simp add: trim_def)
qed

lemma trim_no_ws: "\<forall>c \<in> set w. \<not> is_ws c \<Longrightarrow> trim w = w"
proof -
  assume a: "\<forall>c \<in> set w. \<not> is_ws c"
  have keep: "dropWhile is_ws v = v" if "set v = set w" for v
    using a that by (cases v) auto
  show ?thesis by (simp add: trim_def keep)
qed

lemma contains_str_sublist: "contains_str sub s \<longleftrightarrow> sublist sub s"
  by (induction s) (auto simp: sublist_Cons_right)

lemma trim_matches_none: "\<forall>c \<in> set w. \<not> P c \<Longrightarrow> trim_matches P w = w"
proof -
  assume a: "\<forall>c \<in> set w. \<not> P c"
  have keep: "dropWhile P v = v" if "set v = set w" for v
    using a that by (cases v) auto
  show ?thesis by (simp add: trim_matches_def keep)
qed

lemma contains_str_chars: "contains_str sub s \<Longrightarrow> set sub \<subseteq> set s"
  by (auto simp: contains_str_sublist dest: set_mono_sublist)

lemma contains_str_single: "contains_str [c] s \<longleftrightarrow> c \<in> set s"
  by (auto simp: contains_str_sublist sublist_def in_set_conv_decomp)

text \<open>Finding and splitting.\<close>

lemma find_str_prefix: "find_str sub s = Some i \<Longrightarrow> prefix sub (drop i s) \<and> i + length sub \<le> length s"
  by (induction sub s arbitrary: i rule: find_str.induct) (auto split: if_splits dest: prefix_length_le)

lemma find_str_skip:
  "c \<notin> set xs \<Longrightarrow> find_str (c # n) (xs @ ys) = map_option (\<lambda>i. length xs + i) (find_str (c # n) ys)"
  by (induction xs; cases "find_str (c # n) ys") auto

lemma find_str_absent: "c \<notin> set xs \<Longrightarrow> find_str (c # n) xs = None"
  by (induction xs) auto

lemma find_str_char: "c \<in> set n \<Longrightarrow> c \<notin> set s \<Longrightarrow> find_str n s = None"
proof (rule ccontr)
  assume "c \<in> set n" "c \<notin> set s" "find_str n s \<noteq> None"
  then obtain i where "prefix n (drop i s)" using find_str_prefix by blast
  then have "set n \<subseteq> set s" by (meson order_trans set_drop_subset set_mono_prefix)
  with \<open>c \<in> set n\<close> \<open>c \<notin> set s\<close> show False by blast
qed

lemma join_Cons: "ws \<noteq> [] \<Longrightarrow> join_with sep (w # ws) = w @ sep @ join_with sep ws"
  by (cases ws) simp_all

lemma find_str_split: "find_str sub s = Some i \<Longrightarrow> s = take i s @ sub @ drop (i + length sub) s"
proof (induction sub s arbitrary: i rule: find_str.induct)
  case (2 sub c cs)
  show ?case
  proof (cases "prefix sub (c # cs)")
    case True
    with 2(2) show ?thesis by (auto simp: prefix_def)
  next
    case False
    with 2 show ?thesis by auto
  qed
qed (simp split: if_splits)

lemma join_split_str: "sep \<noteq> [] \<Longrightarrow> join_with sep (split_str sep s) = s"
proof (induction sep s rule: split_str.induct)
  case (1 sep s)
  have ne: "split_str sep v \<noteq> []" for v by (subst split_str.simps) (simp split: option.split)
  show ?case
  proof (cases "s = []")
    case True
    then show ?thesis by (simp add: split_str.simps)
  next
    case False
    show ?thesis
    proof (cases "find_str sep s")
      case None
      with False show ?thesis by (simp add: split_str.simps)
    next
      case (Some i)
      with False 1 have "join_with sep (split_str sep (drop (i + length sep) s)) = drop (i + length sep) s" by simp
      with Some False 1(2) find_str_split [OF Some] show ?thesis
        by (simp add: split_str.simps [of sep s] join_Cons ne)
    qed
  qed
qed

lemma split_str_nonempty: "split_str sep s \<noteq> []"
  by (subst split_str.simps) (simp split: option.split)

lemma starts_with_split: "prefix p s \<Longrightarrow> s = p @ drop (length p) s"
  by (auto simp: prefix_def)

subsection \<open>Numbers as text\<close>

function nat_text :: "nat \<Rightarrow> string" where
  "nat_text n =
     (if n < 10 then [char_of (48 + n)] else nat_text (n div 10) @ [char_of (48 + n mod 10)])"
  by pat_completeness auto
termination
  by (relation "measure id") auto

declare nat_text.simps [simp del]

definition text_nat :: "string \<Rightarrow> nat" where
  "text_nat s = foldl (\<lambda>n c. 10 * n + (of_char c - 48)) 0 s"

lemma text_nat_text [simp]: "text_nat (nat_text n) = n"
proof (induction n rule: nat_text.induct)
  case (1 n)
  show ?case
  proof (cases "n < 10")
    case True
    then show ?thesis by (simp add: nat_text.simps text_nat_def)
  next
    case False
    with 1 have "foldl (\<lambda>n c. 10 * n + (of_char c - 48)) 0 (nat_text (n div 10)) = n div 10"
      by (simp add: text_nat_def)
    moreover have "n mod 10 < 10" by simp
    ultimately show ?thesis
      using False by (subst nat_text.simps) (simp add: text_nat_def)
  qed
qed

lemma nat_text_inject [simp]: "nat_text m = nat_text n \<longleftrightarrow> m = n"
  by (metis text_nat_text)

subsection \<open>JSON values\<close>

datatype json =
    JNull
  | JBool bool
  | JNum string
  | JStr string
  | JArr "json list"
  | JObj "(string \<times> json) list"

text \<open>\<open>v.get(k)\<close>, \<open>v.as_str()\<close>, and the idiom \<open>args.get(k).and_then(|v| v.as_str())\<close>.\<close>

fun jget :: "json \<Rightarrow> string \<Rightarrow> json option" where
  "jget (JObj kvs) k = map_of kvs k"
| "jget _ k = None"

fun as_str :: "json \<Rightarrow> string option" where
  "as_str (JStr s) = Some s"
| "as_str _ = None"

definition str_arg :: "json \<Rightarrow> string \<Rightarrow> string option" where
  "str_arg v k = Option.bind (jget v k) as_str"

definition str_arg_or_empty :: "json \<Rightarrow> string \<Rightarrow> string" where
  "str_arg_or_empty v k = (case str_arg v k of None \<Rightarrow> [] | Some s \<Rightarrow> s)"

lemma str_arg_obj [simp]: "str_arg (JObj [(k, JStr s)]) k = Some s"
  by (simp add: str_arg_def)

lemma str_arg_or_empty_obj [simp]: "str_arg_or_empty (JObj [(k, JStr s)]) k = s"
  by (simp add: str_arg_or_empty_def)

text \<open>Arrays, and the changes of an object.\<close>

fun as_array :: "json \<Rightarrow> json list option" where
  "as_array (JArr xs) = Some xs"
| "as_array _ = None"

definition arr_arg :: "json \<Rightarrow> string \<Rightarrow> json list" where
  "arr_arg v k = (case Option.bind (jget v k) as_array of Some xs \<Rightarrow> xs | None \<Rightarrow> [])"

text \<open>\<open>obj.insert(k, v)\<close> and \<open>obj.remove(k)\<close>.\<close>

fun jinsert :: "string \<Rightarrow> json \<Rightarrow> json \<Rightarrow> json" where
  "jinsert k v (JObj kvs) = JObj (hm_insert k v kvs)"
| "jinsert k v j = j"

fun jremove :: "string \<Rightarrow> json \<Rightarrow> json" where
  "jremove k (JObj kvs) = JObj (hm_remove k kvs)"
| "jremove k j = j"

definition is_object :: "json \<Rightarrow> bool" where
  "is_object j = (case j of JObj _ \<Rightarrow> True | _ \<Rightarrow> False)"

lemma jget_insert [simp]: "is_object j \<Longrightarrow> jget (jinsert k v j) k' = (if k' = k then Some v else jget j k')"
  by (cases j) (simp_all add: is_object_def hm_insert_def AList.update_conv')

lemma jget_remove [simp]: "jget (jremove k j) k' = (if k' = k then None else jget j k')"
  by (cases j) (simp_all add: hm_remove_def AList.delete_conv')

lemma str_arg_insert [simp]:
  "is_object j \<Longrightarrow> str_arg (jinsert k (JStr s) j) k' = (if k' = k then Some s else str_arg j k')"
  by (simp add: str_arg_def)

lemma str_arg_object: "str_arg j k = Some v \<Longrightarrow> is_object j"
  by (cases j) (auto simp: str_arg_def is_object_def)

end
