(* ===== verification/Permissions.thy ===== *)
theory Permissions
  imports Rust_Text
begin

text \<open>
  The declarative permission policy of \<open>crates/oz-safety/src/permissions.rs\<close>: rules with a tool
  name, a glob pattern and a decision, and their evaluation with \<open>Deny\<close> winning.  The glob
  matcher is the source's backtracking loop over two indices; it is compared with the usual
  recursive meaning of \<open>*\<close>.
\<close>

subsection \<open>Decisions and rules\<close>

datatype decision = Allow | Deny | Ask

record permission_rule =
  rule_tool :: string
  rule_pattern :: string
  rule_decision :: decision

record permissions =
  rules :: "permission_rule list"

definition default_permissions :: permissions where
  "default_permissions = \<lparr>rules = []\<rparr>"

text \<open>
  The string a pattern is matched against; \<open>json_text\<close> is the compact JSON rendering
  (\<open>Value::to_string\<close>) used for every other tool.
\<close>

definition match_string :: "(json \<Rightarrow> string) \<Rightarrow> string \<Rightarrow> json \<Rightarrow> string" where
  "match_string json_text tool args =
     (if tool = ''code_run'' then str_arg_or_empty args ''code''
      else if tool \<in> {''read'', ''write'', ''patch'', ''edit''} then str_arg_or_empty args ''file_path''
      else if tool \<in> {''web_scan'', ''web_fetch''} then str_arg_or_empty args ''url''
      else json_text args)"

subsection \<open>The glob matcher\<close>

text \<open>
  The loop state is the source's: pattern index \<open>p\<close>, text index \<open>t\<close>, the index of the last
  star and the text position \<open>mark\<close> it was met at.
\<close>

function glob_loop :: "string \<Rightarrow> string \<Rightarrow> nat \<Rightarrow> nat \<Rightarrow> nat option \<Rightarrow> nat \<Rightarrow> bool" where
  "glob_loop pat str p t star mark =
     (if t < length str then
        (if p < length pat \<and> pat ! p = str ! t
         then glob_loop pat str (p + 1) (t + 1) star mark
         else if p < length pat \<and> pat ! p = CHR ''*''
         then glob_loop pat str (p + 1) t (Some p) t
         else case star of
             Some sp \<Rightarrow> glob_loop pat str (sp + 1) (mark + 1) star (mark + 1)
           | None \<Rightarrow> False)
      else dropWhile (\<lambda>c. c = CHR ''*'') (drop p pat) = [])"
  by pat_completeness auto
termination
  by (relation "measures [\<lambda>(pat, str, p, t, star, mark). length str - min mark t,
                          \<lambda>(pat, str, p, t, star, mark). length pat - p]") auto

declare glob_loop.simps [simp del]

definition glob_match :: "string \<Rightarrow> string \<Rightarrow> bool" where
  "glob_match pattern text = glob_loop pattern text 0 0 None 0"

definition rule_matches :: "permission_rule \<Rightarrow> string \<Rightarrow> string \<Rightarrow> bool" where
  "rule_matches r tool args =
     (if rule_tool r \<noteq> [] \<and> rule_tool r \<noteq> tool then False
      else if rule_pattern r = [] then True
      else glob_match (rule_pattern r) args)"

subsection \<open>Evaluating the rule set\<close>

fun check_rules :: "permission_rule list \<Rightarrow> string \<Rightarrow> string \<Rightarrow> bool \<Rightarrow> decision" where
  "check_rules [] tool args saw_allow = (if saw_allow then Allow else Ask)"
| "check_rules (r # rs) tool args saw_allow =
     (if rule_matches r tool args then
        (case rule_decision r of
           Deny \<Rightarrow> Deny
         | Allow \<Rightarrow> check_rules rs tool args True
         | Ask \<Rightarrow> check_rules rs tool args saw_allow)
      else check_rules rs tool args saw_allow)"

definition perm_check :: "permissions \<Rightarrow> string \<Rightarrow> string \<Rightarrow> decision" where
  "perm_check ps tool args = check_rules (rules ps) tool args False"

definition deny_summary :: "permissions \<Rightarrow> string list" where
  "deny_summary ps =
     map (\<lambda>r. if rule_pattern r = [] then ''deny '' @ rule_tool r
              else ''deny '' @ rule_tool r @ ''('' @ rule_pattern r @ '')'')
       (filter (\<lambda>r. rule_decision r = Deny) (rules ps))"

text \<open>The meaning of a glob pattern: \<open>*\<close> stands for any sequence, every other character for itself.\<close>

fun glob_spec :: "string \<Rightarrow> string \<Rightarrow> bool" where
  "glob_spec [] str = (str = [])"
| "glob_spec (c # ps) str =
     (if c = CHR ''*'' then (\<exists>k \<in> {0..length str}. glob_spec ps (drop k str))
      else (case str of [] \<Rightarrow> False | d # ts \<Rightarrow> d = c \<and> glob_spec ps ts))"

lemma glob_spec_star:
  "glob_spec (CHR ''*'' # ps) str \<longleftrightarrow> (\<exists>k \<le> length str. glob_spec ps (drop k str))"
  by auto

lemma glob_spec_all_stars:
  "glob_spec ps [] \<longleftrightarrow> dropWhile (\<lambda>c. c = CHR ''*'') ps = []"
  by (induction ps) auto

lemma glob_spec_literal:
  assumes "CHR ''*'' \<notin> set seg" and "glob_spec (seg @ ps) str"
  shows "length seg \<le> length str \<and> glob_spec ps (drop (length seg) str)"
  using assms by (induction seg arbitrary: str) (auto split: list.splits)

lemma drop_step: "i < length xs \<Longrightarrow> drop i xs = xs ! i # drop (Suc i) xs"
  by (rule Cons_nth_drop_Suc [symmetric])

lemma glob_spec_same: "glob_spec ps ts \<Longrightarrow> glob_spec (c # ps) (c # ts)"
  by (auto intro!: bexI [of _ 1])

lemma glob_loop_sound:
  assumes "glob_loop pat str p t star mark" and "t \<le> length str" and "mark \<le> t"
  shows "glob_spec (drop p pat) (drop t str) \<or>
    (\<exists>sp k. star = Some sp \<and> mark < k \<and> k \<le> length str \<and> glob_spec (drop (Suc sp) pat) (drop k str))"
  using assms
proof (induction pat str p t star mark rule: glob_loop.induct)
  case (1 pat str p t star mark)
  note run = "1.prems"(1) [unfolded glob_loop.simps [of pat str p t star mark]]
  show ?case
  proof (cases "t < length str")
    case False
    with run "1.prems"(2) show ?thesis by (simp add: glob_spec_all_stars)
  next
    case t: True
    note dt = drop_step [OF t]
    consider (match) "p < length pat" "pat ! p = str ! t"
      | (star) "p < length pat" "pat ! p \<noteq> str ! t" "pat ! p = CHR ''*''"
      | (retry) "\<not> (p < length pat \<and> pat ! p = str ! t)" "\<not> (p < length pat \<and> pat ! p = CHR ''*'')"
      by blast
    then show ?thesis
    proof cases
      case match
      with t run have "glob_loop pat str (p + 1) (t + 1) star mark" by simp
      from "1.IH"(1) [OF t _ this] match t "1.prems"(3)
      have "glob_spec (drop (Suc p) pat) (drop (Suc t) str) \<or>
        (\<exists>sp k. star = Some sp \<and> mark < k \<and> k \<le> length str \<and> glob_spec (drop (Suc sp) pat) (drop k str))"
        by simp
      moreover have "glob_spec (drop p pat) (drop t str)"
        if "glob_spec (drop (Suc p) pat) (drop (Suc t) str)"
        using that drop_step [OF match(1)] dt match(2)
        by (metis glob_spec_same)
      ultimately show ?thesis by blast
    next
      case star
      with t run have "glob_loop pat str (p + 1) t (Some p) t" by simp
      from "1.IH"(2) [OF t _ _ this] star t
      have "glob_spec (drop (Suc p) pat) (drop t str) \<or>
        (\<exists>k. t < k \<and> k \<le> length str \<and> glob_spec (drop (Suc p) pat) (drop k str))"
        by simp
      then have "\<exists>k \<le> length (drop t str). glob_spec (drop (Suc p) pat) (drop k (drop t str))"
      proof
        assume "\<exists>k. t < k \<and> k \<le> length str \<and> glob_spec (drop (Suc p) pat) (drop k str)"
        then obtain k where "t < k" "k \<le> length str" "glob_spec (drop (Suc p) pat) (drop k str)" by blast
        then show ?thesis by (intro exI [of _ "k - t"]) auto
      qed (auto intro: exI [of _ 0])
      with drop_step [OF star(1)] star(3) show ?thesis by auto
    next
      case retry
      with t run obtain sp where sp: "star = Some sp"
        and go: "glob_loop pat str (sp + 1) (mark + 1) star (mark + 1)"
        by (auto split: option.splits)
      from "1.IH"(3) [OF t retry sp go] "1.prems"(3) t sp
      have "glob_spec (drop (Suc sp) pat) (drop (Suc mark) str) \<or>
        (\<exists>k. Suc mark < k \<and> k \<le> length str \<and> glob_spec (drop (Suc sp) pat) (drop k str))"
        by simp
      then have "\<exists>k. mark < k \<and> k \<le> length str \<and> glob_spec (drop (Suc sp) pat) (drop k str)"
        using t "1.prems"(3) by (metis Suc_leI Suc_lessD le_less_trans lessI)
      with sp show ?thesis by blast
    qed
  qed
qed

lemma glob_spec_star_from:
  assumes "glob_spec (CHR ''*'' # ps) (drop m str)" and "m \<le> length str" and "t \<le> m"
  shows "\<exists>k. t \<le> k \<and> k \<le> length str \<and> glob_spec ps (drop k str)"
proof -
  obtain j where "j \<le> length str - m" "glob_spec ps (drop (j + m) str)"
    using assms(1) by (auto simp: glob_spec_star)
  with assms(2,3) show ?thesis by (intro exI [of _ "j + m"]) auto
qed

text \<open>
  The loop invariant: since the last star the pattern has matched literally, character by
  character, so giving up an earlier star in favour of a later one loses no match.
\<close>

definition seg_ok :: "string \<Rightarrow> nat \<Rightarrow> nat option \<Rightarrow> nat \<Rightarrow> nat \<Rightarrow> bool" where
  "seg_ok pat p star mark t \<longleftrightarrow> p \<le> length pat \<and>
     (\<forall>sp. star = Some sp \<longrightarrow> sp < p \<and> mark \<le> t \<and> t - mark = p - Suc sp \<and>
        CHR ''*'' \<notin> set (take (p - Suc sp) (drop (Suc sp) pat)))"

lemma seg_ok_literal:
  assumes "seg_ok pat p (Some sp) mark t" and "glob_spec (drop (Suc sp) pat) u"
  shows "t - mark \<le> length u \<and> glob_spec (drop p pat) (drop (t - mark) u)"
proof -
  let ?seg = "take (p - Suc sp) (drop (Suc sp) pat)"
  have sp: "sp < p" and len: "t - mark = p - Suc sp" and p: "p \<le> length pat"
    and lit: "CHR ''*'' \<notin> set ?seg"
    using assms(1) by (auto simp: seg_ok_def)
  have "drop (Suc sp) pat = ?seg @ drop (p - Suc sp) (drop (Suc sp) pat)"
    by (rule append_take_drop_id [symmetric])
  moreover have "drop (p - Suc sp) (drop (Suc sp) pat) = drop p pat"
    using sp by simp
  ultimately have "glob_spec (?seg @ drop p pat) u"
    using assms(2) by metis
  from glob_spec_literal [OF lit this] show ?thesis
    using len sp p by simp
qed

lemma seg_ok_match:
  assumes "seg_ok pat p star mark t" and "p < length pat" and "pat ! p \<noteq> CHR ''*''"
  shows "seg_ok pat (Suc p) star mark (Suc t)"
proof -
  have "CHR ''*'' \<notin> set (take (Suc p - Suc sp) (drop (Suc sp) pat))"
    if "sp < p" "CHR ''*'' \<notin> set (take (p - Suc sp) (drop (Suc sp) pat))" for sp
  proof -
    have "Suc p - Suc sp = Suc (p - Suc sp)" using that(1) by simp
    then show ?thesis
      using that assms(2,3) by (simp add: take_Suc_conv_app_nth)
  qed
  then show ?thesis
    using assms by (auto simp: seg_ok_def Suc_diff_le)
qed

lemma glob_loop_complete:
  assumes "CHR ''*'' \<notin> set str" and "t \<le> length str" and "seg_ok pat p star mark t"
    and "glob_spec (drop p pat) (drop t str) \<or>
      (\<exists>sp k. star = Some sp \<and> mark < k \<and> k \<le> length str \<and> glob_spec (drop (Suc sp) pat) (drop k str))"
  shows "glob_loop pat str p t star mark"
  using assms
proof (induction pat str p t star mark rule: glob_loop.induct)
  case (1 pat str p t star mark)
  note unfold = glob_loop.simps [of pat str p t star mark]
  note later = seg_ok_literal [of pat p _ mark t]
  show ?case
  proof (cases "t < length str")
    case False
    then have t: "t = length str" using "1.prems"(2) by simp
    have "glob_spec (drop p pat) (drop t str)"
    proof (rule ccontr)
      assume "\<not> ?thesis"
      with "1.prems"(4) obtain sp k where "star = Some sp" "mark < k" "k \<le> length str"
        "glob_spec (drop (Suc sp) pat) (drop k str)" by blast
      with later [of sp "drop k str"] "1.prems"(3) t show False by auto
    qed
    with t unfold show ?thesis by (simp add: glob_spec_all_stars)
  next
    case t: True
    note dt = drop_step [OF t]
    have nostar: "str ! t \<noteq> CHR ''*''" using "1.prems"(1) t by (metis nth_mem)
    consider (match) "p < length pat" "pat ! p = str ! t"
      | (star) "p < length pat" "pat ! p \<noteq> str ! t" "pat ! p = CHR ''*''"
      | (retry) "\<not> (p < length pat \<and> pat ! p = str ! t)" "\<not> (p < length pat \<and> pat ! p = CHR ''*'')"
      by blast
    then show ?thesis
    proof cases
      case match
      have "glob_spec (drop (Suc p) pat) (drop (Suc t) str) \<or>
        (\<exists>sp k. star = Some sp \<and> mark < k \<and> k \<le> length str \<and> glob_spec (drop (Suc sp) pat) (drop k str))"
        using "1.prems"(4) drop_step [OF match(1)] dt match(2) nostar by auto
      with "1.IH"(1) [OF t _ "1.prems"(1)] seg_ok_match [OF "1.prems"(3) match(1)] match nostar t
      have "glob_loop pat str (p + 1) (t + 1) star mark" by simp
      with match t unfold show ?thesis by simp
    next
      case star
      have "\<exists>k. t \<le> k \<and> k \<le> length str \<and> glob_spec (drop (Suc p) pat) (drop k str)"
        using "1.prems"(4)
      proof
        assume "glob_spec (drop p pat) (drop t str)"
        with drop_step [OF star(1)] star(3) t show ?thesis
          by (intro glob_spec_star_from [of _ t]) simp_all
      next
        assume "\<exists>sp k. star = Some sp \<and> mark < k \<and> k \<le> length str \<and>
          glob_spec (drop (Suc sp) pat) (drop k str)"
        then obtain sp k where k: "star = Some sp" "mark < k" "k \<le> length str"
          "glob_spec (drop (Suc sp) pat) (drop k str)" by blast
        with later [of sp "drop k str"] "1.prems"(3)
        have "t - mark \<le> length str - k" "glob_spec (drop p pat) (drop (t - mark + k) str)"
          by (auto simp: add.commute)
        with drop_step [OF star(1)] star(3) k show ?thesis
          by (intro glob_spec_star_from [of _ "t - mark + k"]) (simp_all del: glob_spec.simps)
      qed
      then have "glob_spec (drop (Suc p) pat) (drop t str) \<or>
        (\<exists>k. t < k \<and> k \<le> length str \<and> glob_spec (drop (Suc p) pat) (drop k str))"
        by (metis le_neq_implies_less)
      with "1.IH"(2) [OF t _ _ "1.prems"(1)] star t
      have "glob_loop pat str (p + 1) t (Some p) t" by (simp add: seg_ok_def)
      with star t unfold show ?thesis by simp
    next
      case retry
      have "\<not> glob_spec (drop p pat) (drop t str)"
      proof (cases "p < length pat")
        case True
        with retry dt drop_step [OF True] show ?thesis by auto
      qed (simp add: t not_le)
      with "1.prems"(4) obtain sp k where sp: "star = Some sp" and k: "mark < k" "k \<le> length str"
        "glob_spec (drop (Suc sp) pat) (drop k str)" by blast
      then have "glob_spec (drop (Suc sp) pat) (drop (Suc mark) str) \<or>
        (\<exists>k. Suc mark < k \<and> k \<le> length str \<and> glob_spec (drop (Suc sp) pat) (drop k str))"
        by (metis Suc_lessI)
      moreover have "seg_ok pat (Suc sp) star (Suc mark) (Suc mark)"
        using "1.prems"(3) sp by (auto simp: seg_ok_def)
      ultimately have "glob_loop pat str (sp + 1) (mark + 1) star (mark + 1)"
        using "1.IH"(3) [OF t retry sp "1.prems"(1)] sp k by simp
      with retry t sp unfold show ?thesis by auto
    qed
  qed
qed


subsection \<open>Properties of the policy\<close>

lemma glob_match_sound: "glob_match pattern str \<Longrightarrow> glob_spec pattern str"
  using glob_loop_sound [of pattern str 0 0 None 0] by (simp add: glob_match_def)

lemma glob_match_complete:
  "CHR ''*'' \<notin> set str \<Longrightarrow> glob_spec pattern str \<Longrightarrow> glob_match pattern str"
  using glob_loop_complete [of str 0 pattern 0 None 0] by (simp add: glob_match_def seg_ok_def)

lemma check_rules_eq:
  "check_rules rs tool args saw =
    (if list_ex (\<lambda>r. rule_matches r tool args \<and> rule_decision r = Deny) rs then Deny
     else if saw \<or> list_ex (\<lambda>r. rule_matches r tool args \<and> rule_decision r = Allow) rs then Allow
     else Ask)"
  by (induction rs arbitrary: saw) (auto split: decision.splits)

lemma rule_matches_simps:
  "rule_matches \<lparr>rule_tool = [], rule_pattern = [], rule_decision = d\<rparr> tool args"
  "rule_tool r = tool \<Longrightarrow> rule_matches r tool args \<longleftrightarrow> rule_pattern r = [] \<or> glob_match (rule_pattern r) args"
  "rule_tool r \<noteq> [] \<Longrightarrow> rule_tool r \<noteq> tool \<Longrightarrow> \<not> rule_matches r tool args"
  by (auto simp: rule_matches_def)

text \<open>
  C39: the backtracking glob matcher never accepts a text outside the meaning of the pattern,
  and on texts that do not contain \<open>*\<close> themselves it accepts exactly the texts the pattern
  means.
\<close>

theorem glob_match_correct:
  "(glob_match pattern str \<longrightarrow> glob_spec pattern str) \<and>
   (CHR ''*'' \<notin> set str \<longrightarrow> glob_match pattern str = glob_spec pattern str)"
  using glob_match_sound glob_match_complete by blast

theorem glob_match_correct_witness:
  "glob_match ''git * --force'' ''git push --force'' \<and> glob_spec ''git * --force'' ''git push --force''"
proof -
  have m: "glob_match ''git * --force'' ''git push --force''"
    by (simp add: glob_match_def glob_loop.simps)
  moreover have "CHR ''*'' \<notin> set ''git push --force''" by simp
  ultimately show ?thesis
    using glob_match_correct [of "''git * --force''" "''git push --force''"] by blast
qed

text \<open>
  A rule set is evaluated as documented: a matching \<open>Deny\<close> wins over every \<open>Allow\<close>
  wherever the two stand, an \<open>Allow\<close> counts only when no \<open>Deny\<close> matches, and a call no rule
  matches is \<open>Ask\<close>.
\<close>

theorem perm_check_deny_wins:
  "perm_check ps tool args =
    (if list_ex (\<lambda>r. rule_matches r tool args \<and> rule_decision r = Deny) (rules ps) then Deny
     else if list_ex (\<lambda>r. rule_matches r tool args \<and> rule_decision r = Allow) (rules ps) then Allow
     else Ask)"
  by (simp add: perm_check_def check_rules_eq)

text \<open>
  The first star of a command is taken for a literal match of the pattern's star, so the
  policy \<open>deny code_run "rm -rf *"\<close> denies \<open>rm -rf *\<close> but lets every longer command that
  begins with it through to the approval flow.
\<close>

theorem deny_rule_star_bypass:
  "perm_check \<lparr>rules = [\<lparr>rule_tool = ''code_run'', rule_pattern = ''rm -rf *'', rule_decision = Deny\<rparr>]\<rparr>
     ''code_run'' (''rm -rf *'' @ rest) = (if rest = [] then Deny else Ask)"
  by (cases rest) (simp_all add: perm_check_def rule_matches_def glob_match_def glob_loop.simps)

end
