(* ===== verification/Patterns.thy ===== *)
theory Patterns
  imports Rust_Text
begin

text \<open>
  The argument patterns of \<open>crates/oz-safety/src/patterns.rs\<close>: the key under which an approval
  of a tool call is remembered (\<open>build_pattern\<close>) and the judgement whether such a key may be
  remembered at all (\<open>is_auto_trustable\<close>).
\<close>

subsection \<open>Commands and tools that are never trusted automatically\<close>

definition NEVER_AUTO_TRUST :: "string list" where
  "NEVER_AUTO_TRUST =
    [''sh'', ''bash'', ''zsh'', ''fish'', ''dash'', ''ksh'', ''csh'', ''tcsh'', ''env'',
     ''sudo'', ''doas'', ''su'', ''eval'', ''exec'', ''xargs'', ''python'', ''python2'',
     ''python3'', ''py'', ''node'', ''nodejs'', ''deno'', ''bun'', ''ruby'', ''perl'',
     ''php'', ''osascript'', ''open'', ''curl'', ''wget'', ''nc'', ''ncat'', ''netcat'',
     ''socat'', ''telnet'', ''ssh'', ''scp'', ''sftp'', ''rsync'', ''npx'', ''bunx'', ''tsx'',
     ''ts-node'', ''uv'', ''uvx'', ''pip'', ''pip3'', ''pipx'', ''poetry'', ''pdm'',
     ''hatch'', ''docker'', ''podman'', ''make'', ''just'', ''rake'', ''gradle'', ''mvn'',
     ''go'', ''pytest'', ''tox'', ''nodemon'', ''watchman'', ''esbuild'', ''swc'']"

definition WRAPPERS :: "string list" where
  "WRAPPERS =
    [''nohup'', ''time'', ''xcrun'', ''arch'', ''stdbuf'', ''command'', ''builtin'',
     ''caffeinate'', ''ionice'', ''nice'', ''setsid'', ''watch'', ''timeout'', ''gtimeout'',
     ''taskset'', ''unbuffer'', ''script'', ''strace'', ''ltrace'', ''dtruss'', ''hyperfine'']"

definition NEVER_AUTO_TRUST_TOOLS :: "string list" where
  "NEVER_AUTO_TRUST_TOOLS = [''web_js'', ''web_execute_js'']"

definition VERSIONED_PREFIXES :: "string list" where
  "VERSIONED_PREFIXES = [''python'', ''node'', ''ruby'', ''perl'', ''php'', ''go'']"

definition is_never_auto_trust_command :: "string \<Rightarrow> bool" where
  "is_never_auto_trust_command word =
     (if word \<in> set NEVER_AUTO_TRUST then True
      else list_ex (\<lambda>pre. prefix pre word \<and>
             (case drop (length pre) word of [] \<Rightarrow> False | c # _ \<Rightarrow> is_ascii_digit c))
           VERSIONED_PREFIXES)"

text \<open>\<open>token.rsplit('/').next()\<close>: the part after the last slash.\<close>

definition basename :: "string \<Rightarrow> string" where
  "basename token = last (split_on (\<lambda>c. c = CHR ''/'') token)"

subsection \<open>The judgement\<close>

text \<open>
  The two \<open>while\<close> loops skip the wrappers, then the flags and \<open>VAR=value\<close> assignments; the token
  they stop at, if any, is the command that is judged.
\<close>

definition effective_command :: "string list \<Rightarrow> string option" where
  "effective_command tokens =
     (case dropWhile (\<lambda>w. prefix ''-'' w \<or> CHR ''='' \<in> set w)
             (dropWhile (\<lambda>w. w \<in> set WRAPPERS) tokens) of
        [] \<Rightarrow> None
      | cmd # _ \<Rightarrow> Some cmd)"

definition is_auto_trustable :: "string \<Rightarrow> string \<Rightarrow> bool" where
  "is_auto_trustable tool pat =
     (let p = to_lowercase (trim pat) in
      if p = [] then False
      else if p = ''*'' then False
      else if tool \<in> set NEVER_AUTO_TRUST_TOOLS \<or> prefix ''mcp__'' tool then False
      else if tool \<noteq> ''code_run'' then True
      else case map basename (split_whitespace p) of
             [] \<Rightarrow> False
           | first # rest \<Rightarrow>
               if is_never_auto_trust_command first then False
               else (case effective_command (first # rest) of
                       Some cmd \<Rightarrow> \<not> is_never_auto_trust_command cmd
                     | None \<Rightarrow> True))"

subsection \<open>The remembered key\<close>

definition path_key :: "string \<Rightarrow> string" where
  "path_key path =
     (let segments = filter (\<lambda>s. s \<noteq> [] \<and> s \<noteq> ''.'') (split_on (\<lambda>c. c = CHR ''/'') path) in
      if length segments \<le> 2
      then (if segments = [] then ''.'' else join_with ''/'' segments)
      else join_with ''/'' (take 2 segments))"

definition url_host :: "string \<Rightarrow> string" where
  "url_host url =
     (let after = (case split_str ''://'' url of _ # piece # _ \<Rightarrow> piece | _ \<Rightarrow> url) in
      to_lowercase (case split_on (\<lambda>c. c = CHR ''/'') after of [] \<Rightarrow> ''unknown'' | h # _ \<Rightarrow> h))"

definition build_pattern :: "string \<Rightarrow> json \<Rightarrow> string \<times> string" where
  "build_pattern tool args =
     (if tool = ''code_run'' then
        (tool, to_lowercase (case split_whitespace (str_arg_or_empty args ''code'') of
                               [] \<Rightarrow> ''unknown'' | w # _ \<Rightarrow> w))
      else if tool \<in> {''read'', ''write'', ''patch'', ''edit''} then
        (tool, path_key (str_arg_or_empty args ''file_path''))
      else if tool = ''web_scan'' then (tool, url_host (str_arg_or_empty args ''url''))
      else if tool = ''web_js'' then (tool, ''*'')
      else if prefix ''mcp__'' tool then (tool, tool)
      else (tool, tool))"

subsection \<open>Facts about keys and judgements\<close>

lemma fst_build_pattern [simp]: "fst (build_pattern tool args) = tool"
  by (simp add: build_pattern_def)

lemma build_pattern_code_run:
  "build_pattern ''code_run'' args =
    (''code_run'', to_lowercase (case split_whitespace (str_arg_or_empty args ''code'') of
       [] \<Rightarrow> ''unknown'' | w # _ \<Rightarrow> w))"
  by (simp add: build_pattern_def)

lemma code_run_key_word:
  "snd (build_pattern ''code_run'' args) \<noteq> [] \<and>
   (\<forall>c \<in> set (snd (build_pattern ''code_run'' args)). \<not> is_ws c)"
proof (cases "split_whitespace (str_arg_or_empty args ''code'')")
  case Nil
  then show ?thesis
    by (simp add: build_pattern_code_run to_lowercase_def) (simp add: is_ws_def)
next
  case (Cons w ws)
  then have "w \<noteq> [] \<and> (\<forall>c \<in> set w. \<not> is_ws c)"
    using split_whitespace_pieces [of w] by (metis list.set_intros(1))
  with Cons show ?thesis by (simp add: build_pattern_code_run) (simp add: to_lowercase_def)
qed

text \<open>For a key that is one lower-case word the wrapper loops see at most that word.\<close>

lemma is_auto_trustable_word:
  assumes "w \<noteq> []" and "\<forall>c \<in> set w. \<not> is_ws c" and "to_lowercase w = w" and "w \<noteq> ''*''"
  shows "is_auto_trustable ''code_run'' w \<longleftrightarrow> \<not> is_never_auto_trust_command (basename w)"
proof -
  have tools: "''code_run'' \<notin> set NEVER_AUTO_TRUST_TOOLS" "\<not> prefix ''mcp__'' ''code_run''"
    by (simp_all add: NEVER_AUTO_TRUST_TOOLS_def)
  show ?thesis
    using assms tools
    by (auto simp: is_auto_trustable_def trim_no_ws split_whitespace_word effective_command_def
        split: if_splits)
qed

subsection \<open>Properties\<close>

lemma split_nohup: "split_whitespace (''nohup '' @ cmd) = ''nohup'' # split_whitespace cmd"
  using split_whitespace_first [of "''nohup''" "CHR '' ''" cmd] by (simp add: is_ws_def)

text \<open>
  A key that may be remembered never belongs to a JavaScript or MCP tool, is neither empty
  nor the wildcard, and for \<open>code_run\<close> its first token is not an interpreter, a network client
  or another command of the forbidden list.
\<close>

theorem auto_trustable_only_specific:
  assumes "is_auto_trustable tool pat"
  shows "tool \<notin> set NEVER_AUTO_TRUST_TOOLS \<and> \<not> prefix ''mcp__'' tool \<and>
    to_lowercase (trim pat) \<noteq> [] \<and> to_lowercase (trim pat) \<noteq> ''*'' \<and>
    (tool = ''code_run'' \<longrightarrow>
      (\<exists>first rest. map basename (split_whitespace (to_lowercase (trim pat))) = first # rest \<and>
        \<not> is_never_auto_trust_command first \<and>
        (\<forall>cmd. effective_command (first # rest) = Some cmd \<longrightarrow> \<not> is_never_auto_trust_command cmd)))"
  using assms
  by (auto simp: is_auto_trustable_def Let_def split: if_splits list.splits option.splits)

theorem auto_trustable_only_specific_witness:
  "''code_run'' \<notin> set NEVER_AUTO_TRUST_TOOLS \<and> is_auto_trustable ''code_run'' ''cargo''"
proof -
  have "is_auto_trustable ''code_run'' ''cargo''" by code_simp
  with auto_trustable_only_specific [OF this] show ?thesis by blast
qed

text \<open>
  The judgement of the key \<open>code_run\<close> really remembers depends on the first word of the
  command alone; no wrapper, flag or assignment in front of the command that runs is ever
  unwrapped.
\<close>

theorem code_run_key_judged_by_first_word:
  "is_auto_trustable ''code_run'' (snd (build_pattern ''code_run'' args)) \<longleftrightarrow>
     snd (build_pattern ''code_run'' args) \<noteq> ''*'' \<and>
     \<not> is_never_auto_trust_command (basename (snd (build_pattern ''code_run'' args)))"
proof -
  let ?w = "snd (build_pattern ''code_run'' args)"
  have low: "to_lowercase ?w = ?w" by (simp add: build_pattern_code_run)
  show ?thesis
  proof (cases "?w = ''*''")
    case True
    then show ?thesis
      by (simp add: is_auto_trustable_def trim_def is_ws_def lower_char_def to_lowercase_def)
  next
    case False
    with code_run_key_word low show ?thesis by (simp add: is_auto_trustable_word)
  qed
qed

lemma nohup_key:
  "build_pattern ''code_run'' (JObj [(''code'', JStr (''nohup '' @ cmd))]) = (''code_run'', ''nohup'')"
  unfolding build_pattern_code_run str_arg_or_empty_obj split_nohup
  by (simp add: to_lowercase_def lower_char_def)

text \<open>
  A wrapped interpreter passes the judgement.  Every command \<open>nohup ...\<close> has the key
  \<open>nohup\<close>, which may be remembered, although the judgement of the command line \<open>nohup python3\<close>
  itself would refuse it.
\<close>

theorem wrapped_interpreter_key_trusted:
  "build_pattern ''code_run'' (JObj [(''code'', JStr (''nohup '' @ cmd))]) = (''code_run'', ''nohup'') \<and>
   is_auto_trustable ''code_run'' ''nohup'' \<and>
   \<not> is_auto_trustable ''code_run'' ''nohup python3''"
proof (intro conjI)
  show "build_pattern ''code_run'' (JObj [(''code'', JStr (''nohup '' @ cmd))]) = (''code_run'', ''nohup'')"
    by (rule nohup_key)
  show "is_auto_trustable ''code_run'' ''nohup''" by code_simp
  show "\<not> is_auto_trustable ''code_run'' ''nohup python3''" by code_simp
qed

end
