(* ===== verification/Trust_Store.thy ===== *)
theory Trust_Store
  imports Patterns
begin

text \<open>
  The progressive trust store of \<open>crates/oz-safety/src/trust.rs\<close>: entries keyed by tool and
  argument pattern, the set of keys trusted for this session, and the file the lasting entries
  are written to.  Every operation runs under the store's lock, so it is one function from
  stores to stores; a clock reading is an argument, one for every \<open>Utc::now()\<close> of the source.

  The file is represented by the list of entries last written to it; reading and writing it are
  taken to succeed.  Counters are natural numbers (the source's \<open>u32\<close> would overflow after
  \<open>2^32\<close> answers of the user).
\<close>

subsection \<open>Levels, decisions, entries\<close>

datatype trust_level = LBlocked | AlwaysAsk | SessionTrust | WorkspaceTrust | GlobalTrust

record approval_info =
  info_tool :: string
  info_pattern :: string
  arguments_summary :: string
  info_approved_count :: nat
  current_level :: trust_level

datatype trust_decision = Allowed | Blocked string | NeedsApproval approval_info

record trust_entry =
  entry_tool :: string
  entry_pattern :: string
  level :: trust_level
  approved_count :: nat
  denied_count :: nat
  last_approved :: "instant option"
  last_denied :: "instant option"
  created_at :: instant

type_synonym trust_key = "string \<times> string"

record trust_store =
  entries :: "(trust_key, trust_entry) hash_map"
  session_trusts :: "trust_key set"
  has_path :: bool
  saved :: "trust_entry list"

definition DENIAL_AUTO_BLOCK_COUNT :: nat where
  "DENIAL_AUTO_BLOCK_COUNT = 3"

definition DENIAL_AUTO_BLOCK_WINDOW :: int where
  "DENIAL_AUTO_BLOCK_WINDOW = 300"

definition new_entry :: "string \<Rightarrow> string \<Rightarrow> instant \<Rightarrow> trust_entry" where
  "new_entry tool pat now =
     \<lparr>entry_tool = tool, entry_pattern = pat, level = AlwaysAsk, approved_count = 0,
      denied_count = 0, last_approved = None, last_denied = None, created_at = now\<rparr>"

subsection \<open>Persistence\<close>

definition persisted :: "trust_entry \<Rightarrow> bool" where
  "persisted e \<longleftrightarrow> level e = WorkspaceTrust \<or> level e = GlobalTrust \<or> level e = LBlocked"

definition maybe_save :: "trust_store \<Rightarrow> trust_store" where
  "maybe_save st =
     (if has_path st then st\<lparr>saved := filter persisted (map snd (entries st))\<rparr> else st)"

definition load_from_disk :: "trust_entry list \<Rightarrow> (trust_key, trust_entry) hash_map" where
  "load_from_disk es =
     fold (\<lambda>e. hm_insert (entry_tool e, entry_pattern e) e)
       (filter (\<lambda>e. level e = LBlocked \<or> is_auto_trustable (entry_tool e) (entry_pattern e)) es)
       hm_empty"

text \<open>\<open>TrustStore::new(Some(path))\<close> on a file with the given entries, and \<open>TrustStore::in_memory()\<close>.\<close>

definition store_open :: "trust_entry list \<Rightarrow> trust_store" where
  "store_open es = \<lparr>entries = load_from_disk es, session_trusts = {}, has_path = True, saved = es\<rparr>"

definition store_in_memory :: trust_store where
  "store_in_memory = \<lparr>entries = hm_empty, session_trusts = {}, has_path = False, saved = []\<rparr>"

subsection \<open>The operations\<close>

definition blocked_msg :: "string \<Rightarrow> string \<Rightarrow> string" where
  "blocked_msg tool pat =
     ''Operation `'' @ tool @ ''` with pattern `'' @ pat @ ''` is permanently blocked''"

definition approval_info_of :: "string \<Rightarrow> string \<Rightarrow> nat \<Rightarrow> trust_level \<Rightarrow> approval_info" where
  "approval_info_of tool pat n lv =
     \<lparr>info_tool = tool, info_pattern = pat, arguments_summary = [], info_approved_count = n,
      current_level = lv\<rparr>"

definition store_check :: "trust_store \<Rightarrow> string \<Rightarrow> string \<Rightarrow> trust_decision" where
  "store_check st tool pat =
     (if (tool, pat) \<in> session_trusts st then Allowed
      else case hm_get (tool, pat) (entries st) of
          None \<Rightarrow> NeedsApproval (approval_info_of tool pat 0 AlwaysAsk)
        | Some e \<Rightarrow>
            (case level e of
               LBlocked \<Rightarrow> Blocked (blocked_msg tool pat)
             | GlobalTrust \<Rightarrow> Allowed
             | WorkspaceTrust \<Rightarrow> Allowed
             | SessionTrust \<Rightarrow>
                 if (tool, pat) \<in> session_trusts st then Allowed
                 else NeedsApproval (approval_info_of tool pat (approved_count e) (level e))
             | AlwaysAsk \<Rightarrow> NeedsApproval (approval_info_of tool pat 0 AlwaysAsk)))"

definition entry_or_new :: "trust_store \<Rightarrow> string \<Rightarrow> string \<Rightarrow> instant \<Rightarrow> trust_entry" where
  "entry_or_new st tool pat now =
     (case hm_get (tool, pat) (entries st) of None \<Rightarrow> new_entry tool pat now | Some e \<Rightarrow> e)"

definition put_entry :: "string \<Rightarrow> string \<Rightarrow> trust_entry \<Rightarrow> trust_store \<Rightarrow> trust_store" where
  "put_entry tool pat e st = st\<lparr>entries := hm_insert (tool, pat) e (entries st)\<rparr>"

text \<open>
  \<open>record_approval\<close>: the three readings of the clock are the creation time of a new entry, the
  time of the approval, and the time the age of the entry is measured at.
\<close>

definition store_record_approval ::
  "string \<Rightarrow> string \<Rightarrow> instant \<Rightarrow> instant \<Rightarrow> instant \<Rightarrow> trust_store \<Rightarrow> trust_store" where
  "store_record_approval tool pat t_new t_approved now st =
     (if (tool, pat) \<in> session_trusts st then st
      else
        let e = entry_or_new st tool pat t_new;
            e1 = e\<lparr>approved_count := approved_count e + 1, last_approved := Some t_approved\<rparr>;
            days_span = num_days (now - created_at e1)
        in if is_auto_trustable tool pat
           then (if 10 \<le> approved_count e1 \<and> 1 \<le> days_span
                 then maybe_save (put_entry tool pat (e1\<lparr>level := WorkspaceTrust\<rparr>) st)
                 else if 3 \<le> approved_count e1
                 then maybe_save
                        (put_entry tool pat (e1\<lparr>level := SessionTrust\<rparr>)
                          (st\<lparr>session_trusts := insert (tool, pat) (session_trusts st)\<rparr>))
                 else maybe_save (put_entry tool pat e1 st))
           else maybe_save (put_entry tool pat e1 st))"

text \<open>
  \<open>record_denial\<close>: the clock is read for a new entry, for the time of the denial, and once more
  for the age of that denial.
\<close>

definition denied_entry :: "instant \<Rightarrow> instant \<Rightarrow> trust_entry \<Rightarrow> trust_entry" where
  "denied_entry t_denied now e =
     (let e1 = e\<lparr>denied_count := denied_count e + 1, last_denied := Some t_denied\<rparr> in
      if DENIAL_AUTO_BLOCK_COUNT \<le> denied_count e1
      then (case last_denied e1 of
              Some t \<Rightarrow>
                if \<bar>num_seconds (now - t)\<bar> \<le> DENIAL_AUTO_BLOCK_WINDOW
                then e1\<lparr>level := LBlocked\<rparr> else e1
            | None \<Rightarrow> e1)
      else e1)"

definition store_record_denial ::
  "string \<Rightarrow> string \<Rightarrow> instant \<Rightarrow> instant \<Rightarrow> instant \<Rightarrow> trust_store \<Rightarrow> trust_store" where
  "store_record_denial tool pat t_new t_denied now st =
     maybe_save (put_entry tool pat (denied_entry t_denied now (entry_or_new st tool pat t_new)) st)"

definition store_block :: "string \<Rightarrow> string \<Rightarrow> instant \<Rightarrow> trust_store \<Rightarrow> trust_store" where
  "store_block tool pat t_new st =
     (let st1 = st\<lparr>session_trusts := session_trusts st - {(tool, pat)}\<rparr>
      in maybe_save (put_entry tool pat ((entry_or_new st1 tool pat t_new)\<lparr>level := LBlocked\<rparr>) st1))"

definition store_unblock :: "string \<Rightarrow> string \<Rightarrow> trust_store \<Rightarrow> trust_store" where
  "store_unblock tool pat st =
     maybe_save (st\<lparr>entries :=
       hm_modify (tool, pat) (\<lambda>e. e\<lparr>level := AlwaysAsk, denied_count := 0\<rparr>) (entries st)\<rparr>)"

definition decay_entry :: "int \<Rightarrow> instant \<Rightarrow> trust_entry \<Rightarrow> trust_entry" where
  "decay_entry max_days_inactive now e =
     (if level e = WorkspaceTrust
      then (case last_approved e of
              Some l \<Rightarrow> if max_days_inactive \<le> num_days (now - l) then e\<lparr>level := SessionTrust\<rparr> else e
            | None \<Rightarrow> e)
      else e)"

definition decay_expired :: "int \<Rightarrow> instant \<Rightarrow> trust_store \<Rightarrow> trust_store" where
  "decay_expired max_days_inactive now st =
     maybe_save (st\<lparr>entries := hm_map (decay_entry max_days_inactive now) (entries st)\<rparr>)"

definition list_trusted :: "trust_store \<Rightarrow> (string \<times> string \<times> trust_level) list" where
  "list_trusted st =
     map (\<lambda>((t, p), e). (t, p, level e))
       (filter (\<lambda>(_, e). level e \<noteq> LBlocked \<and> level e \<noteq> AlwaysAsk) (entries st))"

definition list_blocked :: "trust_store \<Rightarrow> (string \<times> string) list" where
  "list_blocked st = map fst (filter (\<lambda>(_, e). level e = LBlocked) (entries st))"

text \<open>The public operations as a datatype, to speak about sequences of them.\<close>

datatype store_op =
    Approval string string instant instant instant
  | Denial string string instant instant instant
  | Block string string instant
  | Unblock string string
  | Decay int instant

fun store_step :: "store_op \<Rightarrow> trust_store \<Rightarrow> trust_store" where
  "store_step (Approval tool pat t0 t1 t2) st = store_record_approval tool pat t0 t1 t2 st"
| "store_step (Denial tool pat t0 t1 t2) st = store_record_denial tool pat t0 t1 t2 st"
| "store_step (Block tool pat t0) st = store_block tool pat t0 st"
| "store_step (Unblock tool pat) st = store_unblock tool pat st"
| "store_step (Decay d now) st = decay_expired d now st"

subsection \<open>Field laws\<close>

lemma maybe_save_simps [simp]:
  "entries (maybe_save st) = entries st"
  "session_trusts (maybe_save st) = session_trusts st"
  "has_path (maybe_save st) = has_path st"
  "saved (maybe_save st) =
     (if has_path st then filter persisted (map snd (entries st)) else saved st)"
  by (simp_all add: maybe_save_def)

lemma put_entry_simps [simp]:
  "entries (put_entry tool pat e st) = hm_insert (tool, pat) e (entries st)"
  "session_trusts (put_entry tool pat e st) = session_trusts st"
  "has_path (put_entry tool pat e st) = has_path st"
  by (simp_all add: put_entry_def)

lemma new_entry_simps [simp]:
  "level (new_entry tool pat t) = AlwaysAsk"
  "approved_count (new_entry tool pat t) = 0"
  "denied_count (new_entry tool pat t) = 0"
  "entry_tool (new_entry tool pat t) = tool"
  "entry_pattern (new_entry tool pat t) = pat"
  by (simp_all add: new_entry_def)

lemma decay_entry_simps [simp]:
  "entry_tool (decay_entry d now e) = entry_tool e"
  "entry_pattern (decay_entry d now e) = entry_pattern e"
  "approved_count (decay_entry d now e) = approved_count e"
  "level (decay_entry d now e) = LBlocked \<longleftrightarrow> level e = LBlocked"
  "level (decay_entry d now e) = GlobalTrust \<longleftrightarrow> level e = GlobalTrust"
  "level (decay_entry d now e) = AlwaysAsk \<longleftrightarrow> level e = AlwaysAsk"
  by (auto simp: decay_entry_def split: option.splits)

lemma denied_entry_simps [simp]:
  "entry_tool (denied_entry t1 t2 e) = entry_tool e"
  "entry_pattern (denied_entry t1 t2 e) = entry_pattern e"
  "approved_count (denied_entry t1 t2 e) = approved_count e"
  "denied_count (denied_entry t1 t2 e) = Suc (denied_count e)"
  "level (denied_entry t1 t2 e) =
    (if 2 \<le> denied_count e \<and> \<bar>num_seconds (t2 - t1)\<bar> \<le> DENIAL_AUTO_BLOCK_WINDOW
     then LBlocked else level e)"
  by (simp_all add: denied_entry_def Let_def DENIAL_AUTO_BLOCK_COUNT_def)

lemma decay_entry_id: "level e \<noteq> WorkspaceTrust \<Longrightarrow> decay_entry d now e = e"
  by (simp add: decay_entry_def)

lemma session_trusts_step:
  "session_trusts (store_step x st) =
    (case x of
       Approval tool pat t0 t1 t2 \<Rightarrow> session_trusts (store_record_approval tool pat t0 t1 t2 st)
     | Block tool pat t0 \<Rightarrow> session_trusts st - {(tool, pat)}
     | _ \<Rightarrow> session_trusts st)"
  by (cases x) (simp_all add: store_record_denial_def store_block_def store_unblock_def
      decay_expired_def Let_def)

lemma load_from_disk_get:
  assumes "hm_get k (load_from_disk es) = Some e"
  shows "e \<in> set es \<and> k = (entry_tool e, entry_pattern e) \<and>
    (level e = LBlocked \<or> is_auto_trustable (entry_tool e) (entry_pattern e))"
proof -
  have gen: "e \<in> set xs \<and> k = (entry_tool e, entry_pattern e) \<or> hm_get k m = Some e"
    if "hm_get k (fold (\<lambda>e. hm_insert (entry_tool e, entry_pattern e) e) xs m) = Some e" for xs m
    using that by (induction xs arbitrary: m) (force split: if_splits)+
  show ?thesis
    using gen [OF assms [unfolded load_from_disk_def]] by auto
qed

lemma load_from_disk_wf [simp]: "hm_wf (load_from_disk es)"
  unfolding load_from_disk_def by (rule hm.wf_fold_insert_by) simp

subsection \<open>Trust is only ever given to keys that may be remembered\<close>

definition entry_safe :: "trust_key \<Rightarrow> trust_entry \<Rightarrow> bool" where
  "entry_safe k e \<longleftrightarrow>
     (entry_tool e, entry_pattern e) = k \<and>
     (level e = LBlocked \<or> level e = AlwaysAsk \<or> is_auto_trustable (fst k) (snd k))"

definition trust_safe :: "trust_store \<Rightarrow> bool" where
  "trust_safe st \<longleftrightarrow> hm_wf (entries st) \<and>
     (\<forall>k \<in> session_trusts st. is_auto_trustable (fst k) (snd k)) \<and>
     (\<forall>k e. hm_get k (entries st) = Some e \<longrightarrow> entry_safe k e)"

definition store_initial :: "trust_store \<Rightarrow> bool" where
  "store_initial st \<longleftrightarrow> st = store_in_memory \<or> (\<exists>es. st = store_open es)"

lemma trust_safe_initial: "store_initial st \<Longrightarrow> trust_safe st"
  by (auto simp: store_initial_def trust_safe_def store_in_memory_def store_open_def entry_safe_def
      dest: load_from_disk_get)

lemma entry_or_new_safe:
  "trust_safe st \<Longrightarrow> entry_safe (tool, pat) (entry_or_new st tool pat t)"
  by (auto simp: entry_or_new_def trust_safe_def entry_safe_def split: option.split)

lemma trust_safe_approval [keeps]:
  "trust_safe st \<Longrightarrow> trust_safe (store_record_approval tool pat t0 t1 t2 st)"
  using entry_or_new_safe [of st tool pat t0]
  by (auto simp: store_record_approval_def Let_def trust_safe_def entry_safe_def)

lemma trust_safe_denial [keeps]:
  "trust_safe st \<Longrightarrow> trust_safe (store_record_denial tool pat t0 t1 t2 st)"
  using entry_or_new_safe [of st tool pat t0]
  by (auto simp: store_record_denial_def Let_def trust_safe_def entry_safe_def)

lemma trust_safe_block [keeps]: "trust_safe st \<Longrightarrow> trust_safe (store_block tool pat t0 st)"
  using entry_or_new_safe [of st tool pat t0]
  by (auto simp: store_block_def Let_def trust_safe_def entry_safe_def entry_or_new_def
      split: option.split)

lemma trust_safe_unblock [keeps]: "trust_safe st \<Longrightarrow> trust_safe (store_unblock tool pat st)"
  by (auto simp: store_unblock_def trust_safe_def entry_safe_def)

lemma trust_safe_decay [keeps]: "trust_safe st \<Longrightarrow> trust_safe (decay_expired d now st)"
  by (fastforce simp: decay_expired_def trust_safe_def entry_safe_def)

lemma trust_safe_step: "trust_safe st \<Longrightarrow> trust_safe (store_step x st)"
  by (cases x) (auto intro: keeps)

interpretation trust: machine store_initial store_step trust_safe
  by unfold_locales (auto intro: trust_safe_initial trust_safe_step)

lemma trust_safe_allowed:
  "trust_safe st \<Longrightarrow> store_check st tool pat = Allowed \<Longrightarrow> is_auto_trustable tool pat"
  by (auto simp: store_check_def trust_safe_def entry_safe_def
      split: if_splits option.splits trust_level.splits) fastforce+

lemma trust_safe_entry:
  assumes "trust_safe st" and "hm_get k (entries st) = Some e"
  shows "entry_tool e = fst k" "entry_pattern e = snd k"
    "level e = LBlocked \<or> level e = AlwaysAsk \<or> is_auto_trustable (fst k) (snd k)"
proof -
  have "entry_safe k e" using assms unfolding trust_safe_def by blast
  then show "entry_tool e = fst k" "entry_pattern e = snd k"
    "level e = LBlocked \<or> level e = AlwaysAsk \<or> is_auto_trustable (fst k) (snd k)"
    by (auto simp: entry_safe_def)
qed

lemma trust_safe_key:
  "trust_safe st \<Longrightarrow> hm_get k (entries st) = Some e \<Longrightarrow> (entry_tool e, entry_pattern e) = k"
  by (simp add: trust_safe_entry)

lemma trust_safe_mem: "trust_safe st \<Longrightarrow> (k, e) \<in> set (entries st) \<longleftrightarrow> hm_get k (entries st) = Some e"
  by (simp add: trust_safe_def hm_in_set)

subsection \<open>Saving and loading\<close>

lemma saved_keys:
  assumes "trust_safe st"
  shows "distinct (map (\<lambda>e. (entry_tool e, entry_pattern e)) (filter P (map snd (entries st))))"
proof -
  have key: "(entry_tool (snd kv), entry_pattern (snd kv)) = fst kv" if "kv \<in> set (entries st)" for kv
    using that trust_safe_key [OF assms] trust_safe_mem [OF assms] by (metis prod.collapse)
  have "map (\<lambda>e. (entry_tool e, entry_pattern e)) (filter P (map snd (entries st))) =
      map fst (filter (P \<circ> snd) (entries st))"
    unfolding filter_map map_map by (rule map_cong) (auto simp: key)
  then show ?thesis
    using assms by (simp add: trust_safe_def hm_wf_def distinct_map_filter)
qed

lemma saved_mem:
  assumes "trust_safe st"
  shows "e \<in> set (filter P (map snd (entries st))) \<and> (entry_tool e, entry_pattern e) = k \<longleftrightarrow>
    hm_get k (entries st) = Some e \<and> P e"
proof -
  have *: "(k', e) \<in> set (entries st) \<longleftrightarrow> hm_get k' (entries st) = Some e" for k'
    using assms by (rule trust_safe_mem)
  note key = trust_safe_key [OF assms, of _ e]
  have "e \<in> set (map snd (entries st)) \<longleftrightarrow> (\<exists>k'. hm_get k' (entries st) = Some e)"
    using * by (metis (no_types, lifting) image_iff list.set_map prod.collapse snd_conv)
  with key show ?thesis by (metis (mono_tags, lifting) mem_Collect_eq set_filter)
qed

text \<open>
  Writing the store and opening it again brings back exactly the lasting entries
  (\<open>WorkspaceTrust\<close>, \<open>GlobalTrust\<close>, \<open>Blocked\<close>), each under its own key; session trust and
  undecided entries are gone.
\<close>

theorem save_load_roundtrip:
  assumes "store_initial st0" and "has_path st0"
  shows "hm_get k (entries (store_open (saved (maybe_save (runs store_step ops st0))))) =
    (case hm_get k (entries (runs store_step ops st0)) of
       Some e \<Rightarrow> if persisted e then Some e else None
     | None \<Rightarrow> None)"
proof -
  let ?st = "runs store_step ops st0"
  let ?key = "\<lambda>e. (entry_tool e, entry_pattern e)"
  let ?P = "\<lambda>e. (level e = LBlocked \<or> is_auto_trustable (entry_tool e) (entry_pattern e)) \<and> persisted e"
  have safe: "trust_safe ?st" using assms(1) by (rule trust.reachable_invar)
  have path: "has_path ?st"
  proof -
    have "has_path (store_step x st) = has_path st" for x st
      by (cases x) (simp_all add: store_record_approval_def store_record_denial_def store_block_def
          store_unblock_def decay_expired_def Let_def)
    then have "has_path (runs store_step ops st) = has_path st" for st
      by (induction ops arbitrary: st) auto
    with assms(2) show ?thesis by simp
  qed
  let ?xs = "filter ?P (map snd (entries ?st))"
  have eq: "entries (store_open (saved (maybe_save ?st))) = fold (\<lambda>e. hm_insert (?key e) e) ?xs hm_empty"
    using path by (simp add: store_open_def load_from_disk_def conj_commute)
  have keep: "?P e \<longleftrightarrow> persisted e" if "hm_get k (entries ?st) = Some e" for e
    using trust_safe_entry [OF safe that] by (auto simp: persisted_def)
  show ?thesis
  proof (cases "\<exists>e. hm_get k (entries ?st) = Some e \<and> persisted e")
    case True
    then obtain e where e: "hm_get k (entries ?st) = Some e" "persisted e" by blast
    with keep saved_mem [OF safe, of e ?P k] have "e \<in> set ?xs" and k: "?key e = k" by simp_all
    then have "hm_get (?key e) (fold (\<lambda>e. hm_insert (?key e) e) ?xs hm_empty) = Some e"
      by (intro hm.fold_insert_by_hit saved_keys safe) simp_all
    with e k eq show ?thesis by simp
  next
    case False
    have "k \<notin> ?key ` set ?xs"
    proof
      assume "k \<in> ?key ` set ?xs"
      then obtain e where "e \<in> set ?xs" "?key e = k" by blast
      with saved_mem [OF safe, of e ?P k] False show False by blast
    qed
    then have "hm_get k (fold (\<lambda>e. hm_insert (?key e) e) ?xs hm_empty) = None"
      by (subst hm.fold_insert_by_miss) simp_all
    with False eq show ?thesis by (auto split: option.split)
  qed
qed

theorem save_load_roundtrip_witness:
  "hm_get (''code_run'', ''rm'')
     (entries (store_open (saved (maybe_save (runs store_step [Block ''code_run'' ''rm'' 0] (store_open [])))))) =
   Some (new_entry ''code_run'' ''rm'' 0\<lparr>level := LBlocked\<rparr>)"
  by (subst save_load_roundtrip)
    (simp_all add: store_initial_def, simp_all add: store_open_def load_from_disk_def store_block_def
      entry_or_new_def persisted_def)

subsection \<open>Trust, denial and decay\<close>

text \<open>
  C8: whatever the trust file held at start (even entries planted in it) and whatever operations
  ran since, the store allows a call without asking only for keys that may be remembered.
\<close>

theorem trust_only_for_auto_trustable:
  assumes "store_initial st0"
    and "store_check (runs store_step ops st0) tool pat = Allowed"
  shows "is_auto_trustable tool pat"
  using trust.reachable_invar [OF assms(1)] assms(2) by (rule trust_safe_allowed)

theorem trust_only_for_auto_trustable_witness:
  "is_auto_trustable ''code_run'' ''cargo''"
proof -
  let ?a = "Approval ''code_run'' ''cargo'' 0 0 0"
  have ok: "is_auto_trustable ''code_run'' ''cargo''" by code_simp
  have init: "store_initial store_in_memory" by (simp add: store_initial_def)
  have "(''code_run'', ''cargo'') \<in> session_trusts (runs store_step [?a, ?a, ?a] store_in_memory)"
    using ok by (simp add: store_record_approval_def entry_or_new_def Let_def store_in_memory_def)
  then have "store_check (runs store_step [?a, ?a, ?a] store_in_memory) ''code_run'' ''cargo'' = Allowed"
    by (simp add: store_check_def)
  with init show ?thesis by (rule trust_only_for_auto_trustable)
qed

lemma denial_count:
  "hm_get (tool, pat) (entries (store_record_denial tool pat t0 t1 t2 st)) = Some e \<Longrightarrow>
   denied_count e = Suc (denied_count (entry_or_new st tool pat t0))"
  by (auto simp: store_record_denial_def Let_def)

lemma denial_blocks:
  assumes "2 \<le> denied_count (entry_or_new st tool pat t0)"
    and "\<bar>num_seconds (t2 - t1)\<bar> \<le> DENIAL_AUTO_BLOCK_WINDOW"
    and "(tool, pat) \<notin> session_trusts st"
  shows "store_check (store_record_denial tool pat t0 t1 t2 st) tool pat = Blocked (blocked_msg tool pat)"
  using assms by (simp add: store_check_def store_record_denial_def Let_def)

text \<open>
  The third denial of a call blocks it for good however long ago the first two were: the
  window of 300 seconds is measured from the third denial itself, so the hypothesis is only that
  the two readings of the clock inside that one call lie within the window.
\<close>

theorem third_denial_blocks:
  assumes "(tool, pat) \<notin> session_trusts st"
    and "\<bar>num_seconds (n3 - d3)\<bar> \<le> DENIAL_AUTO_BLOCK_WINDOW"
  shows "store_check
      (store_record_denial tool pat c3 d3 n3
        (store_record_denial tool pat c2 d2 n2
          (store_record_denial tool pat c1 d1 n1 st))) tool pat =
    Blocked (blocked_msg tool pat)"
proof (rule denial_blocks [OF _ assms(2)])
  let ?s1 = "store_record_denial tool pat c1 d1 n1 st"
  let ?s2 = "store_record_denial tool pat c2 d2 n2 ?s1"
  have present: "hm_get (tool, pat) (entries (store_record_denial tool pat c d n s)) \<noteq> None" for c d n s
    by (simp add: store_record_denial_def Let_def)
  then obtain e1 e2 where "hm_get (tool, pat) (entries ?s1) = Some e1" "hm_get (tool, pat) (entries ?s2) = Some e2"
    by blast
  with denial_count [OF this(1)] denial_count [OF this(2)]
  show "2 \<le> denied_count (entry_or_new ?s2 tool pat c3)"
    by (simp add: entry_or_new_def)
  show "(tool, pat) \<notin> session_trusts ?s2"
    using assms(1) by (simp add: store_record_denial_def Let_def)
qed

theorem third_denial_blocks_witness:
  "let year = nanos (365 * 86400) in
   store_check
      (store_record_denial ''code_run'' ''rm'' 0 (2 * year) (2 * year)
        (store_record_denial ''code_run'' ''rm'' 0 year year
          (store_record_denial ''code_run'' ''rm'' 0 0 0 store_in_memory))) ''code_run'' ''rm'' =
    Blocked (blocked_msg ''code_run'' ''rm'')"
  unfolding Let_def
  by (rule third_denial_blocks)
    (simp_all add: store_in_memory_def num_seconds_def tdiv_def DENIAL_AUTO_BLOCK_WINDOW_def)

text \<open>
  Decay touches exactly the workspace-trusted entries that have been idle for the given
  number of days; such an entry needs approval again, every other decision of the store is
  unchanged.
\<close>

theorem decay_demotes_idle_trust:
  "store_check (decay_expired d now st) tool pat =
    (case hm_get (tool, pat) (entries st) of
       Some e \<Rightarrow>
         if (tool, pat) \<notin> session_trusts st \<and> level e = WorkspaceTrust \<and>
            (\<exists>l. last_approved e = Some l \<and> d \<le> num_days (now - l))
         then NeedsApproval (approval_info_of tool pat (approved_count e) SessionTrust)
         else store_check st tool pat
     | None \<Rightarrow> store_check st tool pat)"
  by (auto simp: store_check_def decay_expired_def decay_entry_def
      split: option.splits trust_level.splits)

end
