(* ===== verification/Project_Trust.thy ===== *)
theory Project_Trust
  imports Rust_Text
begin

text \<open>
  The coarse trust level of a project, \<open>crates/oz-safety/src/trust_level.rs\<close>: the levels, the
  tools each level denies, and the list of per-project levels kept in \<open>trust.json\<close>.

  \<open>canonicalize\<close> asks the operating system, so it is a parameter \<open>canon\<close>; what the lookups rely
  on is only that normalising a normalised root changes nothing.  Reading and writing the file are
  taken to succeed.
\<close>

datatype project_trust_level = Full | Restricted | Readonly

fun denied_tools :: "project_trust_level \<Rightarrow> string list" where
  "denied_tools Full = []"
| "denied_tools Restricted = [''code_run'', ''web_execute_js'']"
| "denied_tools Readonly = [''code_run'', ''web_execute_js'', ''write'', ''edit'', ''patch'']"

fun level_name :: "project_trust_level \<Rightarrow> string" where
  "level_name Full = ''Full''"
| "level_name Restricted = ''Restricted''"
| "level_name Readonly = ''Readonly''"

text \<open>The levels are ordered from the least to the most restrictive.\<close>

instantiation project_trust_level :: linorder
begin

fun rank :: "project_trust_level \<Rightarrow> nat" where
  "rank Full = 0"
| "rank Restricted = 1"
| "rank Readonly = 2"

definition less_eq_project_trust_level :: "project_trust_level \<Rightarrow> project_trust_level \<Rightarrow> bool" where
  "less_eq_project_trust_level a b \<longleftrightarrow> rank a \<le> rank b"

definition less_project_trust_level :: "project_trust_level \<Rightarrow> project_trust_level \<Rightarrow> bool" where
  "less_project_trust_level a b \<longleftrightarrow> rank a < rank b"

instance
proof
  fix x y z :: project_trust_level
  show "(x < y) = (x \<le> y \<and> \<not> y \<le> x)"
    by (auto simp: less_eq_project_trust_level_def less_project_trust_level_def)
  show "x \<le> x" by (simp add: less_eq_project_trust_level_def)
  show "x \<le> y \<Longrightarrow> y \<le> z \<Longrightarrow> x \<le> z" by (simp add: less_eq_project_trust_level_def)
  show "x \<le> y \<Longrightarrow> y \<le> x \<Longrightarrow> x = y"
    by (cases x; cases y) (simp_all add: less_eq_project_trust_level_def)
  show "x \<le> y \<or> y \<le> x" by (auto simp: less_eq_project_trust_level_def)
qed

end

record project_entry =
  root_path :: string
  project_level :: project_trust_level

type_synonym trust_file = "project_entry list"

definition normalize :: "(string \<Rightarrow> string option) \<Rightarrow> string \<Rightarrow> string" where
  "normalize canon p = trim_end_matches CHR ''/'' (case canon p of Some q \<Rightarrow> q | None \<Rightarrow> p)"

text \<open>The first entry whose normalised root is the given one gets the level; otherwise one is added.\<close>

fun upsert_level :: "(string \<Rightarrow> string) \<Rightarrow> string \<Rightarrow> project_trust_level \<Rightarrow> trust_file \<Rightarrow> trust_file" where
  "upsert_level norm root lv [] = [\<lparr>root_path = root, project_level = lv\<rparr>]"
| "upsert_level norm root lv (e # es) =
     (if norm (root_path e) = root then e\<lparr>project_level := lv\<rparr> # es
      else e # upsert_level norm root lv es)"

definition set_project_trust ::
  "(string \<Rightarrow> string option) \<Rightarrow> string \<Rightarrow> project_trust_level \<Rightarrow> trust_file \<Rightarrow> trust_file" where
  "set_project_trust canon root lv tf = upsert_level (normalize canon) (normalize canon root) lv tf"

definition project_trust_of :: "(string \<Rightarrow> string option) \<Rightarrow> trust_file \<Rightarrow> string \<Rightarrow> project_trust_level" where
  "project_trust_of canon tf root =
     (case find (\<lambda>e. normalize canon (root_path e) = normalize canon root) tf of
        Some e \<Rightarrow> project_level e | None \<Rightarrow> Full)"

lemma find_upsert_same:
  "norm root = root \<Longrightarrow>
   \<exists>e. find (\<lambda>e. norm (root_path e) = root) (upsert_level norm root lv es) = Some e \<and> project_level e = lv"
  by (induction es) auto

lemma find_upsert_other:
  "norm root = root \<Longrightarrow> r \<noteq> root \<Longrightarrow>
   find (\<lambda>e. norm (root_path e) = r) (upsert_level norm root lv es) = find (\<lambda>e. norm (root_path e) = r) es"
  by (induction es) auto

text \<open>
  Setting the level of a project is read back by every spelling of its root, and the level of
  every other project is unchanged.
\<close>

theorem set_project_trust_spec:
  assumes "normalize canon (normalize canon root) = normalize canon root"
  shows "project_trust_of canon (set_project_trust canon root lv tf) r =
    (if normalize canon r = normalize canon root then lv else project_trust_of canon tf r)"
  using find_upsert_same [where norm = "normalize canon" and root = "normalize canon root"
      and lv = lv and es = tf] assms
  by (auto simp: project_trust_of_def set_project_trust_def find_upsert_other)

theorem set_project_trust_spec_witness:
  "project_trust_of (\<lambda>_. None) (set_project_trust (\<lambda>_. None) ''/tmp/p/'' Readonly []) ''/tmp/p'' = Readonly"
  by (subst set_project_trust_spec) (simp_all add: normalize_def trim_end_matches_def)

lemma denied_tools_mono: "a \<le> b \<Longrightarrow> set (denied_tools a) \<subseteq> set (denied_tools b)"
  by (cases a; cases b) (auto simp: less_eq_project_trust_level_def)

end
