(* ===== verification/Guard.thy ===== *)
theory Guard
  imports Permissions Trust_Store Project_Trust
begin

text \<open>
  The dispatch-time guard of \<open>crates/oz-safety/src/guard.rs\<close>: the project level first, then the
  permission policy, then the list of safe tools, then the trust store; and the recording of the
  user's answers.  Answers reach the trust store only through the guard.
\<close>

subsection \<open>The guard\<close>

record safety_guard =
  guard_store :: trust_store
  safe_tools :: "string list"
  guard_permissions :: permissions
  project_trust :: project_trust_level

definition default_safe_tools :: "string list" where
  "default_safe_tools =
    [''respond'', ''working_mem'', ''harness_refine'', ''ask_user'', ''skill_mcp_search'',
     ''skill_mcp_list'', ''read'', ''write'', ''edit'', ''patch'', ''grep'', ''glob'', ''ls'',
     ''web_search'', ''web_scan'', ''web_fetch'', ''todowrite'', ''todoupdate'', ''long_term'',
     ''job_output'', ''job_list'', ''job_kill'', ''spawn_agent'', ''send_message'']"

definition guard_new :: "trust_store \<Rightarrow> safety_guard" where
  "guard_new st =
     \<lparr>guard_store = st, safe_tools = default_safe_tools, guard_permissions = default_permissions,
      project_trust = Full\<rparr>"

definition with_permissions :: "permissions \<Rightarrow> safety_guard \<Rightarrow> safety_guard" where
  "with_permissions ps g = g\<lparr>guard_permissions := ps\<rparr>"

definition with_project_trust :: "project_trust_level \<Rightarrow> safety_guard \<Rightarrow> safety_guard" where
  "with_project_trust lv g = g\<lparr>project_trust := lv\<rparr>"

definition with_safe_tools :: "string list \<Rightarrow> safety_guard \<Rightarrow> safety_guard" where
  "with_safe_tools ts g = g\<lparr>safe_tools := ts\<rparr>"

definition project_blocked_msg :: "project_trust_level \<Rightarrow> string" where
  "project_blocked_msg lv = ''blocked by project trust level ('' @ level_name lv @ '')''"

definition guard_check :: "(json \<Rightarrow> string) \<Rightarrow> safety_guard \<Rightarrow> string \<Rightarrow> json \<Rightarrow> trust_decision" where
  "guard_check json_text g tool args =
     (if tool \<in> set (denied_tools (project_trust g))
      then Blocked (project_blocked_msg (project_trust g))
      else case perm_check (guard_permissions g) tool (match_string json_text tool args) of
          Deny \<Rightarrow> Blocked ''blocked by permission policy''
        | Allow \<Rightarrow> Allowed
        | Ask \<Rightarrow>
            if tool \<in> set (safe_tools g) then Allowed
            else (let key = build_pattern tool args in store_check (guard_store g) (fst key) (snd key)))"

definition guard_record_approval ::
  "string \<Rightarrow> json \<Rightarrow> instant \<Rightarrow> instant \<Rightarrow> instant \<Rightarrow> safety_guard \<Rightarrow> safety_guard" where
  "guard_record_approval tool args t0 t1 t2 g =
     (let key = build_pattern tool args in
      case store_check (guard_store g) (fst key) (snd key) of
        NeedsApproval info \<Rightarrow>
          g\<lparr>guard_store := store_record_approval (fst key) (snd key) t0 t1 t2 (guard_store g)\<rparr>
      | _ \<Rightarrow> g)"

definition guard_record_denial ::
  "string \<Rightarrow> json \<Rightarrow> instant \<Rightarrow> instant \<Rightarrow> instant \<Rightarrow> safety_guard \<Rightarrow> safety_guard" where
  "guard_record_denial tool args t0 t1 t2 g =
     (let key = build_pattern tool args in
      g\<lparr>guard_store := store_record_denial (fst key) (snd key) t0 t1 t2 (guard_store g)\<rparr>)"

definition guard_block :: "string \<Rightarrow> json \<Rightarrow> instant \<Rightarrow> safety_guard \<Rightarrow> safety_guard" where
  "guard_block tool args t0 g =
     (let key = build_pattern tool args in
      g\<lparr>guard_store := store_block (fst key) (snd key) t0 (guard_store g)\<rparr>)"

text \<open>
  What can happen to a guard while the program runs: the user's answers, and the daily decay of
  the trust store (\<open>crates/oz-scheduler/src/tasks/trust_decay.rs\<close>).
\<close>

datatype guard_op =
    Answer_Trust string json instant instant instant
  | Answer_Deny string json instant instant instant
  | Answer_Block string json instant
  | Trust_Decay int instant

fun guard_step :: "guard_op \<Rightarrow> safety_guard \<Rightarrow> safety_guard" where
  "guard_step (Answer_Trust tool args t0 t1 t2) g = guard_record_approval tool args t0 t1 t2 g"
| "guard_step (Answer_Deny tool args t0 t1 t2) g = guard_record_denial tool args t0 t1 t2 g"
| "guard_step (Answer_Block tool args t0) g = guard_block tool args t0 g"
| "guard_step (Trust_Decay d now) g = g\<lparr>guard_store := decay_expired d now (guard_store g)\<rparr>"

lemmas guard_op_defs = guard_record_approval_def guard_record_denial_def guard_block_def

lemma guard_step_frame [simp]:
  "safe_tools (guard_step x g) = safe_tools g"
  "guard_permissions (guard_step x g) = guard_permissions g"
  "project_trust (guard_step x g) = project_trust g"
  by (cases x; simp add: guard_op_defs Let_def split: trust_decision.split)+

lemma guard_runs_frame [simp]:
  "safe_tools (runs guard_step xs g) = safe_tools g"
  "guard_permissions (runs guard_step xs g) = guard_permissions g"
  "project_trust (runs guard_step xs g) = project_trust g"
  by (induction xs arbitrary: g) simp_all

text \<open>Every step of the guard is at most one step of the store, so the store's invariant carries over.\<close>

lemma guard_step_store:
  "guard_store (guard_step x g) = guard_store g \<or>
   (\<exists>y. guard_store (guard_step x g) = store_step y (guard_store g))"
proof (cases x)
  case (Answer_Trust tool args t0 t1 t2)
  then show ?thesis
    by (auto simp: guard_op_defs Let_def split: trust_decision.split
        intro: exI [of _ "Approval tool (snd (build_pattern tool args)) t0 t1 t2"])
next
  case (Answer_Deny tool args t0 t1 t2)
  then show ?thesis
    by (auto simp: guard_op_defs Let_def
        intro: exI [of _ "Denial tool (snd (build_pattern tool args)) t0 t1 t2"])
next
  case (Answer_Block tool args t0)
  then show ?thesis
    by (auto simp: guard_op_defs Let_def
        intro: exI [of _ "Block tool (snd (build_pattern tool args)) t0"])
next
  case (Trust_Decay d now)
  then show ?thesis by (auto intro: exI [of _ "Decay d now"])
qed

lemma guard_step_safe: "trust_safe (guard_store g) \<Longrightarrow> trust_safe (guard_store (guard_step x g))"
  using guard_step_store [of x g] trust_safe_step by auto

interpretation guard: machine "\<lambda>g. store_initial (guard_store g)" guard_step "\<lambda>g. trust_safe (guard_store g)"
  by unfold_locales (auto intro: trust_safe_initial guard_step_safe)

subsection \<open>A block is final\<close>

definition key_blocked :: "trust_key \<Rightarrow> trust_store \<Rightarrow> bool" where
  "key_blocked k st \<longleftrightarrow> k \<notin> session_trusts st \<and>
     (\<exists>e. hm_get k (entries st) = Some e \<and> level e = LBlocked)"

lemma key_blocked_check: "key_blocked (tool, pat) st \<Longrightarrow> store_check st tool pat = Blocked (blocked_msg tool pat)"
  by (auto simp: key_blocked_def store_check_def)

lemma key_blocked_block: "key_blocked (tool, pat) (store_block tool pat t0 st)"
  by (simp add: key_blocked_def store_block_def Let_def)

lemma key_blocked_other_approval:
  "k \<noteq> (tool, pat) \<Longrightarrow> key_blocked k st \<Longrightarrow> key_blocked k (store_record_approval tool pat t0 t1 t2 st)"
  by (auto simp: key_blocked_def store_record_approval_def Let_def)

lemma key_blocked_denial: "key_blocked k st \<Longrightarrow> key_blocked k (store_record_denial tool pat t0 t1 t2 st)"
  by (auto simp: key_blocked_def store_record_denial_def entry_or_new_def Let_def)

lemma key_blocked_other_block: "key_blocked k st \<Longrightarrow> key_blocked k (store_block tool pat t0 st)"
  by (auto simp: key_blocked_def store_block_def Let_def)

lemma key_blocked_decay: "key_blocked k st \<Longrightarrow> key_blocked k (decay_expired d now st)"
  by (auto simp: key_blocked_def decay_expired_def)

lemma key_blocked_step:
  assumes "key_blocked k (guard_store g)"
  shows "key_blocked k (guard_store (guard_step x g))"
proof (cases x)
  case (Answer_Trust tool args t0 t1 t2)
  let ?p = "snd (build_pattern tool args)"
  show ?thesis
  proof (cases "k = (tool, ?p)")
    case True
    with assms key_blocked_check [of tool ?p] Answer_Trust show ?thesis
      by (simp add: guard_record_approval_def Let_def)
  next
    case False
    with assms key_blocked_other_approval [OF False] Answer_Trust show ?thesis
      by (simp add: guard_record_approval_def Let_def split: trust_decision.split)
  qed
qed (use assms in \<open>simp_all add: guard_op_defs Let_def key_blocked_denial key_blocked_other_block key_blocked_decay\<close>)

interpretation blocked: machine "\<lambda>g. key_blocked k (guard_store g)" guard_step
    "\<lambda>g. key_blocked k (guard_store g)" for k
  by unfold_locales (auto intro: key_blocked_step)

text \<open>
  C9: once the user has answered "block forever", every later call with the same key is blocked,
  whatever is answered afterwards for this or any other call, unless the tool is on the safe list
  or the permission policy allows the call explicitly.
\<close>

theorem block_forever_is_final:
  assumes "build_pattern tool args' = build_pattern tool args"
    and "tool \<notin> set (safe_tools g)"
    and "perm_check (guard_permissions g) tool (match_string json_text tool args') \<noteq> Allow"
  shows "\<exists>msg. guard_check json_text (runs guard_step xs (guard_block tool args t0 g)) tool args' = Blocked msg"
proof -
  let ?p = "snd (build_pattern tool args)"
  let ?g = "guard_block tool args t0 g"
  have "key_blocked (tool, ?p) (guard_store ?g)"
    by (simp add: guard_block_def Let_def key_blocked_block)
  then have "key_blocked (tool, ?p) (guard_store (runs guard_step xs ?g))"
    by (rule blocked.runs_invar)
  then have "store_check (guard_store (runs guard_step xs ?g)) tool ?p = Blocked (blocked_msg tool ?p)"
    by (rule key_blocked_check)
  moreover have "safe_tools ?g = safe_tools g" "guard_permissions ?g = guard_permissions g"
    by (simp_all add: guard_block_def Let_def)
  ultimately show ?thesis
    using assms by (auto simp: guard_check_def Let_def split: decision.split)
qed

theorem block_forever_is_final_witness:
  "let args = JObj [(''code'', JStr ''rm -rf build'')];
       args' = JObj [(''code'', JStr ''rm notes'')] in
   \<exists>msg. guard_check (\<lambda>_. []) (runs guard_step [Answer_Trust ''code_run'' args' 5 5 5]
     (guard_block ''code_run'' args 0 (guard_new store_in_memory))) ''code_run'' args' = Blocked msg"
  unfolding Let_def
proof (rule block_forever_is_final)
  show "build_pattern ''code_run'' (JObj [(''code'', JStr ''rm notes'')]) =
      build_pattern ''code_run'' (JObj [(''code'', JStr ''rm -rf build'')])" by code_simp
  show "''code_run'' \<notin> set (safe_tools (guard_new store_in_memory))"
    by (simp add: guard_new_def default_safe_tools_def)
  show "perm_check (guard_permissions (guard_new store_in_memory)) ''code_run''
      (match_string (\<lambda>_. []) ''code_run'' (JObj [(''code'', JStr ''rm notes'')])) \<noteq> Allow"
    by (simp add: guard_new_def default_permissions_def perm_check_def)
qed

subsection \<open>What may run without asking\<close>

text \<open>
  C1: a call runs without asking only if the project level does not deny the tool, no permission
  rule denies the call, and a permission rule allows it, the tool is on the safe list, or its key
  is one that may be remembered; in particular never a JavaScript or MCP tool through the store.
\<close>

theorem guard_allows_only:
  assumes "store_initial (guard_store g)"
    and "guard_check json_text (runs guard_step xs g) tool args = Allowed"
  shows "tool \<notin> set (denied_tools (project_trust g)) \<and>
    perm_check (guard_permissions g) tool (match_string json_text tool args) \<noteq> Deny \<and>
    (perm_check (guard_permissions g) tool (match_string json_text tool args) = Allow \<or>
     tool \<in> set (safe_tools g) \<or>
     (is_auto_trustable tool (snd (build_pattern tool args)) \<and>
      tool \<notin> set NEVER_AUTO_TRUST_TOOLS \<and> \<not> prefix ''mcp__'' tool))"
proof -
  have safe: "trust_safe (guard_store (runs guard_step xs g))"
    using assms(1) by (rule guard.reachable_invar)
  have key: "is_auto_trustable tool pat \<Longrightarrow> tool \<notin> set NEVER_AUTO_TRUST_TOOLS \<and> \<not> prefix ''mcp__'' tool" for pat
    by (auto simp: is_auto_trustable_def Let_def split: if_splits)
  show ?thesis
    using assms(2) trust_safe_allowed [OF safe, of tool "snd (build_pattern tool args)"] key
    by (auto simp: guard_check_def Let_def split: if_splits decision.splits)
qed

theorem guard_allows_only_witness:
  "guard_check (\<lambda>_. []) (guard_new store_in_memory) ''read'' JNull = Allowed \<and>
   ''read'' \<notin> set (denied_tools Full)"
proof -
  have a: "guard_check (\<lambda>_. []) (runs guard_step [] (guard_new store_in_memory)) ''read'' JNull = Allowed"
    by (simp add: guard_check_def guard_new_def default_safe_tools_def default_permissions_def perm_check_def)
  have i: "store_initial (guard_store (guard_new store_in_memory))"
    by (simp add: guard_new_def store_initial_def)
  from guard_allows_only [OF i a] a show ?thesis by (simp add: guard_new_def)
qed

text \<open>
  The project level is an environment gate.  A tool denied at some level is blocked in every
  project of that level or a stricter one, whatever the permission policy says and whatever the
  user has trusted.
\<close>

theorem project_level_gate:
  assumes "tool \<in> set (denied_tools lv)" and "lv \<le> lv'"
  shows "guard_check json_text (runs guard_step xs (with_permissions ps (with_project_trust lv' g))) tool args =
    Blocked (project_blocked_msg lv')"
  using assms denied_tools_mono [OF assms(2)]
  by (auto simp: guard_check_def with_permissions_def with_project_trust_def)

theorem project_level_gate_witness:
  "guard_check (\<lambda>_. []) (runs guard_step []
     (with_permissions \<lparr>rules = [\<lparr>rule_tool = ''code_run'', rule_pattern = ''*'', rule_decision = Allow\<rparr>]\<rparr>
       (with_project_trust Readonly (guard_new store_in_memory)))) ''code_run'' JNull =
   Blocked (project_blocked_msg Readonly)"
  by (rule project_level_gate [of _ Restricted]) (simp_all add: less_eq_project_trust_level_def)

subsection \<open>The lasting levels are out of reach\<close>

text \<open>Keys stay opaque below: the invariants speak of whole keys.\<close>

declare split_paired_All [simp del]
declare split_paired_Ex [simp del]

text \<open>
  The invariant behind the next property: a key that may be remembered is session-trusted as soon
  as its third approval is counted, and from then on no approval is counted any more.
\<close>

definition modest :: "trust_key set \<Rightarrow> trust_key \<Rightarrow> trust_entry \<Rightarrow> bool" where
  "modest X k e \<longleftrightarrow>
     level e \<noteq> WorkspaceTrust \<and> level e \<noteq> GlobalTrust \<and>
     (level e \<noteq> LBlocked \<and> is_auto_trustable (fst k) (snd k) \<longrightarrow>
        approved_count e < 3 \<or> (approved_count e = 3 \<and> k \<in> X))"

definition never_lasting :: "trust_store \<Rightarrow> bool" where
  "never_lasting st \<longleftrightarrow> hm_wf (entries st) \<and>
     (\<forall>k e. hm_get k (entries st) = Some e \<longrightarrow> modest (session_trusts st) k e)"

definition only_blocked :: "trust_entry list \<Rightarrow> bool" where
  "only_blocked es \<longleftrightarrow> (\<forall>e \<in> set es. level e = LBlocked)"

lemma modest_mono: "modest X k e \<Longrightarrow> k \<in> X \<longrightarrow> k \<in> Y \<Longrightarrow> modest Y k e"
  by (auto simp: modest_def)

lemma never_lasting_open: "only_blocked es \<Longrightarrow> never_lasting (store_open es)"
  by (fastforce simp: never_lasting_def modest_def only_blocked_def store_open_def dest!: load_from_disk_get)

lemma never_lasting_in_memory: "never_lasting store_in_memory"
  by (simp add: never_lasting_def store_in_memory_def)

lemma never_lasting_new_entry:
  "never_lasting st \<Longrightarrow> modest (session_trusts st) (tool, pat) (entry_or_new st tool pat t0)"
  by (auto simp: never_lasting_def entry_or_new_def modest_def split: option.split)

lemma never_lasting_put:
  assumes "never_lasting st" and "modest X (tool, pat) e" and "session_trusts st - {(tool, pat)} \<subseteq> X"
  shows "never_lasting (maybe_save (put_entry tool pat e (st\<lparr>session_trusts := X\<rparr>)))"
proof -
  have "modest X k e'" if "k \<noteq> (tool, pat)" "hm_get k (entries st) = Some e'" for k e'
    using assms(1,3) that modest_mono [of "session_trusts st" k e' X]
    unfolding never_lasting_def by blast
  with assms(1,2) show ?thesis by (simp add: never_lasting_def)
qed

lemma never_lasting_put_same:
  "never_lasting st \<Longrightarrow> modest (session_trusts st) (tool, pat) e \<Longrightarrow>
   never_lasting (maybe_save (put_entry tool pat e st))"
  using never_lasting_put [of st "session_trusts st" tool pat e] by auto

lemma never_lasting_denial [keeps]:
  "never_lasting st \<Longrightarrow> never_lasting (store_record_denial tool pat t0 t1 t2 st)"
  unfolding store_record_denial_def
  using never_lasting_new_entry [of st tool pat t0]
  by (intro never_lasting_put_same) (auto simp: modest_def)

lemma never_lasting_block [keeps]:
  "never_lasting st \<Longrightarrow> never_lasting (store_block tool pat t0 st)"
  unfolding store_block_def Let_def by (intro never_lasting_put) (auto simp: modest_def)

lemma never_lasting_decay [keeps]:
  assumes "never_lasting st"
  shows "never_lasting (decay_expired d now st)"
proof -
  have "hm_get k (hm_map (decay_entry d now) (entries st)) = hm_get k (entries st)" for k
    using assms by (cases "hm_get k (entries st)") (auto simp: never_lasting_def modest_def intro: decay_entry_id)
  with assms show ?thesis unfolding never_lasting_def decay_expired_def by simp
qed

lemma never_lasting_approval:
  assumes "never_lasting st" and "store_check st tool pat = NeedsApproval info"
  shows "never_lasting (store_record_approval tool pat t0 t1 t2 st)"
proof -
  let ?e = "entry_or_new st tool pat t0"
  let ?e1 = "?e\<lparr>approved_count := approved_count ?e + 1, last_approved := Some t1\<rparr>"
  let ?X = "insert (tool, pat) (session_trusts st)"
  have k: "(tool, pat) \<notin> session_trusts st"
    using assms(2) by (auto simp: store_check_def split: if_splits)
  have lv: "level ?e \<noteq> LBlocked"
    using assms(2) k by (auto simp: entry_or_new_def store_check_def split: option.splits)
  have e: "modest (session_trusts st) (tool, pat) ?e"
    using assms(1) by (rule never_lasting_new_entry)
  show ?thesis
  proof (cases "is_auto_trustable tool pat")
    case False
    with e have "modest (session_trusts st) (tool, pat) ?e1" by (simp add: modest_def)
    with never_lasting_put_same [OF assms(1) this] k False show ?thesis
      by (simp add: store_record_approval_def Let_def)
  next
    case True
    with e lv k have n: "approved_count ?e < 3" by (simp add: modest_def)
    show ?thesis
    proof (cases "approved_count ?e = 2")
      case True
      with e have "modest ?X (tool, pat) (?e1\<lparr>level := SessionTrust\<rparr>)" by (simp add: modest_def)
      with never_lasting_put [OF assms(1) this] k True \<open>is_auto_trustable tool pat\<close> show ?thesis
        by (auto simp: store_record_approval_def Let_def)
    next
      case False
      with n e have "modest (session_trusts st) (tool, pat) ?e1" by (simp add: modest_def)
      with never_lasting_put_same [OF assms(1) this] k n False \<open>is_auto_trustable tool pat\<close> show ?thesis
        by (simp add: store_record_approval_def Let_def)
    qed
  qed
qed

lemma guard_step_never_lasting:
  assumes "never_lasting (guard_store g)"
  shows "never_lasting (guard_store (guard_step x g))"
proof (cases x)
  case (Answer_Trust tool args t0 t1 t2)
  with assms show ?thesis
    by (auto simp: guard_record_approval_def Let_def split: trust_decision.split
        intro: never_lasting_approval)
qed (use assms in \<open>auto simp: guard_op_defs Let_def intro: keeps\<close>)

lemma store_step_saves:
  "store_step y st = st \<or> (\<exists>st1. store_step y st = maybe_save st1 \<and> saved st1 = saved st)"
proof (cases y)
  case (Approval tool pat t0 t1 t2)
  then show ?thesis
    by (auto simp: store_record_approval_def Let_def put_entry_def intro!: exI)
qed (auto simp: store_record_denial_def store_block_def store_unblock_def decay_expired_def Let_def
    put_entry_def intro!: exI)

definition dormant :: "trust_store \<Rightarrow> bool" where
  "dormant st \<longleftrightarrow> never_lasting st \<and> only_blocked (saved st)"

lemma saved_only_blocked:
  assumes "never_lasting (maybe_save st)" and "only_blocked (saved st)"
  shows "only_blocked (saved (maybe_save st))"
proof -
  have "level e = LBlocked" if "(k, e) \<in> set (entries st)" "persisted e" for k e
    using assms(1) that by (auto simp: never_lasting_def hm_in_set modest_def persisted_def)
  with assms(2) show ?thesis by (auto simp: only_blocked_def)
qed

lemma guard_step_dormant: "dormant (guard_store g) \<Longrightarrow> dormant (guard_store (guard_step x g))"
  using guard_step_never_lasting [of g x] guard_step_store [of x g]
    store_step_saves [of _ "guard_store g"] saved_only_blocked
  unfolding dormant_def by metis

definition unprivileged :: "trust_store \<Rightarrow> bool" where
  "unprivileged st \<longleftrightarrow> st = store_in_memory \<or> (\<exists>es. only_blocked es \<and> st = store_open es)"

interpretation dormant: machine "\<lambda>g. unprivileged (guard_store g)" guard_step "\<lambda>g. dormant (guard_store g)"
proof
  fix g :: safety_guard and x
  show "unprivileged (guard_store g) \<Longrightarrow> dormant (guard_store g)"
    using never_lasting_in_memory never_lasting_open
    by (auto simp: unprivileged_def dormant_def only_blocked_def store_in_memory_def store_open_def)
  show "dormant (guard_store g) \<Longrightarrow> dormant (guard_store (guard_step x g))"
    by (rule guard_step_dormant)
qed

text \<open>
  The answers of the user never lift an entry to workspace or global trust, although the tenth
  approval is meant to: counting stops when the third approval makes the key session-trusted.  The
  file the store writes then holds blocked entries only, so the next run of the program starts in
  the same situation.
\<close>

theorem workspace_trust_unreachable:
  assumes "unprivileged (guard_store g)"
  shows "(\<forall>k e. hm_get k (entries (guard_store (runs guard_step xs g))) = Some e \<longrightarrow>
      level e \<noteq> WorkspaceTrust \<and> level e \<noteq> GlobalTrust) \<and>
    unprivileged (store_open (saved (guard_store (runs guard_step xs g))))"
  using dormant.reachable_invar [OF assms, of xs]
  by (auto simp: dormant_def never_lasting_def modest_def unprivileged_def)

theorem workspace_trust_unreachable_witness:
  "let args = JObj [(''code'', JStr ''cargo build'')];
       day = nanos 86400;
       answers = map (\<lambda>i. Answer_Trust ''code_run'' args (int i * day) (int i * day) (int i * day)) [0..<12]
   in unprivileged (store_open (saved (guard_store (runs guard_step answers (guard_new (store_open []))))))"
proof -
  have "unprivileged (guard_store (guard_new (store_open [])))"
    by (auto simp: guard_new_def unprivileged_def only_blocked_def intro!: exI [of _ "[]"])
  from workspace_trust_unreachable [OF this] show ?thesis unfolding Let_def by blast
qed

subsection \<open>A wrapped interpreter is remembered\<close>

definition nohup_call :: "string \<Rightarrow> json" where
  "nohup_call cmd = JObj [(''code'', JStr (''nohup '' @ cmd))]"

text \<open>
  After three approvals of harmless commands under \<open>nohup\<close>, every command under \<open>nohup\<close>,
  an interpreter with arbitrary code included, runs without asking for the rest of the session.
\<close>

theorem nohup_approvals_cover_interpreters:
  "guard_check json_text
     (runs guard_step
        [Answer_Trust ''code_run'' (nohup_call cmd1) a1 b1 c1,
         Answer_Trust ''code_run'' (nohup_call cmd2) a2 b2 c2,
         Answer_Trust ''code_run'' (nohup_call cmd3) a3 b3 c3]
        (guard_new store_in_memory))
     ''code_run'' (nohup_call (''python3 -c '' @ payload)) = Allowed"
proof -
  have key: "build_pattern ''code_run'' (nohup_call cmd) = (''code_run'', ''nohup'')" for cmd
    using nohup_key by (simp add: nohup_call_def)
  have ok: "is_auto_trustable ''code_run'' ''nohup''" by code_simp
  note defs = guard_check_def guard_record_approval_def guard_new_def store_check_def
    store_record_approval_def entry_or_new_def store_in_memory_def default_safe_tools_def
    default_permissions_def perm_check_def Let_def
  show ?thesis by (simp add: defs key ok approval_info_of_def)
qed

end
