(* ===== verification/Approval_Queue.thy ===== *)
theory Approval_Queue
  imports Guard
begin

text \<open>
  Asking the user: the request, the answers and the handler without a user interface of
  \<open>crates/oz-safety/src/approval.rs\<close>, and the queue of \<open>crates/oz-safety/src/queue.rs\<close> that presents
  overlapping requests one at a time.  The queue keeps resolved requests in place and marks
  them; its promise is that of a plain first-in first-out queue.
\<close>

subsection \<open>Requests and answers\<close>

record approval_request =
  request_session :: string
  request_tool :: string
  request_pattern :: string
  request_arguments :: json
  request_info :: approval_info

datatype approval_decision =
  Answer_Allow | TrustSession | TrustWorkspace | Answer_Denied | BlockForever

datatype approval_error = Approval_Timeout | Approval_Cancelled | Approval_Internal string

fun approval_error_text :: "approval_error \<Rightarrow> string" where
  "approval_error_text Approval_Timeout = ''approval timed out''"
| "approval_error_text Approval_Cancelled = ''approval cancelled''"
| "approval_error_text (Approval_Internal msg) = ''approval error: '' @ msg"

definition deny_all_handler ::
  "approval_request \<Rightarrow> nat \<Rightarrow> (approval_error, approval_decision) result" where
  "deny_all_handler req timeout = Ok Answer_Denied"

subsection \<open>The queue of the code\<close>

record pending_approval =
  request :: approval_request
  resolved :: bool

type_synonym approval_queue = "pending_approval list"

definition queue_new :: approval_queue where
  "queue_new = []"

definition queue_push :: "approval_request \<Rightarrow> approval_queue \<Rightarrow> approval_queue" where
  "queue_push r q = q @ [\<lparr>request = r, resolved = False\<rparr>]"

text \<open>\<open>q.iter().position(|p| !p.resolved)\<close>, then the mark.\<close>

fun first_unresolved :: "approval_queue \<Rightarrow> nat option" where
  "first_unresolved [] = None"
| "first_unresolved (p # q) =
     (if \<not> resolved p then Some 0 else map_option Suc (first_unresolved q))"

definition queue_pop :: "approval_queue \<Rightarrow> approval_request option \<times> approval_queue" where
  "queue_pop q =
     (case first_unresolved q of
        Some pos \<Rightarrow> (Some (request (q ! pos)), q[pos := (q ! pos)\<lparr>resolved := True\<rparr>])
      | None \<Rightarrow> (None, q))"

definition queue_pending_count :: "approval_queue \<Rightarrow> nat" where
  "queue_pending_count q = length (filter (\<lambda>p. \<not> resolved p) q)"

definition queue_clear :: "approval_queue \<Rightarrow> approval_queue" where
  "queue_clear q = []"

definition queue_current :: "approval_queue \<Rightarrow> approval_request option" where
  "queue_current q = map_option request (find (\<lambda>p. \<not> resolved p) q)"

subsection \<open>The contract of a queue\<close>

text \<open>
  What the dispatcher may rely on, over the list \<open>view\<close> of the waiting requests: a push goes to
  the end, a pop takes the head, and the other operations read or empty the list.
\<close>

locale fifo =
  fixes view :: "'q \<Rightarrow> 'r list"
    and push :: "'r \<Rightarrow> 'q \<Rightarrow> 'q"
    and pop :: "'q \<Rightarrow> 'r option \<times> 'q"
    and current :: "'q \<Rightarrow> 'r option"
  assumes view_push: "view (push r q) = view q @ [r]"
    and pop_result: "fst (pop q) = (case view q of [] \<Rightarrow> None | r # _ \<Rightarrow> Some r)"
    and view_pop: "view (snd (pop q)) = tl (view q)"
    and current_head: "current q = (case view q of [] \<Rightarrow> None | r # _ \<Rightarrow> Some r)"
begin

lemma current_is_next: "current q = fst (pop q)"
  by (simp add: current_head pop_result)

end

subsection \<open>The code's queue keeps the contract\<close>

definition waiting :: "approval_queue \<Rightarrow> approval_request list" where
  "waiting q = map request (filter (\<lambda>p. \<not> resolved p) q)"

lemma first_unresolved_none: "first_unresolved q = None \<longleftrightarrow> waiting q = []"
  by (induction q) (auto simp: waiting_def)

lemma first_unresolved_some:
  "first_unresolved q = Some i \<Longrightarrow>
     i < length q \<and> waiting q = request (q ! i) # waiting (q[i := (q ! i)\<lparr>resolved := True\<rparr>])"
proof (induction q arbitrary: i)
  case Nil
  then show ?case by simp
next
  case (Cons p q)
  then show ?case by (cases "resolved p") (auto simp: waiting_def)
qed

lemma queue_pop_view:
  "fst (queue_pop q) = (case waiting q of [] \<Rightarrow> None | r # _ \<Rightarrow> Some r)"
  "waiting (snd (queue_pop q)) = tl (waiting q)"
proof -
  have "fst (queue_pop q) = (case waiting q of [] \<Rightarrow> None | r # _ \<Rightarrow> Some r) \<and>
        waiting (snd (queue_pop q)) = tl (waiting q)"
  proof (cases "first_unresolved q")
    case None
    with first_unresolved_none [of q] show ?thesis by (simp add: queue_pop_def)
  next
    case (Some i)
    from first_unresolved_some [OF this] Some show ?thesis by (simp add: queue_pop_def)
  qed
  then show "fst (queue_pop q) = (case waiting q of [] \<Rightarrow> None | r # _ \<Rightarrow> Some r)"
    "waiting (snd (queue_pop q)) = tl (waiting q)" by blast+
qed

lemma queue_current_head: "queue_current q = (case waiting q of [] \<Rightarrow> None | r # _ \<Rightarrow> Some r)"
  by (induction q) (auto simp: queue_current_def waiting_def)

interpretation aq: fifo waiting queue_push queue_pop queue_current
  by unfold_locales (simp_all add: queue_pop_view queue_current_head waiting_def [of "queue_push _ _"]
      queue_push_def, simp add: waiting_def)

lemma queue_pending_count_waiting: "queue_pending_count q = length (waiting q)"
  by (simp add: queue_pending_count_def waiting_def)

datatype queue_op = Push approval_request | Pop | Clear

fun queue_step :: "queue_op \<Rightarrow> approval_queue \<Rightarrow> approval_queue" where
  "queue_step (Push r) q = queue_push r q"
| "queue_step Pop q = snd (queue_pop q)"
| "queue_step Clear q = queue_clear q"

text \<open>The plain queue the operations are measured against.\<close>

fun fifo_step :: "queue_op \<Rightarrow> approval_request list \<Rightarrow> approval_request list" where
  "fifo_step (Push r) rs = rs @ [r]"
| "fifo_step Pop rs = tl rs"
| "fifo_step Clear rs = []"

lemma queue_step_refines: "waiting (queue_step x q) = fifo_step x (waiting q)"
  by (cases x) (simp_all add: aq.view_push aq.view_pop queue_clear_def waiting_def [of "[]"])

lemma queue_runs_refines: "waiting (runs queue_step xs q) = runs fifo_step xs (waiting q)"
  by (induction xs arbitrary: q) (simp_all add: queue_step_refines)

text \<open>
  C38: after any sequence of pushes, pops and clears the queue of marked entries behaves as a
  plain first-in first-out queue: it shows and hands out the same request next (none exactly
  when the plain queue is empty) and counts the same number of waiting requests, so no request is
  presented twice, lost or overtaken.
\<close>
theorem approval_queue_is_fifo:
  "let q = runs queue_step xs queue_new; rs = runs fifo_step xs [] in
     fst (queue_pop q) = (case rs of [] \<Rightarrow> None | r # _ \<Rightarrow> Some r)
   \<and> queue_current q = fst (queue_pop q)
   \<and> waiting (snd (queue_pop q)) = tl rs
   \<and> queue_pending_count q = length rs"
proof -
  have "waiting (runs queue_step xs queue_new) = runs fifo_step xs []"
    unfolding queue_runs_refines by (simp add: queue_new_def waiting_def)
  then show ?thesis
    by (simp add: Let_def aq.current_is_next aq.pop_result aq.view_pop queue_pending_count_waiting)
qed

end
