(* ===== verification/Path_Trust.thy ===== *)
theory Path_Trust
  imports Rust_Text
begin

text \<open>
  The workspace boundary of \<open>crates/oz-core-types/src/path_trust.rs\<close>: where a path a tool names
  really lies, and the registry of the paths the user approved or refused in each session.

  A \<open>Path\<close> is its list of components, which is what Rust's \<open>Eq\<close>, \<open>Hash\<close>, \<open>starts_with\<close>, \<open>parent\<close>
  and \<open>file_name\<close> see.  \<open>std::fs::canonicalize\<close> reads the file system and is a parameter \<open>fs\<close>
  (\<open>None\<close> where it fails); the file system may differ from one operation to the next.
\<close>

subsection \<open>Paths\<close>

datatype component = RootDir | CurDir | ParentDir | Normal string

type_synonym path = "component list"
type_synonym file_system = "path \<Rightarrow> path option"

fun component_of :: "string \<Rightarrow> component" where
  "component_of seg = (if seg = ''.'' then CurDir else if seg = ''..'' then ParentDir else Normal seg)"

text \<open>\<open>Path::new(s).components()\<close>: empty segments vanish, and \<open>.\<close> vanishes unless it starts a relative path.\<close>

definition path_of :: "string \<Rightarrow> path" where
  "path_of s =
     (let segs = map component_of (filter (\<lambda>w. w \<noteq> []) (split_on (\<lambda>c. c = CHR ''/'') s));
          body = filter (\<lambda>c. c \<noteq> CurDir) segs in
      if prefix ''/'' s then RootDir # body
      else if s \<noteq> [] \<and> segs \<noteq> [] \<and> hd segs = CurDir then CurDir # body
      else body)"

definition is_absolute :: "path \<Rightarrow> bool" where
  "is_absolute p \<longleftrightarrow> (case p of RootDir # _ \<Rightarrow> True | _ \<Rightarrow> False)"

text \<open>\<open>a.join(b)\<close> and \<open>a.push(b)\<close>: an absolute \<open>b\<close> replaces \<open>a\<close>.\<close>

definition path_join :: "path \<Rightarrow> path \<Rightarrow> path" where
  "path_join a b =
     (if is_absolute b \<or> a = [] then b else a @ filter (\<lambda>c. c \<noteq> CurDir) b)"

definition file_name :: "path \<Rightarrow> string option" where
  "file_name p = (if p = [] then None else case last p of Normal n \<Rightarrow> Some n | _ \<Rightarrow> None)"

definition parent :: "path \<Rightarrow> path option" where
  "parent p = (if p = [] \<or> last p = RootDir then None else Some (butlast p))"

fun is_normal :: "component \<Rightarrow> bool" where
  "is_normal (Normal n) = True"
| "is_normal _ = False"

lemma path_join_name [simp]: "path_join a [Normal n] = a @ [Normal n]"
  by (simp add: path_join_def is_absolute_def)

lemma parent_length: "parent p = Some d \<Longrightarrow> length d < length p"
  by (auto simp: parent_def split: if_splits)

lemma parent_snoc [simp]: "c \<noteq> RootDir \<Longrightarrow> parent (p @ [c]) = Some p"
  by (simp add: parent_def)

lemma file_name_snoc: "file_name (p @ [c]) = (case c of Normal n \<Rightarrow> Some n | _ \<Rightarrow> None)"
  by (simp add: file_name_def)

subsection \<open>Resolving a path\<close>

definition opt_list :: "'a option \<Rightarrow> 'a list" where
  "opt_list x = (case x of None \<Rightarrow> [] | Some v \<Rightarrow> [v])"

text \<open>
  The \<open>while let Some(dir) = cursor\<close> loop: climb to the deepest ancestor that exists, collecting the
  file names on the way, and push them back in reverse.  A component without a file name
  (\<open>..\<close>) is not collected.
\<close>

function climb :: "file_system \<Rightarrow> path \<Rightarrow> string list \<Rightarrow> path option" where
  "climb fs dir missing =
     (case fs dir of
        Some real \<Rightarrow> Some (fold (\<lambda>part rebuilt. path_join rebuilt [Normal part]) (rev missing) real)
      | None \<Rightarrow>
          (case parent dir of
             None \<Rightarrow> None
           | Some up \<Rightarrow> climb fs up (missing @ opt_list (file_name dir))))"
  by pat_completeness auto
termination
  by (relation "measure (\<lambda>(fs, dir, missing). length dir)") (auto dest: parent_length)

declare climb.simps [simp del]

definition climb_from :: "file_system \<Rightarrow> path \<Rightarrow> path option" where
  "climb_from fs p =
     (case parent p of None \<Rightarrow> None | Some up \<Rightarrow> climb fs up (opt_list (file_name p)))"

definition resolve_boundary_path :: "file_system \<Rightarrow> path \<Rightarrow> path" where
  "resolve_boundary_path fs p =
     (case fs p of
        Some real \<Rightarrow> real
      | None \<Rightarrow> (case climb_from fs p of Some rebuilt \<Rightarrow> rebuilt | None \<Rightarrow> p))"

definition absolute_path :: "string \<Rightarrow> string \<Rightarrow> path" where
  "absolute_path p working_dir =
     (if is_absolute (path_of p) then path_of p else path_join (path_of working_dir) (path_of p))"

definition write_target_path :: "string \<Rightarrow> json \<Rightarrow> string option" where
  "write_target_path tool args =
     (if tool \<notin> {''write'', ''edit'', ''patch'', ''file_write'', ''file_edit''} then None
      else str_arg args ''file_path'')"

definition outside_workspace_target :: "file_system \<Rightarrow> string \<Rightarrow> json \<Rightarrow> string \<Rightarrow> path option" where
  "outside_workspace_target fs tool args working_dir =
     (case write_target_path tool args of
        None \<Rightarrow> None
      | Some target \<Rightarrow>
          (let res = resolve_boundary_path fs (absolute_path target working_dir);
               root = resolve_boundary_path fs (path_of working_dir) in
           if prefix root res then None else Some res))"

subsection \<open>The registry\<close>

definition MAX_APPROVED_PER_SESSION :: nat where
  "MAX_APPROVED_PER_SESSION = 64"

definition MAX_SESSIONS :: nat where
  "MAX_SESSIONS = 32"

text \<open>Each \<open>HashSet<PathBuf>\<close> is a list without duplicates.\<close>

record session_paths =
  approved :: "path list"
  denied :: "path list"

type_synonym path_registry = "(string, session_paths) hash_map"

text \<open>
  Which entry a full table gives up depends on its iteration order, which is unspecified:
  the number \<open>n\<close> stands for that choice, and any entry can be chosen by some \<open>n\<close>.
\<close>

definition arbitrary_of :: "nat \<Rightarrow> 'a list \<Rightarrow> 'a" where
  "arbitrary_of n xs = xs ! (n mod length xs)"

definition insert_bounded :: "nat \<Rightarrow> path \<Rightarrow> path list \<Rightarrow> path list" where
  "insert_bounded n p s =
     (let s' = (if length s \<ge> MAX_APPROVED_PER_SESSION \<and> s \<noteq> []
                then removeAll (arbitrary_of n s) s else s) in
      if p \<in> set s' then s' else s' @ [p])"

definition no_paths :: session_paths where
  "no_paths = \<lparr>approved = [], denied = []\<rparr>"

definition approve_path ::
  "file_system \<Rightarrow> nat \<Rightarrow> nat \<Rightarrow> string \<Rightarrow> path \<Rightarrow> path_registry \<Rightarrow> path_registry" where
  "approve_path fs i j session p reg =
     (let res = resolve_boundary_path fs p;
          room = (if hm_len reg \<ge> MAX_SESSIONS \<and> hm_get session reg = None
                  then hm_remove (arbitrary_of i (hm_keys reg)) reg else reg) in
      hm_upsert session no_paths
        (\<lambda>e. e\<lparr>denied := removeAll res (denied e), approved := insert_bounded j res (approved e)\<rparr>)
        room)"

definition deny_path ::
  "file_system \<Rightarrow> nat \<Rightarrow> string \<Rightarrow> path \<Rightarrow> path_registry \<Rightarrow> path_registry" where
  "deny_path fs j session p reg =
     (if session = [] then reg
      else let res = resolve_boundary_path fs p in
        hm_upsert session no_paths
          (\<lambda>e. e\<lparr>approved := removeAll res (approved e), denied := insert_bounded j res (denied e)\<rparr>)
          reg)"

definition is_path_denied :: "file_system \<Rightarrow> path_registry \<Rightarrow> string \<Rightarrow> path \<Rightarrow> bool" where
  "is_path_denied fs reg session p =
     (if session = [] then False
      else case hm_get session reg of
          None \<Rightarrow> False
        | Some e \<Rightarrow> resolve_boundary_path fs p \<in> set (denied e))"

definition is_path_approved :: "file_system \<Rightarrow> path_registry \<Rightarrow> string \<Rightarrow> path \<Rightarrow> bool" where
  "is_path_approved fs reg session p =
     (if session = [] then False
      else case hm_get session reg of
          None \<Rightarrow> False
        | Some e \<Rightarrow> resolve_boundary_path fs p \<in> set (approved e))"

definition forget_session :: "string \<Rightarrow> path_registry \<Rightarrow> path_registry" where
  "forget_session session reg = hm_remove session reg"

subsection \<open>Where a path resolves to\<close>

lemma push_names:
  "fold (\<lambda>part rebuilt. rebuilt @ [Normal part]) names r = r @ map Normal names"
  by (induction names arbitrary: r) simp_all

lemma climb_hit:
  assumes "fs a = Some r" and "RootDir \<notin> set b"
    and "\<And>b'. prefix b' b \<Longrightarrow> b' \<noteq> [] \<Longrightarrow> fs (a @ b') = None"
  shows "climb fs (a @ b) missing = Some (r @ filter is_normal b @ map Normal (rev missing))"
  using assms(2,3)
proof (induction b arbitrary: missing rule: rev_induct)
  case Nil
  then show ?case using assms(1) by (simp add: climb.simps [of fs a] push_names)
next
  case (snoc c b)
  have "fs ((a @ b) @ [c]) = None" using snoc.prems(2) [of "b @ [c]"] by simp
  moreover have "climb fs (a @ b) (missing @ opt_list (file_name ((a @ b) @ [c]))) =
      Some (r @ filter is_normal b @ map Normal (rev (missing @ opt_list (file_name ((a @ b) @ [c])))))"
    using snoc.prems by (intro snoc.IH) auto
  ultimately show ?case
    using snoc.prems(1)
    by (subst climb.simps) (cases c, simp_all add: parent_def file_name_def opt_list_def butlast_append)
qed

lemma climb_from_missing: "fs p = None \<Longrightarrow> climb_from fs p = climb fs p []"
  by (simp add: climb.simps [of fs p] climb_from_def split: option.split)

lemma resolve_hit:
  assumes "fs a = Some r" and "RootDir \<notin> set b"
    and "\<And>b'. prefix b' b \<Longrightarrow> b' \<noteq> [] \<Longrightarrow> fs (a @ b') = None"
  shows "resolve_boundary_path fs (a @ b) = r @ filter is_normal b"
proof (cases b rule: rev_cases)
  case Nil
  then show ?thesis using assms(1) by (simp add: resolve_boundary_path_def)
next
  case (snoc b0 c)
  have none: "fs (a @ b) = None" using assms(3) [of b] snoc by simp
  have "climb fs (a @ b) [] = Some (r @ filter is_normal b)"
    using climb_hit [OF assms] by simp
  then show ?thesis by (simp add: resolve_boundary_path_def none climb_from_missing)
qed

lemma filter_normal_id: "list_all is_normal b \<Longrightarrow> filter is_normal b = b"
  by (induction b) auto

lemma no_root_in_normals: "list_all is_normal b \<Longrightarrow> RootDir \<notin> set b"
  by (induction b) auto

text \<open>
  A path whose deepest existing ancestor \<open>a\<close> really lies at \<open>r\<close> resolves to \<open>r\<close> followed by
  the names that do not exist yet.  The tail is re-attached verbatim exactly when it has no
  \<open>..\<close>; a \<open>..\<close> after a directory that does not exist is dropped without removing the name
  before it.
\<close>
theorem boundary_path_resolution:
  assumes "fs a = Some r" and "RootDir \<notin> set b" and "CurDir \<notin> set b"
    and "\<And>b'. prefix b' b \<Longrightarrow> b' \<noteq> [] \<Longrightarrow> fs (a @ b') = None"
  shows "resolve_boundary_path fs (a @ b) = r @ filter (\<lambda>c. c \<noteq> ParentDir) b
       \<and> (resolve_boundary_path fs (a @ b) = r @ b \<longleftrightarrow> ParentDir \<notin> set b)"
proof -
  have "filter is_normal b = filter (\<lambda>c. c \<noteq> ParentDir) b"
    using assms(2,3)
  proof (induction b)
    case Nil
    then show ?case by simp
  next
    case (Cons c b)
    then show ?case by (cases c) auto
  qed
  moreover have "filter (\<lambda>c. c \<noteq> ParentDir) b = b \<longleftrightarrow> ParentDir \<notin> set b"
    by (auto simp: filter_id_conv)
  ultimately show ?thesis using resolve_hit [of fs a r b] assms by simp
qed

text \<open>A file system in which only the root and \<open>/w\<close> exist.\<close>

definition small_fs :: file_system where
  "small_fs p = (if p = [RootDir] \<or> p = [RootDir, Normal ''w''] then Some p else None)"

lemma boundary_path_resolution_witness:
  "resolve_boundary_path small_fs (path_of ''/w/a/../b'') = path_of ''/w/a/b''
   \<and> path_of ''/w/a/../b'' \<noteq> path_of ''/w/a/b''"
proof -
  have p: "path_of ''/w/a/../b'' = [RootDir, Normal ''w''] @ [Normal ''a'', ParentDir, Normal ''b'']"
    "path_of ''/w/a/b'' = [RootDir, Normal ''w'', Normal ''a'', Normal ''b'']" by code_simp+
  have "resolve_boundary_path small_fs ([RootDir, Normal ''w''] @ [Normal ''a'', ParentDir, Normal ''b''])
      = [RootDir, Normal ''w''] @ filter (\<lambda>c. c \<noteq> ParentDir) [Normal ''a'', ParentDir, Normal ''b'']"
    using boundary_path_resolution [of small_fs "[RootDir, Normal ''w'']" "[RootDir, Normal ''w'']"
        "[Normal ''a'', ParentDir, Normal ''b'']"]
    by (simp add: small_fs_def)
  then show ?thesis unfolding p by simp
qed

subsection \<open>The registry records the user's answers\<close>

text \<open>
  Everything that writes to the registry: an approval, a refusal, and the end of a run.  Each
  carries the file system it meets and the arbitrary choices of the tables.
\<close>

datatype path_op =
    Approve_Path file_system nat nat string path
  | Deny_Path file_system nat string path
  | Forget_Session string

fun path_step :: "path_op \<Rightarrow> path_registry \<Rightarrow> path_registry" where
  "path_step (Approve_Path fs i j session p) reg = approve_path fs i j session p reg"
| "path_step (Deny_Path fs j session p) reg = deny_path fs j session p reg"
| "path_step (Forget_Session session) reg = forget_session session reg"

text \<open>The user's last word on a resolved path in a session, the latest operation first.\<close>

fun last_word :: "path_op list \<Rightarrow> string \<Rightarrow> path \<Rightarrow> bool option" where
  "last_word [] session res = None"
| "last_word (Approve_Path fs i j s p # ops) session res =
     (if s = session \<and> resolve_boundary_path fs p = res then Some True else last_word ops session res)"
| "last_word (Deny_Path fs j s p # ops) session res =
     (if s = session \<and> s \<noteq> [] \<and> resolve_boundary_path fs p = res then Some False
      else last_word ops session res)"
| "last_word (Forget_Session s # ops) session res =
     (if s = session then None else last_word ops session res)"

definition approved_in :: "path_registry \<Rightarrow> string \<Rightarrow> path set" where
  "approved_in reg session = (case hm_get session reg of None \<Rightarrow> {} | Some e \<Rightarrow> set (approved e))"

definition denied_in :: "path_registry \<Rightarrow> string \<Rightarrow> path set" where
  "denied_in reg session = (case hm_get session reg of None \<Rightarrow> {} | Some e \<Rightarrow> set (denied e))"

lemma insert_bounded_set:
  "p \<in> set (insert_bounded n p s)" "set (insert_bounded n p s) \<subseteq> insert p (set s)"
  by (auto simp: insert_bounded_def Let_def)

lemma insert_bounded_length:
  assumes "length s \<le> MAX_APPROVED_PER_SESSION"
  shows "length (insert_bounded n p s) \<le> MAX_APPROVED_PER_SESSION"
proof (cases "length s \<ge> MAX_APPROVED_PER_SESSION \<and> s \<noteq> []")
  case True
  then have "arbitrary_of n s \<in> set s" by (simp add: arbitrary_of_def)
  then have "length (removeAll (arbitrary_of n s) s) < length s" by (simp add: length_removeAll_less)
  with assms True show ?thesis by (simp add: insert_bounded_def Let_def)
next
  case False
  with assms show ?thesis
    by (cases "s = []") (simp_all add: insert_bounded_def Let_def MAX_APPROVED_PER_SESSION_def)
qed

lemma evict_get:
  "hm_get session (if Q then hm_remove k reg else reg) = Some e \<Longrightarrow> hm_get session reg = Some e"
  by (auto split: if_splits)

lemma approve_path_sets:
  "approved_in (approve_path fs i j s p reg) session \<subseteq>
     approved_in reg session \<union> (if session = s then {resolve_boundary_path fs p} else {})"
  "denied_in (approve_path fs i j s p reg) session \<subseteq>
     denied_in reg session - (if session = s then {resolve_boundary_path fs p} else {})"
  by (auto simp: approve_path_def approved_in_def denied_in_def Let_def no_paths_def
      dest!: subsetD [OF insert_bounded_set(2)] split: option.splits if_splits)

lemma deny_path_sets:
  "denied_in (deny_path fs j s p reg) session \<subseteq>
     denied_in reg session \<union> (if session = s \<and> s \<noteq> [] then {resolve_boundary_path fs p} else {})"
  "approved_in (deny_path fs j s p reg) session \<subseteq>
     approved_in reg session - (if session = s \<and> s \<noteq> [] then {resolve_boundary_path fs p} else {})"
  by (auto simp: deny_path_def approved_in_def denied_in_def Let_def no_paths_def
      dest!: subsetD [OF insert_bounded_set(2)] split: option.splits if_splits)

lemma forget_session_sets:
  "approved_in (forget_session s reg) session = (if session = s then {} else approved_in reg session)"
  "denied_in (forget_session s reg) session = (if session = s then {} else denied_in reg session)"
  by (simp_all add: forget_session_def approved_in_def denied_in_def)

lemma registry_last_word:
  "(res \<in> approved_in (runs path_step ops hm_empty) session \<longrightarrow> last_word (rev ops) session res = Some True)
   \<and> (res \<in> denied_in (runs path_step ops hm_empty) session \<longrightarrow> last_word (rev ops) session res = Some False)"
proof (induction ops rule: rev_induct)
  case Nil
  then show ?case by (simp add: approved_in_def denied_in_def)
next
  case (snoc x ops)
  show ?case
  proof (cases x)
    case (Approve_Path fs i j s p)
    with snoc.IH approve_path_sets [of fs i j s p "runs path_step ops hm_empty" session]
    show ?thesis by (auto simp: runs_append split: if_splits)
  next
    case (Deny_Path fs j s p)
    with snoc.IH deny_path_sets [of fs j s p "runs path_step ops hm_empty" session]
    show ?thesis by (auto simp: runs_append split: if_splits)
  next
    case (Forget_Session s)
    with snoc.IH show ?thesis by (auto simp: runs_append forget_session_sets)
  qed
qed

lemma is_path_approved_iff:
  "is_path_approved fs reg session p \<longleftrightarrow> session \<noteq> [] \<and> resolve_boundary_path fs p \<in> approved_in reg session"
  by (simp add: is_path_approved_def approved_in_def split: option.split)

lemma is_path_denied_iff:
  "is_path_denied fs reg session p \<longleftrightarrow> session \<noteq> [] \<and> resolve_boundary_path fs p \<in> denied_in reg session"
  by (simp add: is_path_denied_def denied_in_def split: option.split)

text \<open>
  Whatever the sequence of approvals, refusals and ended runs, and whatever the tables evict,
  a path counts as approved in a session only if the user's last word on the place it resolves
  to, in that same session and since its last end, was an approval; it counts as refused only if
  that last word was a refusal.  The registry forgets, but it never invents an answer.
\<close>
theorem registry_never_invents:
  "(is_path_approved fs (runs path_step ops hm_empty) session p \<longrightarrow>
      last_word (rev ops) session (resolve_boundary_path fs p) = Some True)
   \<and> (is_path_denied fs (runs path_step ops hm_empty) session p \<longrightarrow>
      last_word (rev ops) session (resolve_boundary_path fs p) = Some False)"
  using registry_last_word by (auto simp: is_path_approved_iff is_path_denied_iff)

theorem registry_never_invents_witness:
  "is_path_approved Some (runs path_step [Approve_Path Some 0 0 ''s'' [RootDir]] hm_empty) ''s'' [RootDir]
   \<and> last_word (rev [Approve_Path Some 0 0 ''s'' [RootDir]]) ''s'' (resolve_boundary_path Some [RootDir]) = Some True"
proof
  show a: "is_path_approved Some (runs path_step [Approve_Path Some 0 0 ''s'' [RootDir]] hm_empty) ''s'' [RootDir]"
    by (simp add: is_path_approved_def approve_path_def resolve_boundary_path_def Let_def
        insert_bounded_def no_paths_def)
  with registry_never_invents [of Some "[Approve_Path Some 0 0 ''s'' [RootDir]]" "''s''" "[RootDir]"]
  show "last_word (rev [Approve_Path Some 0 0 ''s'' [RootDir]]) ''s'' (resolve_boundary_path Some [RootDir]) = Some True"
    by blast
qed

subsection \<open>The bounds of the registry\<close>

definition sessions_bounded :: "path_registry \<Rightarrow> bool" where
  "sessions_bounded reg \<longleftrightarrow> hm_wf reg \<and>
     (\<forall>k e. hm_get k reg = Some e \<longrightarrow>
        length (approved e) \<le> MAX_APPROVED_PER_SESSION \<and> length (denied e) \<le> MAX_APPROVED_PER_SESSION)"

definition largest_session :: "path_registry \<Rightarrow> nat" where
  "largest_session reg = fold (\<lambda>(k, e) n. max n (max (length (approved e)) (length (denied e)))) reg 0"

lemma sessions_bounded_upsert:
  assumes "sessions_bounded reg"
    and "\<And>e. length (approved e) \<le> MAX_APPROVED_PER_SESSION \<Longrightarrow> length (denied e) \<le> MAX_APPROVED_PER_SESSION \<Longrightarrow>
      length (approved (f e)) \<le> MAX_APPROVED_PER_SESSION \<and> length (denied (f e)) \<le> MAX_APPROVED_PER_SESSION"
  shows "sessions_bounded (hm_upsert k no_paths f reg)"
  using assms by (auto simp: sessions_bounded_def no_paths_def split: option.splits)

lemma sessions_bounded_remove: "sessions_bounded reg \<Longrightarrow> sessions_bounded (hm_remove k reg)"
  by (simp add: sessions_bounded_def)

lemma length_removeAll_bounded: "length xs \<le> n \<Longrightarrow> length (removeAll x xs) \<le> n"
  by (simp add: removeAll_filter_not_eq order_trans [OF length_filter_le])

lemma sessions_bounded_step: "sessions_bounded reg \<Longrightarrow> sessions_bounded (path_step x reg)"
  by (cases x)
    (auto simp: approve_path_def deny_path_def forget_session_def Let_def
      intro!: sessions_bounded_upsert sessions_bounded_remove insert_bounded_length length_removeAll_bounded)

lemma largest_session_bound:
  assumes "sessions_bounded reg"
  shows "largest_session reg \<le> MAX_APPROVED_PER_SESSION"
proof -
  have "fold (\<lambda>(k, e) n. max n (max (length (approved e)) (length (denied e)))) es n0 \<le> MAX_APPROVED_PER_SESSION"
    if "\<forall>(k, e) \<in> set es. length (approved e) \<le> MAX_APPROVED_PER_SESSION \<and> length (denied e) \<le> MAX_APPROVED_PER_SESSION"
      "n0 \<le> MAX_APPROVED_PER_SESSION"
    for es :: path_registry and n0
    using that by (induction es arbitrary: n0) auto
  moreover have "\<forall>(k, e) \<in> set reg. length (approved e) \<le> MAX_APPROVED_PER_SESSION \<and>
      length (denied e) \<le> MAX_APPROVED_PER_SESSION"
    using assms by (auto simp: sessions_bounded_def hm_in_set)
  ultimately show ?thesis by (simp add: largest_session_def)
qed

interpretation paths: bounded_machine "\<lambda>reg. reg = hm_empty" path_step sessions_bounded
    largest_session MAX_APPROVED_PER_SESSION
  by unfold_locales
    (simp add: sessions_bounded_def, rule sessions_bounded_step, simp, rule largest_session_bound)

lemma approve_path_sessions:
  assumes "hm_wf reg" and "hm_len reg \<le> MAX_SESSIONS"
  shows "hm_len (approve_path fs i j s p reg) \<le> MAX_SESSIONS"
proof (cases "hm_len reg \<ge> MAX_SESSIONS \<and> hm_get s reg = None")
  case True
  then have "hm_keys reg \<noteq> []" by (auto simp: hm_keys_def hm_len_def MAX_SESSIONS_def)
  then have "arbitrary_of i (hm_keys reg) \<in> set (hm_keys reg)" by (simp add: arbitrary_of_def)
  then have "hm_len (hm_remove (arbitrary_of i (hm_keys reg)) reg) < hm_len reg"
    by (intro hm_len_remove_less) (simp add: hm_key_iff)
  with True assms show ?thesis
    by (auto simp: approve_path_def Let_def hm_upsert_def intro: order_trans [OF hm_len_insert_le])
next
  case False
  with assms show ?thesis
    using hm_len_insert_present [of s reg] hm_len_insert_le [of s _ reg]
    by (cases "hm_get s reg") (auto simp: approve_path_def Let_def hm_upsert_def
        intro: order_trans [OF hm_len_insert_le])
qed

text \<open>
  No session ever holds more than 64 approved or 64 refused paths, and an approval keeps the
  number of sessions within 32.  A refusal does not: refusing a path in each of 33 sessions
  leaves 33 sessions in the registry, so the cap on sessions is not an invariant.
\<close>
theorem registry_bounds:
  "largest_session (runs path_step ops hm_empty) \<le> 64
   \<and> (hm_wf reg \<and> hm_len reg \<le> 32 \<longrightarrow> hm_len (approve_path fs i j s p reg) \<le> 32)
   \<and> hm_len (runs path_step (map (\<lambda>k. Deny_Path Some 0 (replicate (Suc k) CHR ''s'') [RootDir]) [0..<33]) hm_empty) = 33"
proof (intro conjI impI)
  show "largest_session (runs path_step ops hm_empty) \<le> 64"
    using paths.runs_bound [of hm_empty ops] by (simp add: MAX_APPROVED_PER_SESSION_def)
next
  assume "hm_wf reg \<and> hm_len reg \<le> 32"
  then show "hm_len (approve_path fs i j s p reg) \<le> 32"
    using approve_path_sessions [of reg fs i j s p] by (simp add: MAX_SESSIONS_def)
next
  show "hm_len (runs path_step (map (\<lambda>k. Deny_Path Some 0 (replicate (Suc k) CHR ''s'') [RootDir]) [0..<33]) hm_empty) = 33"
    by code_simp
qed

lemma registry_bounds_witness:
  "hm_wf (hm_empty :: path_registry) \<and> hm_len (hm_empty :: path_registry) \<le> 32
   \<and> hm_len (approve_path Some 0 0 ''s'' [RootDir] hm_empty) \<le> 32"
  using registry_bounds [of "[]" hm_empty Some 0 0 "''s''" "[RootDir]"]
  by (simp add: hm_len_def hm_empty_def hm_wf_def)

end
