(* ===== verification/Path_Fence.thy ===== *)
theory Path_Fence
  imports Path_Trust Approval_Queue
begin

text \<open>
  The fence around the file tools: the check of \<open>crates/oz-tools/src/file_ops.rs\<close> every read and
  write passes, and the question the agent loop (\<open>crates/oz-core/src/agent_loop.rs\<close>) asks the user
  before a write outside the workspace.
\<close>

subsection \<open>The fence\<close>

definition SENSITIVE_SYSTEM_PATHS :: "string list" where
  "SENSITIVE_SYSTEM_PATHS =
     [''/etc/'', ''/usr/'', ''/bin/'', ''/sbin/'', ''/var/'', ''/boot/'', ''/dev/'', ''/proc/'',
      ''/sys/'', ''/root/'']"

definition SENSITIVE_ALWAYS :: "string list" where
  "SENSITIVE_ALWAYS =
     [''.ssh/'', ''.aws/'', ''.gnupg/'', ''.docker/'', ''.kube/'', ''.config/gh/'',
      ''.config/gcloud/'', ''.password-store/'', ''.terraform.d/'', ''mykey.toml'', ''.env'',
      ''credentials'', ''id_rsa'', ''id_ed25519'', ''.npmrc'', ''.netrc'', ''.pypirc'',
      ''.git-credentials'', ''.htpasswd'']"

definition contains_any :: "string \<Rightarrow> string list \<Rightarrow> bool" where
  "contains_any haystack_lower needles =
     list_ex (\<lambda>n. contains_str (to_lowercase n) haystack_lower) needles"

text \<open>\<open>path.to_string_lossy()\<close>\<close>

fun component_text :: "component \<Rightarrow> string" where
  "component_text RootDir = []"
| "component_text CurDir = ''.''"
| "component_text ParentDir = ''..''"
| "component_text (Normal n) = n"

definition path_text :: "path \<Rightarrow> string" where
  "path_text p = (if p = [RootDir] then ''/'' else join_with ''/'' (map component_text p))"

definition PROTECTED_DIRS :: "string list" where
  "PROTECTED_DIRS = [''openzen'', ''.openzen'', ''memory'', ''facts'', ''checkpoints'']"

definition PROTECTED_FILES :: "string list" where
  "PROTECTED_FILES = [''servers.toml'', ''trust.json'']"

definition is_protected_runtime_path :: "path \<Rightarrow> path \<Rightarrow> bool \<Rightarrow> bool" where
  "is_protected_runtime_path real real_wd for_write =
     (if \<not> for_write then real = real_wd @ [Normal ''servers.toml'']
      else if list_ex (\<lambda>d. prefix (real_wd @ [Normal d]) real) PROTECTED_DIRS then True
      else if list_ex (\<lambda>f. real = real_wd @ [Normal f]) PROTECTED_FILES then True
      else (let git = real_wd @ [Normal ''.git''] in
        prefix (git @ [Normal ''hooks'']) real \<or> real = git @ [Normal ''config'']))"

definition TEMP_ROOTS :: "path list" where
  "TEMP_ROOTS = map path_of
     [''/tmp'', ''/private/tmp'', ''/var/tmp'', ''/private/var/tmp'', ''/var/folders'',
      ''/private/var/folders'']"

definition in_temp :: "path \<Rightarrow> bool" where
  "in_temp p = list_ex (\<lambda>t. prefix t p) TEMP_ROOTS"

text \<open>Where the path really lies: itself, or the deepest existing ancestor with the missing tail.\<close>

definition real_location :: "file_system \<Rightarrow> path \<Rightarrow> path option" where
  "real_location fs p = (case fs p of Some r \<Rightarrow> Some r | None \<Rightarrow> climb_from fs p)"

definition is_in_working_dir_inner :: "file_system \<Rightarrow> string \<Rightarrow> string \<Rightarrow> bool \<Rightarrow> bool" where
  "is_in_working_dir_inner fs p working_dir for_write =
     (let res = absolute_path p working_dir;
          real_p = real_location fs res;
          check = (case real_p of Some rp \<Rightarrow> rp | None \<Rightarrow> res);
          lower = to_lowercase (path_text check);
          real_wd = fs (path_of working_dir) in
      if contains_any lower SENSITIVE_ALWAYS then False
      else if (case (real_p, real_wd) of
                 (Some rp, Some rw) \<Rightarrow> is_protected_runtime_path rp rw for_write
               | _ \<Rightarrow> False) then False
      else if (case real_p of Some rp \<Rightarrow> in_temp rp | None \<Rightarrow> False) then True
      else if contains_any lower SENSITIVE_SYSTEM_PATHS then False
      else (case (real_p, real_wd) of (Some rp, Some rw) \<Rightarrow> prefix rw rp | _ \<Rightarrow> False))"

definition is_in_working_dir :: "file_system \<Rightarrow> string \<Rightarrow> string \<Rightarrow> bool" where
  "is_in_working_dir fs p working_dir = is_in_working_dir_inner fs p working_dir False"

definition is_in_working_dir_for_write :: "file_system \<Rightarrow> string \<Rightarrow> string \<Rightarrow> bool" where
  "is_in_working_dir_for_write fs p working_dir = is_in_working_dir_inner fs p working_dir True"

definition write_path_permitted ::
  "file_system \<Rightarrow> path_registry \<Rightarrow> string \<Rightarrow> string \<Rightarrow> string \<Rightarrow> bool" where
  "write_path_permitted fs reg session working_dir p =
     (is_in_working_dir_for_write fs p working_dir \<or> is_path_approved fs reg session (path_of p))"

subsection \<open>Asking before a write outside the workspace\<close>

text \<open>What the race between the approval handler and the stop button yields.\<close>

datatype approval_outcome = Answered "(approval_error, approval_decision) result" | Stop_Pressed

definition approve_outside_write ::
  "file_system \<Rightarrow> nat \<Rightarrow> nat \<Rightarrow> approval_outcome \<Rightarrow> string \<Rightarrow> path \<Rightarrow> path_registry \<Rightarrow>
     (string, bool) result \<times> path_registry" where
  "approve_outside_write fs i j outcome session target reg =
     (case outcome of
        Stop_Pressed \<Rightarrow> (Err ''stopped'', reg)
      | Answered (Inr Answer_Denied) \<Rightarrow> (Ok False, reg)
      | Answered (Inr BlockForever) \<Rightarrow> (Ok False, reg)
      | Answered (Inr _) \<Rightarrow> (Ok True, approve_path fs i j session target reg)
      | Answered (Inl e) \<Rightarrow> (Err (''approval error: '' @ approval_error_text e), reg))"

datatype gate_error = Already_Denied path | Denied_Now path | Approval_Failed string

text \<open>
  The block of the dispatch that guards a mutating call.  \<open>ask\<close> is what a question to the user
  would yield, \<open>None\<close> when the run has no approval handler.  The second component tells whether
  the user was asked.
\<close>

definition outside_write_gate ::
  "file_system \<Rightarrow> nat \<Rightarrow> nat \<Rightarrow> approval_outcome option \<Rightarrow> string \<Rightarrow> string \<Rightarrow> json \<Rightarrow> string \<Rightarrow>
     path_registry \<Rightarrow> (gate_error, unit) result \<times> bool \<times> path_registry" where
  "outside_write_gate fs i j ask session tool args working_dir reg =
     (case ask of
        None \<Rightarrow> (Ok (), False, reg)
      | Some outcome \<Rightarrow>
          (case outside_workspace_target fs tool args working_dir of
             None \<Rightarrow> (Ok (), False, reg)
           | Some target \<Rightarrow>
               if is_path_approved fs reg session target then (Ok (), False, reg)
               else if is_path_denied fs reg session target then (Err (Already_Denied target), False, reg)
               else (case approve_outside_write fs i j outcome session target reg of
                   (Inr True, reg') \<Rightarrow> (Ok (), True, reg')
                 | (Inr False, reg') \<Rightarrow>
                     (Err (Denied_Now target), True, deny_path fs j session target reg')
                 | (Inl e, reg') \<Rightarrow> (Err (Approval_Failed e), True, reg'))))"

definition positive_answer :: "approval_outcome \<Rightarrow> bool" where
  "positive_answer outcome \<longleftrightarrow>
     (\<exists>d. outcome = Answered (Ok d) \<and> d \<noteq> Answer_Denied \<and> d \<noteq> BlockForever)"

lemma approved_after_approve:
  "resolve_boundary_path fs p \<in> approved_in (approve_path fs i j session p reg) session"
  by (auto simp: approve_path_def approved_in_def Let_def intro: insert_bounded_set(1))


lemma approve_outside_write_cases:
  "approve_outside_write fs i j outcome session target reg =
     (if positive_answer outcome then (Ok True, approve_path fs i j session target reg)
      else case outcome of
          Stop_Pressed \<Rightarrow> (Err ''stopped'', reg)
        | Answered (Inl e) \<Rightarrow> (Err (''approval error: '' @ approval_error_text e), reg)
        | Answered (Inr d) \<Rightarrow> (Ok False, reg))"
  by (auto simp: approve_outside_write_def positive_answer_def
      split: approval_outcome.split sum.split approval_decision.split)


definition outside_call :: json where
  "outside_call = JObj [(''file_path'', JStr ''/h/x'')]"

lemma outside_call_target: "outside_workspace_target small_fs ''write'' outside_call ''/w'' = Some (path_of ''/h/x'')"
  by code_simp


subsection \<open>An approved write goes through\<close>

text \<open>
  What the code relies on of \<open>canonicalize\<close>: the root exists, a result is absolute with plain
  names only, an existing prefix may be replaced by its canonical form, and nothing exists below
  a missing directory.
\<close>

definition lawful_fs :: "file_system \<Rightarrow> bool" where
  "lawful_fs fs \<longleftrightarrow>
     fs [RootDir] = Some [RootDir]
   \<and> (\<forall>p r. fs p = Some r \<longrightarrow> is_absolute r \<and> list_all is_normal (tl r))
   \<and> (\<forall>a r b. fs a = Some r \<longrightarrow> RootDir \<notin> set b \<longrightarrow> fs (a @ b) = fs (r @ b))
   \<and> (\<forall>a b. a \<noteq> [] \<longrightarrow> fs (a @ b) \<noteq> None \<longrightarrow> fs a \<noteq> None)"

lemma deepest_existing:
  assumes "lawful_fs fs" and "RootDir \<notin> set ds"
  shows "\<exists>a b r. RootDir # ds = a @ b \<and> a \<noteq> [] \<and> fs a = Some r
           \<and> (\<forall>b'. prefix b' b \<longrightarrow> b' \<noteq> [] \<longrightarrow> fs (a @ b') = None)"
  using assms(2)
proof (induction ds rule: rev_induct)
  case Nil
  show ?case
    by (rule exI [of _ "[RootDir]"], rule exI [of _ "[]"], rule exI [of _ "[RootDir]"])
      (use assms(1) in \<open>simp add: lawful_fs_def\<close>)
next
  case (snoc c ds)
  show ?case
  proof (cases "fs (RootDir # ds @ [c])")
    case (Some r)
    then show ?thesis
      by (intro exI [of _ "RootDir # ds @ [c]"] exI [of _ "[]"] exI [of _ r]) simp
  next
    case None
    from snoc obtain a b r where h: "RootDir # ds = a @ b" "a \<noteq> []" "fs a = Some r"
      "\<forall>b'. prefix b' b \<longrightarrow> b' \<noteq> [] \<longrightarrow> fs (a @ b') = None" by auto
    then have "\<forall>b'. prefix b' (b @ [c]) \<longrightarrow> b' \<noteq> [] \<longrightarrow> fs (a @ b') = None"
      using None by (metis append.assoc append_Cons prefix_snoc)
    with h show ?thesis by (metis append.assoc append_Cons)
  qed
qed

lemma path_of_no_inner_root: "path_of s = RootDir # ds \<Longrightarrow> RootDir \<notin> set ds \<and> CurDir \<notin> set ds"
proof -
  define xs where "xs = map component_of (filter (\<lambda>w. w \<noteq> []) (split_on (\<lambda>c. c = CHR ''/'') s))"
  have no: "RootDir \<notin> set xs" by (auto simp: xs_def)
  then have "\<not> (filter (\<lambda>c. c \<noteq> CurDir) xs = RootDir # ds)"
    by (metis filter_is_subset list.set_intros(1) subsetD)
  moreover assume "path_of s = RootDir # ds"
  ultimately show ?thesis
    using no unfolding path_of_def Let_def xs_def [symmetric] by (auto split: if_splits)
qed

lemma resolve_idempotent:
  assumes "lawful_fs fs" and "RootDir \<notin> set ds" and "CurDir \<notin> set ds" and "ParentDir \<notin> set ds"
  shows "resolve_boundary_path fs (resolve_boundary_path fs (RootDir # ds)) =
         resolve_boundary_path fs (RootDir # ds)"
proof -
  obtain a b r where h: "RootDir # ds = a @ b" "a \<noteq> []" "fs a = Some r"
    "\<forall>b'. prefix b' b \<longrightarrow> b' \<noteq> [] \<longrightarrow> fs (a @ b') = None"
    using deepest_existing [OF assms(1,2)] by blast
  have b: "set b \<subseteq> set ds" using h(1,2) by (cases a) auto
  then have normal: "filter is_normal b = b"
    using assms(2-4) by (intro filter_True ballI) (case_tac x; auto)
  have nr: "RootDir \<notin> set b'" if "prefix b' b" for b'
    using that b assms(2) by (auto dest: set_mono_prefix)
  have "fs (r @ b') = fs (a @ b')" if "prefix b' b" for b'
    using assms(1) h(3) nr [OF that] by (metis lawful_fs_def)
  then have "fs r = Some r" "\<And>b'. prefix b' b \<Longrightarrow> b' \<noteq> [] \<Longrightarrow> fs (r @ b') = None"
    using h(3,4) by (metis append.right_neutral prefix_bot.bot_least, metis)
  with h nr [of b] normal show ?thesis by (simp add: resolve_hit [where a = a] resolve_hit [where a = r])
qed

text \<open>
  Once a call to an absolute path without \<open>..\<close> outside the workspace has passed the gate, the
  tool's own check lets the same path through: what the loop records and what the tool looks up
  are the same place.
\<close>
theorem approved_write_is_permitted:
  assumes "lawful_fs fs" and "session \<noteq> []"
    and "outside_workspace_target fs tool args wd = Some target"
    and "str_arg args ''file_path'' = Some p" and "path_of p = RootDir # ds" and "ParentDir \<notin> set ds"
    and "outside_write_gate fs i j (Some outcome) session tool args wd reg = (Ok (), asked, reg')"
  shows "write_path_permitted fs reg' session wd p"
proof -
  have "target = resolve_boundary_path fs (path_of p)"
    using assms(3-5) by (auto simp: outside_workspace_target_def write_target_path_def absolute_path_def
        is_absolute_def Let_def split: if_splits)
  then have same: "resolve_boundary_path fs target = resolve_boundary_path fs (path_of p)"
    using resolve_idempotent [OF assms(1), of ds] path_of_no_inner_root [OF assms(5)] assms(5,6) by simp
  have "is_path_approved fs reg' session target"
    using assms(3,7) assms(2)
    by (auto simp: outside_write_gate_def approve_outside_write_cases is_path_approved_iff
        approved_after_approve split: if_splits approval_outcome.splits sum.splits)
  with same show ?thesis by (simp add: write_path_permitted_def is_path_approved_iff)
qed

lemma small_fs_dom: "small_fs p = Some r \<longleftrightarrow> r = p \<and> (p = [RootDir] \<or> p = [RootDir, Normal ''w''])"
  by (auto simp: small_fs_def)

lemma lawful_small_fs: "lawful_fs small_fs"
  by (auto simp: lawful_fs_def small_fs_def is_absolute_def append_eq_Cons_conv split: if_splits)

theorem approved_write_is_permitted_witness:
  "write_path_permitted small_fs (approve_path small_fs 0 0 ''s'' (path_of ''/h/x'') hm_empty) ''s'' ''/w'' ''/h/x''"
proof (rule approved_write_is_permitted [OF lawful_small_fs _ outside_call_target])
  show "outside_write_gate small_fs 0 0 (Some (Answered (Ok Answer_Allow))) ''s'' ''write'' outside_call ''/w'' hm_empty =
     (Ok (), True, approve_path small_fs 0 0 ''s'' (path_of ''/h/x'') hm_empty)"
    using outside_call_target
    by (simp add: outside_write_gate_def is_path_approved_def is_path_denied_def approve_outside_write_def)
  show "path_of ''/h/x'' = RootDir # [Normal ''h'', Normal ''x'']" by code_simp
  show "str_arg outside_call ''file_path'' = Some ''/h/x''" by (simp add: outside_call_def)
qed simp_all

subsection \<open>Where a missing directory hides \<open>..\<close>\<close>

text \<open>
  The place a path names once every directory on it exists and none is a symbolic link:
  each \<open>..\<close> removes the name before it.
\<close>

fun lexical :: "path \<Rightarrow> path \<Rightarrow> path" where
  "lexical acc [] = rev acc"
| "lexical acc (ParentDir # cs) = lexical (if acc = [RootDir] then acc else tl acc) cs"
| "lexical acc (c # cs) = lexical (c # acc) cs"

definition detour_call :: json where
  "detour_call = JObj [(''file_path'', JStr ''/w/new/../../home/notes'')]"

text \<open>
  As long as \<open>/w/new\<close> does not exist, a write to \<open>/w/new/../../home/notes\<close> is taken for a write
  inside the workspace \<open>/w\<close>: the loop does not ask, and the fence lets it through, although the
  place the path names lies outside.  The write tool then creates the missing parent
  directories, after which the operating system follows the \<open>..\<close> to \<open>/home/notes\<close>.
\<close>
theorem missing_directory_hides_dotdot:
  assumes "fs [RootDir, Normal ''w''] = Some [RootDir, Normal ''w'']"
    and "\<And>b. b \<noteq> [] \<Longrightarrow> prefix b [Normal ''new'', ParentDir, ParentDir, Normal ''home'', Normal ''notes''] \<Longrightarrow>
           fs ([RootDir, Normal ''w''] @ b) = None"
  shows "outside_workspace_target fs ''write'' detour_call ''/w'' = None
       \<and> is_in_working_dir_for_write fs ''/w/new/../../home/notes'' ''/w''
       \<and> lexical [] (path_of ''/w/new/../../home/notes'') = path_of ''/home/notes''
       \<and> \<not> prefix (path_of ''/w'') (path_of ''/home/notes'')"
proof -
  let ?b = "[Normal ''new'', ParentDir, ParentDir, Normal ''home'', Normal ''notes'']"
  let ?q = "[RootDir, Normal ''w'', Normal ''new'', Normal ''home'', Normal ''notes'']"
  have p: "path_of ''/w/new/../../home/notes'' = [RootDir, Normal ''w''] @ ?b"
    "path_of ''/w'' = [RootDir, Normal ''w'']" "path_of ''/home/notes'' = [RootDir, Normal ''home'', Normal ''notes'']"
    by code_simp+
  have w: "fs [RootDir, Normal ''w''] = Some [RootDir, Normal ''w'']" by (rule assms(1))
  have r: "resolve_boundary_path fs ([RootDir, Normal ''w''] @ ?b) = ?q"
    using resolve_hit [where fs = fs and a = "[RootDir, Normal ''w'']" and b = ?b, OF assms(1)] assms(2) by simp
  have none: "fs ([RootDir, Normal ''w''] @ ?b) = None" using assms(2) [of ?b] by simp
  have "climb_from fs ([RootDir, Normal ''w''] @ ?b) = Some ?q"
    using climb_hit [where fs = fs and a = "[RootDir, Normal ''w'']" and b = ?b and missing = "[]", OF assms(1)] none assms(2)
    by (simp add: climb_from_missing)
  with none have loc: "real_location fs ([RootDir, Normal ''w''] @ ?b) = Some ?q"
    by (simp add: real_location_def)
  have checks: "\<not> contains_any (to_lowercase (path_text ?q)) SENSITIVE_ALWAYS"
    "\<not> is_protected_runtime_path ?q [RootDir, Normal ''w''] True" "\<not> in_temp ?q"
    "\<not> contains_any (to_lowercase (path_text ?q)) SENSITIVE_SYSTEM_PATHS" by code_simp+
  have t: "write_target_path ''write'' detour_call = Some ''/w/new/../../home/notes''"
    by (simp add: write_target_path_def detour_call_def)
  have res: "absolute_path ''/w/new/../../home/notes'' ''/w'' = [RootDir, Normal ''w''] @ ?b"
    unfolding absolute_path_def p by (simp add: is_absolute_def)
  have root: "resolve_boundary_path fs [RootDir, Normal ''w''] = [RootDir, Normal ''w'']"
    by (simp add: resolve_boundary_path_def w)
  have "outside_workspace_target fs ''write'' detour_call ''/w'' = None"
    unfolding outside_workspace_target_def t option.case res r p Let_def root by simp
  moreover have "is_in_working_dir_for_write fs ''/w/new/../../home/notes'' ''/w''"
    unfolding is_in_working_dir_for_write_def is_in_working_dir_inner_def Let_def res loc option.case p w prod.case
    using checks by simp
  moreover have "lexical [] (path_of ''/w/new/../../home/notes'') = path_of ''/home/notes''" by code_simp
  moreover have "\<not> prefix (path_of ''/w'') (path_of ''/home/notes'')" by code_simp
  ultimately show ?thesis by blast
qed

theorem missing_directory_hides_dotdot_witness:
  "is_in_working_dir_for_write small_fs ''/w/new/../../home/notes'' ''/w''"
  using missing_directory_hides_dotdot [of small_fs] by (simp add: small_fs_def)

end
