(* ===== verification/Jobs.thy ===== *)
theory Jobs
  imports Rust_Text
begin

text \<open>
  The registry of background jobs of \<open>crates/oz-core/src/jobs.rs\<close>: identity, ownership, settlement
  and output of work that outlives a turn.

  Every operation runs under the registry's lock, so an execution is a sequence of whole
  operations; only \<open>start\<close> takes the lock after it has called the producer, so it is two steps.
  A producer is seen through its hooks: its cursor returns what it has written since the last
  call, and its one-shot channel delivers one outcome, or none when the producer is dropped.
\<close>

subsection \<open>Data\<close>

datatype job_kind = Bash | Subagent | Tool

fun kind_prefix :: "job_kind \<Rightarrow> string" where
  "kind_prefix Bash = ''bash''"
| "kind_prefix Subagent = ''agent''"
| "kind_prefix Tool = ''tool''"

datatype job_status = Running | Stopping | Completed | Killed | Failed

fun status_text :: "job_status \<Rightarrow> string" where
  "status_text Running = ''running''"
| "status_text Stopping = ''stopping''"
| "status_text Completed = ''completed''"
| "status_text Killed = ''killed''"
| "status_text Failed = ''failed''"

definition is_terminal :: "job_status \<Rightarrow> bool" where
  "is_terminal st \<longleftrightarrow> st \<in> {Completed, Killed, Failed}"

record job_snapshot =
  job_id :: string
  job_kind :: job_kind
  job_label :: string
  job_status :: job_status
  job_detail :: "string option"
  owner_session :: string
  started_at :: int
  finished_at :: "int option"

definition snapshot_json :: "job_snapshot \<Rightarrow> (int \<Rightarrow> string) \<Rightarrow> json" where
  "snapshot_json s num =
     JObj [(''id'', JStr (job_id s)), (''kind'', JStr (kind_prefix (job_kind s))),
       (''label'', JStr (job_label s)), (''status'', JStr (status_text (job_status s))),
       (''detail'', case job_detail s of None \<Rightarrow> JNull | Some d \<Rightarrow> JStr d),
       (''owner_session'', JStr (owner_session s)), (''started_at'', JNum (num (started_at s))),
       (''finished_at'', case finished_at s of None \<Rightarrow> JNull | Some t \<Rightarrow> JNum (num t))]"

record job_outcome =
  outcome_status :: job_status
  outcome_detail :: "string option"

record job_spec =
  spec_kind :: job_kind
  spec_label :: string
  spec_owner :: string

datatype job_notice = Started job_snapshot | Finished job_snapshot

text \<open>
  An entry: \<open>read_output\<close> holds what the producer has written and nobody has read, while the
  cursor exists; \<open>can_cancel\<close> tells whether the producer's cancel hook is still held.
\<close>

record job_entry =
  snapshot :: job_snapshot
  can_cancel :: bool
  read_output :: "string option"
  pending_final :: "string option"
  reported :: bool

text \<open>
  The registry, with the starts under way, the settlement tasks that wait for an outcome, the
  notices given to the listener and the cancel hooks called, the latest last.
\<close>

record job_registry =
  jobs :: "(string, job_entry) hash_map"
  seq :: "job_kind \<Rightarrow> nat"
  starting :: "(string, job_snapshot) hash_map"
  settling :: "string list"
  emitted :: "job_notice list"
  cancel_calls :: "(string \<times> string option) list"

definition registry_new :: job_registry where
  "registry_new =
     \<lparr>jobs = hm_empty, seq = (\<lambda>_. 0), starting = hm_empty, settling = [], emitted = [], cancel_calls = []\<rparr>"

definition make_id :: "job_kind \<Rightarrow> nat \<Rightarrow> string" where
  "make_id k n = kind_prefix k @ ''-'' @ nat_text n"

definition next_id :: "job_kind \<Rightarrow> job_registry \<Rightarrow> string \<times> job_registry" where
  "next_id k s = (make_id k (seq s k + 1), s\<lparr>seq := (seq s)(k := seq s k + 1)\<rparr>)"

definition emit :: "job_notice \<Rightarrow> job_registry \<Rightarrow> job_registry" where
  "emit n s = s\<lparr>emitted := emitted s @ [n]\<rparr>"

subsection \<open>Starting and settling\<close>

definition begin_start :: "job_spec \<Rightarrow> int \<Rightarrow> job_registry \<Rightarrow> string \<times> job_registry" where
  "begin_start spec now s =
     (let (i, s') = next_id (spec_kind spec) s;
          snap = \<lparr>job_id = i, job_kind = spec_kind spec, job_label = spec_label spec, job_status = Running,
                  job_detail = None, owner_session = spec_owner spec, started_at = now, finished_at = None\<rparr> in
      (i, s'\<lparr>starting := hm_insert i snap (starting s')\<rparr>))"

text \<open>
  The producer's \<open>run\<close> has returned: an error leaves no record; hooks are registered, with or
  without a cursor, the start is announced and the settlement task is spawned.
\<close>

definition end_start :: "string \<Rightarrow> (string, bool) result \<Rightarrow> job_registry \<Rightarrow> (string, string) result \<times> job_registry" where
  "end_start i run s =
     (case hm_get i (starting s) of
        None \<Rightarrow> (Err ''no such start'', s)
      | Some snap \<Rightarrow>
          (let s1 = s\<lparr>starting := hm_remove i (starting s)\<rparr> in
           case run of
             Inl e \<Rightarrow> (Err e, s1)
           | Inr has_cursor \<Rightarrow>
               (let s2 = s1\<lparr>jobs := hm_insert i
                      \<lparr>snapshot = snap, can_cancel = True,
                       read_output = (if has_cursor then Some [] else None),
                       pending_final = None, reported = False\<rparr> (jobs s1)\<rparr>;
                    s3 = emit (Started snap) s2 in
                (Ok i, s3\<lparr>settling := settling s3 @ [i]\<rparr>))))"

definition settled_status :: "job_status \<Rightarrow> job_status \<Rightarrow> job_status" where
  "settled_status current out = (if current = Stopping \<and> out \<noteq> Failed then Killed else out)"

definition settle_entry :: "job_outcome \<Rightarrow> int \<Rightarrow> job_entry \<Rightarrow> job_entry" where
  "settle_entry out now e =
     (let snap = (snapshot e)\<lparr>job_status := settled_status (job_status (snapshot e)) (outcome_status out),
            job_detail := outcome_detail out, finished_at := Some now\<rparr>;
          tail = (case read_output e of Some buf \<Rightarrow> buf | None \<Rightarrow> []) in
      e\<lparr>snapshot := snap, can_cancel := False, read_output := None,
        pending_final := (if tail \<noteq> [] then Some tail else pending_final e)\<rparr>)"

definition dropped_outcome :: job_outcome where
  "dropped_outcome =
     \<lparr>outcome_status = Failed, outcome_detail = Some ''producer dropped without reporting''\<rparr>"

text \<open>The settlement task of job \<open>i\<close> wakes up, once, with what the channel delivered.\<close>

definition settle :: "string \<Rightarrow> job_outcome option \<Rightarrow> int \<Rightarrow> job_registry \<Rightarrow> job_registry" where
  "settle i received now s =
     (if i \<notin> set (settling s) then s
      else (let s1 = s\<lparr>settling := remove1 i (settling s)\<rparr>;
                out = (case received of Some x \<Rightarrow> x | None \<Rightarrow> dropped_outcome) in
        case hm_get i (jobs s1) of
          None \<Rightarrow> s1
        | Some e \<Rightarrow>
            (let e' = settle_entry out now e in
             emit (Finished (snapshot e')) (s1\<lparr>jobs := hm_insert i e' (jobs s1)\<rparr>))))"

subsection \<open>The operations of a session\<close>

definition job_list :: "string \<Rightarrow> job_registry \<Rightarrow> job_snapshot list" where
  "job_list owner s =
     sort_key started_at (map snapshot (filter (\<lambda>e. owner_session (snapshot e) = owner) (map snd (jobs s))))"

definition job_get :: "string \<Rightarrow> job_registry \<Rightarrow> job_snapshot option" where
  "job_get i s = map_option snapshot (hm_get i (jobs s))"

definition not_found :: "string \<Rightarrow> string" where
  "not_found i = ''job '' @ i @ '' not found''"

definition unread :: "job_entry \<Rightarrow> string" where
  "unread e =
     (case read_output e of
        Some buf \<Rightarrow> buf
      | None \<Rightarrow> (case pending_final e of Some t \<Rightarrow> t | None \<Rightarrow> []))"

definition clear_unread :: "job_entry \<Rightarrow> job_entry" where
  "clear_unread e =
     (case read_output e of
        Some buf \<Rightarrow> e\<lparr>read_output := Some []\<rparr>
      | None \<Rightarrow> e\<lparr>pending_final := None\<rparr>)"

definition job_read ::
  "string \<Rightarrow> string \<Rightarrow> job_registry \<Rightarrow> (string, string \<times> job_snapshot) result \<times> job_registry" where
  "job_read i owner s =
     (case hm_get i (jobs s) of
        None \<Rightarrow> (Err (not_found i), s)
      | Some e \<Rightarrow>
          if owner_session (snapshot e) \<noteq> owner then (Err (not_found i), s)
          else (Ok (unread e, snapshot e), s\<lparr>jobs := hm_insert i (clear_unread e) (jobs s)\<rparr>))"

definition stop_entry :: "job_entry \<Rightarrow> job_entry" where
  "stop_entry e = e\<lparr>snapshot := (snapshot e)\<lparr>job_status := Stopping\<rparr>\<rparr>"

definition job_cancel ::
  "string \<Rightarrow> string \<Rightarrow> string option \<Rightarrow> job_registry \<Rightarrow> (string, job_snapshot) result \<times> job_registry" where
  "job_cancel i owner reason s =
     (case hm_get i (jobs s) of
        None \<Rightarrow> (Err (not_found i), s)
      | Some e \<Rightarrow>
          if owner_session (snapshot e) \<noteq> owner then (Err (not_found i), s)
          else if is_terminal (job_status (snapshot e)) then (Ok (snapshot e), s)
          else (Ok (snapshot (stop_entry e)),
                s\<lparr>jobs := hm_insert i (stop_entry e) (jobs s),
                  cancel_calls := cancel_calls s @ (if can_cancel e then [(i, reason)] else [])\<rparr>))"

text \<open>One round of the polling loop of \<open>wait\<close>: \<open>None\<close> means it sleeps and looks again.\<close>

definition wait_poll ::
  "string \<Rightarrow> string \<Rightarrow> instant \<Rightarrow> instant \<Rightarrow> job_registry \<Rightarrow> (string, job_snapshot) result option" where
  "wait_poll i owner deadline now s =
     (case hm_get i (jobs s) of
        None \<Rightarrow> Some (Err (not_found i))
      | Some e \<Rightarrow>
          if owner_session (snapshot e) \<noteq> owner then Some (Err (not_found i))
          else if is_terminal (job_status (snapshot e)) then Some (Ok (snapshot e))
          else if now \<ge> deadline then Some (Ok (snapshot e))
          else None)"

text \<open>\<open>wait\<close> on the registry as it finds it at each round, with the time of the round.\<close>

fun job_wait ::
  "string \<Rightarrow> string \<Rightarrow> instant \<Rightarrow> (instant \<times> job_registry) list \<Rightarrow> (string, job_snapshot) result option" where
  "job_wait i owner deadline [] = None"
| "job_wait i owner deadline ((now, s) # rounds) =
     (case wait_poll i owner deadline now s of
        Some r \<Rightarrow> Some r
      | None \<Rightarrow> job_wait i owner deadline rounds)"

definition is_reported :: "string \<Rightarrow> job_registry \<Rightarrow> bool" where
  "is_reported i s = (case hm_get i (jobs s) of None \<Rightarrow> True | Some e \<Rightarrow> reported e)"

text \<open>The loop of \<open>cancel_owner\<close> and \<open>cancel_all\<close> over the entries a test selects.\<close>

definition cancel_where ::
  "(job_entry \<Rightarrow> bool) \<Rightarrow> string option \<Rightarrow> job_registry \<Rightarrow> nat \<times> job_registry" where
  "cancel_where P reason s =
     (let hit = (\<lambda>e. P e \<and> \<not> is_terminal (job_status (snapshot e)));
          calls = map (\<lambda>(i, e). (i, reason)) (filter (\<lambda>(i, e). hit e \<and> can_cancel e) (jobs s)) in
      (length calls,
       s\<lparr>jobs := hm_map (\<lambda>e. if hit e then stop_entry e else e) (jobs s),
         cancel_calls := cancel_calls s @ calls\<rparr>))"

definition cancel_owner :: "string \<Rightarrow> string option \<Rightarrow> job_registry \<Rightarrow> nat \<times> job_registry" where
  "cancel_owner owner = cancel_where (\<lambda>e. owner_session (snapshot e) = owner)"

definition cancel_all :: "string option \<Rightarrow> job_registry \<Rightarrow> nat \<times> job_registry" where
  "cancel_all = cancel_where (\<lambda>e. True)"

definition mark_reported :: "string \<Rightarrow> job_registry \<Rightarrow> bool \<times> job_registry" where
  "mark_reported i s =
     (case hm_get i (jobs s) of
        None \<Rightarrow> (False, s)
      | Some e \<Rightarrow>
          if is_terminal (job_status (snapshot e)) \<and> \<not> reported e
          then (True, s\<lparr>jobs := hm_insert i (e\<lparr>reported := True\<rparr>) (jobs s)\<rparr>)
          else (False, s))"

definition job_prune :: "int \<Rightarrow> int \<Rightarrow> job_registry \<Rightarrow> job_registry" where
  "job_prune max_age now s =
     s\<lparr>jobs := hm_retain (\<lambda>_ e. case finished_at (snapshot e) of Some t \<Rightarrow> t \<ge> now - max_age | None \<Rightarrow> True)
       (jobs s)\<rparr>"

subsection \<open>Executions\<close>

text \<open>
  The steps of the registry and of the producers, labelled with the output that crosses the
  registry: written by a producer or served to a reader.  A producer reports a terminal status.
\<close>

datatype job_label = Silent | Wrote string string | Served string string

inductive job_step :: "job_registry \<Rightarrow> job_label \<Rightarrow> job_registry \<Rightarrow> bool" where
  begins: "begin_start spec now s = (i, s') \<Longrightarrow> job_step s Silent s'"
| starts: "end_start i run s = (r, s') \<Longrightarrow> job_step s Silent s'"
| writes: "hm_get i (jobs s) = Some e \<Longrightarrow> read_output e = Some buf \<Longrightarrow>
    job_step s (Wrote i t) (s\<lparr>jobs := hm_insert i (e\<lparr>read_output := Some (buf @ t)\<rparr>) (jobs s)\<rparr>)"
| settles: "(\<forall>out. received = Some out \<longrightarrow> is_terminal (outcome_status out)) \<Longrightarrow>
    job_step s Silent (settle i received now s)"
| serves: "job_read i owner s = (Ok (t, snap), s') \<Longrightarrow> job_step s (Served i t) s'"
| cancels: "job_cancel i owner reason s = (r, s') \<Longrightarrow> job_step s Silent s'"
| cancels_owner: "cancel_owner owner reason s = (n, s') \<Longrightarrow> job_step s Silent s'"
| cancels_all: "cancel_all reason s = (n, s') \<Longrightarrow> job_step s Silent s'"
| marks: "mark_reported i s = (b, s') \<Longrightarrow> job_step s Silent s'"
| prunes: "job_step s Silent (job_prune max_age now s)"

inductive job_trace :: "job_registry \<Rightarrow> job_label list \<Rightarrow> job_registry \<Rightarrow> bool" for s where
  trace_empty: "job_trace s [] s"
| trace_step: "job_trace s ls s' \<Longrightarrow> job_step s' l s'' \<Longrightarrow> job_trace s (ls @ [l]) s''"

subsection \<open>The life of a job\<close>

definition issued :: "job_registry \<Rightarrow> string \<Rightarrow> bool" where
  "issued s i \<longleftrightarrow> (\<exists>k n. i = make_id k n \<and> 1 \<le> n \<and> n \<le> seq s k)"

fun finished_id :: "job_notice \<Rightarrow> string list" where
  "finished_id (Finished snap) = [job_id snap]"
| "finished_id (Started snap) = []"

definition finished_ids :: "job_registry \<Rightarrow> string list" where
  "finished_ids s = concat (map finished_id (emitted s))"

definition fresh_snapshot :: "job_snapshot \<Rightarrow> bool" where
  "fresh_snapshot snap \<longleftrightarrow> job_status snap = Running \<and> finished_at snap = None"

definition live_entry :: "job_entry \<Rightarrow> bool" where
  "live_entry e \<longleftrightarrow> \<not> is_terminal (job_status (snapshot e)) \<and> finished_at (snapshot e) = None
     \<and> can_cancel e \<and> pending_final e = None \<and> \<not> reported e"

definition settled_entry :: "job_entry \<Rightarrow> bool" where
  "settled_entry e \<longleftrightarrow> is_terminal (job_status (snapshot e)) \<and> finished_at (snapshot e) \<noteq> None
     \<and> \<not> can_cancel e \<and> read_output e = None"

definition id_ok :: "job_registry \<Rightarrow> string \<Rightarrow> bool" where
  "id_ok s i \<longleftrightarrow>
     (case hm_get i (starting s) of
        Some snap \<Rightarrow> issued s i \<and> hm_get i (jobs s) = None \<and> i \<notin> set (settling s)
          \<and> i \<notin> set (finished_ids s) \<and> job_id snap = i \<and> fresh_snapshot snap
      | None \<Rightarrow>
          (case hm_get i (jobs s) of
             Some e \<Rightarrow> issued s i \<and> job_id (snapshot e) = i
               \<and> (if i \<in> set (settling s) then live_entry e \<and> i \<notin> set (finished_ids s) else settled_entry e)
           | None \<Rightarrow> i \<notin> set (settling s) \<and> (i \<in> set (finished_ids s) \<longrightarrow> issued s i)))"

definition jobs_ok :: "job_registry \<Rightarrow> bool" where
  "jobs_ok s \<longleftrightarrow> hm_wf (jobs s) \<and> hm_wf (starting s) \<and> distinct (settling s)
     \<and> distinct (finished_ids s) \<and> (\<forall>i. id_ok s i)"

lemmas entry_kinds = live_entry_def settled_entry_def fresh_snapshot_def is_terminal_def

lemma make_id_inject [simp]: "make_id k m = make_id k' n \<longleftrightarrow> k = k' \<and> m = n"
  by (cases k; cases k') (simp_all add: make_id_def)

lemma issued_mono: "issued s i \<Longrightarrow> (\<And>k. seq s k \<le> seq s' k) \<Longrightarrow> issued s' i"
  by (auto simp: issued_def intro: order_trans)

lemma not_issued_next: "\<not> issued s (make_id k (Suc (seq s k)))"
  by (auto simp: issued_def)

lemma jobs_ok_new: "jobs_ok registry_new"
  by (simp add: jobs_ok_def registry_new_def id_ok_def finished_ids_def)

text \<open>A step that changes what is known of one job only keeps the rest.\<close>

definition same_elsewhere :: "string \<Rightarrow> job_registry \<Rightarrow> job_registry \<Rightarrow> bool" where
  "same_elsewhere i s s' \<longleftrightarrow>
     (\<forall>j. j \<noteq> i \<longrightarrow> hm_get j (jobs s') = hm_get j (jobs s) \<and> hm_get j (starting s') = hm_get j (starting s)
        \<and> (j \<in> set (settling s') \<longleftrightarrow> j \<in> set (settling s))
        \<and> (j \<in> set (finished_ids s') \<longleftrightarrow> j \<in> set (finished_ids s)))
     \<and> (\<forall>k. seq s k \<le> seq s' k)"

lemma same_elsewhere_ok:
  assumes "jobs_ok s" and "same_elsewhere i s s'" and "id_ok s' i"
    and "hm_wf (jobs s')" and "hm_wf (starting s')" and "distinct (settling s')" and "distinct (finished_ids s')"
  shows "jobs_ok s'"
proof -
  have "id_ok s' j" if "j \<noteq> i" for j
  proof -
    have ok: "id_ok s j" using assms(1) by (simp add: jobs_ok_def)
    have same: "hm_get j (jobs s') = hm_get j (jobs s)" "hm_get j (starting s') = hm_get j (starting s)"
      "j \<in> set (settling s') \<longleftrightarrow> j \<in> set (settling s)"
      "j \<in> set (finished_ids s') \<longleftrightarrow> j \<in> set (finished_ids s)"
      and mono: "issued s j \<longrightarrow> issued s' j"
      using that assms(2) issued_mono [of s j s'] by (simp_all add: same_elsewhere_def)
    show ?thesis
    proof (cases "hm_get j (starting s)")
      case (Some snap)
      with ok mono show ?thesis by (simp add: id_ok_def same)
    next
      case None
      with ok mono show ?thesis by (cases "hm_get j (jobs s)") (simp_all add: id_ok_def same)
    qed
  qed
  then have "id_ok s' j" for j using assms(3) by (cases "j = i") simp_all
  with assms(4-7) show ?thesis by (simp add: jobs_ok_def)
qed

lemma jobs_okD: "jobs_ok s \<Longrightarrow> id_ok s i" "jobs_ok s \<Longrightarrow> hm_wf (jobs s)" "jobs_ok s \<Longrightarrow> hm_wf (starting s)"
  "jobs_ok s \<Longrightarrow> distinct (settling s)" "jobs_ok s \<Longrightarrow> distinct (finished_ids s)"
  by (simp_all add: jobs_ok_def)

lemma finished_ids_simps [simp]:
  "finished_ids (s\<lparr>jobs := x\<rparr>) = finished_ids s"
  "finished_ids (s\<lparr>starting := y\<rparr>) = finished_ids s"
  "finished_ids (s\<lparr>settling := z\<rparr>) = finished_ids s"
  "finished_ids (s\<lparr>cancel_calls := c\<rparr>) = finished_ids s"
  "finished_ids (s\<lparr>seq := q\<rparr>) = finished_ids s"
  "finished_ids (emit n s) = finished_ids s @ finished_id n"
  by (simp_all add: finished_ids_def emit_def)

lemma emit_simps [simp]:
  "jobs (emit n s) = jobs s" "starting (emit n s) = starting s" "settling (emit n s) = settling s"
  "seq (emit n s) = seq s"
  by (simp_all add: emit_def)

lemma issued_simps [simp]:
  "issued (s\<lparr>jobs := x\<rparr>) i = issued s i" "issued (s\<lparr>starting := y\<rparr>) i = issued s i"
  "issued (s\<lparr>settling := z\<rparr>) i = issued s i" "issued (s\<lparr>cancel_calls := c\<rparr>) i = issued s i"
  "issued (emit n s) i = issued s i"
  by (simp_all add: issued_def)

text \<open>Replacing the entry of a registered job by one of the same kind.\<close>

lemma jobs_ok_update_entry:
  assumes "jobs_ok s" and "hm_get i (jobs s) = Some e" and "job_id (snapshot e') = job_id (snapshot e)"
    and "live_entry e \<Longrightarrow> live_entry e'" and "settled_entry e \<Longrightarrow> settled_entry e'"
  shows "jobs_ok (s\<lparr>jobs := hm_insert i e' (jobs s), cancel_calls := c\<rparr>)"
  using assms jobs_okD(1) [OF assms(1), of i]
  by (intro same_elsewhere_ok [OF assms(1), of i])
    (auto simp: same_elsewhere_def id_ok_def jobs_okD split: option.splits if_splits)

lemma jobs_ok_update_entry':
  assumes "jobs_ok s" and "hm_get i (jobs s) = Some e" and "job_id (snapshot e') = job_id (snapshot e)"
    and "live_entry e \<Longrightarrow> live_entry e'" and "settled_entry e \<Longrightarrow> settled_entry e'"
  shows "jobs_ok (s\<lparr>jobs := hm_insert i e' (jobs s)\<rparr>)"
  using jobs_ok_update_entry [OF assms, of "cancel_calls s"] by simp

lemma unissued_absent:
  "jobs_ok s \<Longrightarrow> \<not> issued s i \<Longrightarrow> hm_get i (starting s) = None \<and> hm_get i (jobs s) = None
     \<and> i \<notin> set (settling s) \<and> i \<notin> set (finished_ids s)"
  using jobs_okD(1) [of s i] by (auto simp: id_ok_def split: option.splits)

lemma begin_start_ok [keeps]:
  assumes "jobs_ok s" and "begin_start spec now s = (i, s')"
  shows "jobs_ok s'"
proof -
  have i: "i = make_id (spec_kind spec) (Suc (seq s (spec_kind spec)))"
    using assms(2) by (simp add: begin_start_def next_id_def)
  with unissued_absent [OF assms(1) not_issued_next] have
    new: "hm_get i (jobs s) = None" "i \<notin> set (settling s)" "i \<notin> set (finished_ids s)" by simp_all
  have s': "jobs s' = jobs s" "settling s' = settling s" "finished_ids s' = finished_ids s"
    "starting s' = hm_insert i \<lparr>job_id = i, job_kind = spec_kind spec, job_label = spec_label spec,
       job_status = Running, job_detail = None, owner_session = spec_owner spec, started_at = now,
       finished_at = None\<rparr> (starting s)"
    "seq s' = (seq s)(spec_kind spec := Suc (seq s (spec_kind spec)))"
    using assms(2) by (auto simp: begin_start_def next_id_def)
  have "issued s' i" by (auto simp: issued_def i s'(5))
  then show ?thesis
    by (intro same_elsewhere_ok [OF assms(1), of i])
      (use new in \<open>simp_all add: id_ok_def s' same_elsewhere_def fresh_snapshot_def jobs_okD [OF assms(1)]\<close>)
qed

lemma end_start_ok [keeps]:
  assumes "jobs_ok s" and "end_start i run s = (r, s')"
  shows "jobs_ok s'"
proof (cases "hm_get i (starting s)")
  case None
  with assms show ?thesis by (simp add: end_start_def)
next
  case (Some snap)
  with jobs_okD(1) [OF assms(1), of i] have
    i: "issued s i" "hm_get i (jobs s) = None" "i \<notin> set (settling s)" "i \<notin> set (finished_ids s)"
      "job_id snap = i" "fresh_snapshot snap" by (simp_all add: id_ok_def)
  show ?thesis
  proof (cases run)
    case (Inl e)
    with assms(2) Some have "s' = s\<lparr>starting := hm_remove i (starting s)\<rparr>" by (simp add: end_start_def Let_def)
    with i show ?thesis
      by (intro same_elsewhere_ok [OF assms(1), of i])
        (simp_all add: id_ok_def same_elsewhere_def jobs_okD [OF assms(1)])
  next
    case (Inr c)
    with assms(2) Some obtain e where
      s': "s' = (emit (Started snap) (s\<lparr>starting := hm_remove i (starting s), jobs := hm_insert i e (jobs s)\<rparr>))
             \<lparr>settling := settling s @ [i]\<rparr>"
      and e: "snapshot e = snap" "live_entry e"
      using i(6) by (auto simp: end_start_def Let_def live_entry_def fresh_snapshot_def is_terminal_def)
    from i e show ?thesis
      by (intro same_elsewhere_ok [OF assms(1), of i])
        (simp_all add: s' id_ok_def same_elsewhere_def jobs_okD [OF assms(1)])
  qed
qed

lemma settle_entry_settled:
  "live_entry e \<Longrightarrow> is_terminal (outcome_status out) \<Longrightarrow> settled_entry (settle_entry out now e)"
  by (auto simp: live_entry_def settled_entry_def settle_entry_def Let_def settled_status_def is_terminal_def)

lemma settle_entry_id [simp]: "job_id (snapshot (settle_entry out now e)) = job_id (snapshot e)"
  by (simp add: settle_entry_def Let_def)

lemma settle_ok [keeps]:
  assumes "jobs_ok s" and "\<forall>out. received = Some out \<longrightarrow> is_terminal (outcome_status out)"
  shows "jobs_ok (settle i received now s)"
proof (cases "i \<in> set (settling s)")
  case False
  with assms show ?thesis by (simp add: settle_def)
next
  case True
  define out where "out = (case received of Some x \<Rightarrow> x | None \<Rightarrow> dropped_outcome)"
  have terminal: "is_terminal (outcome_status out)"
    using assms(2) by (auto simp: out_def dropped_outcome_def is_terminal_def split: option.split)
  from True jobs_okD(1) [OF assms(1), of i] obtain e where
    e: "hm_get i (starting s) = None" "hm_get i (jobs s) = Some e" "live_entry e" "issued s i"
      "job_id (snapshot e) = i" "i \<notin> set (finished_ids s)"
    by (auto simp: id_ok_def split: option.splits)
  have s': "settle i received now s =
      emit (Finished (snapshot (settle_entry out now e)))
        (s\<lparr>settling := remove1 i (settling s), jobs := hm_insert i (settle_entry out now e) (jobs s)\<rparr>)"
    using True e(2) by (simp add: settle_def Let_def out_def)
  have gone: "i \<notin> set (remove1 i (settling s))" using jobs_okD(4) [OF assms(1)] by simp
  show ?thesis
    unfolding s'
    by (intro same_elsewhere_ok [OF assms(1), of i])
      (use e gone settle_entry_settled [OF e(3) terminal] in
        \<open>simp_all add: id_ok_def same_elsewhere_def jobs_okD [OF assms(1)]\<close>)
qed

lemma job_read_ok [keeps]:
  assumes "jobs_ok s" and "job_read i owner s = (r, s')"
  shows "jobs_ok s'"
proof -
  have "jobs_ok (s\<lparr>jobs := hm_insert i (clear_unread e) (jobs s)\<rparr>)" if "hm_get i (jobs s) = Some e" for e
    by (rule jobs_ok_update_entry' [OF assms(1) that])
      (auto simp: clear_unread_def entry_kinds split: option.split)
  with assms show ?thesis by (auto simp: job_read_def split: option.splits if_splits)
qed

lemma stop_entry_live: "live_entry e \<Longrightarrow> live_entry (stop_entry e)"
  by (simp add: live_entry_def stop_entry_def is_terminal_def)

lemma job_cancel_ok [keeps]:
  assumes "jobs_ok s" and "job_cancel i owner reason s = (r, s')"
  shows "jobs_ok s'"
proof -
  have "jobs_ok (s\<lparr>jobs := hm_insert i (stop_entry e) (jobs s), cancel_calls := c\<rparr>)"
    if "hm_get i (jobs s) = Some e" "\<not> is_terminal (job_status (snapshot e))" for e c
    using that(2) by (intro jobs_ok_update_entry [OF assms(1) that(1)])
      (auto simp: stop_entry_def entry_kinds)
  with assms show ?thesis
    by (auto simp: job_cancel_def simp del: append_Nil2 split: option.splits if_split_asm)
qed

lemma cancel_where_ok [keeps]:
  assumes "jobs_ok s" and "cancel_where P reason s = (n, s')"
  shows "jobs_ok s'"
proof -
  have s': "starting s' = starting s" "settling s' = settling s" "finished_ids s' = finished_ids s" "seq s' = seq s"
    "jobs s' = hm_map (\<lambda>e. if P e \<and> \<not> is_terminal (job_status (snapshot e)) then stop_entry e else e) (jobs s)"
    using assms(2) by (auto simp: cancel_where_def Let_def)
  have "id_ok s' j" for j
  proof -
    have "issued s' j = issued s j" by (simp add: issued_def s')
    with jobs_okD(1) [OF assms(1), of j] show ?thesis
      by (cases "hm_get j (starting s)"; cases "hm_get j (jobs s)")
        (auto simp: id_ok_def s' stop_entry_live settled_entry_def stop_entry_def [THEN arg_cong [where f = snapshot]])
  qed
  with jobs_okD(2-5) [OF assms(1)] show ?thesis by (simp add: jobs_ok_def s')
qed

lemma mark_reported_ok [keeps]:
  assumes "jobs_ok s" and "mark_reported i s = (b, s')"
  shows "jobs_ok s'"
proof -
  have "jobs_ok (s\<lparr>jobs := hm_insert i (e\<lparr>reported := True\<rparr>) (jobs s)\<rparr>)"
    if "hm_get i (jobs s) = Some e" "is_terminal (job_status (snapshot e))" for e
    using that(2) by (intro jobs_ok_update_entry' [OF assms(1) that(1)]) (auto simp: entry_kinds)
  with assms show ?thesis by (auto simp: mark_reported_def split: option.splits if_splits)
qed

lemma job_prune_get:
  "hm_wf (jobs s) \<Longrightarrow> hm_get j (jobs (job_prune max_age now s)) =
     (case hm_get j (jobs s) of
        None \<Rightarrow> None
      | Some e \<Rightarrow> if finished_at (snapshot e) = None \<or> the (finished_at (snapshot e)) \<ge> now - max_age
          then Some e else None)"
  by (auto simp: job_prune_def hm_get_retain split: option.splits)

lemma job_prune_ok [keeps]:
  assumes "jobs_ok s"
  shows "jobs_ok (job_prune max_age now s)"
proof -
  have s': "starting (job_prune max_age now s) = starting s" "settling (job_prune max_age now s) = settling s"
    "finished_ids (job_prune max_age now s) = finished_ids s"
    "\<And>j. issued (job_prune max_age now s) j = issued s j" "hm_wf (jobs (job_prune max_age now s))"
    using jobs_okD(2) [OF assms] by (simp_all add: job_prune_def)
  have "id_ok (job_prune max_age now s) j" for j
    using jobs_okD(1) [OF assms, of j]
    by (cases "hm_get j (starting s)"; cases "hm_get j (jobs s)")
      (auto simp: id_ok_def s' job_prune_get jobs_okD(2) [OF assms] live_entry_def split: if_splits)
  with s' jobs_okD(2-5) [OF assms] show ?thesis by (simp add: jobs_ok_def)
qed

lemma job_writes_ok [keeps]:
  "jobs_ok s \<Longrightarrow> hm_get i (jobs s) = Some e \<Longrightarrow> read_output e = Some buf \<Longrightarrow>
     jobs_ok (s\<lparr>jobs := hm_insert i (e\<lparr>read_output := Some (buf @ t)\<rparr>) (jobs s)\<rparr>)"
  by (rule jobs_ok_update_entry') (auto simp: entry_kinds)

lemma job_step_ok: "job_step s l s' \<Longrightarrow> jobs_ok s \<Longrightarrow> jobs_ok s'"
  by (induction rule: job_step.induct) (auto simp: cancel_owner_def cancel_all_def intro: keeps)

lemma job_trace_ok: "job_trace s ls s' \<Longrightarrow> jobs_ok s \<Longrightarrow> jobs_ok s'"
  by (induction rule: job_trace.induct) (auto intro: job_step_ok)

subsection \<open>What happens to one job\<close>

text \<open>
  Where a registered entry comes from: a start under way, or the same job's entry one step
  before, written to, read, settled, stopped or marked.
\<close>

definition next_entry :: "job_entry \<Rightarrow> job_label \<Rightarrow> string \<Rightarrow> job_entry \<Rightarrow> bool" where
  "next_entry e l i e' \<longleftrightarrow>
     (e' = e \<and> (\<forall>t. l \<noteq> Wrote i t \<and> l \<noteq> Served i t))
   \<or> (\<exists>buf t. l = Wrote i t \<and> read_output e = Some buf \<and> e' = e\<lparr>read_output := Some (buf @ t)\<rparr>)
   \<or> (\<exists>out now. l = Silent \<and> live_entry e \<and> is_terminal (outcome_status out) \<and> e' = settle_entry out now e)
   \<or> (l = Served i (unread e) \<and> e' = clear_unread e)
   \<or> (l = Silent \<and> \<not> is_terminal (job_status (snapshot e)) \<and> e' = stop_entry e)
   \<or> (l = Silent \<and> is_terminal (job_status (snapshot e)) \<and> e' = e\<lparr>reported := True\<rparr>)"

lemma settle_get:
  assumes "jobs_ok s" and "\<forall>out. received = Some out \<longrightarrow> is_terminal (outcome_status out)"
    and "hm_get i (jobs (settle j received now s)) = Some e'"
  shows "\<exists>e. hm_get i (jobs s) = Some e \<and> next_entry e Silent i e'"
proof (cases "j = i \<and> j \<in> set (settling s)")
  case False
  with assms(3) have "hm_get i (jobs s) = Some e'"
    by (auto simp: settle_def Let_def split: option.splits if_splits)
  then show ?thesis by (auto simp: next_entry_def)
next
  case True
  then have ji: "j = i" "i \<in> set (settling s)" by auto
  with jobs_okD(1) [OF assms(1), of i] obtain e where e: "hm_get i (jobs s) = Some e" "live_entry e"
    by (auto simp: id_ok_def split: option.splits)
  define out where "out = (case received of Some x \<Rightarrow> x | None \<Rightarrow> dropped_outcome)"
  have "is_terminal (outcome_status out)"
    using assms(2) by (auto simp: out_def dropped_outcome_def is_terminal_def split: option.split)
  moreover have "e' = settle_entry out now e"
    using assms(3) ji e(1) by (simp add: settle_def Let_def out_def)
  ultimately show ?thesis using e by (auto simp: next_entry_def)
qed

lemma cancel_where_get:
  "cancel_where P reason s = (n, s') \<Longrightarrow> hm_get i (jobs s') = Some e' \<Longrightarrow>
     \<exists>e. hm_get i (jobs s) = Some e \<and> next_entry e Silent i e'"
  by (fastforce simp: cancel_where_def Let_def next_entry_def split: if_splits)

lemma job_step_entry:
  assumes "job_step s l s'" and "jobs_ok s" and "hm_get i (jobs s') = Some e'"
  shows "(\<exists>e. hm_get i (jobs s) = Some e \<and> next_entry e l i e')
       \<or> hm_get i (starting s) \<noteq> None \<and> hm_get i (jobs s) = None \<and> l = Silent \<and> unread e' = []"
  using assms
proof (cases rule: job_step.cases)
  case (begins spec now j)
  then show ?thesis using assms(3) by (auto simp: begin_start_def next_id_def next_entry_def)
next
  case (starts j run r)
  show ?thesis
  proof (cases "hm_get i (jobs s)")
    case (Some e)
    moreover have "hm_get i (starting s) = None"
      using jobs_okD(1) [OF assms(2), of i] Some by (auto simp: id_ok_def split: option.splits)
    ultimately show ?thesis using starts assms(3)
      by (auto simp: end_start_def Let_def next_entry_def split: option.splits sum.splits if_splits)
  next
    case None
    then show ?thesis using starts assms(3)
      by (auto simp: end_start_def Let_def unread_def split: option.splits sum.splits if_splits)
  qed
next
  case (writes j e buf t)
  then show ?thesis using assms(3) by (auto simp: next_entry_def split: if_splits)
next
  case (settles received j now)
  then show ?thesis using settle_get [OF assms(2)] assms(3) by blast
next
  case (serves j owner t snap)
  then show ?thesis using assms(3)
    by (auto simp: job_read_def next_entry_def split: option.splits if_splits)
next
  case (cancels j owner reason r)
  then show ?thesis using assms(3)
    by (auto simp: job_cancel_def next_entry_def split: option.splits if_splits)
next
  case (cancels_owner owner reason n)
  then show ?thesis using cancel_where_get assms(3) unfolding cancel_owner_def by blast
next
  case (cancels_all reason n)
  then show ?thesis using cancel_where_get assms(3) unfolding cancel_all_def by blast
next
  case (marks j b)
  then show ?thesis using assms(3)
    by (auto simp: mark_reported_def next_entry_def split: option.splits if_splits)
next
  case (prunes max_age now)
  then show ?thesis using assms(3) jobs_okD(2) [OF assms(2)]
    by (auto simp: job_prune_get next_entry_def split: option.splits if_splits)
qed

text \<open>An identifier is handed out by \<open>begin_start\<close> only, and for the first time.\<close>

lemma cancel_where_frame:
  "cancel_where P reason s = (n, s') \<Longrightarrow> starting s' = starting s \<and> seq s' = seq s"
  by (auto simp: cancel_where_def Let_def)

lemma job_step_starting:
  assumes "job_step s l s'"
  shows "(\<forall>k. seq s k \<le> seq s' k) \<and> (hm_get i (starting s') \<noteq> None \<longrightarrow> hm_get i (starting s) \<noteq> None \<or> \<not> issued s i)"
  using assms
proof (cases rule: job_step.cases)
  case (begins spec now j)
  then show ?thesis using not_issued_next [of s "spec_kind spec"]
    by (auto simp: begin_start_def next_id_def split: if_splits)
next
  case (starts j run r)
  then show ?thesis by (auto simp: end_start_def Let_def emit_def split: option.splits sum.splits if_splits)
next
  case (settles received j now)
  then show ?thesis by (auto simp: settle_def Let_def emit_def split: option.splits if_splits)
next
  case (serves j owner t snap)
  then show ?thesis by (auto simp: job_read_def split: option.splits if_splits)
next
  case (cancels j owner reason r)
  then show ?thesis by (auto simp: job_cancel_def split: option.splits if_splits)
next
  case (cancels_owner owner reason n)
  then show ?thesis using cancel_where_frame unfolding cancel_owner_def by fastforce
next
  case (cancels_all reason n)
  then show ?thesis using cancel_where_frame unfolding cancel_all_def by fastforce
next
  case (marks j b)
  then show ?thesis by (auto simp: mark_reported_def split: option.splits if_splits)
qed (auto simp: job_prune_def)

lemma job_step_issued: "job_step s l s' \<Longrightarrow> issued s i \<Longrightarrow> issued s' i"
  using job_step_starting [of s l s' i] by (auto intro: issued_mono)

lemma job_trace_issued: "job_trace s ls s' \<Longrightarrow> issued s i \<Longrightarrow> issued s' i"
  by (induction rule: job_trace.induct) (auto intro: job_step_issued)

text \<open>
  What holds of an issued job's entry, and is kept by everything that can happen to an entry,
  holds of the job's entry for as long as the registry has it.
\<close>

lemma entry_property_kept:
  assumes "job_trace s ls s'" and "jobs_ok s" and "hm_get i (jobs s) = Some e" and "Q e"
    and "\<And>e l e'. Q e \<Longrightarrow> next_entry e l i e' \<Longrightarrow> Q e'"
  shows "\<forall>e'. hm_get i (jobs s') = Some e' \<longrightarrow> Q e'"
proof -
  have start: "issued s i" "hm_get i (starting s) = None"
    using jobs_okD(1) [OF assms(2), of i] assms(3) by (auto simp: id_ok_def split: option.splits)
  have "jobs_ok s' \<and> issued s' i \<and> hm_get i (starting s') = None \<and> (\<forall>e'. hm_get i (jobs s') = Some e' \<longrightarrow> Q e')"
    using assms(1)
  proof (induction rule: job_trace.induct)
    case trace_empty
    with assms(2-4) start show ?case by simp
  next
    case (trace_step ls s1 l s2)
    then have ok: "jobs_ok s1" and gone: "issued s1 i" "hm_get i (starting s1) = None" by simp_all
    have "jobs_ok s2" using trace_step.hyps(2) ok by (rule job_step_ok)
    moreover have "issued s2 i" using trace_step.hyps(2) gone(1) by (rule job_step_issued)
    moreover have "hm_get i (starting s2) = None"
      using job_step_starting [OF trace_step.hyps(2), of i] gone by auto
    moreover have "Q e2" if "hm_get i (jobs s2) = Some e2" for e2
      using job_step_entry [OF trace_step.hyps(2) ok that] gone(2) trace_step.IH assms(5) by blast
    ultimately show ?case by blast
  qed
  then show ?thesis by blast
qed

lemma clear_unread_snapshot [simp]: "snapshot (clear_unread e) = snapshot e"
  by (simp add: clear_unread_def split: option.split)

lemma next_entry_terminal:
  "is_terminal (job_status (snapshot e)) \<Longrightarrow> next_entry e l i e' \<Longrightarrow> snapshot e' = snapshot e"
  by (auto simp: next_entry_def live_entry_def)

definition never_completes :: "job_entry \<Rightarrow> bool" where
  "never_completes e \<longleftrightarrow> job_status (snapshot e) \<in> {Stopping, Killed, Failed}"

lemma next_entry_never_completes: "never_completes e \<Longrightarrow> next_entry e l i e' \<Longrightarrow> never_completes e'"
  by (auto simp: next_entry_def never_completes_def stop_entry_def settle_entry_def
      settled_status_def Let_def is_terminal_def live_entry_def)

definition one_start :: "job_kind \<Rightarrow> string \<Rightarrow> job_registry \<Rightarrow> job_registry" where
  "one_start k owner s =
     (let (i, s') = begin_start \<lparr>spec_kind = k, spec_label = ''job'', spec_owner = owner\<rparr> 0 s in
      snd (end_start i (Ok True) s'))"

lemma one_start_trace: "job_trace s0 ls s \<Longrightarrow> job_trace s0 ((ls @ [Silent]) @ [Silent]) (one_start k owner s)"
proof -
  let ?b = "begin_start \<lparr>spec_kind = k, spec_label = ''job'', spec_owner = owner\<rparr> 0 s"
  assume "job_trace s0 ls s"
  moreover have "job_step s Silent (snd ?b)" by (rule begins) (rule surjective_pairing)
  moreover have "job_step (snd ?b) Silent (snd (end_start (fst ?b) (Ok True) (snd ?b)))"
    by (rule starts) (rule surjective_pairing)
  ultimately show ?thesis unfolding one_start_def split_beta Let_def by (blast intro: trace_step)
qed

text \<open>
  C34: in every execution each job is announced finished at most once, and a job that has reached a
  terminal status keeps its whole snapshot: whatever happens next, the registry reports the same
  status, detail and finishing time for as long as it has the job, and no later job gets its
  identifier.
\<close>
theorem settlement_is_final:
  assumes "job_trace registry_new ls s"
    and "hm_get i (jobs s) = Some e" and "is_terminal (job_status (snapshot e))"
    and "job_trace s ls' s'"
  shows "distinct (finished_ids s')
       \<and> (job_get i s' = None \<or> job_get i s' = Some (snapshot e))
       \<and> fst (begin_start spec now s') \<noteq> i"
proof -
  have ok: "jobs_ok s" by (rule job_trace_ok [OF assms(1) jobs_ok_new])
  have ok': "jobs_ok s'" by (rule job_trace_ok [OF assms(4) ok])
  have kept: "\<forall>e'. hm_get i (jobs s') = Some e' \<longrightarrow> snapshot e' = snapshot e"
    by (rule entry_property_kept [OF assms(4) ok assms(2), where Q = "\<lambda>e'. snapshot e' = snapshot e"])
      (simp, metis assms(3) next_entry_terminal)
  have "issued s i" using jobs_okD(1) [OF ok, of i] assms(2) by (auto simp: id_ok_def split: option.splits)
  then have "issued s' i" using assms(4) job_trace_issued by blast
  then have "fst (begin_start spec now s') \<noteq> i"
    using not_issued_next [of s' "spec_kind spec"] by (auto simp: begin_start_def next_id_def)
  with kept jobs_okD(5) [OF ok'] show ?thesis by (cases "hm_get i (jobs s')") (simp_all add: job_get_def)
qed

text \<open>
  A job whose owner has asked for its cancellation never ends as completed: from the moment
  of the request it is stopping, and it settles as killed, or as failed if the producer says so.
  A job that was already over when the request came is left as it was.
\<close>
theorem cancelled_job_never_completes:
  assumes "job_trace registry_new ls s" and "job_cancel i owner reason s = (Ok snap, s1)"
    and "job_trace s1 ls' s'" and "hm_get i (jobs s') = Some e'"
  shows "if is_terminal (job_status snap) then snapshot e' = snap
         else job_status (snapshot e') \<in> {Stopping, Killed, Failed}"
proof -
  have ok: "jobs_ok s" by (rule job_trace_ok [OF assms(1) jobs_ok_new])
  have ok1: "jobs_ok s1" by (rule job_cancel_ok [OF ok assms(2)])
  show ?thesis
  proof (cases "is_terminal (job_status snap)")
    case True
    with assms(2) obtain e where "hm_get i (jobs s1) = Some e" "snapshot e = snap"
      by (auto simp: job_cancel_def stop_entry_def is_terminal_def split: option.splits if_splits)
    then have "\<forall>e'. hm_get i (jobs s') = Some e' \<longrightarrow> snapshot e' = snap"
      by (intro entry_property_kept [OF assms(3) ok1, of i e]) (assumption+, metis True next_entry_terminal)
    with True assms(4) show ?thesis by simp
  next
    case False
    with assms(2) obtain e where "hm_get i (jobs s1) = Some e" "never_completes e"
      by (auto simp: job_cancel_def stop_entry_def never_completes_def split: option.splits if_splits)
    then have "\<forall>e'. hm_get i (jobs s') = Some e' \<longrightarrow> never_completes e'"
      by (intro entry_property_kept [OF assms(3) ok1, of i e]) (assumption+, rule next_entry_never_completes)
    with False assms(4) show ?thesis by (simp add: never_completes_def)
  qed
qed

fun written_to :: "string \<Rightarrow> job_label list \<Rightarrow> string" where
  "written_to i [] = []"
| "written_to i (Wrote j t # ls) = (if j = i then t else []) @ written_to i ls"
| "written_to i (_ # ls) = written_to i ls"

fun served_from :: "string \<Rightarrow> job_label list \<Rightarrow> string" where
  "served_from i [] = []"
| "served_from i (Served j t # ls) = (if j = i then t else []) @ served_from i ls"
| "served_from i (_ # ls) = served_from i ls"

lemma written_to_snoc: "written_to i (ls @ [l]) = written_to i ls @ written_to i [l]"
  by (induction i ls rule: written_to.induct) simp_all

lemma served_from_snoc: "served_from i (ls @ [l]) = served_from i ls @ served_from i [l]"
  by (induction i ls rule: served_from.induct) simp_all

lemma other_label: "(\<forall>t. l \<noteq> Wrote i t \<and> l \<noteq> Served i t) \<Longrightarrow> written_to i [l] = [] \<and> served_from i [l] = []"
  by (cases l) auto

lemma settle_entry_unread: "live_entry e \<Longrightarrow> unread (settle_entry out now e) = unread e"
  by (auto simp: live_entry_def settle_entry_def unread_def Let_def split: option.splits)

lemma unread_simps [simp]:
  "unread (stop_entry e) = unread e" "unread (e\<lparr>reported := b\<rparr>) = unread e"
  "unread (clear_unread e) = []" "unread (e\<lparr>read_output := Some buf\<rparr>) = buf"
  by (simp_all add: unread_def stop_entry_def clear_unread_def split: option.split)

lemma unread_of_buffer: "read_output e = Some buf \<Longrightarrow> unread e = buf"
  by (simp add: unread_def)

lemma next_entry_output:
  "next_entry e l i e' \<Longrightarrow> unread e @ written_to i [l] = served_from i [l] @ unread e'"
  unfolding next_entry_def by (elim disjE conjE exE) (auto simp: other_label settle_entry_unread unread_of_buffer)

lemma unissued_label:
  "job_step s l s' \<Longrightarrow> hm_get i (jobs s) = None \<Longrightarrow> written_to i [l] = [] \<and> served_from i [l] = []"
  by (auto elim!: job_step.cases simp: job_read_def split: option.splits if_splits)

text \<open>
  No output is lost, repeated or reordered on its way through the registry: at any point of
  an execution, what the producer of a registered job has written is what readers have been
  served, followed by what the next read will return, also when the job settles between two
  reads.
\<close>
theorem job_output_delivered_once:
  assumes "job_trace registry_new ls s" and "hm_get i (jobs s) = Some e"
  shows "written_to i ls = served_from i ls @ unread e"
proof -
  have "jobs_ok s \<and> (\<forall>e. hm_get i (jobs s) = Some e \<longrightarrow> written_to i ls = served_from i ls @ unread e)
      \<and> (hm_get i (starting s) \<noteq> None \<or> \<not> issued s i \<longrightarrow> written_to i ls = [] \<and> served_from i ls = [])"
    using assms(1)
  proof (induction rule: job_trace.induct)
    case trace_empty
    then show ?case using jobs_ok_new by (simp add: registry_new_def)
  next
    case (trace_step ls s1 l s2)
    then have ok: "jobs_ok s1"
      and out: "\<And>e. hm_get i (jobs s1) = Some e \<Longrightarrow> written_to i ls = served_from i ls @ unread e"
      and new: "hm_get i (starting s1) \<noteq> None \<or> \<not> issued s1 i \<Longrightarrow> written_to i ls = [] \<and> served_from i ls = []"
      by auto
    have "written_to i (ls @ [l]) = served_from i (ls @ [l]) @ unread e2"
      if "hm_get i (jobs s2) = Some e2" for e2
      using job_step_entry [OF trace_step.hyps(2) ok that]
    proof (elim disjE exE conjE)
      fix e assume "hm_get i (jobs s1) = Some e" "next_entry e l i e2"
      with out next_entry_output [of e l i e2] show ?thesis
        by (metis append.assoc written_to_snoc served_from_snoc)
    next
      assume "hm_get i (starting s1) \<noteq> None" "l = Silent" "unread e2 = []"
      with new show ?thesis by (simp add: written_to_snoc served_from_snoc)
    qed
    moreover have "written_to i (ls @ [l]) = [] \<and> served_from i (ls @ [l]) = []"
      if "hm_get i (starting s2) \<noteq> None \<or> \<not> issued s2 i"
    proof -
      have "hm_get i (starting s1) \<noteq> None \<or> \<not> issued s1 i"
        using that job_step_starting [OF trace_step.hyps(2), of i] job_step_issued [OF trace_step.hyps(2), of i]
        by blast
      moreover from this have "hm_get i (jobs s1) = None"
        using jobs_okD(1) [OF ok, of i] by (auto simp: id_ok_def split: option.splits)
      ultimately show ?thesis using new unissued_label [OF trace_step.hyps(2), of i]
        by (simp add: written_to_snoc served_from_snoc)
    qed
    ultimately show ?case using job_step_ok [OF trace_step.hyps(2) ok] by blast
  qed
  with assms(2) show ?thesis by blast
qed

text \<open>
  Jobs are fenced by their owner.  To a session that does not own a job, reading, cancelling
  and waiting give the very answer they give for a job that does not exist, and change nothing;
  a session's list holds exactly its own jobs, oldest first.
\<close>
theorem jobs_fenced_by_owner:
  assumes "hm_wf (jobs s)" and "\<forall>e. hm_get i (jobs s) = Some e \<longrightarrow> owner_session (snapshot e) \<noteq> owner"
  shows "job_read i owner s = (Err (not_found i), s)
       \<and> job_cancel i owner reason s = (Err (not_found i), s)
       \<and> wait_poll i owner deadline now s = Some (Err (not_found i))
       \<and> set (job_list owner s) =
           {snapshot e |e j. hm_get j (jobs s) = Some e \<and> owner_session (snapshot e) = owner}
       \<and> sorted (map started_at (job_list owner s))"
proof -
  have "set (job_list owner s) = {snapshot e |e j. hm_get j (jobs s) = Some e \<and> owner_session (snapshot e) = owner}"
    using hm_in_set [OF assms(1)] by (force simp: job_list_def)
  with assms(2) show ?thesis
    by (auto simp: job_read_def job_cancel_def wait_poll_def job_list_def split: option.split)
qed

subsection \<open>The properties at work\<close>

definition demo_running :: job_registry where
  "demo_running = one_start Bash ''o'' registry_new"

definition demo_settled :: job_registry where
  "demo_settled = settle ''bash-1'' (Some \<lparr>outcome_status = Completed, outcome_detail = None\<rparr>) 5 demo_running"

lemma demo_traces: "job_trace registry_new [Silent, Silent] demo_running"
  "job_trace registry_new [Silent, Silent, Silent] demo_settled"
proof -
  show run: "job_trace registry_new [Silent, Silent] demo_running"
    using one_start_trace [OF trace_empty, of registry_new] by (simp add: demo_running_def)
  have "job_step demo_running Silent demo_settled"
    unfolding demo_settled_def by (rule settles) (simp add: is_terminal_def)
  with run show "job_trace registry_new [Silent, Silent, Silent] demo_settled"
    using trace_step [OF run] by fastforce
qed

lemma demo_entries:
  "map_option (\<lambda>e. job_status (snapshot e)) (hm_get ''bash-1'' (jobs demo_running)) = Some Running"
  "map_option (\<lambda>e. job_status (snapshot e)) (hm_get ''bash-1'' (jobs demo_settled)) = Some Completed"
  by code_simp+

theorem settlement_is_final_witness:
  "\<exists>e. hm_get ''bash-1'' (jobs demo_settled) = Some e
     \<and> distinct (finished_ids demo_settled)
     \<and> (job_get ''bash-1'' demo_settled = None \<or> job_get ''bash-1'' demo_settled = Some (snapshot e))"
proof -
  obtain e where e: "hm_get ''bash-1'' (jobs demo_settled) = Some e" "job_status (snapshot e) = Completed"
    using demo_entries(2) by auto
  then have "is_terminal (job_status (snapshot e))" by (simp add: is_terminal_def)
  from settlement_is_final [OF demo_traces(2) e(1) this trace_empty] e(1) show ?thesis by blast
qed

theorem cancelled_job_never_completes_witness:
  "\<exists>snap s1 e'. job_cancel ''bash-1'' ''o'' None demo_running = (Ok snap, s1)
     \<and> hm_get ''bash-1'' (jobs s1) = Some e' \<and> \<not> is_terminal (job_status snap)
     \<and> job_status (snapshot e') \<in> {Stopping, Killed, Failed}"
proof -
  have e: "map_option (\<lambda>e. (job_status (snapshot e), owner_session (snapshot e)))
      (hm_get ''bash-1'' (jobs demo_running)) = Some (Running, ''o'')" by code_simp
  then obtain snap s1 where c: "job_cancel ''bash-1'' ''o'' None demo_running = (Ok snap, s1)"
    and st: "job_status snap = Stopping" and g: "hm_get ''bash-1'' (jobs s1) \<noteq> None"
    by (auto simp: job_cancel_def is_terminal_def stop_entry_def)
  from g obtain e' where "hm_get ''bash-1'' (jobs s1) = Some e'" by blast
  with cancelled_job_never_completes [OF demo_traces(1) c trace_empty this] c st show ?thesis
    by (auto simp: is_terminal_def)
qed

theorem job_output_delivered_once_witness:
  "\<exists>e. hm_get ''bash-1'' (jobs demo_running) = Some e
     \<and> written_to ''bash-1'' [Silent, Silent] = served_from ''bash-1'' [Silent, Silent] @ unread e"
proof -
  obtain e where "hm_get ''bash-1'' (jobs demo_running) = Some e" using demo_entries(1) by auto
  with job_output_delivered_once [OF demo_traces(1) this] show ?thesis by blast
qed

theorem jobs_fenced_by_owner_witness:
  "job_read ''bash-1'' ''x'' demo_running = (Err (not_found ''bash-1''), demo_running)"
proof -
  have "map_option (\<lambda>e. owner_session (snapshot e)) (hm_get ''bash-1'' (jobs demo_running)) = Some ''o''"
    by code_simp
  then have "\<forall>e. hm_get ''bash-1'' (jobs demo_running) = Some e \<longrightarrow> owner_session (snapshot e) \<noteq> ''x''"
    by auto
  moreover have "hm_wf (jobs demo_running)" by code_simp
  ultimately show ?thesis using jobs_fenced_by_owner [of demo_running "''bash-1''" "''x''"] by blast
qed

end
