(* ===== verification/Memory_Jobs.thy ===== *)
theory Memory_Jobs
  imports Rust_Text "HOL-Library.Multiset"
begin

text \<open>
  The queue of memory distillation jobs of \<open>crates/oz-core/src/memory_job.rs\<close>: sessions are
  submitted, a worker takes one job at a time, runs the distiller without holding the queue's
  lock, and puts a failed job back with a back-off until its retries are used up.

  The distiller is a service behind a trait: its answer is an input of the step that ends a
  cycle.  Between the two lock sections of a cycle other workers and submissions may run, so a
  cycle is two steps.
\<close>

subsection \<open>The queue\<close>

datatype memory_status = MQueued | MRunning | MDone | MFailed

record memory_job =
  mj_session :: string
  mj_transcript :: string
  mj_status :: memory_status
  lease_until :: "instant option"
  retry_remaining :: nat
  last_error :: "string option"

text \<open>The jobs a worker has taken out of the queue live in \<open>in_flight\<close> until its cycle ends.\<close>

record memory_scheduler =
  job_queue :: "memory_job list"
  in_flight :: "memory_job list"
  max_retries :: nat
  lease_secs :: int

definition new_memory_job :: "string \<Rightarrow> string \<Rightarrow> nat \<Rightarrow> memory_job" where
  "new_memory_job session transcript retries =
     \<lparr>mj_session = session, mj_transcript = transcript, mj_status = MQueued, lease_until = None,
      retry_remaining = retries, last_error = None\<rparr>"

definition memory_new :: memory_scheduler where
  "memory_new = \<lparr>job_queue = [], in_flight = [], max_retries = 3, lease_secs = 300\<rparr>"

definition submit :: "string \<Rightarrow> string \<Rightarrow> memory_scheduler \<Rightarrow> memory_scheduler" where
  "submit session transcript s =
     (if list_ex (\<lambda>j. mj_session j = session \<and> mj_status j \<noteq> MDone) (job_queue s) then s
      else s\<lparr>job_queue := job_queue s @ [new_memory_job session transcript (max_retries s)]\<rparr>)"

definition pending_count :: "memory_scheduler \<Rightarrow> nat" where
  "pending_count s = length (filter (\<lambda>j. mj_status j \<noteq> MDone) (job_queue s))"

definition eligible :: "instant \<Rightarrow> memory_job \<Rightarrow> bool" where
  "eligible now j =
     (case mj_status j of
        MQueued \<Rightarrow> True
      | MFailed \<Rightarrow> (case lease_until j of Some t \<Rightarrow> t \<le> now | None \<Rightarrow> False)
      | MRunning \<Rightarrow> (case lease_until j of Some t \<Rightarrow> t \<le> now | None \<Rightarrow> False)
      | MDone \<Rightarrow> False)"

text \<open>\<open>position\<close> of the first eligible job, and \<open>remove\<close> of that index.\<close>

fun take_eligible :: "instant \<Rightarrow> memory_job list \<Rightarrow> (memory_job \<times> memory_job list) option" where
  "take_eligible now [] = None"
| "take_eligible now (j # q) =
     (if eligible now j then Some (j, q)
      else map_option (\<lambda>(k, q'). (k, j # q')) (take_eligible now q))"

definition begin_cycle :: "instant \<Rightarrow> instant \<Rightarrow> memory_scheduler \<Rightarrow> memory_job option \<times> memory_scheduler" where
  "begin_cycle now t s =
     (case take_eligible now (job_queue s) of
        None \<Rightarrow> (None, s)
      | Some (j, q) \<Rightarrow>
          (let j' = j\<lparr>mj_status := MRunning, lease_until := Some (t + nanos (lease_secs s))\<rparr> in
           (Some j', s\<lparr>job_queue := q, in_flight := in_flight s @ [j']\<rparr>)))"

definition backoff_secs :: "nat \<Rightarrow> nat \<Rightarrow> int" where
  "backoff_secs retries remaining = 15 * int (retries - remaining)"

text \<open>The end of the cycle of job \<open>j\<close>: done, put back, or dropped once its retries are used up.\<close>

definition end_cycle ::
  "memory_job \<Rightarrow> (string, nat) result \<Rightarrow> instant \<Rightarrow> memory_scheduler \<Rightarrow> memory_scheduler" where
  "end_cycle j r t s =
     (let s' = s\<lparr>in_flight := remove1 j (in_flight s)\<rparr> in
      case r of
        Inr n \<Rightarrow> s'
      | Inl e \<Rightarrow>
          if retry_remaining j > 0
          then (let left = retry_remaining j - 1;
                    j' = j\<lparr>retry_remaining := left, mj_status := MFailed,
                           lease_until := Some (t + nanos (backoff_secs (max_retries s) left)),
                           last_error := Some e\<rparr> in
                s'\<lparr>job_queue := job_queue s' @ [j']\<rparr>)
          else s')"

text \<open>A whole cycle of a worker that runs alone; the result tells whether a job was processed.\<close>

definition run_cycle ::
  "(string \<Rightarrow> string \<Rightarrow> (string, nat) result) \<Rightarrow> instant \<Rightarrow> instant \<Rightarrow> instant \<Rightarrow> memory_scheduler \<Rightarrow>
     bool \<times> memory_scheduler" where
  "run_cycle distill now t1 t2 s =
     (case begin_cycle now t1 s of
        (None, s') \<Rightarrow> (False, s')
      | (Some j, s') \<Rightarrow> (True, end_cycle j (distill (mj_session j) (mj_transcript j)) t2 s'))"

text \<open>\<open>for _ in 0..100\<close>; the clock gives the three readings of each cycle.\<close>

fun drain_loop ::
  "nat \<Rightarrow> (string \<Rightarrow> string \<Rightarrow> (string, nat) result) \<Rightarrow> (nat \<Rightarrow> instant \<times> instant \<times> instant) \<Rightarrow>
     memory_scheduler \<Rightarrow> memory_scheduler" where
  "drain_loop 0 distill clock s = s"
| "drain_loop (Suc n) distill clock s =
     (case clock n of (t0, t1, t2) \<Rightarrow>
      (case run_cycle distill t0 t1 t2 s of
         (False, s') \<Rightarrow> s'
       | (True, s') \<Rightarrow> drain_loop n distill clock s'))"

definition drain ::
  "(string \<Rightarrow> string \<Rightarrow> (string, nat) result) \<Rightarrow> (nat \<Rightarrow> instant \<times> instant \<times> instant) \<Rightarrow>
     memory_scheduler \<Rightarrow> memory_scheduler" where
  "drain = drain_loop 100"

subsection \<open>Interleaved workers\<close>

datatype memory_op =
    Submit string string
  | Begin instant instant
  | End memory_job "(string, nat) result" instant

fun memory_step :: "memory_op \<Rightarrow> memory_scheduler \<Rightarrow> memory_scheduler" where
  "memory_step (Submit session transcript) s = submit session transcript s"
| "memory_step (Begin now t) s = snd (begin_cycle now t s)"
| "memory_step (End j r t) s = (if j \<in> set (in_flight s) then end_cycle j r t s else s)"

text \<open>
  What remains to be tried: a job in the queue once more than its retries, a job in flight as
  often as it can still be put back.
\<close>

definition tries_left :: "memory_job \<Rightarrow> nat" where
  "tries_left j = Suc (retry_remaining j)"

definition potential :: "memory_scheduler \<Rightarrow> nat" where
  "potential s = sum_list (map tries_left (job_queue s)) + sum_list (map retry_remaining (in_flight s))"

definition waiting_ok :: "nat \<Rightarrow> memory_job \<Rightarrow> bool" where
  "waiting_ok retries j \<longleftrightarrow> retry_remaining j \<le> retries \<and>
     (mj_status j = MQueued \<or> mj_status j = MFailed \<and> lease_until j \<noteq> None)"

definition memory_ok :: "memory_scheduler \<Rightarrow> bool" where
  "memory_ok s \<longleftrightarrow> (\<forall>j \<in> set (job_queue s). waiting_ok (max_retries s) j)
     \<and> (\<forall>j \<in> set (in_flight s). mj_status j = MRunning \<and> retry_remaining j \<le> max_retries s)
     \<and> max_retries s = 3"

lemma take_eligible_some:
  "take_eligible now q = Some (j, q') \<Longrightarrow>
     eligible now j \<and> mset q = add_mset j (mset q') \<and> sum_list (map tries_left q) = tries_left j + sum_list (map tries_left q')"
  by (induction q arbitrary: j q') (auto split: if_splits)

lemma take_eligible_none: "take_eligible now q = None \<longleftrightarrow> (\<forall>j \<in> set q. \<not> eligible now j)"
  by (induction q) auto

lemma take_eligible_set: "take_eligible now q = Some (j, q') \<Longrightarrow> set q = insert j (set q')"
  using take_eligible_some [of now q j q'] by (metis set_mset_add_mset_insert set_mset_mset)

lemma take_eligible_in:
  assumes "take_eligible now q = Some (j, q')"
  shows "j \<in> set q" "k \<in> set q' \<Longrightarrow> k \<in> set q"
  using take_eligible_set [OF assms] by auto

lemma memory_ok_step: "memory_ok s \<Longrightarrow> memory_ok (memory_step x s)"
proof (cases x)
  case (Submit a b)
  then show "memory_ok s \<Longrightarrow> ?thesis"
    by (auto simp: submit_def memory_ok_def new_memory_job_def waiting_ok_def)
next
  case (Begin now t)
  then show "memory_ok s \<Longrightarrow> ?thesis"
    by (auto simp: begin_cycle_def memory_ok_def Let_def waiting_ok_def split: option.split dest: take_eligible_in)
next
  case (End j r t)
  then show "memory_ok s \<Longrightarrow> ?thesis"
    by (auto simp: end_cycle_def memory_ok_def Let_def waiting_ok_def split: sum.split dest!: subsetD [OF set_remove1_subset])
qed

interpretation memory: machine "\<lambda>s. s = memory_new" memory_step memory_ok
  by unfold_locales (simp add: memory_ok_def memory_new_def, rule memory_ok_step)

lemma sum_list_remove1: "x \<in> set xs \<Longrightarrow> sum_list (map f xs) = f x + sum_list (map f (remove1 x xs))"
  for f :: "'a \<Rightarrow> nat"
  by (rule sum_list_map_remove1)

fun attempts :: "memory_op list \<Rightarrow> memory_scheduler \<Rightarrow> nat" where
  "attempts [] s = 0"
| "attempts (x # ops) s =
     (case x of Begin now t \<Rightarrow> (if fst (begin_cycle now t s) = None then 0 else 1) | _ \<Rightarrow> 0)
       + attempts ops (memory_step x s)"

fun submissions :: "memory_op list \<Rightarrow> nat" where
  "submissions [] = 0"
| "submissions (Submit a b # ops) = Suc (submissions ops)"
| "submissions (_ # ops) = submissions ops"

lemma potential_submit: "max_retries s = 3 \<Longrightarrow> potential (submit a b s) \<le> potential s + 4"
  by (auto simp: submit_def potential_def tries_left_def new_memory_job_def)

lemma potential_begin:
  "potential s = potential (snd (begin_cycle now t s)) + (if fst (begin_cycle now t s) = None then 0 else 1)"
  by (auto simp: begin_cycle_def potential_def Let_def tries_left_def split: option.split
      dest!: take_eligible_some)

lemma potential_end: "j \<in> set (in_flight s) \<Longrightarrow> potential (end_cycle j r t s) \<le> potential s"
  using sum_list_remove1 [of j "in_flight s" retry_remaining]
  by (auto simp: end_cycle_def potential_def Let_def tries_left_def split: sum.split)

lemma attempts_bound:
  "memory_ok s \<Longrightarrow> attempts ops s + potential (runs memory_step ops s) \<le> potential s + 4 * submissions ops"
proof (induction ops arbitrary: s)
  case Nil
  then show ?case by simp
next
  case (Cons x ops)
  have ih: "attempts ops (memory_step x s) + potential (runs memory_step ops (memory_step x s))
      \<le> potential (memory_step x s) + 4 * submissions ops"
    using Cons memory_ok_step by blast
  show ?case
  proof (cases x)
    case (Submit a b)
    with ih potential_submit [of s a b] Cons.prems show ?thesis by (simp add: memory_ok_def)
  next
    case (Begin now t)
    with ih potential_begin [of s now t] show ?thesis by simp
  next
    case (End j r t)
    with ih potential_end [of j s r t] show ?thesis by (simp split: if_splits)
  qed
qed

text \<open>
  However workers, submissions and the distiller's answers interleave, the distiller is called
  at most four times for each submission: once and then once per retry.  What may still be
  called for is never more than what is left of that budget.
\<close>
theorem distiller_calls_bounded:
  "attempts ops memory_new + potential (runs memory_step ops memory_new) \<le> 4 * submissions ops"
  using attempts_bound [of memory_new ops] memory.initial_invar [of memory_new]
  by (simp add: potential_def memory_new_def)

text \<open>
  A job a worker runs is in no queue.  The queue only ever holds queued and failed jobs, so
  the takeover of a running job whose lease has expired never happens (the job of a crashed
  worker is lost), and a session submitted again while it is being distilled is accepted: two
  workers then distill it at once.
\<close>
theorem running_job_is_invisible:
  "(\<forall>j \<in> set (job_queue (runs memory_step ops memory_new)). mj_status j \<noteq> MRunning \<and> mj_status j \<noteq> MDone)
   \<and> map mj_session (in_flight (runs memory_step [Submit sess a, Begin t t, Submit sess b, Begin t t] memory_new))
       = [sess, sess]"
proof
  have "memory_ok (runs memory_step ops memory_new)" by (rule memory.reachable_invar) simp
  then show "\<forall>j \<in> set (job_queue (runs memory_step ops memory_new)). mj_status j \<noteq> MRunning \<and> mj_status j \<noteq> MDone"
    by (auto simp: memory_ok_def waiting_ok_def)
  show "map mj_session (in_flight (runs memory_step [Submit sess a, Begin t t, Submit sess b, Begin t t] memory_new))
       = [sess, sess]"
    by (simp add: memory_new_def submit_def begin_cycle_def new_memory_job_def eligible_def Let_def)
qed

theorem running_job_is_invisible_witness:
  "\<forall>j \<in> set (job_queue (runs memory_step [Submit ''s'' ''t''] memory_new)). mj_status j \<noteq> MRunning \<and> mj_status j \<noteq> MDone"
  using running_job_is_invisible [of "[Submit ''s'' ''t'']"] by blast

end
