(* ===== verification/Goal_Loop.thy ===== *)
theory Goal_Loop
  imports Rust_Text
begin

text \<open>
  The goal workflow of \<open>crates/oz-core/src/goal.rs\<close>: run the agent towards a goal, run the
  verification gates, feed the output of a failed gate into the next attempt, and stop with the
  first round in which every gate passes or when the attempts are used up.

  The agent's run and the shell are the environment: \<open>agent\<close> takes the user message and changes
  the world \<open>'w\<close>; \<open>shell\<close> runs a gate's command and yields nothing when it times out or cannot be
  spawned, and otherwise the exit status and the collected output.
\<close>

record verify_spec =
  gate_command :: string
  timeout_secs :: nat
  gate_retries :: nat

definition verify_spec_new :: "string \<Rightarrow> verify_spec" where
  "verify_spec_new cmd = \<lparr>gate_command = cmd, timeout_secs = 60, gate_retries = 3\<rparr>"

record goal_spec =
  goal_text :: string
  gates :: "verify_spec list"
  max_attempts :: nat

record goal_outcome =
  goal_attempts :: nat
  goal_success :: bool
  last_verify_output :: string
  per_gate :: "(string \<times> bool) list"

type_synonym 'w shell = "string \<Rightarrow> nat \<Rightarrow> 'w \<Rightarrow> (bool \<times> string) option \<times> 'w"

definition run_verify :: "'w shell \<Rightarrow> verify_spec \<Rightarrow> 'w \<Rightarrow> (bool \<times> string) \<times> 'w" where
  "run_verify shell spec w =
     (case shell (gate_command spec) (max (timeout_secs spec) 1) w of
        (Some (ok, out), w') \<Rightarrow> ((ok, trim out), w')
      | (None, w') \<Rightarrow> ((False, ''<verify timed out or failed to spawn>''), w'))"

text \<open>\<open>for _ in 0..=gate.retries\<close>: \<open>n\<close> runs are left; the output of the last run is kept.\<close>

fun gate_tries :: "'w shell \<Rightarrow> verify_spec \<Rightarrow> nat \<Rightarrow> string \<Rightarrow> 'w \<Rightarrow> bool \<times> string \<times> 'w" where
  "gate_tries shell gate 0 last_out w = (False, last_out, w)"
| "gate_tries shell gate (Suc n) last_out w =
     (case run_verify shell gate w of
        ((p, out), w') \<Rightarrow> if p then (True, out, w') else gate_tries shell gate n out w')"

fun run_gates ::
  "'w shell \<Rightarrow> verify_spec list \<Rightarrow> (string \<times> bool) list \<Rightarrow> string \<Rightarrow> 'w \<Rightarrow>
     bool \<times> (string \<times> bool) list \<times> string \<times> 'w" where
  "run_gates shell [] done_gates last_out w = (True, done_gates, last_out, w)"
| "run_gates shell (gate # gs) done_gates last_out w =
     (case gate_tries shell gate (Suc (gate_retries gate)) last_out w of
        (passed, out, w') \<Rightarrow>
          if passed then run_gates shell gs (done_gates @ [(gate_command gate, True)]) out w'
          else (False, done_gates @ [(gate_command gate, False)], out, w'))"

text \<open>
  Two characters of the messages, the ellipsis and the dash, lie outside \<open>char\<close> and are
  parameters.
\<close>

record marks =
  ellipsis :: string
  dash :: string

definition newline :: string where
  "newline = [CHR 0x0A]"

definition truncate :: "marks \<Rightarrow> string \<Rightarrow> nat \<Rightarrow> string" where
  "truncate m s n = (if length s \<le> n then s else take n s @ newline @ ellipsis m @ '' [truncated]'')"

definition goal_input :: "marks \<Rightarrow> string \<Rightarrow> string \<Rightarrow> string" where
  "goal_input m goal feedback =
     ''[Goal] '' @ goal @ newline @
     (if feedback \<noteq> []
      then newline @ ''[Previous attempt failed '' @ dash m @ '' verification output]'' @ newline
             @ feedback @ newline @ ''Fix the issues and try again.'' @ newline
      else [])"

text \<open>The \<open>loop\<close>, with the number of attempts made and the feedback of the last one.\<close>

function goal_loop ::
  "marks \<Rightarrow> (string \<Rightarrow> 'w \<Rightarrow> 'w) \<Rightarrow> 'w shell \<Rightarrow> goal_spec \<Rightarrow> nat \<Rightarrow> string \<Rightarrow> 'w \<Rightarrow> goal_outcome \<times> 'w" where
  "goal_loop m agent shell spec attempts feedback w =
     (let attempts' = attempts + 1;
          w1 = agent (goal_input m (goal_text spec) feedback) w in
      if gates spec = []
      then (\<lparr>goal_attempts = attempts', goal_success = True, last_verify_output = [], per_gate = []\<rparr>, w1)
      else (case run_gates shell (gates spec) [] [] w1 of
          (all_passed, pg, out, w2) \<Rightarrow>
            if all_passed
            then (\<lparr>goal_attempts = attempts', goal_success = True, last_verify_output = out, per_gate = pg\<rparr>, w2)
            else if attempts' \<ge> max (max_attempts spec) 1
            then (\<lparr>goal_attempts = attempts', goal_success = False, last_verify_output = out, per_gate = pg\<rparr>, w2)
            else goal_loop m agent shell spec attempts' (truncate m out 4000) w2))"
  by pat_completeness auto
termination
  by (relation "measure (\<lambda>(m, agent, shell, spec, attempts, feedback, w). max (max_attempts spec) 1 - attempts)") auto

declare goal_loop.simps [simp del]

definition run_goal_loop ::
  "marks \<Rightarrow> (string \<Rightarrow> 'w \<Rightarrow> 'w) \<Rightarrow> 'w shell \<Rightarrow> goal_spec \<Rightarrow> 'w \<Rightarrow> goal_outcome \<times> 'w" where
  "run_goal_loop m agent shell spec w = goal_loop m agent shell spec 0 [] w"

subsection \<open>What an outcome means\<close>

text \<open>
  The report of one round: the gates in order, all passed, or up to and including the first that
  failed.
\<close>

definition round_report :: "verify_spec list \<Rightarrow> bool \<Rightarrow> (string \<times> bool) list \<Rightarrow> bool" where
  "round_report gs ok pg \<longleftrightarrow>
     (if ok then pg = map (\<lambda>g. (gate_command g, True)) gs
      else \<exists>n < length gs. pg = map (\<lambda>g. (gate_command g, True)) (take n gs) @ [(gate_command (gs ! n), False)])"

lemma run_gates_report:
  assumes "run_gates shell gs done_gates last_out w = (ok, pg, out, w')"
  shows "\<exists>pg'. pg = done_gates @ pg' \<and> round_report gs ok pg'"
  using assms
proof (induction gs arbitrary: done_gates last_out w)
  case Nil
  then show ?case by (simp add: round_report_def)
next
  case (Cons g gs)
  obtain passed o1 w1 where t: "gate_tries shell g (Suc (gate_retries g)) last_out w = (passed, o1, w1)"
    by (cases "gate_tries shell g (Suc (gate_retries g)) last_out w")
  show ?case
  proof (cases passed)
    case True
    with Cons.prems t have "run_gates shell gs (done_gates @ [(gate_command g, True)]) o1 w1 = (ok, pg, out, w')"
      by (simp del: gate_tries.simps)
    then obtain pg' where pg: "pg = done_gates @ [(gate_command g, True)] @ pg'" and r: "round_report gs ok pg'"
      using Cons.IH by fastforce
    have "round_report (g # gs) ok ((gate_command g, True) # pg')"
    proof (cases ok)
      case True
      with r show ?thesis by (simp add: round_report_def)
    next
      case False
      with r obtain n where "n < length gs"
        "pg' = map (\<lambda>g. (gate_command g, True)) (take n gs) @ [(gate_command (gs ! n), False)]"
        by (auto simp: round_report_def)
      with False show ?thesis by (auto simp: round_report_def intro!: exI [of _ "Suc n"])
    qed
    with pg show ?thesis by auto
  next
    case False
    with Cons.prems t have "\<not> ok" "pg = done_gates @ [(gate_command g, False)]"
      by (simp_all del: gate_tries.simps)
    then show ?thesis by (auto simp: round_report_def intro!: exI [of _ 0])
  qed
qed

text \<open>A gate's verdict: one of its runs passed, or every one of its \<open>retries + 1\<close> runs failed.\<close>

fun states_after :: "'w shell \<Rightarrow> verify_spec \<Rightarrow> nat \<Rightarrow> 'w \<Rightarrow> 'w" where
  "states_after shell g 0 w = w"
| "states_after shell g (Suc n) w = states_after shell g n (snd (run_verify shell g w))"

lemma gate_tries_verdict:
  assumes "gate_tries shell g n o0 w = (ok, out, w')"
  shows "if ok then \<exists>k < n. run_verify shell g (states_after shell g k w) = ((True, out), w')
           \<and> (\<forall>j < k. \<not> fst (fst (run_verify shell g (states_after shell g j w))))
         else \<forall>j < n. \<not> fst (fst (run_verify shell g (states_after shell g j w)))"
  using assms
proof (induction n arbitrary: o0 w)
  case 0
  then show ?case by simp
next
  case (Suc n)
  obtain p o1 w1 where r: "run_verify shell g w = ((p, o1), w1)" by (metis prod.exhaust)
  show ?case
  proof (cases p)
    case True
    with Suc.prems r show ?thesis by (auto intro!: exI [of _ 0])
  next
    case False
    with Suc.prems r have "gate_tries shell g n o1 w1 = (ok, out, w')" by simp
    note ih = Suc.IH [OF this]
    show ?thesis
    proof (cases ok)
      case True
      with ih obtain k where k: "k < n" "run_verify shell g (states_after shell g k w1) = ((True, out), w')"
        "\<forall>j < k. \<not> fst (fst (run_verify shell g (states_after shell g j w1)))" by auto
      have "Suc k < Suc n" "run_verify shell g (states_after shell g (Suc k) w) = ((True, out), w')"
        using k r by simp_all
      moreover have "\<forall>j < Suc k. \<not> fst (fst (run_verify shell g (states_after shell g j w)))"
        using k(3) r \<open>\<not> p\<close> by (auto simp: less_Suc_eq_0_disj)
      ultimately show ?thesis using True by (auto intro!: exI [of _ "Suc k"])
    next
      case False
      with ih \<open>\<not> p\<close> r show ?thesis by (auto simp: less_Suc_eq_0_disj)
    qed
  qed
qed

lemma goal_loop_round:
  assumes "run_gates shell (gates spec) [] [] (agent (goal_input m (goal_text spec) feedback) w) = (ok, pg, o1, w2)"
    and "goal_loop m agent shell spec attempts feedback w = (out, w')"
  shows "goal_attempts out = Suc attempts \<and> goal_success out \<and> ok \<and> per_gate out = pg
       \<or> \<not> ok \<and> Suc attempts \<ge> max (max_attempts spec) 1 \<and> goal_attempts out = Suc attempts
           \<and> \<not> goal_success out \<and> per_gate out = pg
       \<or> gates spec \<noteq> [] \<and> \<not> ok \<and> Suc attempts < max (max_attempts spec) 1
           \<and> goal_loop m agent shell spec (attempts + 1) (truncate m o1 4000) w2 = (out, w')"
  using assms(2)
  by (subst (asm) goal_loop.simps) (use assms(1) in \<open>auto simp: Let_def not_le simp del: One_nat_def split: if_splits\<close>)

lemma goal_loop_outcome:
  assumes "goal_loop m agent shell spec attempts feedback w = (out, w')" and "attempts < max (max_attempts spec) 1"
  shows "attempts < goal_attempts out \<and> goal_attempts out \<le> max (max_attempts spec) 1
       \<and> round_report (gates spec) (goal_success out) (per_gate out)
       \<and> (\<not> goal_success out \<longrightarrow> goal_attempts out = max (max_attempts spec) 1)"
  using assms
proof (induction m agent shell spec attempts feedback w rule: goal_loop.induct)
  case (1 m agent shell spec attempts feedback w)
  let ?w1 = "agent (goal_input m (goal_text spec) feedback) w"
  obtain ok pg o1 w2 where r: "run_gates shell (gates spec) [] [] ?w1 = (ok, pg, o1, w2)"
    by (metis prod.exhaust)
  have rep: "round_report (gates spec) ok pg" using run_gates_report [OF r] by simp
  show ?case
    using goal_loop_round [OF r 1(2)]
  proof (elim disjE conjE)
    assume "gates spec \<noteq> []" "\<not> ok" "Suc attempts < max (max_attempts spec) 1"
      and again: "goal_loop m agent shell spec (attempts + 1) (truncate m o1 4000) w2 = (out, w')"
    then have "attempts + 1 < goal_attempts out \<and> goal_attempts out \<le> max (max_attempts spec) 1
       \<and> round_report (gates spec) (goal_success out) (per_gate out)
       \<and> (\<not> goal_success out \<longrightarrow> goal_attempts out = max (max_attempts spec) 1)"
      by (intro 1(1) [OF refl refl _ r [symmetric] refl refl]) simp_all
    then show ?thesis by simp
  qed (use 1(3) rep in auto)
qed

text \<open>
  The goal loop always returns; it makes at least one attempt and at most the attempts
  allowed (one, if the specification allows none).  It reports success only for a round whose
  gates all passed, in order, and failure only when the attempts are used up and the last round
  ended at a gate that failed, the gates before it having passed.
\<close>
theorem goal_loop_contract:
  "\<exists>out w'. run_goal_loop m agent shell spec w = (out, w')
     \<and> 1 \<le> goal_attempts out \<and> goal_attempts out \<le> max (max_attempts spec) 1
     \<and> (if goal_success out
        then per_gate out = map (\<lambda>g. (gate_command g, True)) (gates spec)
        else goal_attempts out = max (max_attempts spec) 1
             \<and> (\<exists>n < length (gates spec). per_gate out =
                  map (\<lambda>g. (gate_command g, True)) (take n (gates spec)) @ [(gate_command (gates spec ! n), False)]))"
proof -
  obtain out w' where r: "goal_loop m agent shell spec 0 [] w = (out, w')"
    by (cases "goal_loop m agent shell spec 0 [] w")
  from goal_loop_outcome [OF r] r show ?thesis
    unfolding run_goal_loop_def
    by (cases "goal_success out") (simp_all add: round_report_def Suc_le_eq max_def split: if_splits)
qed

text \<open>
  A gate passes a round exactly if one of its first \<open>retries + 1\<close> runs passes, each on the world
  the run before it left; the gate stops at that run, and a gate that fails has failed in all of
  them.
\<close>
theorem gate_passes_within_retries:
  "fst (gate_tries shell g (Suc (gate_retries g)) last_out w) \<longleftrightarrow>
     (\<exists>k \<le> gate_retries g. fst (fst (run_verify shell g (states_after shell g k w))))"
proof -
  obtain ok out w' where r: "gate_tries shell g (Suc (gate_retries g)) last_out w = (ok, out, w')"
    by (metis prod.exhaust)
  from gate_tries_verdict [OF r] show ?thesis
    unfolding r by (cases ok) (auto simp: less_Suc_eq_le)
qed

end
