(* ===== verification/Messages.thy ===== *)
theory Messages
  imports Rust_Text
begin

text \<open>
  The conversation: roles, content blocks and messages of
  \<open>crates/oz-core-types/src/message.rs\<close>, and the trimming of the history to the context window
  of \<open>crates/oz-llm/src/retry.rs\<close>.  The rendering of a JSON value as text is code of the
  \<open>serde_json\<close> package and is the parameter \<open>json_text\<close>.
\<close>

subsection \<open>Messages\<close>

datatype role = SystemRole | UserRole | AssistantRole | ToolRole

fun role_text :: "role \<Rightarrow> string" where
  "role_text SystemRole = ''system''"
| "role_text UserRole = ''user''"
| "role_text AssistantRole = ''assistant''"
| "role_text ToolRole = ''tool''"

datatype content_block =
    TextBlock string "string option"
  | ToolUse string string json
  | ToolResult string content_container "bool option"
  | Thinking string "string option"
  | ImageUrl string "string option"
and content_container =
    ContentText string
  | ContentBlocks "content_block list"

record image_ref =
  image_url :: string
  image_type :: string

record tool_result_item =
  result_id :: string
  result_content :: string
  result_images :: "image_ref list"

record message =
  msg_role :: role
  msg_content :: "content_block list"
  tool_results :: "tool_result_item list option"

definition text_block :: "string \<Rightarrow> content_block" where
  "text_block t = TextBlock t None"

definition user_message :: "string \<Rightarrow> message" where
  "user_message t = \<lparr>msg_role = UserRole, msg_content = [text_block t], tool_results = None\<rparr>"

definition assistant_message :: "string \<Rightarrow> message" where
  "assistant_message t = \<lparr>msg_role = AssistantRole, msg_content = [text_block t], tool_results = None\<rparr>"

definition tool_message :: "string \<Rightarrow> string \<Rightarrow> message" where
  "tool_message i t = \<lparr>msg_role = ToolRole, msg_content = [ToolResult i (ContentText t) None],
      tool_results = None\<rparr>"

fun block_text :: "content_block \<Rightarrow> string option" where
  "block_text (TextBlock t _) = Some t"
| "block_text _ = None"

definition content_text :: "message \<Rightarrow> string" where
  "content_text m = join_with [CHR 0x0A] (List.map_filter block_text (msg_content m))"

fun mark_last :: "content_block list \<Rightarrow> content_block list" where
  "mark_last [] = []"
| "mark_last [TextBlock t _] = [TextBlock t (Some ''ephemeral'')]"
| "mark_last [b] = [b]"
| "mark_last (b # c # bs) = b # mark_last (c # bs)"

definition mark_cache_control :: "message \<Rightarrow> message" where
  "mark_cache_control m = m\<lparr>msg_content := mark_last (msg_content m)\<rparr>"

text \<open>Token counts are 64-bit and saturate.\<close>

record token_usage =
  input_tokens :: nat
  output_tokens :: nat
  total_tokens :: "nat option"

definition sat_add :: "nat \<Rightarrow> nat \<Rightarrow> nat" where
  "sat_add a b = min (a + b) (2 ^ 64 - 1)"

definition usage_merge :: "token_usage \<Rightarrow> token_usage \<Rightarrow> token_usage" where
  "usage_merge u v =
     \<lparr>input_tokens = sat_add (input_tokens u) (input_tokens v),
      output_tokens = sat_add (output_tokens u) (output_tokens v),
      total_tokens =
        (case (total_tokens u, total_tokens v) of
           (Some a, Some b) \<Rightarrow> Some (sat_add a b)
         | (None, Some b) \<Rightarrow> Some b
         | (Some a, None) \<Rightarrow> Some a
         | (None, None) \<Rightarrow> None)\<rparr>"

subsection \<open>The cost of a history\<close>

text \<open>\<open>str::len\<close> counts UTF-8 bytes.\<close>

definition byte_len :: "string \<Rightarrow> nat" where
  "byte_len s = sum_list (map (\<lambda>c. if (of_char c :: nat) < 128 then 1 else 2) s)"

definition inner_len :: "content_block \<Rightarrow> nat" where
  "inner_len b = (case block_text b of Some t \<Rightarrow> byte_len t | None \<Rightarrow> 0)"

fun block_chars :: "(json \<Rightarrow> string) \<Rightarrow> content_block \<Rightarrow> nat" where
  "block_chars json_text (TextBlock t _) = byte_len t"
| "block_chars json_text (ToolUse _ name input) = byte_len name + byte_len (json_text input)"
| "block_chars json_text (ToolResult _ (ContentText t) _) = byte_len t"
| "block_chars json_text (ToolResult _ (ContentBlocks bs) _) = sum_list (map inner_len bs)"
| "block_chars json_text _ = 0"

definition estimate_chars :: "(json \<Rightarrow> string) \<Rightarrow> message list \<Rightarrow> nat" where
  "estimate_chars json_text ms =
     sum_list (map (\<lambda>m. sum_list (map (block_chars json_text) (msg_content m))) ms)"

subsection \<open>Trimming\<close>

fun leading_text :: "content_block \<Rightarrow> string option" where
  "leading_text (TextBlock t _) = Some t"
| "leading_text (ToolResult _ (ContentText t) _) = Some t"
| "leading_text (ToolResult _ (ContentBlocks bs) _) =
     Some (join_with [CHR 0x0A] (List.map_filter block_text bs))"
| "leading_text _ = None"

definition sanitize_leading_user_msg :: "message \<Rightarrow> message" where
  "sanitize_leading_user_msg m =
     m\<lparr>msg_content := [text_block (join_with [CHR 0x0A] (List.map_filter leading_text (msg_content m)))]\<rparr>"

fun sanitize_first :: "message list \<Rightarrow> message list" where
  "sanitize_first [] = []"
| "sanitize_first (m # ms) = sanitize_leading_user_msg m # ms"

text \<open>
  One round: drop the oldest message and then everything up to the next user message, and reduce
  that one to its text.
\<close>

definition trim_once :: "message list \<Rightarrow> message list" where
  "trim_once h = sanitize_first (dropWhile (\<lambda>m. msg_role m \<noteq> UserRole) (tl h))"

lemma sanitize_first_length [simp]: "length (sanitize_first h) = length h"
  by (cases h) simp_all

lemma trim_once_length: "h \<noteq> [] \<Longrightarrow> length (trim_once h) < length h"
  using length_dropWhile_le [of "\<lambda>m. msg_role m \<noteq> UserRole" "tl h"]
  by (cases h) (simp_all add: trim_once_def)

function trim_loop :: "(json \<Rightarrow> string) \<Rightarrow> nat \<Rightarrow> message list \<Rightarrow> message list" where
  "trim_loop json_text target h =
     (if length h > 5 \<and> estimate_chars json_text h > target
      then trim_loop json_text target (trim_once h) else h)"
  by pat_completeness auto
termination
  by (relation "measure (\<lambda>(j, t, h). length h)") (auto intro!: trim_once_length)

declare trim_loop.simps [simp del]

text \<open>
  \<open>(context_win as f64 * 3.0 * 0.6) as usize\<close> is the whole part of nine fifths of the window
  (the rounding of the product cannot reach the next integer below \<open>2 ^ 50\<close>).
\<close>

definition trim_history :: "(json \<Rightarrow> string) \<Rightarrow> nat \<Rightarrow> message list \<Rightarrow> message list" where
  "trim_history json_text context_win h =
     (if estimate_chars json_text h \<le> context_win * 3 then h
      else trim_loop json_text (9 * context_win div 5) h)"

subsection \<open>What trimming leaves\<close>

text \<open>A trimmed history: a suffix that starts with a user message, reduced to its text.\<close>

definition trimmed_from :: "message list \<Rightarrow> message list \<Rightarrow> bool" where
  "trimmed_from h h' \<longleftrightarrow>
     h' = [] \<or> (\<exists>m rest. suffix (m # rest) h \<and> msg_role m = UserRole
                   \<and> h' = sanitize_leading_user_msg m # rest)"

lemma suffix_tl_of: "suffix xs (tl ys) \<Longrightarrow> suffix xs ys"
  by (cases ys) (auto intro: suffix_ConsI)

lemma trim_once_trimmed: "suffix (tl g) (tl h) \<Longrightarrow> trimmed_from h (trim_once g)"
proof -
  assume s: "suffix (tl g) (tl h)"
  show ?thesis
  proof (cases "dropWhile (\<lambda>m. msg_role m \<noteq> UserRole) (tl g)")
    case Nil
    then show ?thesis by (simp add: trim_once_def trimmed_from_def del: dropWhile_eq_Nil_conv)
  next
    case (Cons m rest)
    then have "msg_role m = UserRole" by (simp add: dropWhile_eq_Cons_conv)
    moreover have "suffix (m # rest) (tl g)" using Cons suffix_dropWhile [of _ "tl g"] by metis
    then have "suffix (m # rest) h" using s suffix_order.trans suffix_tl_of by blast
    ultimately show ?thesis using Cons by (auto simp: trim_once_def trimmed_from_def)
  qed
qed

lemma trimmed_tail: "trimmed_from h g \<Longrightarrow> suffix (tl g) (tl h)"
  by (cases h) (auto simp: trimmed_from_def suffix_Cons dest: suffix_ConsD)

lemma trim_loop_trimmed:
  "suffix (tl g) (tl h) \<Longrightarrow> trim_loop j t g = g \<or> trimmed_from h (trim_loop j t g)"
proof (induction j t g rule: trim_loop.induct)
  case (1 j t g)
  show ?case
  proof (cases "length g > 5 \<and> estimate_chars j g > t")
    case True
    have tr: "trimmed_from h (trim_once g)" by (rule trim_once_trimmed [OF 1(2)])
    from 1(1) [OF True trimmed_tail [OF tr]] tr have "trimmed_from h (trim_loop j t (trim_once g))" by auto
    with True show ?thesis by (simp add: trim_loop.simps [of j t g])
  next
    case False
    then show ?thesis by (auto simp: trim_loop.simps [of j t g])
  qed
qed

lemma trim_loop_stops: "length (trim_loop j t h) \<le> 5 \<or> estimate_chars j (trim_loop j t h) \<le> t"
proof (induction j t h rule: trim_loop.induct)
  case (1 j t h)
  show ?case
  proof (cases "length h > 5 \<and> estimate_chars j h > t")
    case True
    with 1 show ?thesis by (simp add: trim_loop.simps [of j t h])
  next
    case False
    then show ?thesis by (auto simp: trim_loop.simps [of j t h] not_less)
  qed
qed

text \<open>
  Trimming leaves a history within the budget alone.  Otherwise it always stops, with at most
  five messages or at most three fifths of the budget; what is left is the history itself, or a
  suffix of it that starts with a user message, reduced to its text so that no tool result is
  left without its call, or nothing at all.
\<close>
theorem trim_history_contract:
  "(estimate_chars j h \<le> win * 3 \<longrightarrow> trim_history j win h = h)
   \<and> (estimate_chars j h > win * 3 \<longrightarrow>
        (length (trim_history j win h) \<le> 5 \<or> estimate_chars j (trim_history j win h) \<le> 9 * win div 5)
      \<and> (trim_history j win h = h \<or> trimmed_from h (trim_history j win h)))"
  using trim_loop_trimmed [of h h j] trim_loop_stops [of j _ h] by (auto simp: trim_history_def)

definition long_task :: "message list" where
  "long_task = user_message (replicate 40 CHR ''x'') #
     concat (replicate 3 [assistant_message (replicate 20 CHR ''y''), tool_message ''t'' (replicate 20 CHR ''z'')])"

theorem trim_history_contract_witness:
  "estimate_chars (\<lambda>_. []) long_task > 10 * 3
   \<and> (length (trim_history (\<lambda>_. []) 10 long_task) \<le> 5
      \<or> estimate_chars (\<lambda>_. []) (trim_history (\<lambda>_. []) 10 long_task) \<le> 9 * 10 div 5)"
proof -
  have big: "estimate_chars (\<lambda>_. []) long_task > 10 * 3" by code_simp
  with trim_history_contract [of "\<lambda>_. []" long_task 10] show ?thesis by blast
qed

text \<open>
  The five messages the loop means to keep are not kept when the only user message is the
  oldest one: a task given in one message and worked on with tool messages loses its whole
  history as soon as it is over the budget and longer than five messages.
\<close>
theorem trim_history_can_empty:
  assumes "length h > 5" and "estimate_chars j h > win * 3" and "\<forall>m \<in> set (tl h). msg_role m \<noteq> UserRole"
  shows "trim_history j win h = []"
proof -
  have "dropWhile (\<lambda>m. msg_role m \<noteq> UserRole) (tl h) = []" using assms(3) by simp
  then have "trim_once h = []" by (simp add: trim_once_def del: dropWhile_eq_Nil_conv)
  moreover have "estimate_chars j h > 9 * win div 5" using assms(2) by simp
  ultimately show ?thesis
    using assms(1,2) by (simp add: trim_history_def trim_loop.simps [of j _ h] trim_loop.simps [of j _ "[]"])
qed

theorem trim_history_can_empty_witness: "trim_history (\<lambda>_. []) 10 long_task = []"
proof (rule trim_history_can_empty)
  show "length long_task > 5" by code_simp
  show "estimate_chars (\<lambda>_. []) long_task > 10 * 3" by code_simp
  show "\<forall>m \<in> set (tl long_task). msg_role m \<noteq> UserRole" by code_simp
qed

end
