(* ===== verification/Llm_Retry.thy ===== *)
theory Llm_Retry
  imports Messages Complex_Main
begin

text \<open>
  Calling a language model: the classification of errors of
  \<open>crates/oz-core-types/src/error.rs\<close>, the retry loop and the delays of
  \<open>crates/oz-llm/src/retry.rs\<close>, the failover between sessions of \<open>crates/oz-llm/src/mixin.rs\<close> and
  the routing of \<open>crates/oz-llm/src/smart_router.rs\<close>.

  A provider is the environment: what the \<open>k\<close>-th call yields is an input.  Sleeping has no
  effect on the result, so the loops return the delays they ask for where the code reports them.
\<close>

subsection \<open>Errors\<close>

datatype llm_error =
    HttpError nat string
  | RequestFailed string
  | StreamError string
  | AllSessionsFailed
  | MaxRetriesExceeded string
  | CustomError string

fun is_permanent :: "llm_error \<Rightarrow> bool" where
  "is_permanent (HttpError status body) \<longleftrightarrow>
     status \<in> {400, 401, 403, 404, 410, 422} \<or> contains_str ''deprecated'' body
       \<or> contains_str ''ModelDeprecated'' body"
| "is_permanent _ \<longleftrightarrow> False"

fun is_retryable :: "llm_error \<Rightarrow> bool" where
  "is_retryable (HttpError status body) \<longleftrightarrow>
     status > 400 \<and> status \<noteq> 401 \<and> status \<noteq> 403 \<and> \<not> is_permanent (HttpError status body)"
| "is_retryable (RequestFailed _) \<longleftrightarrow> True"
| "is_retryable (StreamError _) \<longleftrightarrow> False"
| "is_retryable _ \<longleftrightarrow> False"

subsection \<open>The retry loop\<close>

text \<open>\<open>2u64.pow(attempt)\<close> wraps around; the products with 1.5 are exact.\<close>

definition pow2_u64 :: "nat \<Rightarrow> nat" where
  "pow2_u64 n = 2 ^ n mod 2 ^ 64"

definition compute_delay :: "nat \<Rightarrow> nat option \<Rightarrow> rat" where
  "compute_delay attempt timeout =
     min (3 / 2 * of_nat (pow2_u64 attempt))
         (of_nat (min (case timeout of Some t \<Rightarrow> t | None \<Rightarrow> 30) 30))"

definition outage_backoff_delay :: "nat \<Rightarrow> rat" where
  "outage_backoff_delay attempt = min (3 / 2 * of_nat (pow2_u64 (min attempt 16))) 60"

text \<open>
  \<open>for attempt in 0..=max_retries\<close>: \<open>call k\<close> is the result of the \<open>k\<close>-th call of the operation.  The
  second component lists what was told to \<open>notify\<close>: the attempt, the number of attempts and the
  delay.
\<close>

function retry_loop ::
  "(nat \<Rightarrow> (llm_error, 'a) result) \<Rightarrow> nat \<Rightarrow> nat option \<Rightarrow> nat \<Rightarrow>
     (llm_error, 'a) result \<times> (nat \<times> nat \<times> rat) list" where
  "retry_loop call max_retries timeout attempt =
     (if attempt > max_retries then (Err (MaxRetriesExceeded ''All retry attempts failed''), [])
      else case call attempt of
          Inr val \<Rightarrow> (Ok val, [])
        | Inl e \<Rightarrow>
            if is_retryable e \<and> attempt < max_retries
            then (let d = compute_delay attempt timeout;
                      (r, notes) = retry_loop call max_retries timeout (attempt + 1) in
                  (r, (attempt + 1, max_retries + 1, d) # notes))
            else (Err e, []))"
  by pat_completeness auto
termination
  by (relation "measure (\<lambda>(c, m, t, a). Suc m - a)") auto

declare retry_loop.simps [simp del]

definition retry_with_backoff_notify ::
  "(nat \<Rightarrow> (llm_error, 'a) result) \<Rightarrow> nat option \<Rightarrow> nat option \<Rightarrow>
     (llm_error, 'a) result \<times> (nat \<times> nat \<times> rat) list" where
  "retry_with_backoff_notify call max_retries timeout =
     retry_loop call (case max_retries of Some n \<Rightarrow> n | None \<Rightarrow> 4) timeout 0"

text \<open>A call that is worth repeating.\<close>

definition again :: "(llm_error, 'a) result \<Rightarrow> bool" where
  "again r \<longleftrightarrow> (\<exists>e. r = Err e \<and> is_retryable e)"

text \<open>The call the loop ends with: the first that is not worth repeating, or the last allowed.\<close>

fun last_call :: "(nat \<Rightarrow> (llm_error, 'a) result) \<Rightarrow> nat \<Rightarrow> nat \<Rightarrow> nat" where
  "last_call call 0 k = k"
| "last_call call (Suc n) k = (if again (call k) then last_call call n (Suc k) else k)"

lemma last_call_range: "k \<le> last_call call n k \<and> last_call call n k \<le> k + n"
  by (induction call n k rule: last_call.induct) auto

lemma last_call_first: "k \<le> j \<Longrightarrow> j < last_call call n k \<Longrightarrow> again (call j)"
proof (induction call n k rule: last_call.induct)
  case (1 call k)
  then show ?case by simp
next
  case (2 call n k)
  then show ?case by (cases "j = k") (simp_all split: if_splits)
qed

lemma last_call_stops: "last_call call n k < k + n \<Longrightarrow> \<not> again (call (last_call call n k))"
  by (induction call n k rule: last_call.induct) (auto split: if_splits)

lemma retry_loop_last:
  "attempt \<le> m \<Longrightarrow>
     fst (retry_loop call m timeout attempt) = call (last_call call (m - attempt) attempt)
   \<and> snd (retry_loop call m timeout attempt) =
       map (\<lambda>k. (k + 1, m + 1, compute_delay k timeout)) [attempt ..< last_call call (m - attempt) attempt]"
proof (induction call m timeout attempt rule: retry_loop.induct)
  case (1 call m timeout attempt)
  show ?case
  proof (cases "again (call attempt) \<and> attempt < m")
    case True
    then obtain e where e: "call attempt = Err e" "is_retryable e" by (auto simp: again_def)
    obtain d where d: "m - attempt = Suc d" "m - (attempt + 1) = d"
      using True by (metis Suc_diff_Suc Suc_eq_plus1)
    have "fst (retry_loop call m timeout (attempt + 1)) = call (last_call call d (attempt + 1))
        \<and> snd (retry_loop call m timeout (attempt + 1)) =
            map (\<lambda>k. (k + 1, m + 1, compute_delay k timeout)) [attempt + 1 ..< last_call call d (attempt + 1)]"
      using 1(1) [OF _ e(1)] e(2) True d by simp
    moreover have "attempt < last_call call d (attempt + 1)"
      using last_call_range [of "attempt + 1" call d] by simp
    ultimately show ?thesis
      using True e d
      by (simp add: retry_loop.simps [of call m timeout attempt] split_beta upt_rec [of attempt])
  next
    case False
    then have "last_call call (m - attempt) attempt = attempt" by (cases "m - attempt") auto
    with False 1(2) show ?thesis
      by (cases "call attempt") (auto simp: retry_loop.simps [of call m timeout attempt] again_def)
  qed
qed

text \<open>
  A call is repeated exactly as long as it fails with a retryable error and retries are left:
  the result is that of the first call that succeeds or fails for good, or of the last one
  allowed, never the \<open>MaxRetriesExceeded\<close> after the loop, and one notice is given before each
  repetition, with its number and its delay.
\<close>
theorem retry_contract:
  assumes "n = (case max_retries of Some r \<Rightarrow> r | None \<Rightarrow> 4)"
  shows "\<exists>k \<le> n. retry_with_backoff_notify call max_retries timeout =
            (call k, map (\<lambda>j. (j + 1, n + 1, compute_delay j timeout)) [0 ..< k])
          \<and> (\<forall>j < k. again (call j)) \<and> (k < n \<longrightarrow> \<not> again (call k))"
proof -
  let ?k = "last_call call n 0"
  have "retry_with_backoff_notify call max_retries timeout =
      (call ?k, map (\<lambda>j. (j + 1, n + 1, compute_delay j timeout)) [0 ..< ?k])"
    using retry_loop_last [of 0 n call timeout] assms
    by (simp add: retry_with_backoff_notify_def prod_eq_iff)
  then show ?thesis
    using last_call_range [of 0 call n] last_call_first [of 0 _ call n] last_call_stops [of call n 0]
    by (intro exI [of _ ?k]) simp
qed

theorem retry_contract_witness:
  "\<exists>k \<le> 2. retry_with_backoff_notify (\<lambda>k. if k = 0 then Err (HttpError 503 []) else Ok k) (Some 2) None =
      ((if k = 0 then Err (HttpError 503 []) else Ok k), map (\<lambda>j. (j + 1, 2 + 1, compute_delay j None)) [0 ..< k])"
  using retry_contract [of 2 "Some 2" "\<lambda>k. if k = 0 then Err (HttpError 503 []) else Ok k" None]
  unfolding option.case by blast

lemma pow2_u64_small: "n < 64 \<Longrightarrow> pow2_u64 n = 2 ^ n"
  using power_strict_increasing [of n 64 "2 :: nat"] by (simp add: pow2_u64_def del: numeral_power_eq_of_nat_cancel_iff)

text \<open>
  The waiting time before a repetition is one and a half seconds doubled with each attempt,
  capped at thirty seconds and at the configured time-out; that of the turn-level retry is
  capped at a minute.  From the sixty-fourth repetition on the doubled value wraps around to
  zero and the loop no longer waits at all.
\<close>
theorem retry_delay_bounds:
  "compute_delay attempt timeout \<le> 30
   \<and> (\<forall>t. timeout = Some t \<longrightarrow> compute_delay attempt timeout \<le> of_nat t)
   \<and> (attempt < 64 \<longrightarrow> compute_delay attempt timeout =
        min (3 / 2 * 2 ^ attempt) (min (case timeout of Some t \<Rightarrow> of_nat t | None \<Rightarrow> 30) 30))
   \<and> (64 \<le> attempt \<longrightarrow> compute_delay attempt timeout = 0)
   \<and> outage_backoff_delay attempt = min (3 / 2 * 2 ^ min attempt 16) 60"
proof (intro conjI allI impI)
  show "compute_delay attempt timeout \<le> 30"
    by (simp add: compute_delay_def of_nat_min)
  show "compute_delay attempt timeout \<le> of_nat t" if "timeout = Some t" for t
    using that by (simp add: compute_delay_def of_nat_min)
  show "compute_delay attempt timeout =
        min (3 / 2 * 2 ^ attempt) (min (case timeout of Some t \<Rightarrow> of_nat t | None \<Rightarrow> 30) 30)" if "attempt < 64"
    using that by (simp add: compute_delay_def pow2_u64_small of_nat_min split: option.split)
  show "compute_delay attempt timeout = 0" if "64 \<le> attempt"
  proof -
    have "(2::nat) ^ 64 dvd 2 ^ attempt" using that by (rule le_imp_power_dvd)
    then show ?thesis by (simp add: compute_delay_def pow2_u64_def)
  qed
  show "outage_backoff_delay attempt = min (3 / 2 * 2 ^ min attempt 16) 60"
    by (simp add: outage_backoff_delay_def pow2_u64_small)
qed

theorem retry_delay_bounds_witness:
  "compute_delay 2 (Some 5) \<le> 5 \<and> compute_delay 64 None = 0"
  using retry_delay_bounds [of 2 "Some 5"] retry_delay_bounds [of 64 None] by auto

end
