(* ===== verification/Llm_Sessions.thy ===== *)
theory Llm_Sessions
  imports Llm_Retry
begin

text \<open>
  Several model sessions behind one: the failover of \<open>crates/oz-llm/src/mixin.rs\<close> and the routing
  of \<open>crates/oz-llm/src/smart_router.rs\<close>.  What session \<open>i\<close> answers at attempt \<open>k\<close> is an input;
  the waits between attempts have no effect on the result.
\<close>

subsection \<open>Failover\<close>

text \<open>\<open>sessions\<close> counts the sessions; a call on a mixin without sessions panics, which is \<open>None\<close>.\<close>

record mixin =
  sessions :: nat
  active :: nat
  switched_at :: instant
  spring_back_secs :: int
  retries :: nat

definition mixin_new :: "nat \<Rightarrow> nat option \<Rightarrow> int option \<Rightarrow> instant \<Rightarrow> mixin" where
  "mixin_new n max_retries spring_back now =
     \<lparr>sessions = n, active = 0, switched_at = now,
      spring_back_secs = (case spring_back of Some s \<Rightarrow> s | None \<Rightarrow> 300),
      retries = (case max_retries of Some r \<Rightarrow> r | None \<Rightarrow> 3)\<rparr>"

definition mixin_pick :: "instant \<Rightarrow> mixin \<Rightarrow> nat" where
  "mixin_pick now m =
     (if active m \<noteq> 0 \<and> max 0 (now - switched_at m) > nanos (spring_back_secs m) then 0 else active m)"

definition record_success :: "nat \<Rightarrow> instant \<Rightarrow> mixin \<Rightarrow> mixin" where
  "record_success idx now m =
     (if idx \<noteq> 0 then m\<lparr>active := idx, switched_at := now\<rparr>
      else if active m \<noteq> 0 then m\<lparr>active := 0, switched_at := now\<rparr>
      else m)"

type_synonym 'a answers = "nat \<Rightarrow> nat \<Rightarrow> (llm_error, 'a) result"

text \<open>
  \<open>for attempt in 0..=self.retries\<close>, with \<open>left\<close> attempts to go: the result, the session that
  served it, and the sessions asked.  \<open>move_on\<close> tells after which errors another attempt is made.
\<close>

fun ask_loop ::
  "(llm_error \<Rightarrow> bool) \<Rightarrow> 'a answers \<Rightarrow> nat \<Rightarrow> nat \<Rightarrow> nat \<Rightarrow> nat \<Rightarrow>
     (llm_error, 'a) result \<times> nat option \<times> nat list" where
  "ask_loop move_on answer n base attempt 0 = (Err AllSessionsFailed, None, [])"
| "ask_loop move_on answer n base attempt (Suc left) =
     (let idx = (base + attempt) mod n in
      case answer attempt idx of
        Inr v \<Rightarrow> (Ok v, Some idx, [idx])
      | Inl e \<Rightarrow>
          if move_on e \<and> left \<noteq> 0
          then (let (r, served, asked) = ask_loop move_on answer n base (attempt + 1) left in
                (r, served, idx # asked))
          else (Err e, None, [idx]))"

definition mixin_ask ::
  "(llm_error \<Rightarrow> bool) \<Rightarrow> 'a answers \<Rightarrow> instant \<Rightarrow> instant \<Rightarrow> mixin \<Rightarrow>
     ((llm_error, 'a) result \<times> nat list \<times> mixin) option" where
  "mixin_ask move_on answer now t m =
     (if sessions m = 0 then None
      else (case ask_loop move_on answer (sessions m) (mixin_pick now m) 0 (retries m + 1) of
          (r, served, asked) \<Rightarrow>
            Some (r, asked, case served of Some idx \<Rightarrow> record_success idx t m | None \<Rightarrow> m)))"

definition mixin_raw_ask where
  "mixin_raw_ask = mixin_ask (\<lambda>e. True)"

text \<open>\<open>matches!(e, LlmError::RequestFailed(_) | LlmError::HttpError { .. })\<close>\<close>

fun safe_to_failover :: "llm_error \<Rightarrow> bool" where
  "safe_to_failover (RequestFailed _) = True"
| "safe_to_failover (HttpError _ _) = True"
| "safe_to_failover _ = False"

definition mixin_raw_ask_streaming where
  "mixin_raw_ask_streaming = mixin_ask safe_to_failover"

lemma ask_loop_result:
  "0 < left \<Longrightarrow>
     \<exists>k < left. ask_loop move_on answer n base attempt left =
         (answer (attempt + k) ((base + attempt + k) mod n),
          (case answer (attempt + k) ((base + attempt + k) mod n) of
             Inr v \<Rightarrow> Some ((base + attempt + k) mod n) | Inl e \<Rightarrow> None),
          map (\<lambda>j. (base + attempt + j) mod n) [0 ..< Suc k])
       \<and> (\<forall>j < k. \<exists>e. answer (attempt + j) ((base + attempt + j) mod n) = Err e \<and> move_on e)
       \<and> (Suc k < left \<longrightarrow> \<not> (\<exists>e. answer (attempt + k) ((base + attempt + k) mod n) = Err e \<and> move_on e))"
proof (induction left arbitrary: attempt)
  case 0
  then show ?case by simp
next
  case (Suc left)
  show ?case
  proof (cases "(\<exists>e. answer attempt ((base + attempt) mod n) = Err e \<and> move_on e) \<and> left \<noteq> 0")
    case False
    then show ?thesis
      by (intro exI [of _ 0]) (auto simp: Let_def split: sum.split)
  next
    case True
    then obtain e where e: "answer attempt ((base + attempt) mod n) = Err e" "move_on e" "left \<noteq> 0" by blast
    have shift: "attempt + 1 + x = attempt + Suc x" "base + (attempt + 1) + x = base + attempt + Suc x" for x
      by simp_all
    from e(3) have "0 < left" by simp
    from Suc.IH [OF this, of "attempt + 1", unfolded shift] obtain k where k: "k < left"
      "ask_loop move_on answer n base (attempt + 1) left =
         (answer (attempt + Suc k) ((base + attempt + Suc k) mod n),
          (case answer (attempt + Suc k) ((base + attempt + Suc k) mod n) of
             Inr v \<Rightarrow> Some ((base + attempt + Suc k) mod n) | Inl e \<Rightarrow> None),
          map (\<lambda>j. (base + attempt + Suc j) mod n) [0 ..< Suc k])"
      "\<forall>j < k. \<exists>e. answer (attempt + Suc j) ((base + attempt + Suc j) mod n) = Err e \<and> move_on e"
      "Suc k < left \<longrightarrow> \<not> (\<exists>e. answer (attempt + Suc k) ((base + attempt + Suc k) mod n) = Err e \<and> move_on e)"
      by blast
    have asked: "(base + attempt) mod n # map (\<lambda>j. (base + attempt + Suc j) mod n) [0 ..< Suc k] =
        map (\<lambda>j. (base + attempt + j) mod n) [0 ..< Suc (Suc k)]"
      by (simp add: map_upt_Suc del: upt_Suc)
    have "\<forall>j < Suc k. \<exists>e. answer (attempt + j) ((base + attempt + j) mod n) = Err e \<and> move_on e"
      using k(3) e(1,2) by (auto simp: less_Suc_eq_0_disj)
    then show ?thesis
      using k e asked by (intro exI [of _ "Suc k"]) (simp add: Let_def del: upt_Suc)
  qed
qed

lemma ask_loop_from_start:
  "0 < left \<Longrightarrow>
     \<exists>k < left. ask_loop move_on answer n base 0 left =
         (answer k ((base + k) mod n),
          (case answer k ((base + k) mod n) of Inr v \<Rightarrow> Some ((base + k) mod n) | Inl e \<Rightarrow> None),
          map (\<lambda>j. (base + j) mod n) [0 ..< Suc k])
       \<and> (\<forall>j < k. \<exists>e. answer j ((base + j) mod n) = Err e \<and> move_on e)
       \<and> (Suc k < left \<longrightarrow> \<not> (\<exists>e. answer k ((base + k) mod n) = Err e \<and> move_on e))"
  using ask_loop_result [of left move_on answer n base 0] by (simp only: add_0_left add_0_right)

text \<open>
  A call goes through the sessions in turn, from the one that is active, and stops with the
  first answer or with the first error after which it must not move on; what it returns is what
  the last session asked has said.  In the streaming case every session asked before that one
  had failed before it produced any output, so no partial output is ever followed by another
  session's.
\<close>
theorem failover_contract:
  assumes "mixin_ask move_on answer now t m = Some (r, asked, m')"
  shows "\<exists>k \<le> retries m. let idx = (\<lambda>j. (mixin_pick now m + j) mod sessions m) in
           asked = map idx [0 ..< Suc k] \<and> r = answer k (idx k)
         \<and> (\<forall>j < k. \<exists>e. answer j (idx j) = Err e \<and> move_on e)
         \<and> (k < retries m \<longrightarrow> \<not> (\<exists>e. r = Err e \<and> move_on e))
         \<and> m' = (case r of Inr v \<Rightarrow> record_success (idx k) t m | Inl e \<Rightarrow> m)"
proof -
  from ask_loop_from_start [of "Suc (retries m)" move_on answer "sessions m" "mixin_pick now m"]
  obtain k where "k < Suc (retries m)" and
    l: "ask_loop move_on answer (sessions m) (mixin_pick now m) 0 (Suc (retries m)) =
         (answer k ((mixin_pick now m + k) mod sessions m),
          (case answer k ((mixin_pick now m + k) mod sessions m) of
             Inr v \<Rightarrow> Some ((mixin_pick now m + k) mod sessions m) | Inl e \<Rightarrow> None),
          map (\<lambda>j. (mixin_pick now m + j) mod sessions m) [0 ..< Suc k])"
    and f: "\<forall>j < k. \<exists>e. answer j ((mixin_pick now m + j) mod sessions m) = Err e \<and> move_on e"
      "Suc k < Suc (retries m) \<longrightarrow>
         \<not> (\<exists>e. answer k ((mixin_pick now m + k) mod sessions m) = Err e \<and> move_on e)"
    by blast
  from assms have "asked = map (\<lambda>j. (mixin_pick now m + j) mod sessions m) [0 ..< Suc k]"
    "r = answer k ((mixin_pick now m + k) mod sessions m)"
    "m' = (case r of Inr v \<Rightarrow> record_success ((mixin_pick now m + k) mod sessions m) t m | Inl e \<Rightarrow> m)"
    unfolding mixin_ask_def Suc_eq_plus1 [symmetric] l
    by (auto simp del: upt_Suc split: if_splits sum.splits)
  with \<open>k < Suc (retries m)\<close> f show ?thesis
    by (intro exI [of _ k]) (simp add: Let_def del: upt_Suc)
qed

definition demo_mixin :: mixin where
  "demo_mixin = mixin_new 2 None None 0"

definition demo_answers :: "nat answers" where
  "demo_answers k i = (if i = 0 then Err (HttpError 503 []) else Ok 7)"

theorem failover_contract_witness:
  "\<exists>r asked m'. mixin_raw_ask_streaming demo_answers 0 5 demo_mixin = Some (r, asked, m')
     \<and> (\<exists>k \<le> 3. r = demo_answers k (k mod 2))"
proof -
  obtain r asked m' where c: "mixin_ask safe_to_failover demo_answers 0 5 demo_mixin = Some (r, asked, m')"
    by (cases "ask_loop safe_to_failover demo_answers 2 (mixin_pick 0 demo_mixin) 0 4")
      (auto simp: mixin_ask_def demo_mixin_def mixin_new_def simp del: ask_loop.simps)
  have "mixin_pick 0 demo_mixin = 0" "sessions demo_mixin = 2" "retries demo_mixin = 3"
    by (simp_all add: demo_mixin_def mixin_new_def mixin_pick_def)
  with failover_contract [OF c] c show ?thesis
    unfolding mixin_raw_ask_streaming_def Let_def by auto
qed

lemma rotation_reaches: "0 < n \<Longrightarrow> j < n \<Longrightarrow> \<exists>k < n. (base + k) mod n = (j :: nat)"
proof -
  assume n: "0 < n" and j: "j < n"
  let ?k = "(j + n - base mod n) mod n"
  have le: "base mod n \<le> j + n" using n by (simp add: trans_le_add2 less_imp_le)
  have "(base + ?k) mod n = (base mod n + (j + n - base mod n)) mod n" by presburger
  also have "\<dots> = j" using le j by simp
  finally show ?thesis using n by (intro exI [of _ ?k]) simp
qed

text \<open>
  As long as there are no more sessions than attempts, a call that may move on after every
  error succeeds whenever some session answers.  The session that served it stays active (the
  next calls go there first) until the spring-back time has passed since its last success; then
  the primary is tried again.
\<close>
theorem failover_finds_live_session:
  assumes "0 < sessions m" and "sessions m \<le> retries m + 1"
    and "live < sessions m" and "\<And>k. \<exists>v. answer k live = Ok v"
    and "mixin_raw_ask answer now t m = Some (r, asked, m')"
  shows "\<exists>v idx. r = Ok v \<and> idx < sessions m \<and> idx = last asked
           \<and> (\<forall>now'. t \<le> now' \<and> now' - t \<le> nanos (spring_back_secs m) \<longrightarrow> mixin_pick now' m' = idx)
           \<and> (\<forall>now'. now' - t > nanos (spring_back_secs m) \<and> 0 \<le> spring_back_secs m \<longrightarrow> mixin_pick now' m' = 0)"
proof -
  let ?idx = "\<lambda>j. (mixin_pick now m + j) mod sessions m"
  from failover_contract [of "\<lambda>_. True" answer now t m r asked m'] assms(5) obtain k where
    k: "k \<le> retries m" "asked = map ?idx [0 ..< Suc k]" "r = answer k (?idx k)"
      "\<forall>j < k. \<exists>e. answer j (?idx j) = Err e" "k < retries m \<longrightarrow> \<not> (\<exists>e. r = Err e)"
      "m' = (case r of Inr v \<Rightarrow> record_success (?idx k) t m | Inl e \<Rightarrow> m)"
    by (auto simp: mixin_raw_ask_def Let_def simp del: upt_Suc)
  obtain j where j: "j < sessions m" "?idx j = live" using rotation_reaches [OF assms(1,3)] by blast
  obtain v where v: "r = Ok v"
  proof (cases r)
    case (Inl e)
    with k(1,5) have "k = retries m" by auto
    moreover have "j \<noteq> k" using k(3) j(2) assms(4) [of k] Inl by auto
    ultimately have "j < k" using j(1) assms(2) by simp
    with k(4) j(2) assms(4) [of j] show ?thesis by fastforce
  qed auto
  have "last asked = ?idx k" by (simp add: k(2))
  moreover have "?idx k < sessions m" using assms(1) by simp
  moreover have "nanos (spring_back_secs m) \<ge> 0" if "0 \<le> spring_back_secs m" using that by (simp add: nanos_def)
  ultimately show ?thesis
    using k(6) v by (auto simp: record_success_def mixin_pick_def)
qed

theorem failover_finds_live_session_witness:
  "\<exists>r asked m'. mixin_raw_ask demo_answers 0 5 demo_mixin = Some (r, asked, m') \<and> (\<exists>v. r = Ok v)
     \<and> last asked < 2"
proof -
  obtain r asked m' where c: "mixin_raw_ask demo_answers 0 5 demo_mixin = Some (r, asked, m')"
    by (cases "ask_loop (\<lambda>_. True) demo_answers 2 (mixin_pick 0 demo_mixin) 0 4")
      (auto simp: mixin_raw_ask_def mixin_ask_def demo_mixin_def mixin_new_def simp del: ask_loop.simps)
  have m: "sessions demo_mixin = 2" "retries demo_mixin = 3" by (simp_all add: demo_mixin_def mixin_new_def)
  have "\<exists>v. demo_answers k 1 = Ok v" for k by (simp add: demo_answers_def)
  from failover_finds_live_session [OF _ _ _ this c] m c show ?thesis by auto
qed

subsection \<open>Routing by complexity\<close>

datatype complexity = Simple | Complex

definition CODE_MARKS :: "string list" where
  "CODE_MARKS = [[CHR 0x60, CHR 0x60, CHR 0x60], ''fn '', ''impl '', ''struct '', ''pub '']"

definition COMPLEX_KEYWORDS :: "string list" where
  "COMPLEX_KEYWORDS =
     [''analyze'', ''refactor'', ''optimize'', ''compare'', ''architecture'', ''design pattern'',
      ''security'', ''performance'', ''algorithm'', ''multi-step'', ''complex'']"

definition estimate_complexity :: "string \<Rightarrow> nat \<Rightarrow> complexity" where
  "estimate_complexity prompt n_tools =
     (let has_code = list_ex (\<lambda>w. contains_str w prompt) CODE_MARKS;
          has_complex_keywords = list_ex (\<lambda>w. contains_str w (to_lowercase prompt)) COMPLEX_KEYWORDS in
      if byte_len prompt > 2000 \<or> has_code \<or> has_complex_keywords \<or> n_tools > 5 then Complex else Simple)"

text \<open>A session as far as the router touches it: its system prompt and its tools.\<close>

record session_conf =
  sess_name :: string
  sess_system :: string
  sess_tools :: "string list"

record smart_router =
  cheap :: session_conf
  flagship :: session_conf
  cheap_count :: nat
  flagship_count :: nat
  route_rules :: "(string \<times> session_conf) list"

definition router_new :: "session_conf \<Rightarrow> session_conf \<Rightarrow> smart_router" where
  "router_new c f = \<lparr>cheap = c, flagship = f, cheap_count = 0, flagship_count = 0, route_rules = []\<rparr>"

definition router_from_config ::
  "session_conf \<Rightarrow> session_conf \<Rightarrow> (string \<times> session_conf) list \<Rightarrow> smart_router" where
  "router_from_config c f rules = (router_new c f)\<lparr>route_rules := rules\<rparr>"

definition router_pick :: "string \<Rightarrow> nat \<Rightarrow> smart_router \<Rightarrow> session_conf \<times> smart_router" where
  "router_pick prompt n_tools r =
     (case find (\<lambda>(pat, sess). contains_str (to_lowercase pat) (to_lowercase prompt)) (route_rules r) of
        Some (pat, sess) \<Rightarrow> (sess, r)
      | None \<Rightarrow>
          if estimate_complexity prompt n_tools = Simple
          then (cheap r, r\<lparr>cheap_count := cheap_count r + 1\<rparr>)
          else (flagship r, r\<lparr>flagship_count := flagship_count r + 1\<rparr>))"

definition router_stats :: "smart_router \<Rightarrow> nat \<times> nat" where
  "router_stats r = (cheap_count r, flagship_count r)"

definition router_set_system :: "string \<Rightarrow> smart_router \<Rightarrow> smart_router" where
  "router_set_system system r =
     r\<lparr>cheap := (cheap r)\<lparr>sess_system := system\<rparr>, flagship := (flagship r)\<lparr>sess_system := system\<rparr>\<rparr>"

definition router_set_tools :: "string list \<Rightarrow> smart_router \<Rightarrow> smart_router" where
  "router_set_tools tools r =
     r\<lparr>cheap := (cheap r)\<lparr>sess_tools := tools\<rparr>, flagship := (flagship r)\<lparr>sess_tools := tools\<rparr>\<rparr>"

text \<open>\<open>raw_ask\<close> routes on the text of the messages and never passes any tools to the choice.\<close>

definition router_raw_ask :: "message list \<Rightarrow> smart_router \<Rightarrow> session_conf \<times> smart_router" where
  "router_raw_ask messages r =
     router_pick (join_with '' '' (map (\<lambda>b. case block_text b of Some t \<Rightarrow> t | None \<Rightarrow> [])
       (concat (map msg_content messages)))) 0 r"

text \<open>
  The router takes the first rule whose pattern occurs in the prompt, whatever the case of
  its letters, and otherwise the cheap session exactly for the simple prompts; each choice
  without a rule is counted once.  The sessions of the rules are not reached by \<open>set_system\<close>
  and \<open>set_tools\<close>: a routed call runs with the prompt and the tools the session was built with.
\<close>
theorem router_contract:
  "(case find (\<lambda>(pat, sess). contains_str (to_lowercase pat) (to_lowercase prompt)) (route_rules r) of
      Some (pat, sess) \<Rightarrow>
        fst (router_pick prompt n (router_set_tools tools (router_set_system system r))) = sess
    | None \<Rightarrow>
        (let (s, r') = router_pick prompt n (router_set_tools tools (router_set_system system r)) in
           sess_system s = system \<and> sess_tools s = tools
         \<and> sess_name s = sess_name (if estimate_complexity prompt n = Simple then cheap r else flagship r)
         \<and> fst (router_stats r') + snd (router_stats r') = Suc (fst (router_stats r) + snd (router_stats r))))"
  by (auto simp: router_pick_def router_set_system_def router_set_tools_def router_stats_def
      split: option.split)

end
