(* ===== verification/Wal.thy ===== *)
theory Wal
  imports Prelude "HOL-Library.Word"
begin

text \<open>
  The write-ahead log of checkpoints of \<open>crates/oz-core/src/checkpoint.rs\<close>: a memory-mapped file
  with a header of eight bytes, then records, each a 32-bit little-endian length and that many
  bytes, and zeros up to the capacity.

  The map is the list of the file's bytes.  Parsing and rendering a checkpoint is the work of
  \<open>serde_json\<close>: \<open>parse\<close> and \<open>ser\<close> are parameters.  \<open>grown\<close> tells whether the operating system
  lets the file grow.
\<close>

subsection \<open>Bytes\<close>

type_synonym byte = "8 word"

definition le32 :: "nat \<Rightarrow> byte list" where
  "le32 n = map of_nat [n, n div 256, n div 65536, n div 16777216]"

fun from_le32 :: "byte list \<Rightarrow> nat" where
  "from_le32 [a, b, c, d] = unat a + 256 * unat b + 65536 * unat c + 16777216 * unat d"
| "from_le32 _ = 0"

lemma length_le32 [simp]: "length (le32 n) = 4"
  by (simp add: le32_def)

lemma unat_byte: "unat (of_nat n :: byte) = n mod 256"
  by (simp add: unat_of_nat)

lemma from_le32_le32: "from_le32 (le32 n) = n mod 2 ^ 32"
proof -
  have "n mod 256 + 256 * (n div 256 mod 256) = n mod 65536"
    using mod_mult2_eq [of n 256 256] by simp
  moreover have "n mod 65536 + 65536 * (n div 65536 mod 256) = n mod 16777216"
    using mod_mult2_eq [of n 65536 256] by simp
  moreover have "n mod 16777216 + 16777216 * (n div 16777216 mod 256) = n mod 4294967296"
    using mod_mult2_eq [of n 16777216 256] by simp
  moreover have "from_le32 (le32 n) = n mod 256 + 256 * (n div 256 mod 256)
      + 65536 * (n div 65536 mod 256) + 16777216 * (n div 16777216 mod 256)"
    by (simp only: le32_def list.map from_le32.simps unat_byte)
  ultimately have "from_le32 (le32 n) = n mod 4294967296" by linarith
  then show ?thesis by simp
qed

lemma four_zeros: "replicate 4 (0 :: byte) = [0, 0, 0, 0]"
  by (simp add: eval_nat_numeral)

lemma from_le32_zeros [simp]: "from_le32 (replicate 4 0) = 0"
  by (simp add: four_zeros)

lemma le32_zero: "le32 0 = replicate 4 0"
  by (simp add: four_zeros le32_def)

subsection \<open>The log\<close>

definition WAL_MAGIC :: "byte list" where
  "WAL_MAGIC = [0x47, 0x41, 0x57, 0x4C]"

definition WAL_VERSION :: nat where
  "WAL_VERSION = 1"

definition WAL_HEADER_SIZE :: nat where
  "WAL_HEADER_SIZE = 8"

definition WAL_INITIAL_SIZE :: nat where
  "WAL_INITIAL_SIZE = 2 ^ 20"

record mmap_wal =
  wal_map :: "byte list"
  cursor :: nat
  capacity :: nat
  records :: nat

text \<open>\<open>data[pos..pos + n]\<close> and \<open>map[pos..pos + n].copy_from_slice(bs)\<close>\<close>

definition slice :: "byte list \<Rightarrow> nat \<Rightarrow> nat \<Rightarrow> byte list" where
  "slice data pos n = take n (drop pos data)"

definition write_at :: "byte list \<Rightarrow> nat \<Rightarrow> byte list \<Rightarrow> byte list" where
  "write_at data pos bs = take pos data @ bs @ drop (pos + length bs) data"

text \<open>\<open>set_len\<close> beyond the end of a file fills it with zeros.\<close>

definition extend_to :: "nat \<Rightarrow> byte list \<Rightarrow> byte list" where
  "extend_to n data = data @ replicate (n - length data) 0"

function scan_records_counted :: "byte list \<Rightarrow> nat \<Rightarrow> nat \<Rightarrow> nat \<times> nat" where
  "scan_records_counted data pos count =
     (if pos + 4 > length data then (pos, count)
      else (let len = from_le32 (slice data pos 4) in
        if pos + 4 + len > length data then (pos, count)
        else scan_records_counted data (pos + 4 + len) (count + 1)))"
  by pat_completeness auto
termination
  by (relation "measure (\<lambda>(data, pos, count). length data - pos)") auto

function wal_latest_loop :: "(byte list \<Rightarrow> 'c option) \<Rightarrow> byte list \<Rightarrow> nat \<Rightarrow> 'c option \<Rightarrow> 'c option" where
  "wal_latest_loop parse data pos latest =
     (if pos + 4 > length data then latest
      else (let len = from_le32 (slice data pos 4) in
        if pos + 4 + len > length data then latest
        else wal_latest_loop parse data (pos + 4 + len)
               (case parse (slice data (pos + 4) len) of Some cp \<Rightarrow> Some cp | None \<Rightarrow> latest)))"
  by pat_completeness auto
termination
  by (relation "measure (\<lambda>(parse, data, pos, latest). length data - pos)") auto

function wal_all_loop :: "(byte list \<Rightarrow> 'c option) \<Rightarrow> byte list \<Rightarrow> nat \<Rightarrow> 'c list" where
  "wal_all_loop parse data pos =
     (if pos + 4 > length data then []
      else (let len = from_le32 (slice data pos 4) in
        if pos + 4 + len > length data then []
        else (case parse (slice data (pos + 4) len) of Some cp \<Rightarrow> [cp] | None \<Rightarrow> [])
               @ wal_all_loop parse data (pos + 4 + len)))"
  by pat_completeness auto
termination
  by (relation "measure (\<lambda>(parse, data, pos). length data - pos)") auto

declare scan_records_counted.simps [simp del] wal_latest_loop.simps [simp del] wal_all_loop.simps [simp del]

definition wal_latest :: "(byte list \<Rightarrow> 'c option) \<Rightarrow> mmap_wal \<Rightarrow> 'c option" where
  "wal_latest parse w = wal_latest_loop parse (wal_map w) WAL_HEADER_SIZE None"

definition wal_all :: "(byte list \<Rightarrow> 'c option) \<Rightarrow> mmap_wal \<Rightarrow> 'c list" where
  "wal_all parse w = wal_all_loop parse (wal_map w) WAL_HEADER_SIZE"

definition fresh_map :: "byte list" where
  "fresh_map = WAL_MAGIC @ le32 WAL_VERSION @ replicate (WAL_INITIAL_SIZE - WAL_HEADER_SIZE) 0"

text \<open>\<open>MmapWal::open\<close> on the bytes of the file (none for a new file).\<close>

definition wal_open :: "byte list \<Rightarrow> (string, mmap_wal) result" where
  "wal_open file =
     (if file = []
      then Ok \<lparr>wal_map = fresh_map, cursor = WAL_HEADER_SIZE, capacity = WAL_INITIAL_SIZE, records = 0\<rparr>
      else (let cap = max (length file) WAL_INITIAL_SIZE;
                m = extend_to cap file in
        if take 4 m \<noteq> WAL_MAGIC then Err ''invalid WAL magic bytes''
        else (let (c, n) = scan_records_counted m WAL_HEADER_SIZE 0 in
          Ok \<lparr>wal_map = m, cursor = c, capacity = cap, records = n\<rparr>)))"

function next_pow2_from :: "nat \<Rightarrow> nat \<Rightarrow> nat" where
  "next_pow2_from p n = (if p = 0 \<or> n \<le> p then p else next_pow2_from (2 * p) n)"
  by pat_completeness auto
termination
  by (relation "measure (\<lambda>(p, n). n - p)") auto

declare next_pow2_from.simps [simp del]

definition next_power_of_two :: "nat \<Rightarrow> nat" where
  "next_power_of_two n = next_pow2_from 1 n"

definition wal_grow :: "nat \<Rightarrow> mmap_wal \<Rightarrow> mmap_wal" where
  "wal_grow new_cap w = w\<lparr>wal_map := extend_to new_cap (wal_map w), capacity := new_cap\<rparr>"

definition append_bytes :: "bool \<Rightarrow> byte list \<Rightarrow> mmap_wal \<Rightarrow> (string, unit) result \<times> mmap_wal" where
  "append_bytes grown json w =
     (let record_len = 4 + length json;
          needed = cursor w + record_len in
      if needed > capacity w \<and> \<not> grown then (Err ''grow failed'', w)
      else (let w1 = (if needed > capacity w
                      then wal_grow (max (next_power_of_two needed) (capacity w * 2)) w else w);
                m1 = write_at (wal_map w1) (cursor w1) (le32 (length json));
                m2 = write_at m1 (cursor w1 + 4) json in
        (Ok (), w1\<lparr>wal_map := m2, cursor := cursor w1 + record_len, records := records w1 + 1\<rparr>)))"

subsection \<open>What a log contains\<close>

definition frames :: "byte list list \<Rightarrow> byte list" where
  "frames rs = concat (map (\<lambda>r. le32 (length r) @ r) rs)"

text \<open>The record bodies the three loops see, and where they stop.\<close>

function raw_records :: "byte list \<Rightarrow> nat \<Rightarrow> byte list list \<times> nat" where
  "raw_records data pos =
     (if pos + 4 > length data then ([], pos)
      else (let len = from_le32 (slice data pos 4) in
        if pos + 4 + len > length data then ([], pos)
        else (let (rs, e) = raw_records data (pos + 4 + len) in (slice data (pos + 4) len # rs, e))))"
  by pat_completeness auto
termination
  by (relation "measure (\<lambda>(data, pos). length data - pos)") auto

declare raw_records.simps [simp del]

lemma scan_raw: "scan_records_counted data pos count =
    (snd (raw_records data pos), count + length (fst (raw_records data pos)))"
proof (induction data pos count rule: scan_records_counted.induct)
  case (1 data pos count)
  then show ?case
    by (simp add: scan_records_counted.simps [of data pos count] raw_records.simps [of data pos] Let_def split_beta)
qed

lemma all_raw: "wal_all_loop parse data pos = List.map_filter parse (fst (raw_records data pos))"
proof (induction parse data pos rule: wal_all_loop.induct)
  case (1 parse data pos)
  then show ?case
    by (simp add: wal_all_loop.simps [of parse data pos] raw_records.simps [of data pos] Let_def split_beta
        map_filter_simps split: option.split)
qed

definition last_opt :: "'a list \<Rightarrow> 'a option \<Rightarrow> 'a option" where
  "last_opt xs d = (if xs = [] then d else Some (last xs))"

lemma latest_raw: "wal_latest_loop parse data pos acc =
    last_opt (List.map_filter parse (fst (raw_records data pos))) acc"
proof (induction parse data pos acc rule: wal_latest_loop.induct)
  case (1 parse data pos acc)
  then show ?case
    by (simp add: wal_latest_loop.simps [of parse data pos acc] raw_records.simps [of data pos] Let_def split_beta
        map_filter_simps last_opt_def split: option.split)
qed

lemma slice_at [simp]: "slice (pre @ xs @ rest) (length pre) (length xs) = xs"
  by (simp add: slice_def)

lemma raw_zeros:
  "raw_records (pre @ replicate z 0) (length pre) = (replicate (z div 4) [], length pre + 4 * (z div 4))"
proof (induction z arbitrary: pre rule: less_induct)
  case (less z)
  show ?case
  proof (cases "z < 4")
    case True
    then show ?thesis by (simp add: raw_records.simps)
  next
    case False
    then have z: "replicate z 0 = replicate 4 (0 :: byte) @ replicate (z - 4) 0"
      by (metis not_less le_add_diff_inverse replicate_add)
    have "slice (pre @ replicate z 0) (length pre) 4 = replicate 4 0"
      unfolding z using slice_at [of pre "replicate 4 0" "replicate (z - 4) 0"] by simp
    moreover have "raw_records (pre @ replicate z 0) (length pre + 4) =
        (replicate ((z - 4) div 4) [], length pre + 4 + 4 * ((z - 4) div 4))"
      using less [of "z - 4" "pre @ replicate 4 0"] False by (simp add: z)
    moreover have "z div 4 = Suc ((z - 4) div 4)" using False by simp
    ultimately show ?thesis
      using False by (simp add: raw_records.simps [of "pre @ replicate z 0" "length pre"] slice_def [of _ _ 0])
  qed
qed

lemma raw_frames:
  "\<forall>r \<in> set rs. length r < 2 ^ 32 \<Longrightarrow>
     raw_records (pre @ frames rs @ replicate z 0) (length pre) =
       (rs @ replicate (z div 4) [], length pre + length (frames rs) + 4 * (z div 4))"
proof (induction rs arbitrary: pre)
  case Nil
  then show ?case by (simp add: frames_def raw_zeros)
next
  case (Cons r rs)
  define data where "data = pre @ frames (r # rs) @ replicate z 0"
  have d: "data = pre @ le32 (length r) @ r @ frames rs @ replicate z 0" by (simp add: data_def frames_def)
  have len: "slice data (length pre) 4 = le32 (length r)"
    unfolding d using slice_at [of pre "le32 (length r)" "r @ frames rs @ replicate z 0"] by simp
  have body: "slice data (length pre + 4) (length r) = r"
    unfolding d using slice_at [of "pre @ le32 (length r)" r "frames rs @ replicate z 0"] by simp
  have rest: "raw_records data (length pre + 4 + length r) =
      (rs @ replicate (z div 4) [], length pre + 4 + length r + length (frames rs) + 4 * (z div 4))"
    unfolding d using Cons.IH [of "pre @ le32 (length r) @ r"] Cons.prems by (simp add: add.assoc)
  have fits: "\<not> length pre + 4 > length data" "\<not> length pre + 4 + length r > length data" by (simp_all add: d)
  have n: "from_le32 (le32 (length r)) = length r" using Cons.prems by (simp add: from_le32_le32)
  have "raw_records data (length pre) =
      (r # rs @ replicate (z div 4) [], length pre + 4 + length r + length (frames rs) + 4 * (z div 4))"
    unfolding raw_records.simps [of data "length pre"] Let_def len n using fits body rest by simp
  then show ?case by (simp add: data_def [symmetric]) (simp add: frames_def)
qed

subsection \<open>The state of a log\<close>

definition wal_header :: "byte list" where
  "wal_header = WAL_MAGIC @ le32 WAL_VERSION"

definition small_records :: "byte list list \<Rightarrow> bool" where
  "small_records rs \<longleftrightarrow> (\<forall>r \<in> set rs. length r < 2 ^ 32)"

text \<open>The bytes of a log that holds the records \<open>rs\<close>, with \<open>z\<close> zeros behind.\<close>

definition wal_bytes :: "byte list list \<Rightarrow> nat \<Rightarrow> byte list" where
  "wal_bytes rs z = wal_header @ frames rs @ replicate z 0"

definition wal_ok :: "mmap_wal \<Rightarrow> byte list list \<Rightarrow> bool" where
  "wal_ok w rs \<longleftrightarrow> (\<exists>z. wal_map w = wal_bytes rs z) \<and> cursor w = WAL_HEADER_SIZE + length (frames rs)
     \<and> capacity w = length (wal_map w) \<and> records w = length rs \<and> small_records rs"

lemma wal_header_length [simp]: "length wal_header = WAL_HEADER_SIZE"
  by (simp add: wal_header_def WAL_MAGIC_def WAL_HEADER_SIZE_def)

lemma frames_simps [simp]: "frames (rs @ [r]) = frames rs @ le32 (length r) @ r" "frames [] = []"
  by (simp_all add: frames_def)

lemma frames_zeros: "frames (replicate k []) = replicate (4 * k) 0"
proof (induction k)
  case (Suc k)
  have "frames (replicate (Suc k) []) = replicate 4 0 @ replicate (4 * k) 0"
    using Suc by (simp add: frames_def le32_zero)
  then show ?case by (simp add: replicate_add [symmetric])
qed simp

lemma frames_append: "frames (rs @ qs) = frames rs @ frames qs"
  by (simp add: frames_def)

lemma wal_bytes_raw:
  "small_records rs \<Longrightarrow> raw_records (wal_bytes rs z) WAL_HEADER_SIZE =
     (rs @ replicate (z div 4) [], WAL_HEADER_SIZE + length (frames rs) + 4 * (z div 4))"
  using raw_frames [of rs wal_header z] by (simp add: wal_bytes_def small_records_def)

lemma wal_bytes_padding: "wal_bytes rs z = wal_bytes (rs @ replicate (z div 4) []) (z mod 4)"
proof -
  have "replicate z (0 :: byte) = replicate (4 * (z div 4)) 0 @ replicate (z mod 4) 0"
    by (metis mult_div_mod_eq replicate_add)
  then show ?thesis by (simp add: wal_bytes_def frames_append frames_zeros)
qed

lemma wal_latest_bytes:
  "wal_map w = wal_bytes rs z \<Longrightarrow> small_records rs \<Longrightarrow> parse [] = None \<Longrightarrow>
     wal_latest parse w = last_opt (List.map_filter parse rs) None
   \<and> wal_all parse w = List.map_filter parse rs"
proof -
  assume a: "wal_map w = wal_bytes rs z" "small_records rs" "parse [] = None"
  have "List.map_filter parse (replicate n []) = []" for n
    using a(3) by (induction n) (simp_all add: map_filter_simps)
  with a show ?thesis
    by (simp add: wal_latest_def wal_all_def latest_raw all_raw wal_bytes_raw map_filter_append)
qed

lemma next_pow2_from_ge: "0 < p \<Longrightarrow> n \<le> next_pow2_from p n"
proof (induction p n rule: next_pow2_from.induct)
  case (1 p n)
  then show ?case by (cases "n \<le> p") (simp_all add: next_pow2_from.simps [of p n])
qed

lemma next_power_of_two_ge: "n \<le> next_power_of_two n"
  by (simp add: next_power_of_two_def next_pow2_from_ge)

lemma write_at_end:
  "length bs \<le> z \<Longrightarrow> write_at (pre @ replicate z 0) (length pre) bs = (pre @ bs) @ replicate (z - length bs) 0"
  by (simp add: write_at_def)

lemma append_bytes_ok:
  assumes "wal_ok w rs" and "length json < 2 ^ 32" and "append_bytes grown json w = (Ok (), w')"
  shows "wal_ok w' (rs @ [json])" and "length (wal_map w) \<le> length (wal_map w')"
proof -
  obtain z where z: "wal_map w = (wal_header @ frames rs) @ replicate z 0"
    using assms(1) by (auto simp: wal_ok_def wal_bytes_def)
  have cur: "cursor w = length (wal_header @ frames rs)" and cap: "capacity w = length (wal_map w)"
    and recs: "records w = length rs" and small: "small_records rs"
    using assms(1) by (simp_all add: wal_ok_def)
  define w1 where "w1 = (if cursor w + (4 + length json) > capacity w
      then wal_grow (max (next_power_of_two (cursor w + (4 + length json))) (capacity w * 2)) w else w)"
  obtain y where y: "wal_map w1 = (wal_header @ frames rs) @ replicate y 0" "4 + length json \<le> y"
    and w1: "cursor w1 = cursor w" "capacity w1 = length (wal_map w1)" "records w1 = records w"
      "length (wal_map w) \<le> length (wal_map w1)"
  proof (cases "cursor w + (4 + length json) > capacity w")
    case True
    let ?cap = "max (next_power_of_two (cursor w + (4 + length json))) (capacity w * 2)"
    let ?y = "z + (?cap - length (wal_map w))"
    have big: "cursor w + (4 + length json) \<le> ?cap" using next_power_of_two_ge by (simp add: le_max_iff_disj)
    have "wal_map w1 = (wal_header @ frames rs) @ replicate ?y 0"
      using True by (simp add: w1_def wal_grow_def extend_to_def z replicate_add)
    moreover have "4 + length json \<le> ?y" using big cur z by simp
    moreover have "capacity w1 = length (wal_map w1)"
      using True cap by (simp add: w1_def wal_grow_def extend_to_def)
    moreover have "length (wal_map w) \<le> length (wal_map w1)"
      using True by (simp add: w1_def wal_grow_def extend_to_def)
    ultimately show ?thesis using that [of ?y] True by (simp add: w1_def wal_grow_def)
  next
    case False
    then show ?thesis using that [of z] z cur cap by (simp add: w1_def)
  qed
  have w': "w' = w1\<lparr>wal_map := write_at (write_at (wal_map w1) (cursor w1) (le32 (length json))) (cursor w1 + 4) json,
      cursor := cursor w1 + (4 + length json), records := records w1 + 1\<rparr>"
    using assms(3) by (auto simp: append_bytes_def Let_def w1_def split: if_splits)
  have "write_at (wal_map w1) (cursor w1) (le32 (length json)) =
      ((wal_header @ frames rs) @ le32 (length json)) @ replicate (y - 4) 0"
    unfolding y(1) w1(1) cur
    using write_at_end [of "le32 (length json)" y "wal_header @ frames rs"] y(2) by (simp only: length_le32)
  moreover have "cursor w1 + 4 = length ((wal_header @ frames rs) @ le32 (length json))"
    using cur w1(1) by simp
  ultimately have "write_at (write_at (wal_map w1) (cursor w1) (le32 (length json))) (cursor w1 + 4) json =
      (((wal_header @ frames rs) @ le32 (length json)) @ json) @ replicate (y - 4 - length json) 0"
    using write_at_end [of json "y - 4"] y(2) by (simp only: add_le_imp_le_diff)
  then have m: "wal_map w' = wal_bytes (rs @ [json]) (y - 4 - length json)"
    by (simp add: w' wal_bytes_def)
  have len: "length (wal_map w') = length (wal_map w1)"
    using y(2) unfolding m y(1) by (simp add: wal_bytes_def)
  show "length (wal_map w) \<le> length (wal_map w')" using len w1(4) by simp
  show "wal_ok w' (rs @ [json])"
    using m len w1 cur recs small assms(2) by (auto simp: wal_ok_def w' small_records_def)
qed

subsection \<open>The log of a session\<close>

text \<open>
  The file of one session (no bytes: the file does not exist) and the handle cached for it.  The
  map is shared with the file, so a write through the handle is a write to the file.
\<close>

definition MAX_WAL_RECORDS :: nat where
  "MAX_WAL_RECORDS = 1"

record wal_store =
  disk :: "byte list"
  handle :: "mmap_wal option"

definition store_fresh :: wal_store where
  "store_fresh = \<lparr>disk = [], handle = None\<rparr>"

definition healthy_handle :: "wal_store \<Rightarrow> mmap_wal option" where
  "healthy_handle s = (if disk s = [] then None else handle s)"

text \<open>
  Compaction: the newest checkpoint alone goes into a new file.  Its outcome is the handle the
  append goes on with.
\<close>

definition wal_compact ::
  "(byte list \<Rightarrow> 'c option) \<Rightarrow> ('c \<Rightarrow> byte list) \<Rightarrow> bool \<Rightarrow> mmap_wal \<Rightarrow> (string, mmap_wal) result" where
  "wal_compact parse ser grown w =
     (if records w \<ge> MAX_WAL_RECORDS
      then (case wal_latest parse w of
          Some latest \<Rightarrow>
            (case wal_open [] of Inl e \<Rightarrow> Err e | Inr w0 \<Rightarrow> Ok (snd (append_bytes grown (ser latest) w0)))
        | None \<Rightarrow> Ok w)
      else Ok w)"

definition append_checkpoint_wal_bytes ::
  "(byte list \<Rightarrow> 'c option) \<Rightarrow> ('c \<Rightarrow> byte list) \<Rightarrow> bool \<Rightarrow> byte list \<Rightarrow> wal_store \<Rightarrow> wal_store" where
  "append_checkpoint_wal_bytes parse ser grown json s =
     (case (case healthy_handle s of Some w \<Rightarrow> Ok w | None \<Rightarrow> wal_open (disk s)) of
        Inl e \<Rightarrow> s\<lparr>handle := None\<rparr>
      | Inr w \<Rightarrow>
          (case wal_compact parse ser grown w of
             Inl e \<Rightarrow> \<lparr>disk = [], handle = None\<rparr>
           | Inr w1 \<Rightarrow>
               (let w2 = snd (append_bytes grown json w1) in \<lparr>disk = wal_map w2, handle = Some w2\<rparr>)))"

definition append_checkpoint_wal where
  "append_checkpoint_wal parse ser grown cp s = append_checkpoint_wal_bytes parse ser grown (ser cp) s"

definition read_latest_checkpoint_wal ::
  "(byte list \<Rightarrow> 'c option) \<Rightarrow> wal_store \<Rightarrow> 'c option \<times> wal_store" where
  "read_latest_checkpoint_wal parse s =
     (case handle s of
        Some w \<Rightarrow> (wal_latest parse w, s)
      | None \<Rightarrow>
          (case wal_open (disk s) of
             Inl e \<Rightarrow> (None, s)
           | Inr w \<Rightarrow> (wal_latest parse w, s\<lparr>disk := wal_map w\<rparr>)))"

text \<open>What can happen to the log of a session: a checkpoint, a reading, a restart, a clean-up of the file.\<close>

datatype 'c wal_op = Checkpoint 'c | Read_Latest | Restart | Clean_Up

fun wal_step :: "(byte list \<Rightarrow> 'c option) \<Rightarrow> ('c \<Rightarrow> byte list) \<Rightarrow> 'c wal_op \<Rightarrow> wal_store \<Rightarrow> wal_store" where
  "wal_step parse ser (Checkpoint cp) s = append_checkpoint_wal parse ser True cp s"
| "wal_step parse ser Read_Latest s = snd (read_latest_checkpoint_wal parse s)"
| "wal_step parse ser Restart s = s\<lparr>handle := None\<rparr>"
| "wal_step parse ser Clean_Up s = s\<lparr>disk := []\<rparr>"

definition disk_ok :: "byte list \<Rightarrow> byte list list \<Rightarrow> bool" where
  "disk_ok d rs \<longleftrightarrow> (\<exists>z. d = wal_bytes rs z) \<and> small_records rs \<and> WAL_INITIAL_SIZE \<le> length d"

definition store_ok :: "wal_store \<Rightarrow> bool" where
  "store_ok s \<longleftrightarrow>
     (disk s = [] \<or> (\<exists>rs. disk_ok (disk s) rs))
   \<and> (case handle s of None \<Rightarrow> True
      | Some w \<Rightarrow> (\<exists>rs. wal_ok w rs \<and> disk_ok (wal_map w) rs) \<and> (disk s = [] \<or> disk s = wal_map w))"

text \<open>What the code relies on of the rendering and the parsing of checkpoints: a checkpoint that was
  parsed is rendered, in less than four gigabytes, to a text that is parsed to it again.\<close>

definition good_record :: "(byte list \<Rightarrow> 'c option) \<Rightarrow> ('c \<Rightarrow> byte list) \<Rightarrow> 'c \<Rightarrow> bool" where
  "good_record parse ser c \<longleftrightarrow> parse (ser c) = Some c \<and> length (ser c) < 2 ^ 32"

definition codec :: "(byte list \<Rightarrow> 'c option) \<Rightarrow> ('c \<Rightarrow> byte list) \<Rightarrow> bool" where
  "codec parse ser \<longleftrightarrow> parse [] = None \<and> (\<forall>bs c. parse bs = Some c \<longrightarrow> good_record parse ser c)"

lemma latest_good_record:
  assumes "codec parse ser" and "last_opt (List.map_filter parse rs) None = Some c"
  shows "good_record parse ser c"
proof -
  have "c \<in> set (List.map_filter parse rs)"
    using assms(2) last_in_set by (auto simp: last_opt_def split: if_splits)
  then obtain r where "parse r = Some c" by (auto simp: List.map_filter_def)
  with assms(1) show ?thesis by (simp add: codec_def)
qed

lemma fresh_map_bytes: "fresh_map = wal_bytes [] (WAL_INITIAL_SIZE - WAL_HEADER_SIZE)"
  by (simp add: fresh_map_def wal_bytes_def wal_header_def)

lemma wal_bytes_length: "length (wal_bytes rs z) = WAL_HEADER_SIZE + length (frames rs) + z"
  by (simp add: wal_bytes_def)

lemma wal_open_new:
  "\<exists>w. wal_open [] = Ok w \<and> wal_ok w [] \<and> disk_ok (wal_map w) [] \<and> records w = 0"
  by (auto simp: wal_open_def wal_ok_def disk_ok_def fresh_map_bytes wal_bytes_length small_records_def
      WAL_HEADER_SIZE_def WAL_INITIAL_SIZE_def)

lemma wal_magic_prefix: "take 4 (wal_bytes rs z) = WAL_MAGIC"
  by (simp add: wal_bytes_def wal_header_def WAL_MAGIC_def)

text \<open>Opening an existing log takes every four zeros behind its records for one more record.\<close>

lemma wal_open_existing:
  assumes "d = wal_bytes rs z" and "small_records rs" and "WAL_INITIAL_SIZE \<le> length d"
  shows "\<exists>w. wal_open d = Ok w \<and> wal_map w = d \<and> wal_ok w (rs @ replicate (z div 4) [])"
proof -
  have "d \<noteq> []" using assms(3) by (auto simp: WAL_INITIAL_SIZE_def)
  moreover have "extend_to (max (length d) WAL_INITIAL_SIZE) d = d"
    using assms(3) by (simp add: extend_to_def max_def)
  moreover have "scan_records_counted d WAL_HEADER_SIZE 0 =
      (WAL_HEADER_SIZE + length (frames rs) + 4 * (z div 4), length rs + z div 4)"
    using wal_bytes_raw [OF assms(2), of z] by (simp add: scan_raw assms(1))
  ultimately have "wal_open d = Ok \<lparr>wal_map = d, cursor = WAL_HEADER_SIZE + length (frames rs) + 4 * (z div 4),
      capacity = length d, records = length rs + z div 4\<rparr>"
    using assms(3) wal_magic_prefix [of rs z] by (simp add: wal_open_def Let_def assms(1) max_def)
  moreover have "d = wal_bytes (rs @ replicate (z div 4) []) (z mod 4)"
    using assms(1) wal_bytes_padding by simp
  ultimately show ?thesis
    using assms(2) by (auto simp: wal_ok_def frames_append frames_zeros small_records_def)
qed

lemma disk_open:
  assumes "d = [] \<or> (\<exists>rs. disk_ok d rs)"
  obtains w rs where "wal_open d = Ok w" "wal_ok w rs" "disk_ok (wal_map w) rs" "d \<noteq> [] \<Longrightarrow> wal_map w = d"
proof (cases "d = []")
  case True
  then show ?thesis using that wal_open_new by blast
next
  case False
  with assms obtain rs z where d: "d = wal_bytes rs z" "small_records rs" "WAL_INITIAL_SIZE \<le> length d"
    by (auto simp: disk_ok_def)
  from wal_open_existing [OF d] obtain w where w: "wal_open d = Ok w" "wal_map w = d"
    "wal_ok w (rs @ replicate (z div 4) [])" by blast
  then have "disk_ok (wal_map w) (rs @ replicate (z div 4) [])"
    using d(3) by (auto simp: disk_ok_def wal_ok_def)
  with w that show ?thesis by blast
qed

lemma append_bytes_grown: "\<exists>w'. append_bytes True json w = (Ok (), w')"
  by (simp add: append_bytes_def Let_def)

lemma append_disk_ok:
  assumes "wal_ok w rs" and "disk_ok (wal_map w) rs" and "length json < 2 ^ 32"
  shows "wal_ok (snd (append_bytes True json w)) (rs @ [json])
       \<and> disk_ok (wal_map (snd (append_bytes True json w))) (rs @ [json])"
proof -
  obtain w' where w': "append_bytes True json w = (Ok (), w')" using append_bytes_grown by blast
  from append_bytes_ok [OF assms(1,3) w'] assms(2) show ?thesis
    by (auto simp: w' wal_ok_def disk_ok_def)
qed

text \<open>The handle an append starts from, and what the store holds after it.\<close>

lemma append_checkpoint_holds:
  assumes "codec parse ser" and "store_ok s" and "good_record parse ser cp"
  shows "\<exists>w rs. append_checkpoint_wal parse ser True cp s = \<lparr>disk = wal_map w, handle = Some w\<rparr>
           \<and> wal_ok w (rs @ [ser cp]) \<and> disk_ok (wal_map w) (rs @ [ser cp])
           \<and> length (List.map_filter parse rs) \<le> 1"
proof -
  obtain w rs where w: "(case healthy_handle s of Some w \<Rightarrow> Ok w | None \<Rightarrow> wal_open (disk s)) = Ok w"
    "wal_ok w rs" "disk_ok (wal_map w) rs"
  proof (cases "healthy_handle s")
    case None
    have "disk s = [] \<or> (\<exists>rs. disk_ok (disk s) rs)" using assms(2) by (simp add: store_ok_def)
    from disk_open [OF this] obtain w rs where "wal_open (disk s) = Ok w" "wal_ok w rs" "disk_ok (wal_map w) rs"
      by blast
    with None that show ?thesis by simp
  next
    case (Some w)
    with assms(2) that show ?thesis by (auto simp: healthy_handle_def store_ok_def split: if_splits)
  qed
  have latest: "wal_latest parse w = last_opt (List.map_filter parse rs) None"
    using wal_latest_bytes [of w rs _ parse] w(2) assms(1) by (auto simp: wal_ok_def codec_def)
  obtain w1 rs1 where w1: "wal_compact parse ser True w = Ok w1" "wal_ok w1 rs1" "disk_ok (wal_map w1) rs1"
    "length (List.map_filter parse rs1) \<le> 1"
  proof (cases "records w \<ge> MAX_WAL_RECORDS \<and> wal_latest parse w \<noteq> None")
    case True
    then obtain c where c: "wal_latest parse w = Some c" by auto
    obtain w0 where w0: "wal_open [] = Ok w0" "wal_ok w0 []" "disk_ok (wal_map w0) []"
      using wal_open_new by blast
    have good: "good_record parse ser c" using latest_good_record [OF assms(1)] latest c by simp
    then have "length (ser c) < 2 ^ 32" by (simp add: good_record_def)
    from append_disk_ok [OF w0(2,3) this] True c w0(1) good show ?thesis
      by (intro that [of "snd (append_bytes True (ser c) w0)" "[ser c]"])
        (simp_all add: wal_compact_def map_filter_simps good_record_def)
  next
    case False
    have "length (List.map_filter parse rs) \<le> 1"
    proof (cases "records w \<ge> MAX_WAL_RECORDS")
      case True
      with False latest have "List.map_filter parse rs = []" by (auto simp: last_opt_def split: if_splits)
      then show ?thesis by simp
    next
      case False
      then have "rs = []" using w(2) unfolding wal_ok_def MAX_WAL_RECORDS_def
        by (metis One_nat_def less_Suc0 length_0_conv not_le)
      then show ?thesis by (simp add: map_filter_simps)
    qed
    moreover have "wal_compact parse ser True w = Ok w" using False by (auto simp: wal_compact_def)
    ultimately show ?thesis using that w(2,3) by blast
  qed
  have "length (ser cp) < 2 ^ 32" using assms(3) by (simp add: good_record_def)
  from append_disk_ok [OF w1(2,3) this] w(1) w1(1,4) show ?thesis
    by (auto simp: append_checkpoint_wal_def append_checkpoint_wal_bytes_def Let_def)
qed

definition good_op :: "(byte list \<Rightarrow> 'c option) \<Rightarrow> ('c \<Rightarrow> byte list) \<Rightarrow> 'c wal_op \<Rightarrow> bool" where
  "good_op parse ser x = (case x of Checkpoint cp \<Rightarrow> good_record parse ser cp | _ \<Rightarrow> True)"

lemma store_ok_step:
  assumes "codec parse ser" and "store_ok s" and "good_op parse ser x"
  shows "store_ok (wal_step parse ser x s)"
proof (cases x)
  case (Checkpoint cp)
  have "good_record parse ser cp" using assms(3) Checkpoint by (simp add: good_op_def)
  from append_checkpoint_holds [OF assms(1,2) this] obtain w rs where
    "append_checkpoint_wal parse ser True cp s = \<lparr>disk = wal_map w, handle = Some w\<rparr>"
    "wal_ok w (rs @ [ser cp])" "disk_ok (wal_map w) (rs @ [ser cp])" by blast
  then show ?thesis using Checkpoint by (auto simp: store_ok_def)
next
  case Read_Latest
  have "disk s = [] \<or> (\<exists>rs. disk_ok (disk s) rs)" using assms(2) by (simp add: store_ok_def)
  from disk_open [OF this] obtain w rs where "wal_open (disk s) = Ok w" "wal_ok w rs" "disk_ok (wal_map w) rs"
    by blast
  then show ?thesis
    using assms(2) Read_Latest by (auto simp: store_ok_def read_latest_checkpoint_wal_def split: option.splits)
qed (use assms(2) in \<open>auto simp: store_ok_def split: option.splits\<close>)

lemma store_ok_runs:
  "codec parse ser \<Longrightarrow> list_all (good_op parse ser) ops \<Longrightarrow> store_ok s \<Longrightarrow>
     store_ok (runs (wal_step parse ser) ops s)"
  by (induction ops arbitrary: s) (simp_all add: store_ok_step)

lemma store_ok_fresh: "store_ok store_fresh"
  by (simp add: store_ok_def store_fresh_def)

text \<open>The checkpoints that can be read back from the file.\<close>

definition readable :: "(byte list \<Rightarrow> 'c option) \<Rightarrow> wal_store \<Rightarrow> 'c list" where
  "readable parse s = (case handle s of Some w \<Rightarrow> wal_all parse w | None \<Rightarrow> [])"

lemma wal_latest_last:
  "codec parse ser \<Longrightarrow> good_record parse ser cp \<Longrightarrow> wal_ok w (rs @ [ser cp]) \<Longrightarrow>
     wal_latest parse w = Some cp \<and> wal_all parse w = List.map_filter parse rs @ [cp]"
  using wal_latest_bytes [of w "rs @ [ser cp]" _ parse]
  by (auto simp: wal_ok_def codec_def good_record_def map_filter_append map_filter_simps last_opt_def)

lemma append_then_read:
  assumes "codec parse ser" and "store_ok s" and "good_record parse ser cp"
  defines "s' \<equiv> append_checkpoint_wal parse ser True cp s"
  shows "fst (read_latest_checkpoint_wal parse s') = Some cp"
    and "fst (read_latest_checkpoint_wal parse (s'\<lparr>handle := None\<rparr>)) = Some cp"
    and "length (readable parse s') \<le> 2"
    and "store_ok s'"
proof -
  from append_checkpoint_holds [OF assms(1-3)] obtain w rs where
    w: "s' = \<lparr>disk = wal_map w, handle = Some w\<rparr>" "wal_ok w (rs @ [ser cp])"
      "disk_ok (wal_map w) (rs @ [ser cp])" "length (List.map_filter parse rs) \<le> 1"
    unfolding s'_def by blast
  from w(3) obtain z where z: "wal_map w = wal_bytes (rs @ [ser cp]) z" "small_records (rs @ [ser cp])"
    "WAL_INITIAL_SIZE \<le> length (wal_map w)" by (auto simp: disk_ok_def)
  from wal_open_existing [OF z] obtain w' where w': "wal_open (wal_map w) = Ok w'" "wal_map w' = wal_map w"
    by blast
  from w'(2) have same: "wal_latest parse w' = wal_latest parse w" by (simp add: wal_latest_def)
  note latest = wal_latest_last [OF assms(1,3) w(2)]
  show "fst (read_latest_checkpoint_wal parse s') = Some cp"
    using latest by (simp add: w(1) read_latest_checkpoint_wal_def)
  show "fst (read_latest_checkpoint_wal parse (s'\<lparr>handle := None\<rparr>)) = Some cp"
    using latest same w'(1) by (simp add: w(1) read_latest_checkpoint_wal_def)
  show "length (readable parse s') \<le> 2"
    using latest w(4) by (simp add: w(1) readable_def)
  show "store_ok s'"
    unfolding s'_def using store_ok_step [of parse ser s "Checkpoint cp"] assms(1-3) by (simp add: good_op_def)
qed

text \<open>
  In whatever state earlier checkpoints, readings, restarts and clean-ups have left the log, a
  checkpoint just appended is the one read back, through the cached handle and after a restart
  from the file alone; and the log holds at most that checkpoint and the one before it.
\<close>
theorem appended_checkpoint_is_latest:
  assumes "codec parse ser" and "list_all (good_op parse ser) ops" and "good_record parse ser cp"
  shows "let s = append_checkpoint_wal parse ser True cp (runs (wal_step parse ser) ops store_fresh) in
           fst (read_latest_checkpoint_wal parse s) = Some cp
         \<and> fst (read_latest_checkpoint_wal parse (s\<lparr>handle := None\<rparr>)) = Some cp
         \<and> length (readable parse s) \<le> 2"
  using append_then_read [OF assms(1) store_ok_runs [OF assms(1,2) store_ok_fresh] assms(3)]
  by (simp add: Let_def)

definition bool_ser :: "bool \<Rightarrow> byte list" where
  "bool_ser b = [if b then 1 else 0]"

definition bool_parse :: "byte list \<Rightarrow> bool option" where
  "bool_parse bs = (case bs of [b] \<Rightarrow> Some (b = 1) | _ \<Rightarrow> None)"

theorem appended_checkpoint_is_latest_witness:
  "fst (read_latest_checkpoint_wal bool_parse
     (append_checkpoint_wal bool_parse bool_ser True True
       (runs (wal_step bool_parse bool_ser) [Checkpoint False, Restart, Read_Latest] store_fresh))) = Some True"
proof -
  have good: "good_record bool_parse bool_ser c" for c
    by (simp add: good_record_def bool_parse_def bool_ser_def)
  then have c: "codec bool_parse bool_ser" by (simp add: codec_def bool_parse_def)
  have "list_all (good_op bool_parse bool_ser) [Checkpoint False, Restart, Read_Latest]"
    by (simp add: good_op_def good)
  from appended_checkpoint_is_latest [OF c this good] show ?thesis by (simp only: Let_def)
qed

text \<open>
  Opening an existing log does not find the end of its records: every four zeros of the
  unused space count as one more record, so that the write position is at the end of the file (up
  to three bytes), the record count is far above the number of checkpoints in it, and the next
  append always makes the file grow.
\<close>
theorem reopening_counts_padding:
  assumes "wal_ok w rs" and "WAL_INITIAL_SIZE \<le> length (wal_map w)"
  shows "\<exists>w'. wal_open (wal_map w) = Ok w'
           \<and> records w' = records w + (capacity w - cursor w) div 4
           \<and> capacity w' - cursor w' < 4 \<and> capacity w' = capacity w"
proof -
  obtain z where z: "wal_map w = wal_bytes rs z" using assms(1) by (auto simp: wal_ok_def)
  have "capacity w - cursor w = z" using assms(1) z by (simp add: wal_ok_def wal_bytes_length)
  moreover have "small_records rs" using assms(1) by (simp add: wal_ok_def)
  from wal_open_existing [OF z this assms(2)] obtain w' where "wal_open (wal_map w) = Ok w'"
    "wal_map w' = wal_map w" "wal_ok w' (rs @ replicate (z div 4) [])" by blast
  moreover have "z - 4 * (z div 4) < 4" by presburger
  ultimately show ?thesis
    using assms(1) z by (auto simp: wal_ok_def wal_bytes_length frames_append frames_zeros)
qed

theorem reopening_counts_padding_witness:
  "\<exists>w w'. wal_open [] = Ok w \<and> records w = 0 \<and> wal_open (wal_map w) = Ok w' \<and> records w' = 262142"
proof -
  obtain w where w: "wal_open [] = Ok w" "wal_ok w []" "disk_ok (wal_map w) []" "records w = 0"
    using wal_open_new by blast
  have "capacity w - cursor w = 2 ^ 20 - 8"
    using w(1) by (auto simp: wal_open_def WAL_INITIAL_SIZE_def WAL_HEADER_SIZE_def)
  with reopening_counts_padding [OF w(2)] w show ?thesis by (auto simp: disk_ok_def)
qed

end
