(* ===== verification/Sensorium.thy ===== *)
theory Sensorium
  imports Rust_Text
begin

text \<open>
  The agent's self-observation of \<open>crates/oz-core/src/handler.rs\<close>: the states of the loop, the
  history of tool calls with its loop detection, and the circuit breaker on the rate of calls.

  The guard messages are Chinese text; a message is represented by its constructor.
\<close>

subsection \<open>States and messages\<close>

datatype agent_state = Idle | Thinking_State | ToolExecution | Responding | Done string

definition agent_is_terminal :: "agent_state \<Rightarrow> bool" where
  "agent_is_terminal st \<longleftrightarrow> (case st of Done _ \<Rightarrow> True | _ \<Rightarrow> False)"

fun state_label :: "agent_state \<Rightarrow> string" where
  "state_label Idle = ''idle''"
| "state_label Thinking_State = ''thinking''"
| "state_label ToolExecution = ''tool_execution''"
| "state_label Responding = ''responding''"
| "state_label (Done _) = ''done''"

datatype loop_guard = Guard_ABAB | Guard_ABCABC | Guard_Repeat_5x string

subsection \<open>The sensorium\<close>

record sensorium =
  start_time :: instant
  calls :: nat
  tool_history :: "string list"

definition sensorium_new :: "instant \<Rightarrow> sensorium" where
  "sensorium_new now = \<lparr>start_time = now, calls = 0, tool_history = []\<rparr>"

definition record_tool :: "string \<Rightarrow> sensorium \<Rightarrow> sensorium" where
  "record_tool name s =
     (let h = tool_history s @ [name] in
      s\<lparr>calls := calls s + 1, tool_history := (if length h > 10 then tl h else h)\<rparr>)"

text \<open>\<open>h[n - i..n - j]\<close>\<close>

definition window :: "nat \<Rightarrow> nat \<Rightarrow> 'a list \<Rightarrow> 'a list" where
  "window i j h = take (i - j) (drop (length h - i) h)"

definition distinct_count :: "'a list \<Rightarrow> nat" where
  "distinct_count xs = card (set xs)"

definition detect_loop :: "sensorium \<Rightarrow> loop_guard option" where
  "detect_loop s =
     (let h = tool_history s; n = length h in
      if n \<ge> 6 \<and> window 3 0 h = window 6 3 h \<and> distinct_count (window 6 0 h) = 2
      then Some Guard_ABAB
      else if n \<ge> 9 \<and> window 3 0 h = window 6 3 h \<and> window 6 3 h = window 9 6 h
              \<and> distinct_count (window 9 0 h) = 3
      then Some Guard_ABCABC
      else if n \<ge> 5 \<and> distinct_count (window 5 0 h) = 1
      then Some (Guard_Repeat_5x (last h))
      else None)"

interpretation history: bounded_machine "\<lambda>s. tool_history s = []" record_tool
    "\<lambda>s. length (tool_history s) \<le> 10" "\<lambda>s. length (tool_history s)" 10
  by unfold_locales (auto simp: record_tool_def Let_def)

text \<open>The history is the last ten calls.\<close>

definition last_n :: "nat \<Rightarrow> 'a list \<Rightarrow> 'a list" where
  "last_n n xs = drop (length xs - n) xs"

lemma runs_history:
  "tool_history s = last_n 10 done_calls \<Longrightarrow>
     tool_history (runs record_tool names s) = last_n 10 (done_calls @ names)"
proof (induction names arbitrary: s done_calls)
  case Nil
  then show ?case by simp
next
  case (Cons name names)
  have "tool_history (record_tool name s) = last_n 10 (done_calls @ [name])"
  proof (cases "length done_calls < 10")
    case True
    with Cons.prems show ?thesis by (simp add: record_tool_def last_n_def Let_def)
  next
    case False
    then have "length done_calls - 9 = Suc (length done_calls - 10)" by simp
    with False Cons.prems show ?thesis
      by (auto simp: record_tool_def last_n_def Let_def drop_Suc tl_drop)
  qed
  from Cons.IH [OF this] show ?case by simp
qed

lemma history_last_ten: "tool_history (runs record_tool names (sensorium_new t)) = last_n 10 names"
  using runs_history [of "sensorium_new t" "[]" names] by (simp add: sensorium_new_def last_n_def)

text \<open>Two tools in alternation, and one of the suffixes a history of ten can hold.\<close>

fun alternate :: "nat \<Rightarrow> 'a \<Rightarrow> 'a \<Rightarrow> 'a list" where
  "alternate 0 a b = []"
| "alternate (Suc n) a b = a # alternate n b a"

lemma length_alternate [simp]: "length (alternate n a b) = n"
  by (induction n arbitrary: a b) simp_all

lemma drop_alternate: "k \<le> n \<Longrightarrow> drop k (alternate n a b) = (if even k then alternate (n - k) a b else alternate (n - k) b a)"
proof (induction k arbitrary: n a b)
  case (Suc k)
  then show ?case by (cases n) auto
qed simp

lemma last_ten_alternate:
  "\<exists>m x y. m \<le> 10 \<and> {x, y} = {a, b} \<and> last_n 10 (alternate n a b) = alternate m x y \<and> m = min n 10"
proof (cases "even (n - 10)")
  case True
  then show ?thesis
    by (intro exI [of _ "min n 10"] exI [of _ a] exI [of _ b]) (auto simp: last_n_def drop_alternate min_def)
next
  case False
  then show ?thesis
    by (intro exI [of _ "min n 10"] exI [of _ b] exI [of _ a]) (auto simp: last_n_def drop_alternate min_def)
qed

lemma five_of_two: "{x, y, x, y, x} = {x, y}"
  by auto

lemma alternate_undetected:
  assumes "m \<le> 10" and "x \<noteq> y" and "tool_history s = alternate m x y"
  shows "detect_loop s = None"
proof -
  have "m = 0 \<or> m = 1 \<or> m = 2 \<or> m = 3 \<or> m = 4 \<or> m = 5 \<or> m = 6 \<or> m = 7 \<or> m = 8 \<or> m = 9 \<or> m = 10"
    using assms(1) by presburger
  then show ?thesis
    using assms(2,3)
    by (elim disjE)
      (simp_all add: detect_loop_def window_def distinct_count_def Let_def eval_nat_numeral five_of_two)
qed

text \<open>
  The history keeps the last ten calls.  Five calls of the same tool in a row are always
  reported, and so are nine calls that cycle through three tools.  Two tools called in
  alternation, the A-B-A-B loop the first pattern is named after, are never reported, however
  long the alternation lasts: the pattern compares the last three calls with the three before
  them, which differ in an alternation.
\<close>
theorem loop_detection:
  "tool_history (runs record_tool names (sensorium_new t)) = last_n 10 names
   \<and> detect_loop (runs record_tool (names @ [a, a, a, a, a]) (sensorium_new t)) \<noteq> None
   \<and> (distinct [a, b, c] \<longrightarrow>
        detect_loop (runs record_tool (names @ [a, b, c, a, b, c, a, b, c]) (sensorium_new t)) \<noteq> None)
   \<and> (a \<noteq> b \<longrightarrow> detect_loop (runs record_tool (alternate n a b) (sensorium_new t)) = None)"
proof (intro conjI impI)
  show "tool_history (runs record_tool names (sensorium_new t)) = last_n 10 names"
    by (rule history_last_ten)
next
  let ?s = "runs record_tool (names @ [a, a, a, a, a]) (sensorium_new t)"
  have h: "tool_history ?s = last_n 10 (names @ [a, a, a, a, a])" by (rule history_last_ten)
  obtain pre where p: "tool_history ?s = pre @ [a, a, a, a, a]"
    unfolding h last_n_def by (cases "length names \<le> 5") (auto simp: eval_nat_numeral)
  have "window 5 0 (tool_history ?s) = [a, a, a, a, a]" by (simp add: p window_def)
  moreover have "length (tool_history ?s) \<ge> 5" by (simp add: p)
  ultimately show "detect_loop ?s \<noteq> None"
    by (simp add: detect_loop_def Let_def distinct_count_def)
next
  assume d: "distinct [a, b, c]"
  let ?s = "runs record_tool (names @ [a, b, c, a, b, c, a, b, c]) (sensorium_new t)"
  have h: "tool_history ?s = last_n 10 (names @ [a, b, c, a, b, c, a, b, c])" by (rule history_last_ten)
  obtain pre where p: "tool_history ?s = pre @ [a, b, c, a, b, c, a, b, c]"
    unfolding h last_n_def by (cases "length names \<le> 1") (auto simp: eval_nat_numeral)
  have "window 3 0 (tool_history ?s) = [a, b, c]" "window 6 3 (tool_history ?s) = [a, b, c]"
    "window 9 6 (tool_history ?s) = [a, b, c]" "window 9 0 (tool_history ?s) = [a, b, c, a, b, c, a, b, c]"
    "length (tool_history ?s) \<ge> 9"
    by (simp_all add: p window_def eval_nat_numeral)
  moreover have "set [a, b, c, a, b, c, a, b, c] = set [a, b, c]" by auto
  then have "distinct_count [a, b, c, a, b, c, a, b, c] = 3"
    using distinct_card [OF d] by (simp add: distinct_count_def)
  ultimately show "detect_loop ?s \<noteq> None"
    unfolding detect_loop_def Let_def by simp
next
  assume "a \<noteq> b"
  obtain m x y where m: "m \<le> 10" "{x, y} = {a, b}" "last_n 10 (alternate n a b) = alternate m x y"
    using last_ten_alternate [of a b n] by blast
  have "x \<noteq> y" using m(2) \<open>a \<noteq> b\<close> by (auto simp: doubleton_eq_iff)
  with m show "detect_loop (runs record_tool (alternate n a b) (sensorium_new t)) = None"
    by (intro alternate_undetected [of m x y]) (simp_all add: history_last_ten)
qed

theorem loop_detection_witness:
  "detect_loop (runs record_tool (alternate 100 ''read'' ''edit'') (sensorium_new 0)) = None"
  using loop_detection [of "[]" 0 "''read''" "''edit''" "''x''" 100] by simp

subsection \<open>The circuit breaker\<close>

record breaker =
  counts :: "(string, nat) hash_map"
  window_start :: instant

definition breaker_new :: "instant \<Rightarrow> breaker" where
  "breaker_new now = \<lparr>counts = hm_empty, window_start = now\<rparr>"

definition breaker_check :: "instant \<Rightarrow> instant \<Rightarrow> string \<Rightarrow> breaker \<Rightarrow> bool \<times> breaker" where
  "breaker_check now now' tool b =
     (if tool = ''respond'' then (True, b)
      else (let b1 = (if now - window_start b > nanos 60 then \<lparr>counts = hm_empty, window_start = now'\<rparr> else b);
                cs = hm_upsert tool 0 (\<lambda>n. n + 1) (counts b1) in
        ((case hm_get tool cs of Some n \<Rightarrow> n \<le> 20 | None \<Rightarrow> False), b1\<lparr>counts := cs\<rparr>)))"

definition call_count :: "string \<Rightarrow> breaker \<Rightarrow> nat" where
  "call_count tool b = (case hm_get tool (counts b) of Some n \<Rightarrow> n | None \<Rightarrow> 0)"

text \<open>The verdicts on a sequence of calls, each with the two readings of the clock.\<close>

fun verdicts :: "(instant \<times> instant \<times> string) list \<Rightarrow> breaker \<Rightarrow> (string \<times> bool) list" where
  "verdicts [] b = []"
| "verdicts ((now, now', tool) # cs) b =
     (let (ok, b') = breaker_check now now' tool b in (tool, ok) # verdicts cs b')"

definition allowed :: "string \<Rightarrow> (string \<times> bool) list \<Rightarrow> nat" where
  "allowed tool vs = length (filter (\<lambda>v. v = (tool, True)) vs)"

definition asked :: "string \<Rightarrow> (instant \<times> instant \<times> string) list \<Rightarrow> nat" where
  "asked tool cs = length (filter (\<lambda>(now, now', t). t = tool) cs)"

lemma check_within_window:
  assumes "tool \<noteq> ''respond''" and "now - window_start b \<le> nanos 60"
  shows "fst (breaker_check now now' tool b) \<longleftrightarrow> call_count tool b < 20"
    and "window_start (snd (breaker_check now now' tool b)) = window_start b"
    and "call_count t (snd (breaker_check now now' tool b)) = call_count t b + (if t = tool then 1 else 0)"
  using assms by (auto simp: breaker_check_def call_count_def Let_def split: option.split)

text \<open>
  Within one window of sixty seconds the breaker lets exactly the first twenty calls of each
  tool through, whatever the other tools do; calls of the tool \<open>respond\<close> always pass and are not
  counted.  A call after the end of the window opens a new one and passes.
\<close>
theorem breaker_limits_each_tool:
  "(\<forall>(now, now', t) \<in> set cs. now - window_start b \<le> nanos 60) \<Longrightarrow> tool \<noteq> ''respond'' \<Longrightarrow>
     allowed tool (verdicts cs b) = min (asked tool cs) (20 - call_count tool b)
   \<and> allowed ''respond'' (verdicts cs b) = asked ''respond'' cs
   \<and> (now - window_start b > nanos 60 \<longrightarrow>
        fst (breaker_check now now' tool b) \<and> call_count tool (snd (breaker_check now now' tool b)) = 1
      \<and> window_start (snd (breaker_check now now' tool b)) = now')"
proof (induction cs arbitrary: b)
  case Nil
  then show ?case
    by (auto simp: allowed_def asked_def breaker_check_def call_count_def Let_def)
next
  case (Cons c cs)
  obtain n n' t where c: "c = (n, n', t)" by (cases c)
  show ?case
  proof (cases "t = ''respond''")
    case True
    then have "verdicts (c # cs) b = (t, True) # verdicts cs b" by (simp add: c breaker_check_def)
    with Cons True c show ?thesis by (auto simp: allowed_def asked_def)
  next
    case False
    let ?b = "snd (breaker_check n n' t b)"
    have w: "n - window_start b \<le> nanos 60" using Cons.prems(1) c by simp
    note step = check_within_window [OF False w, where now' = n']
    have "\<forall>(now, now', t) \<in> set cs. now - window_start ?b \<le> nanos 60"
      using Cons.prems(1) step(2) by auto
    from Cons.IH [OF this Cons.prems(2)] have
      ih: "allowed tool (verdicts cs ?b) = min (asked tool cs) (20 - call_count tool ?b)"
        "allowed ''respond'' (verdicts cs ?b) = asked ''respond'' cs" by simp_all
    have v: "verdicts (c # cs) b = (t, call_count t b < 20) # verdicts cs ?b"
      using step(1) by (simp add: c split_beta)
    have "allowed tool (verdicts (c # cs) b) = min (asked tool (c # cs)) (20 - call_count tool b)"
      using ih(1) step(3) unfolding v by (auto simp: allowed_def asked_def c)
    moreover have "allowed ''respond'' (verdicts (c # cs) b) = asked ''respond'' (c # cs)"
      using ih(2) False unfolding v by (auto simp: allowed_def asked_def c)
    ultimately show ?thesis
      using Cons.prems(2) by (auto simp: breaker_check_def call_count_def Let_def)
  qed
qed

theorem breaker_limits_each_tool_witness:
  "allowed ''ls'' (verdicts (replicate 30 (5, 5, ''ls'')) (breaker_new 0)) = 20"
  using breaker_limits_each_tool [of "replicate 30 (5, 5, ''ls'')" "breaker_new 0" "''ls''" 0 0]
  by (simp add: breaker_new_def nanos_def asked_def call_count_def)

end
