(* ===== verification/Subagents.thy ===== *)
theory Subagents
  imports Rust_Text
begin

text \<open>
  The process-wide tables of \<open>crates/oz-core/src/subagent.rs\<close> that bound delegation: the depth of
  each child, the running children of each parent, the labels, the turn limits and the results
  that are consumed once, and the single-flight mark of a continuation.

  Depths and slot counts are \<open>u8\<close> and saturate.  A lock that fails (poisoned by a panic) makes an
  operation do nothing in the code; that case is not modelled.
\<close>

definition MAX_DEPTH :: nat where
  "MAX_DEPTH = 3"

definition MAX_CHILDREN_PER_ROOT :: nat where
  "MAX_CHILDREN_PER_ROOT = 4"

record delegation =
  labels :: "(string, string) hash_map"
  depths :: "(string, nat) hash_map"
  active_children :: "(string, nat) hash_map"
  turn_limits :: "(string, nat) hash_map"
  structured :: "(string, json) hash_map"
  continuing :: "(string, unit) hash_map"

definition delegation_new :: delegation where
  "delegation_new =
     \<lparr>labels = hm_empty, depths = hm_empty, active_children = hm_empty, turn_limits = hm_empty,
      structured = hm_empty, continuing = hm_empty\<rparr>"

subsection \<open>Labels\<close>

definition set_label :: "string \<Rightarrow> string \<Rightarrow> delegation \<Rightarrow> delegation" where
  "set_label child label d = d\<lparr>labels := hm_insert child label (labels d)\<rparr>"

definition label_of :: "string \<Rightarrow> delegation \<Rightarrow> string option" where
  "label_of child d = hm_get child (labels d)"

definition forget_label :: "string \<Rightarrow> delegation \<Rightarrow> delegation" where
  "forget_label child d = d\<lparr>labels := hm_remove child (labels d)\<rparr>"

subsection \<open>Depth\<close>

definition depth_of :: "string \<Rightarrow> delegation \<Rightarrow> nat" where
  "depth_of session d = (case hm_get session (depths d) of Some n \<Rightarrow> n | None \<Rightarrow> 0)"

text \<open>
  \<open>m.keys().take(64)\<close> picks sixty-four entries in the table's unspecified order: any list
  \<open>victims\<close> of that many keys.  The code removes exactly the entries it calls \<open>keep\<close>.
\<close>

definition register_child :: "string list \<Rightarrow> string \<Rightarrow> nat \<Rightarrow> delegation \<Rightarrow> delegation" where
  "register_child victims child depth d =
     (let m = (if hm_len (depths d) > 128 then fold hm_remove (take 64 victims) (depths d) else depths d) in
      d\<lparr>depths := hm_insert child depth m\<rparr>)"

definition forget_child :: "string \<Rightarrow> delegation \<Rightarrow> delegation" where
  "forget_child child d = d\<lparr>depths := hm_remove child (depths d)\<rparr>"

definition saturating_add_u8 :: "nat \<Rightarrow> nat \<Rightarrow> nat" where
  "saturating_add_u8 a b = min (a + b) 255"

definition next_depth :: "string \<Rightarrow> delegation \<Rightarrow> nat option" where
  "next_depth parent_session d =
     (let next = saturating_add_u8 (depth_of parent_session d) 1 in
      if next \<le> MAX_DEPTH then Some next else None)"

subsection \<open>Slots\<close>

definition try_acquire_slot :: "string \<Rightarrow> delegation \<Rightarrow> bool \<times> delegation" where
  "try_acquire_slot p d =
     (let m = hm_upsert p 0 (\<lambda>n. n) (active_children d);
          n = (case hm_get p m of Some n \<Rightarrow> n | None \<Rightarrow> 0) in
      if n \<ge> MAX_CHILDREN_PER_ROOT then (False, d\<lparr>active_children := m\<rparr>)
      else (True, d\<lparr>active_children := hm_insert p (n + 1) m\<rparr>))"

definition release_slot :: "string \<Rightarrow> delegation \<Rightarrow> delegation" where
  "release_slot p d =
     (case hm_get p (active_children d) of
        None \<Rightarrow> d
      | Some n \<Rightarrow>
          (let n' = n - 1 in
           if n' = 0 then d\<lparr>active_children := hm_remove p (active_children d)\<rparr>
           else d\<lparr>active_children := hm_insert p n' (active_children d)\<rparr>))"

subsection \<open>Turn limits, results and continuations\<close>

definition clamp :: "nat \<Rightarrow> nat \<Rightarrow> nat \<Rightarrow> nat" where
  "clamp lo hi n = max lo (min hi n)"

definition set_max_turns :: "string \<Rightarrow> nat \<Rightarrow> delegation \<Rightarrow> delegation" where
  "set_max_turns child turns d = d\<lparr>turn_limits := hm_insert child (clamp 1 40 turns) (turn_limits d)\<rparr>"

definition take_max_turns :: "string \<Rightarrow> delegation \<Rightarrow> nat option \<times> delegation" where
  "take_max_turns child d =
     (hm_get child (turn_limits d), d\<lparr>turn_limits := hm_remove child (turn_limits d)\<rparr>)"

definition set_structured :: "string \<Rightarrow> json \<Rightarrow> delegation \<Rightarrow> delegation" where
  "set_structured child v d = d\<lparr>structured := hm_insert child v (structured d)\<rparr>"

definition take_structured :: "string \<Rightarrow> delegation \<Rightarrow> json option \<times> delegation" where
  "take_structured child d =
     (hm_get child (structured d), d\<lparr>structured := hm_remove child (structured d)\<rparr>)"

definition try_begin_continue :: "string \<Rightarrow> delegation \<Rightarrow> bool \<times> delegation" where
  "try_begin_continue child d =
     (hm_get child (continuing d) = None, d\<lparr>continuing := hm_insert child () (continuing d)\<rparr>)"

definition end_continue :: "string \<Rightarrow> delegation \<Rightarrow> delegation" where
  "end_continue child d = d\<lparr>continuing := hm_remove child (continuing d)\<rparr>"

subsection \<open>Executions\<close>

text \<open>
  The ways the runtime uses the tables: a spawn asks for the next depth of its parent and
  registers the child with it, and takes a slot of the parent.
\<close>

datatype delegation_op =
    Spawn string string "string list"
  | Child_Done string
  | Acquire string
  | Release string
  | Begin_Continue string
  | End_Continue string
  | Limit_Turns string nat
  | Take_Turns string

fun delegation_step :: "delegation_op \<Rightarrow> delegation \<Rightarrow> delegation" where
  "delegation_step (Spawn p child victims) d =
     (case next_depth p d of None \<Rightarrow> d | Some n \<Rightarrow> register_child victims child n d)"
| "delegation_step (Child_Done child) d = forget_child child d"
| "delegation_step (Acquire p) d = snd (try_acquire_slot p d)"
| "delegation_step (Release p) d = release_slot p d"
| "delegation_step (Begin_Continue child) d = snd (try_begin_continue child d)"
| "delegation_step (End_Continue child) d = end_continue child d"
| "delegation_step (Limit_Turns child n) d = set_max_turns child n d"
| "delegation_step (Take_Turns child) d = snd (take_max_turns child d)"

text \<open>The keys an eviction picks are sixty-four different keys of the table.\<close>

definition good_victims :: "string list \<Rightarrow> delegation \<Rightarrow> bool" where
  "good_victims victims d \<longleftrightarrow>
     distinct victims \<and> set victims \<subseteq> set (hm_keys (depths d)) \<and> length victims = min 64 (hm_len (depths d))"

definition delegation_ok :: "delegation \<Rightarrow> bool" where
  "delegation_ok d \<longleftrightarrow> hm_wf (depths d)
     \<and> (\<forall>k n. hm_get k (depths d) = Some n \<longrightarrow> n \<le> MAX_DEPTH)
     \<and> (\<forall>p n. hm_get p (active_children d) = Some n \<longrightarrow> n \<le> MAX_CHILDREN_PER_ROOT)
     \<and> (\<forall>c n. hm_get c (turn_limits d) = Some n \<longrightarrow> 1 \<le> n \<and> n \<le> 40)"

lemmas delegation_defs =
  register_child_def forget_child_def try_acquire_slot_def release_slot_def try_begin_continue_def
  end_continue_def set_max_turns_def take_max_turns_def

lemma delegation_ok_step: "delegation_ok d \<Longrightarrow> delegation_ok (delegation_step x d)"
proof (cases x)
  case (Spawn p child victims)
  assume d: "delegation_ok d"
  then have wf: "hm_wf (depths d)" by (simp add: delegation_ok_def)
  show ?thesis
  proof (cases "next_depth p d")
    case None
    then show ?thesis using d Spawn by simp
  next
    case (Some n)
    then have "n \<le> MAX_DEPTH" by (auto simp: next_depth_def Let_def split: if_splits)
    with Some d Spawn show ?thesis
      by (auto simp: delegation_ok_def register_child_def Let_def hm.fold_remove_get [OF wf] hm.wf_fold_remove
          split: if_splits)
  qed
next
  case (Acquire p)
  then show "delegation_ok d \<Longrightarrow> ?thesis"
    by (fastforce simp: delegation_ok_def delegation_defs Let_def MAX_CHILDREN_PER_ROOT_def
        split: option.splits if_splits)
next
  case (Release p)
  then show "delegation_ok d \<Longrightarrow> ?thesis"
    by (fastforce simp: delegation_ok_def delegation_defs Let_def split: option.splits if_splits)
qed (auto simp: delegation_ok_def delegation_defs clamp_def split: if_splits)

interpretation delegation: machine "\<lambda>d. d = delegation_new" delegation_step delegation_ok
  by unfold_locales (simp add: delegation_ok_def delegation_new_def, rule delegation_ok_step)

text \<open>The number of slots of \<open>p\<close> that are taken, by the answers given.\<close>

definition slots_taken :: "string \<Rightarrow> delegation \<Rightarrow> nat" where
  "slots_taken p d = (case hm_get p (active_children d) of Some n \<Rightarrow> n | None \<Rightarrow> 0)"

fun slot_ledger :: "string \<Rightarrow> delegation_op list \<Rightarrow> nat \<Rightarrow> nat" where
  "slot_ledger p [] n = n"
| "slot_ledger p (Acquire q # ops) n =
     slot_ledger p ops (if q = p \<and> n < MAX_CHILDREN_PER_ROOT then n + 1 else n)"
| "slot_ledger p (Release q # ops) n = slot_ledger p ops (if q = p then n - 1 else n)"
| "slot_ledger p (_ # ops) n = slot_ledger p ops n"

lemma slots_taken_simps:
  "fst (try_acquire_slot q d) \<longleftrightarrow> slots_taken q d < MAX_CHILDREN_PER_ROOT"
  "slots_taken p (snd (try_acquire_slot q d)) =
     (if q = p \<and> slots_taken p d < MAX_CHILDREN_PER_ROOT then slots_taken p d + 1 else slots_taken p d)"
  "slots_taken p (release_slot q d) = (if q = p then slots_taken p d - 1 else slots_taken p d)"
  by (auto simp: slots_taken_def try_acquire_slot_def release_slot_def Let_def split: option.split)

lemma slots_taken_other [simp]:
  "slots_taken p (register_child v c n d) = slots_taken p d" "slots_taken p (forget_child c d) = slots_taken p d"
  "slots_taken p (snd (try_begin_continue c d)) = slots_taken p d" "slots_taken p (end_continue c d) = slots_taken p d"
  "slots_taken p (set_max_turns c n d) = slots_taken p d" "slots_taken p (snd (take_max_turns c d)) = slots_taken p d"
  by (simp_all add: slots_taken_def delegation_defs Let_def)

lemma slots_taken_ledger: "slots_taken p (runs delegation_step ops d) = slot_ledger p ops (slots_taken p d)"
proof (induction ops arbitrary: d)
  case (Cons x ops)
  then show ?case by (cases x) (simp_all add: slots_taken_simps split: option.split)
qed simp

text \<open>
  In every execution a child's recorded depth is at most three, a child may be given between
  one and forty turns, and the slots of a parent follow its own ledger alone: an acquisition
  succeeds exactly while fewer than four are taken, a release gives one back (none, if none is
  taken), and the other parents' slots have no influence.
\<close>
theorem delegation_is_bounded:
  "let d = runs delegation_step ops delegation_new in
     depth_of child d \<le> 3
   \<and> (\<forall>n. fst (take_max_turns child d) = Some n \<longrightarrow> 1 \<le> n \<and> n \<le> 40)
   \<and> slots_taken p d = slot_ledger p ops 0
   \<and> slots_taken p d \<le> 4
   \<and> (fst (try_acquire_slot p d) \<longleftrightarrow> slot_ledger p ops 0 < 4)"
proof -
  define d where "d = runs delegation_step ops delegation_new"
  have ok: "delegation_ok d" unfolding d_def by (rule delegation.reachable_invar) simp
  have ledger: "slots_taken p d = slot_ledger p ops 0"
    unfolding d_def slots_taken_ledger by (simp add: slots_taken_def delegation_new_def)
  have "slots_taken p d \<le> 4"
    using ok by (auto simp: delegation_ok_def slots_taken_def MAX_CHILDREN_PER_ROOT_def split: option.split)
  moreover have "depth_of child d \<le> 3"
    using ok by (auto simp: delegation_ok_def depth_of_def MAX_DEPTH_def split: option.split)
  moreover have "1 \<le> n \<and> n \<le> 40" if "fst (take_max_turns child d) = Some n" for n
    using ok that by (simp add: delegation_ok_def take_max_turns_def)
  moreover have "fst (try_acquire_slot p d) \<longleftrightarrow> slot_ledger p ops 0 < 4"
    by (simp add: slots_taken_simps(1) ledger MAX_CHILDREN_PER_ROOT_def)
  ultimately show ?thesis
    unfolding d_def [symmetric] Let_def using ledger by blast
qed

theorem delegation_is_bounded_witness:
  "\<exists>n. fst (take_max_turns ''c'' (runs delegation_step [Limit_Turns ''c'' 100] delegation_new)) = Some n \<and> 1 \<le> n \<and> n \<le> 40"
proof -
  have "fst (take_max_turns ''c'' (runs delegation_step [Limit_Turns ''c'' 100] delegation_new)) = Some 40"
    by code_simp
  then show ?thesis
    using delegation_is_bounded [of "[Limit_Turns ''c'' 100]" "''c''" "''p''"] by (simp only: Let_def) blast
qed

text \<open>
  The limit on depth rests on the table, and the table forgets.  When more than 128 children
  are registered, the next registration drops up to sixty-four of them, running ones included; a
  dropped child counts as a root chat again and may delegate down to the full depth.
\<close>
theorem dropped_child_counts_as_root:
  assumes "delegation_ok d" and "hm_len (depths d) > 128" and "deep \<in> set (take 64 victims)" and "child \<noteq> deep"
  shows "depth_of deep (register_child victims child n d) = 0
       \<and> next_depth deep (register_child victims child n d) = Some 1"
proof -
  have wf: "hm_wf (depths d)" using assms(1) by (simp add: delegation_ok_def)
  have "depth_of deep (register_child victims child n d) = 0"
    using assms(2-4) by (simp add: depth_of_def register_child_def Let_def hm.fold_remove_get [OF wf])
  then show ?thesis by (simp add: next_depth_def saturating_add_u8_def MAX_DEPTH_def)
qed

text \<open>A continuation is single-flight: between a successful begin and the end no other begin succeeds.\<close>

definition no_end :: "string \<Rightarrow> delegation_op list \<Rightarrow> bool" where
  "no_end child ops \<longleftrightarrow> End_Continue child \<notin> set ops"

lemma continuing_step:
  "hm_get child (continuing d) \<noteq> None \<Longrightarrow> x \<noteq> End_Continue child \<Longrightarrow>
     hm_get child (continuing (delegation_step x d)) \<noteq> None"
  by (cases x) (auto simp: delegation_defs Let_def split: option.split)

theorem continuation_is_single_flight:
  shows "no_end child ops \<Longrightarrow> \<not> fst (try_begin_continue child (runs delegation_step ops (snd (try_begin_continue child d))))"
  and "fst (try_begin_continue child (end_continue child d'))"
proof -
  show "fst (try_begin_continue child (end_continue child d'))"
    by (simp add: try_begin_continue_def end_continue_def)
  have "hm_get child (continuing (runs delegation_step ops d)) \<noteq> None"
    if "no_end child ops" "hm_get child (continuing d) \<noteq> None" for ops d
    using that
  proof (induction ops arbitrary: d)
    case (Cons x ops)
    then have "hm_get child (continuing (delegation_step x d)) \<noteq> None"
      by (intro continuing_step) (auto simp: no_end_def)
    with Cons show ?case by (simp add: no_end_def)
  qed simp
  then show "no_end child ops \<Longrightarrow>
      \<not> fst (try_begin_continue child (runs delegation_step ops (snd (try_begin_continue child d))))"
    by (simp add: try_begin_continue_def)
qed

end
