(* ===== verification/Compress.thy ===== *)
theory Compress
  imports Messages Complex_Main
begin

text \<open>
  The compression of a conversation, \<open>crates/oz-core/src/compress.rs\<close>: measuring a history,
  trimming its old messages, dropping the oldest turns, and repairing the tool results whose
  call was dropped.

  Token counts are scaled with 64-bit floats.  The rounding of a float operation is the parameter
  \<open>fl\<close>: each operation of the code is the exact one followed by \<open>fl\<close>, and the theorems hold for
  every \<open>fl\<close>.  The text \<open>serde_json\<close> makes of the arguments of a tool call is the parameter
  \<open>json_text\<close>.  Lengths are counts of UTF-8 bytes, as in \<open>str::len\<close>.
\<close>

subsection \<open>Bytes of a text\<close>

text \<open>\<open>s[..s.floor_char_boundary(n)]\<close>: the longest prefix of at most \<open>n\<close> bytes, and the rest.\<close>

fun take_bytes :: "nat \<Rightarrow> string \<Rightarrow> string" where
  "take_bytes n [] = []"
| "take_bytes n (c # cs) = (if byte_len [c] \<le> n then c # take_bytes (n - byte_len [c]) cs else [])"

definition drop_bytes :: "nat \<Rightarrow> string \<Rightarrow> string" where
  "drop_bytes n s = drop (length (take_bytes n s)) s"

lemma byte_len_Cons: "byte_len (c # cs) = byte_len [c] + byte_len cs"
  by (simp add: byte_len_def)

lemma byte_len_append: "byte_len (xs @ ys) = byte_len xs + byte_len ys"
  by (simp add: byte_len_def)

lemma take_bytes_len: "byte_len (take_bytes n s) \<le> n"
proof (induction s arbitrary: n)
  case (Cons c cs)
  have "byte_len [c] + byte_len (take_bytes (n - byte_len [c]) cs) \<le> n" if "byte_len [c] \<le> n"
    using Cons [of "n - byte_len [c]"] that by linarith
  then show ?case by (simp add: byte_len_Cons [of c "take_bytes (n - byte_len [c]) cs"]) (simp add: byte_len_def)
qed (simp add: byte_len_def)

lemma take_bytes_prefix: "prefix (take_bytes n s) s"
  by (induction n s rule: take_bytes.induct) simp_all

subsection \<open>Configuration and measurement\<close>

record compression_config =
  min_messages :: nat
  trigger_pct :: nat
  max_trigger_tokens :: nat
  hard_max_tokens :: nat
  tool_result_budget :: nat
  old_assistant_budget :: nat
  old_user_budget :: nat
  enable_summarization :: bool
  target_tokens :: nat
  summary_wait_secs :: nat
  summary_max_prompt_chars :: nat

definition default_compression :: compression_config where
  "default_compression =
     \<lparr>min_messages = 8, trigger_pct = 80, max_trigger_tokens = 0, hard_max_tokens = 0,
      tool_result_budget = 3000, old_assistant_budget = 2000, old_user_budget = 5000,
      enable_summarization = True, target_tokens = 16000, summary_wait_secs = 600,
      summary_max_prompt_chars = 12000\<rparr>"

record usage_stats =
  total_chars :: nat
  tool_result_chars :: nat
  assistant_chars :: nat
  user_chars :: nat
  system_chars :: nat
  message_count :: nat
  token_ratio :: rat

text \<open>The cast \<open>as usize\<close> of a float, and the two scalings.\<close>

definition to_usize :: "rat \<Rightarrow> nat" where
  "to_usize q = min (nat \<lfloor>q\<rfloor>) (2 ^ 64 - 1)"

definition chars_to_tokens :: "(rat \<Rightarrow> rat) \<Rightarrow> usage_stats \<Rightarrow> nat \<Rightarrow> nat" where
  "chars_to_tokens fl st chars =
     (if token_ratio st > 0 then to_usize (fl (fl (of_nat chars) * token_ratio st)) else chars div 4)"

definition stats_total_tokens :: "(rat \<Rightarrow> rat) \<Rightarrow> usage_stats \<Rightarrow> nat" where
  "stats_total_tokens fl st = chars_to_tokens fl st (total_chars st)"

definition tokens_to_chars :: "(rat \<Rightarrow> rat) \<Rightarrow> usage_stats \<Rightarrow> nat \<Rightarrow> nat" where
  "tokens_to_chars fl st tokens =
     (if token_ratio st > 0 then to_usize (fl (fl (of_nat tokens) / token_ratio st)) else tokens * 4)"

definition image_char_estimate :: "string \<Rightarrow> nat" where
  "image_char_estimate url = (if prefix ''data:'' url then 4000 else min (byte_len url) 4000)"

fun content_block_len :: "(json \<Rightarrow> string) \<Rightarrow> content_block \<Rightarrow> nat" where
  "content_block_len json_text (TextBlock t _) = byte_len t"
| "content_block_len json_text (ToolUse _ name input) = byte_len name + byte_len (json_text input)"
| "content_block_len json_text (ToolResult _ (ContentText t) _) = byte_len t"
| "content_block_len json_text (ToolResult _ (ContentBlocks bs) _) =
     sum_list (map (content_block_len json_text) bs)"
| "content_block_len json_text (ImageUrl url _) = image_char_estimate url"
| "content_block_len json_text (Thinking _ _) = 0"

definition message_len :: "(json \<Rightarrow> string) \<Rightarrow> message \<Rightarrow> nat" where
  "message_len json_text m = sum_list (map (content_block_len json_text) (msg_content m))"

definition role_chars :: "(json \<Rightarrow> string) \<Rightarrow> role \<Rightarrow> message list \<Rightarrow> nat" where
  "role_chars json_text r ms = sum_list (map (message_len json_text) (filter (\<lambda>m. msg_role m = r) ms))"

definition measure_usage_with_ratio :: "(json \<Rightarrow> string) \<Rightarrow> message list \<Rightarrow> rat option \<Rightarrow> usage_stats" where
  "measure_usage_with_ratio json_text ms stored =
     \<lparr>total_chars = sum_list (map (message_len json_text) ms),
      tool_result_chars = role_chars json_text ToolRole ms,
      assistant_chars = role_chars json_text AssistantRole ms,
      user_chars = role_chars json_text UserRole ms,
      system_chars = role_chars json_text SystemRole ms,
      message_count = length ms,
      token_ratio = (case stored of Some r \<Rightarrow> r | None \<Rightarrow> 0)\<rparr>"

definition measure_usage :: "(json \<Rightarrow> string) \<Rightarrow> message list \<Rightarrow> usage_stats" where
  "measure_usage json_text ms = measure_usage_with_ratio json_text ms None"

subsection \<open>Tool results without their call\<close>

fun tool_use_id :: "content_block \<Rightarrow> string option" where
  "tool_use_id (ToolUse i _ _) = Some i"
| "tool_use_id _ = None"

fun tool_result_id :: "content_block \<Rightarrow> string option" where
  "tool_result_id (ToolResult i _ _) = Some i"
| "tool_result_id _ = None"

definition use_ids :: "message \<Rightarrow> string list" where
  "use_ids m = List.map_filter tool_use_id (msg_content m)"

definition result_ids :: "message \<Rightarrow> string list" where
  "result_ids m = List.map_filter tool_result_id (msg_content m)"

fun content_container_text :: "content_container \<Rightarrow> string" where
  "content_container_text (ContentText t) = t"
| "content_container_text (ContentBlocks bs) = join_with [CHR 0x0A] (List.map_filter block_text bs)"

definition valid_ids :: "message option \<Rightarrow> string list" where
  "valid_ids prev =
     (case prev of Some p \<Rightarrow> if msg_role p = AssistantRole then use_ids p else [] | None \<Rightarrow> [])"

fun orphan :: "string list \<Rightarrow> content_block \<Rightarrow> bool" where
  "orphan ids (ToolResult i _ _) = (i \<notin> set ids)"
| "orphan ids _ = False"

fun repair_block :: "string list \<Rightarrow> content_block \<Rightarrow> content_block" where
  "repair_block ids (ToolResult i c e) =
     (if i \<notin> set ids then text_block (''[compressed tool output]: '' @ content_container_text c)
      else ToolResult i c e)"
| "repair_block ids b = b"

text \<open>Consecutive texts become one.\<close>

definition push_block :: "content_block list \<Rightarrow> content_block \<Rightarrow> content_block list" where
  "push_block acc b =
     (case b of
        TextBlock t _ \<Rightarrow>
          (case (if acc = [] then None else Some (last acc)) of
             Some (TextBlock prev cc) \<Rightarrow> butlast acc @ [TextBlock (prev @ [CHR 0x0A] @ t) cc]
           | _ \<Rightarrow> acc @ [text_block t])
      | _ \<Rightarrow> acc @ [b])"

definition repair_message :: "string list \<Rightarrow> message \<Rightarrow> message" where
  "repair_message ids m =
     (if list_ex (orphan ids) (msg_content m)
      then m\<lparr>msg_content := foldl push_block [] (map (repair_block ids) (msg_content m))\<rparr>
      else m)"

fun repair_from :: "message option \<Rightarrow> message list \<Rightarrow> message list" where
  "repair_from prev [] = []"
| "repair_from prev (m # ms) =
     (let m' = (if msg_role m \<noteq> UserRole then m else repair_message (valid_ids prev) m)
      in m' # repair_from (Some m') ms)"

definition repair_orphaned_tool_results :: "message list \<Rightarrow> message list" where
  "repair_orphaned_tool_results ms = repair_from None ms"

subsection \<open>Trimming\<close>

fun container_len :: "(json \<Rightarrow> string) \<Rightarrow> content_container \<Rightarrow> nat" where
  "container_len json_text (ContentText t) = byte_len t"
| "container_len json_text (ContentBlocks bs) = sum_list (map (content_block_len json_text) bs)"

fun truncate_blocks ::
  "(json \<Rightarrow> string) \<Rightarrow> nat \<Rightarrow> nat \<Rightarrow> content_block list \<Rightarrow> nat \<Rightarrow> content_block list \<Rightarrow> content_block list" where
  "truncate_blocks json_text budget count acc used [] = acc"
| "truncate_blocks json_text budget count acc used (b # bs) =
     (if used \<ge> budget
      then acc @ [text_block (''[... '' @ nat_text (count - length acc) @ '' more blocks truncated]'')]
      else let len = content_block_len json_text b in
        case b of
          TextBlock t _ \<Rightarrow>
            if used + len > budget
            then (let remaining = budget - used;
                      t' = (if byte_len t > remaining then take_bytes (remaining div 2) t @ ''...[truncated]'' else t) in
                  truncate_blocks json_text budget count (acc @ [text_block t']) (used + remaining) bs)
            else truncate_blocks json_text budget count (acc @ [b]) (used + len) bs
        | _ \<Rightarrow>
            if used + len \<le> budget
            then truncate_blocks json_text budget count (acc @ [b]) (used + len) bs
            else truncate_blocks json_text budget count acc used bs)"

fun truncate_content :: "(json \<Rightarrow> string) \<Rightarrow> nat \<Rightarrow> content_container \<Rightarrow> content_container" where
  "truncate_content json_text budget (ContentText t) =
     (if byte_len t > budget
      then (let half = byte_len (take_bytes (budget div 2) t) in
            ContentText (take_bytes half t @ ''...[truncated '' @ nat_text (byte_len t - budget) @ '' chars]...'' @
              drop_bytes (byte_len t - half) t))
      else ContentText t)"
| "truncate_content json_text budget (ContentBlocks bs) =
     ContentBlocks (truncate_blocks json_text budget (length bs) [] 0 bs)"

text \<open>One block of \<open>compress_tool_results\<close>, with the running counts of seen and of saved bytes.\<close>

definition squeeze_block ::
  "(json \<Rightarrow> string) \<Rightarrow> nat \<Rightarrow> nat \<Rightarrow> nat \<Rightarrow> content_block \<Rightarrow> content_block \<times> nat \<times> nat" where
  "squeeze_block json_text budget seen saved b =
     (case b of
        ToolResult i c e \<Rightarrow>
          (let c' = truncate_content json_text (budget - seen) c in
           (ToolResult i c' e, seen + container_len json_text c,
            saved + (container_len json_text c - container_len json_text c')))
      | TextBlock t cc \<Rightarrow>
          if byte_len t > budget div 4
          then (let half = take_bytes (byte_len t div 4) t;
                    t' = half @ ''...[+'' @ nat_text (byte_len t - byte_len half * 2) @ '' more chars]'' in
                (text_block t', seen, saved + (byte_len t - byte_len t')))
          else (b, seen, saved)
      | _ \<Rightarrow> (b, seen, saved))"

fun squeeze_blocks ::
  "(json \<Rightarrow> string) \<Rightarrow> nat \<Rightarrow> nat \<Rightarrow> nat \<Rightarrow> content_block list \<Rightarrow> content_block list \<times> nat \<times> nat" where
  "squeeze_blocks json_text budget seen saved [] = ([], seen, saved)"
| "squeeze_blocks json_text budget seen saved (b # bs) =
     (case squeeze_block json_text budget seen saved b of (b', seen', saved') \<Rightarrow>
      case squeeze_blocks json_text budget seen' saved' bs of (bs', r) \<Rightarrow> (b' # bs', r))"

fun squeeze_messages ::
  "(json \<Rightarrow> string) \<Rightarrow> nat \<Rightarrow> nat \<Rightarrow> nat \<Rightarrow> message list \<Rightarrow> message list \<times> nat" where
  "squeeze_messages json_text budget seen saved [] = ([], saved)"
| "squeeze_messages json_text budget seen saved (m # ms) =
     (if msg_role m \<noteq> ToolRole \<and> msg_role m \<noteq> AssistantRole
      then (case squeeze_messages json_text budget seen saved ms of (ms', r) \<Rightarrow> (m # ms', r))
      else if seen > budget then (m # ms, saved)
      else (case squeeze_blocks json_text budget seen saved (msg_content m) of (bs, seen', saved') \<Rightarrow>
            case squeeze_messages json_text budget seen' saved' ms of (ms', r) \<Rightarrow>
              (m\<lparr>msg_content := bs\<rparr> # ms', r)))"

definition compress_tool_results :: "(json \<Rightarrow> string) \<Rightarrow> nat \<Rightarrow> message list \<Rightarrow> message list \<times> nat" where
  "compress_tool_results json_text budget ms = squeeze_messages json_text budget 0 0 ms"

fun trim_blocks :: "(json \<Rightarrow> string) \<Rightarrow> nat \<Rightarrow> nat \<Rightarrow> content_block list \<Rightarrow> content_block list" where
  "trim_blocks json_text budget used [] = []"
| "trim_blocks json_text budget used (b # bs) =
     (if used + content_block_len json_text b \<le> budget
      then b # trim_blocks json_text budget (used + content_block_len json_text b) bs
      else case b of
          TextBlock t cc \<Rightarrow>
            (if budget - used > 0 then [TextBlock (take_bytes (budget - used) t) cc] else [])
        | _ \<Rightarrow> trim_blocks json_text budget used bs)"

definition trim_message_content ::
  "(rat \<Rightarrow> rat) \<Rightarrow> (json \<Rightarrow> string) \<Rightarrow> compression_config \<Rightarrow> usage_stats \<Rightarrow> message \<Rightarrow> message \<times> nat" where
  "trim_message_content fl json_text cfg st m =
     (case (case msg_role m of
              AssistantRole \<Rightarrow> Some (old_assistant_budget cfg)
            | UserRole \<Rightarrow> Some (old_user_budget cfg)
            | _ \<Rightarrow> None) of
        None \<Rightarrow> (m, 0)
      | Some token_budget \<Rightarrow>
          (let budget = tokens_to_chars fl st token_budget in
           if message_len json_text m \<le> budget then (m, 0)
           else (m\<lparr>msg_content := trim_blocks json_text budget 0 (msg_content m)\<rparr>,
                 message_len json_text m - budget)))"

definition sanitize_leading_message :: "message \<Rightarrow> message" where
  "sanitize_leading_message m =
     m\<lparr>msg_content := [text_block (join_with [CHR 0x0A] (List.map_filter leading_text (msg_content m)))]\<rparr>"

subsection \<open>Dropping the oldest turns\<close>

text \<open>The two nested loops that moves the edge, with the number of messages and of bytes left.\<close>

function lead_loop ::
  "role list \<Rightarrow> nat list \<Rightarrow> nat \<Rightarrow> nat \<Rightarrow> nat \<Rightarrow> nat \<Rightarrow> nat \<Rightarrow> nat \<times> nat \<times> nat" where
  "lead_loop roles lens keep least edge remaining chars =
     (if edge < keep \<and> remaining > least \<and> roles ! edge \<noteq> UserRole \<and> roles ! edge \<noteq> SystemRole
      then lead_loop roles lens keep least (edge + 1) (remaining - 1) (chars - lens ! edge)
      else (edge, remaining, chars))"
  by pat_completeness auto
termination
  by (relation "measure (\<lambda>(roles, lens, keep, least, edge, remaining, chars). keep - edge)") auto

declare lead_loop.simps [simp del]

lemma lead_loop_mono: "lead_loop roles lens keep least edge remaining chars = (edge', r) \<Longrightarrow> edge \<le> edge'"
  by (induction roles lens keep least edge remaining chars arbitrary: edge' r rule: lead_loop.induct)
    (subst (asm) lead_loop.simps, fastforce split: if_splits)

function drop_loop ::
  "role list \<Rightarrow> nat list \<Rightarrow> nat \<Rightarrow> nat \<Rightarrow> nat \<Rightarrow> nat \<Rightarrow> nat \<Rightarrow> nat \<Rightarrow> nat" where
  "drop_loop roles lens keep least budget edge remaining chars =
     (if edge < keep \<and> remaining > least \<and> chars > budget
      then (case lead_loop roles lens keep least (edge + 1) (remaining - 1) (chars - lens ! edge) of
          (edge', remaining', chars') \<Rightarrow> drop_loop roles lens keep least budget edge' remaining' chars')
      else edge)"
  by pat_completeness auto
termination
  by (relation "measure (\<lambda>(roles, lens, keep, least, budget, edge, remaining, chars). keep - edge)")
    (auto split: prod.splits dest!: lead_loop_mono)

declare drop_loop.simps [simp del]

definition user_positions :: "message list \<Rightarrow> nat list" where
  "user_positions ms = filter (\<lambda>i. msg_role (ms ! i) = UserRole) [0..<length ms]"

definition keep_start :: "message list \<Rightarrow> nat" where
  "keep_start ms =
     (let us = user_positions ms in
      if length us > 2 then us ! (length us - 2) else length ms)"

definition char_budget :: "(rat \<Rightarrow> rat) \<Rightarrow> rat option \<Rightarrow> nat \<Rightarrow> nat" where
  "char_budget fl known_ratio target =
     (let ratio = (case known_ratio of Some r \<Rightarrow> r | None \<Rightarrow> 1 / 4) in
      to_usize (fl (fl (of_nat target) / max ratio (fl (1 / 1000000)))))"

definition cut_point ::
  "(rat \<Rightarrow> rat) \<Rightarrow> (json \<Rightarrow> string) \<Rightarrow> compression_config \<Rightarrow> rat option \<Rightarrow> nat \<Rightarrow> nat \<Rightarrow> message list \<Rightarrow> nat" where
  "cut_point fl json_text cfg known_ratio target start ms =
     (if start < keep_start ms
      then (let lens = map (message_len json_text) ms in
            drop_loop (map msg_role ms) lens (keep_start ms) (start + min_messages cfg)
              (char_budget fl known_ratio target) start (length ms) (sum_list lens))
      else start)"

definition drop_oldest :: "nat \<Rightarrow> nat \<Rightarrow> message list \<Rightarrow> message list" where
  "drop_oldest start edge ms =
     (if edge > start
      then take start ms @
        (case drop edge ms of [] \<Rightarrow> [] | m # rest \<Rightarrow> sanitize_leading_message m # rest)
      else ms)"

subsection \<open>Compression\<close>

text \<open>
  The messages in \<open>start..stop\<close> are trimmed; the slice of the code panics when \<open>start\<close> is after
  \<open>stop\<close>, which is \<open>None\<close> here.
\<close>

definition trim_range ::
  "(rat \<Rightarrow> rat) \<Rightarrow> (json \<Rightarrow> string) \<Rightarrow> compression_config \<Rightarrow> usage_stats \<Rightarrow> nat \<Rightarrow> nat \<Rightarrow> message list \<Rightarrow>
     (message list \<times> nat) option" where
  "trim_range fl json_text cfg st start stop ms =
     (if start > stop then None
      else (let trimmed = map (trim_message_content fl json_text cfg st) (drop start (take stop ms)) in
        Some (take start ms @ map fst trimmed @ drop stop ms, sum_list (map snd trimmed))))"

definition trigger_tokens :: "nat \<Rightarrow> compression_config \<Rightarrow> nat" where
  "trigger_tokens context_win cfg =
     (let pct = context_win * trigger_pct cfg div 100 in
      if max_trigger_tokens cfg > 0 then min pct (max_trigger_tokens cfg) else pct)"

definition token_ratio_of ::
  "(rat \<Rightarrow> rat) \<Rightarrow> (json \<Rightarrow> string) \<Rightarrow> nat option \<Rightarrow> message list \<Rightarrow> rat option" where
  "token_ratio_of fl json_text known ms =
     (let total = total_chars (measure_usage json_text ms) in
      case known of
        Some kt \<Rightarrow> if kt > 0 \<and> total > 0 then Some (fl (fl (of_nat kt) / fl (of_nat total))) else None
      | None \<Rightarrow> None)"

definition over_trigger :: "(rat \<Rightarrow> rat) \<Rightarrow> (json \<Rightarrow> string) \<Rightarrow> nat \<Rightarrow> compression_config \<Rightarrow> nat option \<Rightarrow> message list \<Rightarrow> bool" where
  "over_trigger fl json_text context_win cfg known ms \<longleftrightarrow>
     stats_total_tokens fl (measure_usage_with_ratio json_text ms (token_ratio_of fl json_text known ms))
       > trigger_tokens context_win cfg"

definition sys_count :: "message list \<Rightarrow> nat" where
  "sys_count ms = length (takeWhile (\<lambda>m. msg_role m = SystemRole) ms)"

definition squeeze_phase ::
  "(rat \<Rightarrow> rat) \<Rightarrow> (json \<Rightarrow> string) \<Rightarrow> compression_config \<Rightarrow> usage_stats \<Rightarrow> message list \<Rightarrow> message list \<times> nat" where
  "squeeze_phase fl json_text cfg st ms =
     (let budget = tokens_to_chars fl st (tool_result_budget cfg) in
      if enable_summarization cfg \<and> tool_result_chars st > budget
      then compress_tool_results json_text budget ms else (ms, 0))"

definition compress_messages ::
  "(rat \<Rightarrow> rat) \<Rightarrow> (json \<Rightarrow> string) \<Rightarrow> nat \<Rightarrow> compression_config \<Rightarrow> nat option \<Rightarrow> message list \<Rightarrow>
     (message list \<times> nat) option" where
  "compress_messages fl json_text context_win cfg known ms =
     (let trigger = trigger_tokens context_win cfg;
          target = min (target_tokens cfg) (max (trigger - 1) 1);
          ratio = token_ratio_of fl json_text known ms;
          st = measure_usage_with_ratio json_text ms ratio in
      if \<not> over_trigger fl json_text context_win cfg known ms then Some (ms, 0)
      else
        (let (ms1, saved1) = squeeze_phase fl json_text cfg st ms;
             start = sys_count ms1 in
         case trim_range fl json_text cfg st start (length ms1 - 2) ms1 of
           None \<Rightarrow> None
         | Some (ms2, saved2) \<Rightarrow>
             (let edge = cut_point fl json_text cfg ratio target start ms2 in
              Some (repair_orphaned_tool_results (drop_oldest start edge ms2),
                saved1 + saved2 + (edge - start)))))"

subsection \<open>What every phase keeps\<close>

text \<open>The role of a message, and a system message altogether.\<close>

definition reshaped :: "message \<Rightarrow> message \<Rightarrow> bool" where
  "reshaped m m' \<longleftrightarrow> msg_role m' = msg_role m \<and> (msg_role m = SystemRole \<longrightarrow> m' = m)"

lemma reshaped_refl [simp]: "reshaped m m"
  by (simp add: reshaped_def)

lemma reshaped_list_refl [simp]: "list_all2 reshaped ms ms"
  by (rule list_all2_refl) simp

lemma reshaped_trans: "list_all2 reshaped xs ys \<Longrightarrow> list_all2 reshaped ys zs \<Longrightarrow> list_all2 reshaped xs zs"
  by (rule list_all2_trans [where ?P1.0 = reshaped and ?P2.0 = reshaped]) (auto simp: reshaped_def)

lemma reshaped_roles: "list_all2 reshaped ms ms' \<Longrightarrow> map msg_role ms' = map msg_role ms"
  by (induction rule: list_all2_induct) (auto simp: reshaped_def)

lemma reshaped_content: "msg_role m \<noteq> SystemRole \<Longrightarrow> reshaped m (m\<lparr>msg_content := bs\<rparr>)"
  by (simp add: reshaped_def)

lemma squeeze_reshaped: "list_all2 reshaped ms (fst (squeeze_messages json_text budget seen saved ms))"
  by (induction json_text budget seen saved ms rule: squeeze_messages.induct)
    (auto split: prod.splits intro: reshaped_content)

lemma squeeze_phase_reshaped: "list_all2 reshaped ms (fst (squeeze_phase fl json_text cfg st ms))"
  by (simp add: squeeze_phase_def compress_tool_results_def squeeze_reshaped Let_def)

lemma trim_message_reshaped [simp]: "reshaped m (fst (trim_message_content fl json_text cfg st m))"
  by (simp add: reshaped_def trim_message_content_def Let_def split: role.split)

lemma trim_range_reshaped:
  assumes "trim_range fl json_text cfg st start stop ms = Some (ms', n)"
  shows "list_all2 reshaped ms ms'"
proof -
  have "start \<le> stop" using assms by (simp add: trim_range_def split: if_splits)
  then have "ms = take start ms @ drop start (take stop ms) @ drop stop ms"
    by (metis append_assoc append_take_drop_id min.absorb1 take_take)
  moreover have "ms' = take start ms @ map (fst \<circ> trim_message_content fl json_text cfg st) (drop start (take stop ms)) @ drop stop ms"
    using assms by (auto simp: trim_range_def Let_def split: if_splits)
  moreover have "list_all2 reshaped xs (map (fst \<circ> trim_message_content fl json_text cfg st) xs)" for xs
    by (simp add: list_all2_conv_all_nth)
  ultimately show ?thesis by (metis list_all2_appendI reshaped_list_refl)
qed

lemma repair_reshaped: "list_all2 reshaped ms (repair_from prev ms)"
  by (induction prev ms rule: repair_from.induct) (auto simp: Let_def reshaped_def repair_message_def)

lemma sys_count_reshaped: "list_all2 reshaped ms ms' \<Longrightarrow> sys_count ms' = sys_count ms"
  by (induction rule: list_all2_induct) (auto simp: reshaped_def sys_count_def)

lemma sys_prefix_reshaped: "list_all2 reshaped ms ms' \<Longrightarrow> take (sys_count ms) ms' = take (sys_count ms) ms"
  by (induction rule: list_all2_induct) (auto simp: reshaped_def sys_count_def)

lemma keep_start_roles: "map msg_role ms' = map msg_role ms \<Longrightarrow> keep_start ms' = keep_start ms"
proof -
  assume r: "map msg_role ms' = map msg_role ms"
  then have len: "length ms' = length ms" by (metis length_map)
  have "msg_role (ms' ! i) = msg_role (ms ! i)" if "i < length ms" for i
    using r that len by (metis nth_map)
  then have "user_positions ms' = user_positions ms"
    unfolding user_positions_def len by (intro filter_cong) simp_all
  then show ?thesis by (simp only: keep_start_def len)
qed

subsection \<open>The cut\<close>

lemma lead_loop_inv:
  "lead_loop roles lens keep least edge remaining chars = (edge', remaining', chars') \<Longrightarrow>
     edge \<le> keep \<Longrightarrow> least \<le> remaining \<Longrightarrow>
     edge \<le> edge' \<and> edge' \<le> keep \<and> least \<le> remaining' \<and> remaining' + edge' = remaining + edge"
proof (induction roles lens keep least edge remaining chars rule: lead_loop.induct)
  case (1 roles lens keep least edge remaining chars)
  show ?case
  proof (cases "edge < keep \<and> remaining > least \<and> roles ! edge \<noteq> UserRole \<and> roles ! edge \<noteq> SystemRole")
    case True
    then have "lead_loop roles lens keep least (edge + 1) (remaining - 1) (chars - lens ! edge) = (edge', remaining', chars')"
      using 1(2) lead_loop.simps [of roles lens keep least edge] by simp
    then have "edge + 1 \<le> edge' \<and> edge' \<le> keep \<and> least \<le> remaining' \<and> remaining' + edge' = remaining - 1 + (edge + 1)"
      using 1(1) [OF True] True by linarith
    with True show ?thesis by linarith
  next
    case False
    then show ?thesis using 1(2-4) lead_loop.simps [of roles lens keep least edge] by auto
  qed
qed

lemma drop_loop_inv:
  "edge \<le> keep \<Longrightarrow> least \<le> remaining \<Longrightarrow>
     edge \<le> drop_loop roles lens keep least budget edge remaining chars \<and>
     drop_loop roles lens keep least budget edge remaining chars \<le> keep \<and>
     least + drop_loop roles lens keep least budget edge remaining chars \<le> remaining + edge"
proof (induction roles lens keep least budget edge remaining chars rule: drop_loop.induct)
  case (1 roles lens keep least budget edge remaining chars)
  show ?case
  proof (cases "edge < keep \<and> remaining > least \<and> chars > budget")
    case True
    obtain edge' remaining' chars' where
      l: "lead_loop roles lens keep least (edge + 1) (remaining - 1) (chars - lens ! edge) = (edge', remaining', chars')"
      by (metis prod_cases3)
    have inv: "edge + 1 \<le> edge' \<and> edge' \<le> keep \<and> least \<le> remaining' \<and> remaining' + edge' = remaining - 1 + (edge + 1)"
      by (rule lead_loop_inv [OF l]) (use True in auto)
    have "drop_loop roles lens keep least budget edge remaining chars = drop_loop roles lens keep least budget edge' remaining' chars'"
      by (simp only: drop_loop.simps [of roles lens keep least budget edge remaining chars] l True if_True simp_thms split)
    with 1(1) [OF True l [symmetric] refl] True inv show ?thesis by linarith
  next
    case False
    with 1(2,3) show ?thesis by (auto simp: drop_loop.simps [of roles lens keep least budget edge remaining chars])
  qed
qed

lemma drop_loop_starts:
  assumes "edge < keep" and "remaining > least" and "chars > budget"
  shows "edge < drop_loop roles lens keep least budget edge remaining chars"
proof -
  obtain edge' remaining' chars' where
    l: "lead_loop roles lens keep least (edge + 1) (remaining - 1) (chars - lens ! edge) = (edge', remaining', chars')"
    by (metis prod_cases3)
  have "edge + 1 \<le> edge' \<and> edge' \<le> keep \<and> least \<le> remaining' \<and> remaining' + edge' = remaining - 1 + (edge + 1)"
    by (rule lead_loop_inv [OF l]) (use assms in auto)
  moreover have "drop_loop roles lens keep least budget edge remaining chars = drop_loop roles lens keep least budget edge' remaining' chars'"
    by (simp only: drop_loop.simps [of roles lens keep least budget edge remaining chars] l assms if_True simp_thms split)
  ultimately show ?thesis using drop_loop_inv [of edge' keep least remaining' roles lens budget chars'] by linarith
qed

lemma keep_start_le: "keep_start ms \<le> length ms"
proof (cases "length (user_positions ms) > 2")
  case True
  then have "user_positions ms ! (length (user_positions ms) - 2) \<in> set (user_positions ms)" by simp
  then have "user_positions ms ! (length (user_positions ms) - 2) < length ms"
    by (auto simp: user_positions_def simp del: nth_mem)
  with True show ?thesis by (simp add: keep_start_def Let_def)
qed (simp add: keep_start_def Let_def)

lemma cut_point_bounds:
  assumes "edge = cut_point fl json_text cfg ratio target start ms"
  shows "start \<le> edge" "edge > start \<Longrightarrow> edge \<le> keep_start ms"
    "edge > start \<Longrightarrow> start + min_messages cfg + (edge - start) \<le> length ms"
proof -
  let ?loop = "\<lambda>keep least b c. drop_loop (map msg_role ms) (map (message_len json_text) ms) keep least b start (length ms) c"
  have e: "edge = (if start < keep_start ms then ?loop (keep_start ms) (start + min_messages cfg)
      (char_budget fl ratio target) (sum_list (map (message_len json_text) ms)) else start)"
    by (simp only: assms cut_point_def Let_def)
  have stop: "?loop keep least b c = start" if "length ms < least" for keep least b c
    using that by (simp add: drop_loop.simps [of _ _ keep least b start])
  show "start \<le> edge" "edge > start \<Longrightarrow> edge \<le> keep_start ms"
    "edge > start \<Longrightarrow> start + min_messages cfg + (edge - start) \<le> length ms"
    unfolding e
    using drop_loop_inv [of start "keep_start ms" "start + min_messages cfg" "length ms" "map msg_role ms"
        "map (message_len json_text) ms" "char_budget fl ratio target" "sum_list (map (message_len json_text) ms)"]
      stop [of "start + min_messages cfg"]
    by (cases "length ms < start + min_messages cfg"; force split: if_splits)+
qed

subsection \<open>No result without its call\<close>

text \<open>Every tool result of a user message answers a call of the assistant's message before it.\<close>

definition paired_from :: "message option \<Rightarrow> message list \<Rightarrow> bool" where
  "paired_from prev ms \<longleftrightarrow>
     (\<forall>i < length ms. msg_role (ms ! i) = UserRole \<longrightarrow>
        set (result_ids (ms ! i)) \<subseteq> set (valid_ids (if i = 0 then prev else Some (ms ! (i - 1)))))"

lemma push_block_ids:
  "List.map_filter tool_result_id (push_block acc b) = List.map_filter tool_result_id (acc @ [b])"
proof (cases b)
  case (TextBlock t cc)
  show ?thesis
  proof (cases acc rule: rev_cases)
    case (snoc as a)
    then show ?thesis using TextBlock
      by (cases a) (simp_all add: push_block_def map_filter_append text_block_def map_filter_simps)
  qed (simp add: push_block_def TextBlock text_block_def map_filter_simps)
qed (simp_all add: push_block_def map_filter_append)

lemma push_blocks_ids:
  "List.map_filter tool_result_id (foldl push_block acc bs) = List.map_filter tool_result_id (acc @ bs)"
  by (induction bs arbitrary: acc)
    (simp_all add: push_block_ids map_filter_append map_filter_simps split: option.split)

lemma repair_block_ids: "tool_result_id (repair_block ids b) = Some i \<Longrightarrow> i \<in> set ids"
  by (cases "(ids, b)" rule: repair_block.cases) (auto simp: text_block_def split: if_splits)

lemma repair_message_ids: "set (result_ids (repair_message ids m)) \<subseteq> set ids"
proof (cases "list_ex (orphan ids) (msg_content m)")
  case True
  then have "result_ids (repair_message ids m) = List.map_filter tool_result_id (map (repair_block ids) (msg_content m))"
    by (simp add: repair_message_def result_ids_def push_blocks_ids)
  then show ?thesis by (auto simp: List.map_filter_def dest: repair_block_ids)
next
  case False
  then have "\<forall>b \<in> set (msg_content m). \<not> orphan ids b" by (simp add: list_ex_iff)
  then have "i \<in> set ids" if "b \<in> set (msg_content m)" "tool_result_id b = Some i" for b i
    using that by (cases b) auto
  with False show ?thesis by (auto simp: repair_message_def result_ids_def List.map_filter_def)
qed

lemma repair_paired: "paired_from prev (repair_from prev ms)"
proof (induction prev ms rule: repair_from.induct)
  case (2 prev m ms)
  let ?m = "if msg_role m \<noteq> UserRole then m else repair_message (valid_ids prev) m"
  have IH: "paired_from (Some ?m) (repair_from (Some ?m) ms)" using 2 by simp
  have first: "msg_role ?m = UserRole \<Longrightarrow> set (result_ids ?m) \<subseteq> set (valid_ids prev)"
    using repair_message_ids [of "valid_ids prev" m] by (simp split: if_splits)
  show ?case unfolding paired_from_def
  proof (intro allI impI)
    fix i assume i: "i < length (repair_from prev (m # ms))" "msg_role (repair_from prev (m # ms) ! i) = UserRole"
    show "set (result_ids (repair_from prev (m # ms) ! i)) \<subseteq>
      set (valid_ids (if i = 0 then prev else Some (repair_from prev (m # ms) ! (i - 1))))"
    proof (cases i)
      case 0
      with i first show ?thesis by (simp add: Let_def)
    next
      case (Suc k)
      with i IH show ?thesis
        by (cases k) (auto simp: Let_def paired_from_def split: if_splits dest!: spec [of _ k])
    qed
  qed
qed (simp add: paired_from_def)

lemma repair_unchanged: "paired_from prev ms \<Longrightarrow> repair_from prev ms = ms"
proof (induction prev ms rule: repair_from.induct)
  case (2 prev m ms)
  have keep: "repair_message (valid_ids prev) m = m" if "msg_role m = UserRole"
  proof -
    have "set (result_ids m) \<subseteq> set (valid_ids prev)"
      using 2(2) that unfolding paired_from_def by (drule_tac x = 0 in spec) simp
    then have "\<not> orphan (valid_ids prev) b" if "b \<in> set (msg_content m)" for b
      using that by (cases b) (force simp: result_ids_def List.map_filter_def)+
    then show ?thesis by (auto simp: repair_message_def list_ex_iff)
  qed
  have "paired_from (Some m) ms" unfolding paired_from_def
  proof (intro allI impI)
    fix i assume "i < length ms" "msg_role (ms ! i) = UserRole"
    then show "set (result_ids (ms ! i)) \<subseteq> set (valid_ids (if i = 0 then Some m else Some (ms ! (i - 1))))"
      using 2(2) unfolding paired_from_def by (drule_tac x = "Suc i" in spec) (auto simp: nth_Cons')
  qed
  then show ?case using 2(1) keep by (auto simp: Let_def)
qed simp

subsection \<open>What compression does to a conversation\<close>

lemma drop_oldest_roles:
  "start \<le> edge \<Longrightarrow> map msg_role (drop_oldest start edge ms) = map msg_role (take start ms @ drop edge ms)"
proof (cases "start = edge")
  case True
  then show ?thesis by (simp add: drop_oldest_def flip: map_append)
next
  case False
  then show "start \<le> edge \<Longrightarrow> ?thesis"
    by (cases "drop edge ms") (simp_all add: drop_oldest_def sanitize_leading_message_def)
qed

lemma drop_oldest_take:
  "start \<le> length ms \<Longrightarrow> take start (drop_oldest start edge ms) = take start ms"
  by (simp add: drop_oldest_def)

lemma sys_count_le: "sys_count ms \<le> length ms"
  by (simp add: sys_count_def length_takeWhile_le)

text \<open>The messages after the first phase, and the facts the later ones rest on.\<close>

lemma compress_phases:
  assumes "over_trigger fl json_text win cfg known ms"
    and "compress_messages fl json_text win cfg known ms = Some (ms', n)"
  obtains ms2 ratio target where "list_all2 reshaped ms ms2"
    and "ms' = repair_orphaned_tool_results
           (drop_oldest (sys_count ms) (cut_point fl json_text cfg ratio target (sys_count ms) ms2) ms2)"
proof -
  define ratio where "ratio = token_ratio_of fl json_text known ms"
  define target where "target = min (target_tokens cfg) (max (trigger_tokens win cfg - 1) 1)"
  define st where "st = measure_usage_with_ratio json_text ms ratio"
  define squeezed where "squeezed = squeeze_phase fl json_text cfg st ms"
  have one: "list_all2 reshaped ms (fst squeezed)"
    by (simp add: squeezed_def squeeze_phase_reshaped)
  let ?s = "sys_count (fst squeezed)"
  obtain ms2 saved2 where two: "trim_range fl json_text cfg st ?s (length (fst squeezed) - 2) (fst squeezed) = Some (ms2, saved2)"
    and res: "ms' = repair_orphaned_tool_results (drop_oldest ?s (cut_point fl json_text cfg ratio target ?s ms2) ms2)"
    using assms unfolding compress_messages_def Let_def
      ratio_def [symmetric] target_def [symmetric] st_def [symmetric] squeezed_def [symmetric]
    by (auto split: prod.splits option.splits)
  have "list_all2 reshaped ms ms2"
    using reshaped_trans [OF one trim_range_reshaped [OF two]] .
  with that res show thesis using sys_count_reshaped [OF one] by simp
qed

lemma compression_frame:
  assumes "over_trigger fl json_text win cfg known ms"
    and "compress_messages fl json_text win cfg known ms = Some (ms', n)"
  shows "\<exists>edge. sys_count ms \<le> edge
    \<and> (edge = sys_count ms \<or> edge \<le> keep_start ms \<and> sys_count ms + min_messages cfg \<le> length ms')
    \<and> take (sys_count ms) ms' = take (sys_count ms) ms
    \<and> map msg_role ms' = map msg_role (take (sys_count ms) ms @ drop edge ms)
    \<and> paired_from None ms'"
proof -
  obtain ms2 ratio target where two: "list_all2 reshaped ms ms2"
    and ms': "ms' = repair_orphaned_tool_results
      (drop_oldest (sys_count ms) (cut_point fl json_text cfg ratio target (sys_count ms) ms2) ms2)"
    using compress_phases [OF assms] .
  define edge where "edge = cut_point fl json_text cfg ratio target (sys_count ms) ms2"
  define ms3 where "ms3 = drop_oldest (sys_count ms) edge ms2"
  have le: "sys_count ms \<le> edge" by (rule cut_point_bounds(1) [OF edge_def])
  have four: "list_all2 reshaped ms3 ms'"
    by (simp add: ms' ms3_def edge_def repair_orphaned_tool_results_def repair_reshaped)
  have roles2: "map msg_role ms2 = map msg_role ms" by (rule reshaped_roles [OF two])
  then have len2: "length ms2 = length ms" by (metis length_map)
  have roles: "map msg_role ms' = map msg_role (take (sys_count ms) ms @ drop edge ms)"
    using reshaped_roles [OF four] drop_oldest_roles [OF le, of ms2] roles2
    by (simp add: ms3_def take_map [symmetric] drop_map [symmetric])
  have pre3: "take (sys_count ms) ms3 = take (sys_count ms) ms"
    using drop_oldest_take [of "sys_count ms" ms2 edge] sys_prefix_reshaped [OF two] sys_count_le [of ms] len2
    by (simp add: ms3_def)
  have sys3: "msg_role m = SystemRole" if "m \<in> set (take (sys_count ms) ms)" for m
    using that set_takeWhileD by (metis sys_count_def takeWhile_eq_take)
  have "ms' ! i = ms3 ! i" if "i < sys_count ms" for i
  proof -
    have i: "i < length ms3" using that pre3 sys_count_le [of ms] by (metis length_take min.absorb2 min_less_iff_conj)
    have "ms3 ! i \<in> set (take (sys_count ms) ms)"
      using that i pre3 by (metis length_take min_less_iff_conj nth_mem nth_take)
    then show ?thesis using list_all2_nthD [OF four i] sys3 by (simp add: reshaped_def)
  qed
  moreover have "length ms' = length ms3" using four by (simp add: list_all2_lengthD)
  ultimately have prefix: "take (sys_count ms) ms' = take (sys_count ms) ms"
    unfolding pre3 [symmetric] by (intro nth_equalityI) simp_all
  have floor: "edge \<le> keep_start ms \<and> sys_count ms + min_messages cfg \<le> length ms'" if "edge \<noteq> sys_count ms"
  proof -
    have "edge > sys_count ms" using le that by simp
    then have "edge \<le> keep_start ms2" "sys_count ms + min_messages cfg + (edge - sys_count ms) \<le> length ms2"
      using cut_point_bounds(2,3) [OF edge_def] by blast+
    moreover have "length ms' = sys_count ms + (length ms - edge)"
      using roles sys_count_le [of ms] by (metis length_append length_drop length_map length_take min.absorb2)
    ultimately show ?thesis
      using keep_start_roles [OF roles2] keep_start_le [of ms] le len2 by simp
  qed
  have "paired_from None ms'" by (simp add: ms' repair_orphaned_tool_results_def repair_paired)
  with le floor prefix roles show ?thesis by blast
qed

text \<open>
  C16: a compression takes one block out of the conversation and no more.  It starts right after
  the leading system messages, which stay as they are, ends before the last two user messages
  when there are more than two, and leaves at least the configured number of messages; the
  roles of the others stay in their order, and every tool result left in a user message answers
  a call of the assistant's message right before it.
\<close>
theorem compression_keeps_the_frame:
  assumes "over_trigger fl json_text win cfg known ms"
    and "compress_messages fl json_text win cfg known ms = Some (ms', n)"
  shows "\<exists>edge. sys_count ms \<le> edge
    \<and> (edge = sys_count ms \<or> edge \<le> keep_start ms \<and> sys_count ms + min_messages cfg \<le> length ms')
    \<and> take (sys_count ms) ms' = take (sys_count ms) ms
    \<and> map msg_role ms' = map msg_role (take (sys_count ms) ms @ drop edge ms)
    \<and> paired_from None ms'"
  by (rule compression_frame [OF assms])

lemma trim_range_none: "trim_range fl json_text cfg st start stop ms = None \<longleftrightarrow> start > stop"
  by (simp add: trim_range_def Let_def)

lemma trim_range_some: "trim_range fl json_text cfg st start stop ms = Some r \<Longrightarrow> start \<le> stop"
  by (simp add: trim_range_def split: if_splits)

lemma compress_none:
  "compress_messages fl json_text win cfg known ms = None \<longleftrightarrow>
     over_trigger fl json_text win cfg known ms \<and> length ms - 2 < sys_count ms"
proof -
  have squeeze: "sys_count (fst (squeeze_phase fl json_text cfg st ms)) = sys_count ms"
    "length (fst (squeeze_phase fl json_text cfg st ms)) = length ms" for st
    using squeeze_phase_reshaped [of ms fl json_text cfg st]
    by (simp_all add: sys_count_reshaped list_all2_lengthD)
  show ?thesis
    by (auto simp: compress_messages_def Let_def split_beta trim_range_none squeeze split: option.split dest: trim_range_some)
qed

lemma compress_below:
  "\<not> over_trigger fl json_text win cfg known ms \<Longrightarrow> compress_messages fl json_text win cfg known ms = Some (ms, 0)"
  by (simp add: compress_messages_def Let_def)

text \<open>
  Below its trigger the compression changes nothing.  Above it, it panics exactly when fewer
  than two messages follow the leading system messages: the range of messages to trim, from the
  end of the system messages to the second last message, is then inverted.
\<close>
theorem compression_panics:
  "(compress_messages fl json_text win cfg known ms = None \<longleftrightarrow>
      over_trigger fl json_text win cfg known ms \<and> length ms - 2 < sys_count ms)
   \<and> (over_trigger fl json_text win cfg known ms \<or> compress_messages fl json_text win cfg known ms = Some (ms, 0))"
  using compress_none compress_below by blast

text \<open>A conversation of four requests, and the budgets that make it too long.\<close>

definition demo_chat :: "message list" where
  "demo_chat = (user_message ''rules'')\<lparr>msg_role := SystemRole\<rparr> #
     map user_message [''first request'', ''second request'', ''third request'', ''fourth request'']"

definition demo_config :: compression_config where
  "demo_config =
     \<lparr>min_messages = 1, trigger_pct = 80, max_trigger_tokens = 0, hard_max_tokens = 0,
      tool_result_budget = 1, old_assistant_budget = 1, old_user_budget = 5,
      enable_summarization = True, target_tokens = 1, summary_wait_secs = 1,
      summary_max_prompt_chars = 1\<rparr>"

lemma demo_over: "over_trigger id (\<lambda>_. []) 1 demo_config None demo_chat" by code_simp
lemma demo_budget: "char_budget id None 1 = 4" by (simp add: char_budget_def to_usize_def max_def)
lemma demo_cut: "cut_point id (\<lambda>_. []) demo_config None 1 1 demo_chat = 3"
  unfolding cut_point_def demo_budget by code_simp
lemma demo_steps:
  "sys_count demo_chat = 1" "length demo_chat = 5" "min (target_tokens demo_config) (max (trigger_tokens 1 demo_config - 1) 1) = 1"
  "token_ratio_of id (\<lambda>_. []) None demo_chat = None"
  "squeeze_phase id (\<lambda>_. []) demo_config (measure_usage_with_ratio (\<lambda>_. []) demo_chat None) demo_chat = (demo_chat, 0)"
  "trim_range id (\<lambda>_. []) demo_config (measure_usage_with_ratio (\<lambda>_. []) demo_chat None) 1 3 demo_chat = Some (demo_chat, 0)"
  "repair_orphaned_tool_results (drop_oldest 1 3 demo_chat) = take 1 demo_chat @ drop 3 demo_chat"
  by code_simp+

lemma demo_compression:
  "compress_messages id (\<lambda>_. []) 1 demo_config None demo_chat = Some (take 1 demo_chat @ drop 3 demo_chat, 2)"
  using demo_over by (simp add: compress_messages_def demo_steps demo_cut del: One_nat_def)

theorem compression_keeps_the_frame_witness:
  "\<exists>edge. sys_count demo_chat \<le> edge
    \<and> map msg_role (take 1 demo_chat @ drop 3 demo_chat) = map msg_role (take (sys_count demo_chat) demo_chat @ drop edge demo_chat)
    \<and> paired_from None (take 1 demo_chat @ drop 3 demo_chat)"
  using compression_keeps_the_frame [OF demo_over demo_compression] by blast

text \<open>
  A conversation with at most two user messages has no tail that is kept.  As soon as its text
  exceeds the target and it is longer than the configured minimum, the oldest message after the
  system messages goes, which in a conversation that began with its only request is the request.
\<close>
theorem few_turns_are_dropped:
  assumes "length (user_positions ms) \<le> 2" and "sys_count ms + min_messages cfg < length ms"
    and "sum_list (map (message_len json_text) ms) > char_budget fl ratio target"
  shows "cut_point fl json_text cfg ratio target (sys_count ms) ms > sys_count ms"
proof -
  have "keep_start ms = length ms" using assms(1) by (simp add: keep_start_def)
  moreover have "sys_count ms < length ms" using assms(2) by simp
  ultimately show ?thesis
    using drop_loop_starts [OF _ assms(2,3)] by (simp add: cut_point_def Let_def)
qed

theorem few_turns_are_dropped_witness:
  "cut_point id (\<lambda>_. []) demo_config None 1 (sys_count (take 3 demo_chat)) (take 3 demo_chat) > sys_count (take 3 demo_chat)"
proof (rule few_turns_are_dropped)
  show "char_budget id None 1 < sum_list (map (message_len (\<lambda>_. [])) (take 3 demo_chat))"
    unfolding demo_budget by code_simp
qed code_simp+

lemma trim_blocks_fit: "used \<le> budget \<Longrightarrow> used + sum_list (map (content_block_len json_text) (trim_blocks json_text budget used bs)) \<le> budget"
proof (induction json_text budget used bs rule: trim_blocks.induct)
  case (2 json_text budget used b bs)
  have "used + byte_len (take_bytes (budget - used) t) \<le> budget" for t
    using take_bytes_len [of "budget - used" t] "2.prems" by linarith
  with 2 show ?case by (auto simp: add.assoc split: content_block.split)
qed simp

text \<open>
  An old message of the user or of the assistant is trimmed to its budget: a message within the
  budget is left alone, any other is cut to at most the budget, and none is changed in its role.
\<close>
theorem trimmed_messages_fit:
  "(case trim_message_content fl json_text cfg st m of (m', saved) \<Rightarrow>
      msg_role m' = msg_role m
    \<and> (msg_role m = SystemRole \<or> msg_role m = ToolRole \<or>
        (let budget = tokens_to_chars fl st (if msg_role m = UserRole then old_user_budget cfg else old_assistant_budget cfg)
         in message_len json_text m' \<le> budget
          \<and> saved = message_len json_text m - budget
          \<and> (m' = m \<or> message_len json_text m > budget))))"
  using trim_blocks_fit [of 0]
  by (auto simp: trim_message_content_def Let_def message_len_def split: role.split)

end
