(* ===== verification/Compaction.thy ===== *)
theory Compaction
  imports Compress Rust_Text
begin

text \<open>
  The compaction of a stored conversation, the second half of \<open>crates/oz-core/src/compress.rs\<close>: the
  projection of a stored message to a message of the loop and back, the repair of the pairs of
  calls and results, the rewriting of the log, the collection of earlier summaries, and the merging
  of a summary from chunks.  A panic of the compression is \<open>None\<close>.  The summary model is the
  parameter \<open>llm\<close>: its answer to the n-th call, \<open>None\<close> for an error, a timeout or an empty answer.
\<close>

subsection \<open>Stored messages\<close>

definition set_or_remove :: "string \<Rightarrow> json list \<Rightarrow> json \<Rightarrow> json" where
  "set_or_remove k vs obj = (if vs = [] then jremove k obj else jinsert k (JArr vs) obj)"

lemma is_object_upd [simp]:
  "is_object (jinsert k v j) = is_object j" "is_object (jremove k j) = is_object j"
  "is_object (set_or_remove k vs j) = is_object j"
  by (cases j; simp add: is_object_def set_or_remove_def)+

lemma jget_set_or_remove [simp]:
  "is_object j \<Longrightarrow> jget (set_or_remove k vs j) k' = (if k' = k then if vs = [] then None else Some (JArr vs) else jget j k')"
  by (simp add: set_or_remove_def)

definition payload_block_chars :: "(json \<Rightarrow> string) \<Rightarrow> json \<Rightarrow> nat" where
  "payload_block_chars json_text b =
     byte_len (str_arg_or_empty b ''content'') + byte_len (str_arg_or_empty b ''name'') +
     (case jget b ''input'' of Some i \<Rightarrow> byte_len (json_text i) | None \<Rightarrow> 0)"

definition store_message_payload_chars :: "(json \<Rightarrow> string) \<Rightarrow> json \<Rightarrow> nat" where
  "store_message_payload_chars json_text m =
     byte_len (str_arg_or_empty m ''content'') +
     sum_list (map (\<lambda>k. sum_list (map (payload_block_chars json_text) (arr_arg m k)))
       [''tool_use_blocks'', ''tool_results''])"

definition result_of_json :: "json \<Rightarrow> content_block option" where
  "result_of_json tr =
     (let i = str_arg_or_empty tr ''tool_use_id'' in
      if i = [] then None
      else Some (ToolResult i (ContentText (str_arg_or_empty tr ''content'')) None))"

definition use_of_json :: "json \<Rightarrow> content_block option" where
  "use_of_json tu =
     (let i = str_arg_or_empty tu ''id'' in
      if i = [] then None
      else Some (ToolUse i (str_arg_or_empty tu ''name'') (case jget tu ''input'' of Some v \<Rightarrow> v | None \<Rightarrow> JNull)))"

definition text_first :: "string \<Rightarrow> content_block list \<Rightarrow> content_block list" where
  "text_first content bs =
     (let all = (if content \<noteq> [] then [text_block content] else []) @ bs in
      if all = [] then [text_block []] else all)"

definition store_message_to_message :: "json \<Rightarrow> message option" where
  "store_message_to_message m =
     (case str_arg m ''role'' of
        None \<Rightarrow> None
      | Some r \<Rightarrow>
          (let content = str_arg_or_empty m ''content'' in
           if r = ''system'' then Some \<lparr>msg_role = SystemRole, msg_content = [text_block content], tool_results = None\<rparr>
           else if r = ''user'' then
             Some \<lparr>msg_role = UserRole, msg_content = text_first content (List.map_filter result_of_json (arr_arg m ''tool_results'')),
               tool_results = None\<rparr>
           else if r = ''assistant'' then
             Some \<lparr>msg_role = AssistantRole, msg_content = text_first content (List.map_filter use_of_json (arr_arg m ''tool_use_blocks'')),
               tool_results = None\<rparr>
           else None))"

fun json_of_use :: "content_block \<Rightarrow> json option" where
  "json_of_use (ToolUse i name input) = Some (JObj [(''id'', JStr i), (''name'', JStr name), (''input'', input)])"
| "json_of_use _ = None"

fun json_of_result :: "content_block \<Rightarrow> json option" where
  "json_of_result (ToolResult i c _) =
     Some (JObj [(''tool_use_id'', JStr i), (''content'', JStr (content_container_text c))])"
| "json_of_result _ = None"

definition message_to_store_message :: "message \<Rightarrow> json \<Rightarrow> json" where
  "message_to_store_message msg orig =
     (if \<not> is_object orig then orig
      else
        (let txt = content_text msg;
             uses = List.map_filter json_of_use (msg_content msg);
             results = List.map_filter json_of_result (msg_content msg);
             had_tools = (jget orig ''tool_use_blocks'' \<noteq> None \<or> jget orig ''tool_results'' \<noteq> None);
             keep_blocks = (uses \<noteq> [] \<or> results \<noteq> []);
             content =
               (if txt = [] \<and> had_tools \<and> \<not> keep_blocks
                then (if msg_role msg = AssistantRole then ''[compressed tool call]'' else ''[compressed tool output]'')
                else txt)
         in set_or_remove ''tool_results'' results
              (set_or_remove ''tool_use_blocks'' uses (jinsert ''content'' (JStr content) orig))))"

subsection \<open>The stored form is faithful\<close>

lemma use_of_json_of: "tool_use_id b = Some i \<Longrightarrow> i \<noteq> [] \<Longrightarrow> Option.bind (json_of_use b) use_of_json = Some b"
  by (cases b) (auto simp: use_of_json_def str_arg_or_empty_def str_arg_def)

text \<open>The blocks a projection makes: at most one text, then calls or results with an identifier.\<close>

definition plain_result :: "content_block \<Rightarrow> bool" where
  "plain_result b = (case b of ToolResult i (ContentText _) None \<Rightarrow> i \<noteq> [] | _ \<Rightarrow> False)"

definition plain_use :: "content_block \<Rightarrow> bool" where
  "plain_use b = (case b of ToolUse i _ _ \<Rightarrow> i \<noteq> [] | _ \<Rightarrow> False)"

lemma plain_of_json:
  "result_of_json j = Some b \<Longrightarrow> plain_result b" "use_of_json j = Some c \<Longrightarrow> plain_use c"
  by (auto simp: result_of_json_def use_of_json_def plain_result_def plain_use_def Let_def split: if_splits)

lemma plain_results:
  "\<forall>b \<in> set bs. plain_result b \<Longrightarrow>
     List.map_filter result_of_json (List.map_filter json_of_result bs) = bs \<and>
     List.map_filter json_of_use bs = [] \<and> List.map_filter block_text bs = []
     \<and> (List.map_filter json_of_result bs = [] \<longleftrightarrow> bs = [])"
proof (induction bs)
  case (Cons b bs)
  then obtain i t where "b = ToolResult i (ContentText t) None" "i \<noteq> []"
    by (auto simp: plain_result_def split: content_block.splits content_container.splits option.splits)
  with Cons show ?case
    by (simp add: map_filter_simps result_of_json_def str_arg_or_empty_def str_arg_def)
qed (simp add: map_filter_simps)

lemma plain_uses:
  "\<forall>b \<in> set bs. plain_use b \<Longrightarrow>
     List.map_filter use_of_json (List.map_filter json_of_use bs) = bs \<and>
     List.map_filter json_of_result bs = [] \<and> List.map_filter block_text bs = []
     \<and> (List.map_filter json_of_use bs = [] \<longleftrightarrow> bs = [])"
proof (induction bs)
  case (Cons b bs)
  then obtain i n v where "b = ToolUse i n v" "i \<noteq> []"
    by (auto simp: plain_use_def split: content_block.splits)
  with Cons show ?case
    by (simp add: map_filter_simps use_of_json_def str_arg_or_empty_def str_arg_def)
qed (simp add: map_filter_simps)

lemma map_filter_all: "\<forall>x \<in> set (List.map_filter f xs). P x" if "\<And>x y. f x = Some y \<Longrightarrow> P y"
  using that by (auto simp: List.map_filter_def)

lemma text_first_parts:
  "List.map_filter json_of_use (text_first c bs) = List.map_filter json_of_use bs"
  "List.map_filter json_of_result (text_first c bs) = List.map_filter json_of_result bs"
  by (simp_all add: text_first_def text_block_def map_filter_simps Let_def)

lemma text_first_text:
  "List.map_filter block_text bs = [] \<Longrightarrow> join_with sep (List.map_filter block_text (text_first c bs)) = c"
  by (simp add: text_first_def text_block_def map_filter_simps Let_def)

lemma arr_arg_set [simp]:
  "is_object j \<Longrightarrow> arr_arg (set_or_remove k vs j) k' = (if k' = k then vs else arr_arg j k')"
  "is_object j \<Longrightarrow> k' \<noteq> k \<Longrightarrow> arr_arg (jinsert k v j) k' = arr_arg j k'"
  by (simp_all add: arr_arg_def)

lemma str_arg_set [simp]:
  "is_object j \<Longrightarrow> k' \<noteq> k \<Longrightarrow> str_arg (set_or_remove k vs j) k' = str_arg j k'"
  by (simp add: str_arg_def)

lemma written_fields:
  assumes "is_object m"
  shows "str_arg (message_to_store_message msg m) ''role'' = str_arg m ''role''"
    and "arr_arg (message_to_store_message msg m) ''tool_use_blocks'' = List.map_filter json_of_use (msg_content msg)"
    and "arr_arg (message_to_store_message msg m) ''tool_results'' = List.map_filter json_of_result (msg_content msg)"
    and "content_text msg \<noteq> [] \<or> List.map_filter json_of_use (msg_content msg) \<noteq> []
      \<or> List.map_filter json_of_result (msg_content msg) \<noteq> []
      \<or> jget m ''tool_use_blocks'' = None \<and> jget m ''tool_results'' = None \<Longrightarrow>
      str_arg (message_to_store_message msg m) ''content'' = Some (content_text msg)"
  using assms by (simp_all add: message_to_store_message_def Let_def) blast

text \<open>
  Writing the projection of a stored message back and projecting it again gives the same
  message, for every role, unless the message has tool fields but neither text nor a call or a
  result with an identifier; such a message is given a text that says its payload was folded.
\<close>
theorem store_roundtrip:
  assumes "store_message_to_message m = Some msg" and "is_object m"
    and "str_arg_or_empty m ''content'' \<noteq> [] \<or> List.map_filter json_of_use (msg_content msg) \<noteq> []
      \<or> List.map_filter json_of_result (msg_content msg) \<noteq> []
      \<or> jget m ''tool_use_blocks'' = None \<and> jget m ''tool_results'' = None"
  shows "store_message_to_message (message_to_store_message msg m) = Some msg"
proof -
  let ?c = "str_arg_or_empty m ''content''"
  let ?rs = "List.map_filter result_of_json (arr_arg m ''tool_results'')"
  let ?us = "List.map_filter use_of_json (arr_arg m ''tool_use_blocks'')"
  have rs: "\<forall>b \<in> set ?rs. plain_result b" and us: "\<forall>b \<in> set ?us. plain_use b"
    by (auto simp: List.map_filter_def dest: plain_of_json)
  have content: "content_text msg = ?c \<Longrightarrow> str_arg (message_to_store_message msg m) ''content'' = Some ?c"
    using written_fields(4) [OF assms(2), of msg] assms(3) by argo
  have system: ?thesis if "str_arg m ''role'' = Some ''system''"
  proof -
    have msg: "msg = \<lparr>msg_role = SystemRole, msg_content = [text_block ?c], tool_results = None\<rparr>"
      using that assms(1) by (simp add: store_message_to_message_def Let_def)
    then have "content_text msg = ?c" by (simp add: content_text_def text_block_def map_filter_simps)
    then show ?thesis using that content written_fields(1) [OF assms(2)]
      by (simp add: store_message_to_message_def str_arg_or_empty_def Let_def msg)
  qed
  have user: ?thesis if "str_arg m ''role'' = Some ''user''"
  proof -
    have msg: "msg = \<lparr>msg_role = UserRole, msg_content = text_first ?c ?rs, tool_results = None\<rparr>"
      using that assms(1) by (simp add: store_message_to_message_def Let_def)
    then have "content_text msg = ?c" using plain_results [OF rs] by (simp add: content_text_def text_first_text)
    then show ?thesis using that content written_fields(1,3) [OF assms(2), of msg] plain_results [OF rs]
      by (simp add: store_message_to_message_def str_arg_or_empty_def Let_def msg text_first_parts)
  qed
  have assistant: ?thesis if "str_arg m ''role'' = Some ''assistant''"
  proof -
    have msg: "msg = \<lparr>msg_role = AssistantRole, msg_content = text_first ?c ?us, tool_results = None\<rparr>"
      using that assms(1) by (simp add: store_message_to_message_def Let_def)
    then have "content_text msg = ?c" using plain_uses [OF us] by (simp add: content_text_def text_first_text)
    then show ?thesis using that content written_fields(1,2) [OF assms(2), of msg] plain_uses [OF us]
      by (simp add: store_message_to_message_def str_arg_or_empty_def Let_def msg text_first_parts)
  qed
  have "str_arg m ''role'' \<in> {Some ''system'', Some ''user'', Some ''assistant''}"
    using assms(1) by (auto simp: store_message_to_message_def Let_def split: option.splits if_splits)
  with system user assistant show ?thesis by blast
qed

theorem store_roundtrip_witness:
  "store_message_to_message (message_to_store_message
       \<lparr>msg_role = UserRole, msg_content = [TextBlock ''hello'' None], tool_results = None\<rparr>
       (JObj [(''role'', JStr ''user''), (''content'', JStr ''hello'')])) =
     Some \<lparr>msg_role = UserRole, msg_content = [TextBlock ''hello'' None], tool_results = None\<rparr>"
  by (rule store_roundtrip)
    (simp_all add: store_message_to_message_def str_arg_def str_arg_or_empty_def text_first_def text_block_def
      arr_arg_def map_filter_simps is_object_def)

subsection \<open>Calls and results in pairs\<close>

definition carrier :: "message list \<Rightarrow> nat \<Rightarrow> nat option" where
  "carrier ms i = find (\<lambda>j. msg_role (ms ! j) \<noteq> SystemRole) [i + 1..<length ms]"

definition retain_uses :: "string list \<Rightarrow> message \<Rightarrow> message" where
  "retain_uses ids m = m\<lparr>msg_content := filter (\<lambda>b. case tool_use_id b of Some i \<Rightarrow> i \<in> set ids | None \<Rightarrow> True) (msg_content m)\<rparr>"

definition retain_results :: "string list \<Rightarrow> message \<Rightarrow> message" where
  "retain_results ids m = m\<lparr>msg_content := filter (\<lambda>b. case tool_result_id b of Some i \<Rightarrow> i \<in> set ids | None \<Rightarrow> True) (msg_content m)\<rparr>"

definition pair_step :: "nat \<Rightarrow> message list \<Rightarrow> message list" where
  "pair_step i ms =
     (let uses = use_ids (ms ! i); results = (case carrier ms i of Some j \<Rightarrow> result_ids (ms ! j) | None \<Rightarrow> []) in
      if msg_role (ms ! i) \<noteq> AssistantRole \<or> uses = [] then ms
      else (let ms1 = ms[i := retain_uses results (ms ! i)] in
            case carrier ms i of Some j \<Rightarrow> ms1[j := retain_results uses (ms1 ! j)] | None \<Rightarrow> ms1))"

definition repair_tool_pairing :: "message list \<Rightarrow> message list" where
  "repair_tool_pairing ms = fold pair_step [0..<length ms] ms"

text \<open>The calls of a message, and the results in the message that carries its results.\<close>

definition calls_at :: "message list \<Rightarrow> nat \<Rightarrow> string set" where
  "calls_at ms i = set (use_ids (ms ! i))"

definition answers_at :: "message list \<Rightarrow> nat \<Rightarrow> string set" where
  "answers_at ms i = (case carrier ms i of Some j \<Rightarrow> set (result_ids (ms ! j)) | None \<Rightarrow> {})"

lemma carrier_bounds: "carrier ms i = Some j \<Longrightarrow> i < j \<and> j < length ms \<and> msg_role (ms ! j) \<noteq> SystemRole
    \<and> (\<forall>k. i < k \<and> k < j \<longrightarrow> msg_role (ms ! k) = SystemRole)"
proof -
  assume "carrier ms i = Some j"
  then obtain n where n: "n < length ms - (i + 1)" "j = i + 1 + n" "msg_role (ms ! j) \<noteq> SystemRole"
    "\<forall>m < n. msg_role (ms ! (i + 1 + m)) = SystemRole"
    by (auto simp: carrier_def find_Some_iff)
  have "msg_role (ms ! k) = SystemRole" if "i < k" "k < j" for k
    using n(2) that n(4) [rule_format, of "k - (i + 1)"] by simp
  with n show ?thesis by auto
qed

lemma carrier_roles: "map msg_role ms' = map msg_role ms \<Longrightarrow> carrier ms' i = carrier ms i"
proof -
  assume r: "map msg_role ms' = map msg_role ms"
  then have len: "length ms' = length ms" by (metis length_map)
  have "msg_role (ms' ! j) = msg_role (ms ! j)" if "j < length ms" for j
    using r that len by (metis nth_map)
  then show ?thesis unfolding carrier_def len by (intro find_cong) auto
qed

lemma carrier_inject:
  assumes "carrier ms i = Some j" and "carrier ms k = Some j"
    and "msg_role (ms ! i) \<noteq> SystemRole" and "msg_role (ms ! k) \<noteq> SystemRole"
  shows "i = k"
  using carrier_bounds [OF assms(1)] carrier_bounds [OF assms(2)] assms(3,4) by (metis linorder_neqE_nat)

lemma set_map_filter: "set (List.map_filter f xs) = {y. \<exists>x \<in> set xs. f x = Some y}"
  by (force simp: List.map_filter_def)

lemma use_not_result:
  "tool_use_id b = Some i \<Longrightarrow> tool_result_id b = None"
  "tool_result_id b = Some i \<Longrightarrow> tool_use_id b = None"
  by (cases b; simp)+

lemma retain_parts [simp]:
  "msg_role (retain_uses ids m) = msg_role m" "msg_role (retain_results ids m) = msg_role m"
  "set (use_ids (retain_uses ids m)) = set (use_ids m) \<inter> set ids"
  "set (result_ids (retain_results ids m)) = set (result_ids m) \<inter> set ids"
  "set (use_ids (retain_results ids m)) = set (use_ids m)"
  "set (result_ids (retain_uses ids m)) = set (result_ids m)"
  by (auto simp: use_ids_def result_ids_def retain_uses_def retain_results_def set_map_filter use_not_result
      cong: conj_cong)

lemma retain_no_uses [simp]: "use_ids (retain_uses [] m) = []"
  using retain_parts(3) [of "[]" m] by (simp del: retain_parts)

lemma pair_step_role: "k < length ms \<Longrightarrow> msg_role (pair_step i ms ! k) = msg_role (ms ! k)"
  by (cases "i < length ms")
    (auto simp: pair_step_def Let_def nth_list_update split: option.split dest!: carrier_bounds)

lemma pair_step_length [simp]: "length (pair_step i ms) = length ms"
  by (simp add: pair_step_def Let_def split: option.split)

lemma pair_step_roles [simp]: "map msg_role (pair_step i ms) = map msg_role ms"
  by (rule nth_equalityI) (simp_all add: pair_step_role)

lemma pair_step_calls:
  assumes "i < length ms" and "k < length ms"
  shows "calls_at (pair_step i ms) k =
    (if k = i \<and> msg_role (ms ! i) = AssistantRole then calls_at ms i \<inter> answers_at ms i else calls_at ms k)"
proof (cases "carrier ms i")
  case None
  with assms show ?thesis by (auto simp: pair_step_def Let_def calls_at_def answers_at_def nth_list_update)
next
  case (Some j)
  with assms carrier_bounds [OF Some] show ?thesis
    by (auto simp: pair_step_def Let_def calls_at_def answers_at_def nth_list_update)
qed

lemma pair_step_results:
  assumes "i < length ms" and "j < length ms"
  shows "set (result_ids (pair_step i ms ! j)) =
    (if carrier ms i = Some j \<and> msg_role (ms ! i) = AssistantRole \<and> calls_at ms i \<noteq> {}
     then set (result_ids (ms ! j)) \<inter> calls_at ms i else set (result_ids (ms ! j)))"
proof (cases "carrier ms i")
  case None
  with assms show ?thesis by (auto simp: pair_step_def Let_def calls_at_def nth_list_update)
next
  case (Some j')
  with assms carrier_bounds [OF Some] show ?thesis
    by (auto simp: pair_step_def Let_def calls_at_def nth_list_update)
qed

lemma pair_step_answers:
  assumes "i < length ms" and "msg_role (ms ! k) \<noteq> SystemRole"
  shows "answers_at (pair_step i ms) k =
    (if k = i \<and> msg_role (ms ! i) = AssistantRole \<and> calls_at ms i \<noteq> {} then answers_at ms i \<inter> calls_at ms i else answers_at ms k)"
proof -
  have c: "carrier (pair_step i ms) k = carrier ms k" by (rule carrier_roles) simp
  show ?thesis
  proof (cases "carrier ms k")
    case None
    then show ?thesis by (auto simp: answers_at_def c)
  next
    case (Some j)
    have "k = i" if "carrier ms i = Some j" "msg_role (ms ! i) = AssistantRole"
      using carrier_inject [OF that(1) Some] that(2) assms(2) by simp
    with Some carrier_bounds [OF Some] pair_step_results [OF assms(1), of j] show ?thesis
      by (auto simp: answers_at_def c)
  qed
qed

text \<open>After the first \<open>n\<close> rounds the first \<open>n\<close> messages of the assistant are paired.\<close>

definition paired_upto :: "nat \<Rightarrow> message list \<Rightarrow> bool" where
  "paired_upto n ms \<longleftrightarrow>
     (\<forall>i < n. msg_role (ms ! i) = AssistantRole \<longrightarrow> calls_at ms i = {} \<or> calls_at ms i = answers_at ms i)"

lemma pair_rounds:
  "n \<le> length ms \<Longrightarrow>
     map msg_role (fold pair_step [0..<n] ms) = map msg_role ms \<and> paired_upto n (fold pair_step [0..<n] ms)"
proof (induction n)
  case 0
  then show ?case by (simp add: paired_upto_def)
next
  case (Suc n)
  let ?s = "fold pair_step [0..<n] ms"
  have roles: "map msg_role ?s = map msg_role ms" and p: "paired_upto n ?s" using Suc by simp_all
  then have len: "length ?s = length ms" by (metis length_map)
  then have n: "n < length ?s" using Suc.prems by simp
  have same: "msg_role (pair_step n ?s ! i) = msg_role (?s ! i)" if "i < length ?s" for i
    using that by (rule pair_step_role)
  have "paired_upto (Suc n) (pair_step n ?s)" unfolding paired_upto_def
  proof (intro allI impI)
    fix i assume i: "i < Suc n" "msg_role (pair_step n ?s ! i) = AssistantRole"
    then have role: "msg_role (?s ! i) = AssistantRole" "i < length ?s" using n same by simp_all
    then show "calls_at (pair_step n ?s) i = {} \<or> calls_at (pair_step n ?s) i = answers_at (pair_step n ?s) i"
      using pair_step_calls [OF n role(2)] pair_step_answers [OF n, of i] role(1) p i(1)
      by (auto simp: paired_upto_def less_Suc_eq)
  qed
  with roles show ?case by simp
qed

text \<open>
  C18: after the repair, the calls of every message of the assistant are exactly the results in the
  next message that is not a system message, unless it makes no call at all; and the repair
  neither adds nor removes messages nor changes their roles.
\<close>
theorem pairing_repaired:
  assumes "i < length ms" and "msg_role (ms ! i) = AssistantRole"
  shows "map msg_role (repair_tool_pairing ms) = map msg_role ms
    \<and> (calls_at (repair_tool_pairing ms) i = {}
       \<or> calls_at (repair_tool_pairing ms) i = answers_at (repair_tool_pairing ms) i)"
proof -
  have p: "map msg_role (repair_tool_pairing ms) = map msg_role ms"
    "paired_upto (length ms) (repair_tool_pairing ms)"
    using pair_rounds [of "length ms" ms] by (simp_all add: repair_tool_pairing_def)
  then have "msg_role (repair_tool_pairing ms ! i) = AssistantRole"
    using assms by (metis length_map nth_map)
  with p assms(1) show ?thesis by (simp add: paired_upto_def)
qed

theorem pairing_repaired_witness:
  "calls_at (repair_tool_pairing [\<lparr>msg_role = AssistantRole,
       msg_content = [ToolUse ''a'' ''read'' JNull], tool_results = None\<rparr>]) 0 = {}
   \<or> calls_at (repair_tool_pairing [\<lparr>msg_role = AssistantRole,
       msg_content = [ToolUse ''a'' ''read'' JNull], tool_results = None\<rparr>]) 0
     = answers_at (repair_tool_pairing [\<lparr>msg_role = AssistantRole,
       msg_content = [ToolUse ''a'' ''read'' JNull], tool_results = None\<rparr>]) 0"
  by (rule pairing_repaired [THEN conjunct2]) simp_all

subsection \<open>Compacting a stored log\<close>

record store_compaction =
  sc_messages :: "json list"
  sc_removed :: "json list"
  before_messages :: nat
  after_messages :: nat
  before_chars :: nat
  after_chars :: nat

definition saved_chars :: "store_compaction \<Rightarrow> nat" where
  "saved_chars c = before_chars c - after_chars c"

definition saved_tokens :: "store_compaction \<Rightarrow> nat" where
  "saved_tokens c = saved_chars c div 4"

text \<open>The messages the loop knows, with their places in the log.\<close>

definition project_log :: "json list \<Rightarrow> (nat \<times> message) list" where
  "project_log ms =
     List.map_filter (\<lambda>i. map_option (Pair i) (store_message_to_message (ms ! i))) [0..<length ms]"

text \<open>Where each entry of the log is found after the compression: the last assignment counts.\<close>

definition place_of :: "nat list \<Rightarrow> nat \<Rightarrow> nat \<Rightarrow> nat \<Rightarrow> nat option" where
  "place_of src sys_offset view_len =
     (let kept_tail = view_len - sys_offset; tail_start = length src - kept_tail in
      map_of (rev (map (\<lambda>j. (src ! j, j)) [0..<min sys_offset view_len] @
                   map (\<lambda>k. (src ! (tail_start + k), sys_offset + k)) [0..<kept_tail])))"

definition rewrite_log :: "json list \<Rightarrow> message list \<Rightarrow> (nat \<Rightarrow> nat option) \<Rightarrow> json list" where
  "rewrite_log ms view place =
     concat (map (\<lambda>i. case place i of
         Some j \<Rightarrow> [message_to_store_message (view ! j) (ms ! i)]
       | None \<Rightarrow> if store_message_to_message (ms ! i) = None then [ms ! i] else []) [0..<length ms])"

definition removed_log :: "json list \<Rightarrow> (nat \<Rightarrow> nat option) \<Rightarrow> json list" where
  "removed_log ms place =
     concat (map (\<lambda>i. case place i of
         Some j \<Rightarrow> []
       | None \<Rightarrow> if store_message_to_message (ms ! i) = None then [] else [ms ! i]) [0..<length ms])"

definition compact_store_messages ::
  "(rat \<Rightarrow> rat) \<Rightarrow> (json \<Rightarrow> string) \<Rightarrow> json list \<Rightarrow> nat \<Rightarrow> compression_config \<Rightarrow> store_compaction option" where
  "compact_store_messages fl json_text ms context_win cfg =
     (let view = map snd (project_log ms); src = map fst (project_log ms); sys_offset = sys_count view in
      case compress_messages fl json_text context_win cfg None view of
        None \<Rightarrow> None
      | Some (compressed, _) \<Rightarrow>
          (let after = repair_tool_pairing compressed;
               place = place_of src sys_offset (length after);
               out = rewrite_log ms after place in
           Some \<lparr>sc_messages = out, sc_removed = removed_log ms place,
             before_messages = length ms, after_messages = length out,
             before_chars = sum_list (map (store_message_payload_chars json_text) ms),
             after_chars = sum_list (map (store_message_payload_chars json_text) out)\<rparr>))"

lemma compression_roles:
  assumes "compress_messages fl json_text win cfg known ms = Some (ms', n)"
  obtains edge where "sys_count ms \<le> edge" "edge \<le> length ms"
    "map msg_role ms' = map msg_role (take (sys_count ms) ms @ drop edge ms)"
proof (cases "over_trigger fl json_text win cfg known ms")
  case True
  with compression_frame [OF True assms] that show thesis
    using keep_start_le [of ms] sys_count_le [of ms] by (metis le_trans)
next
  case False
  then have "ms' = ms" using assms by (simp add: compress_messages_def Let_def)
  then show thesis using that [of "sys_count ms"] sys_count_le [of ms] by simp
qed

lemma project_log_sources:
  "sorted_wrt (<) (map fst (project_log ms))"
  "set (map fst (project_log ms)) = {i. i < length ms \<and> store_message_to_message (ms ! i) \<noteq> None}"
  "q < length (project_log ms) \<Longrightarrow>
     store_message_to_message (ms ! (fst (project_log ms ! q))) = Some (snd (project_log ms ! q))"
proof -
  let ?f = "\<lambda>i. map_option (Pair i) (store_message_to_message (ms ! i))"
  have keys: "map fst (List.map_filter ?f xs) = filter (\<lambda>i. store_message_to_message (ms ! i) \<noteq> None) xs" for xs
    by (induction xs) (auto simp: map_filter_simps split: option.split)
  show "sorted_wrt (<) (map fst (project_log ms))"
    by (simp add: project_log_def keys sorted_wrt_filter)
  show "set (map fst (project_log ms)) = {i. i < length ms \<and> store_message_to_message (ms ! i) \<noteq> None}"
    unfolding project_log_def keys by auto
  assume "q < length (project_log ms)"
  then have "project_log ms ! q \<in> set (project_log ms)" by simp
  then show "store_message_to_message (ms ! (fst (project_log ms ! q))) = Some (snd (project_log ms ! q))"
    unfolding project_log_def set_map_filter by (auto dest: sym)
qed

lemma place_of_source:
  assumes "distinct src" and "sys_offset \<le> edge" and "edge \<le> length src"
  shows "q < length src \<Longrightarrow> place_of src sys_offset (sys_offset + (length src - edge)) (src ! q) =
      (if q < sys_offset then Some q else if q < edge then None else Some (q - (edge - sys_offset)))"
    and "i \<notin> set src \<Longrightarrow> place_of src sys_offset (sys_offset + (length src - edge)) i = None"
proof -
  let ?head = "map (\<lambda>j. (src ! j, j)) [0..<sys_offset]"
  let ?tail = "map (\<lambda>k. (src ! (edge + k), sys_offset + k)) [0..<length src - edge]"
  have p: "place_of src sys_offset (sys_offset + (length src - edge)) = map_of (rev (?head @ ?tail))"
    using assms(2,3) by (simp add: place_of_def Let_def min_def)
  have inj: "src ! a = src ! b \<Longrightarrow> a < length src \<Longrightarrow> b < length src \<Longrightarrow> a = b" for a b
    using assms(1) by (simp add: nth_eq_iff_index_eq)
  have keys: "distinct (map fst (rev (?head @ ?tail)))"
  proof -
    have "distinct (map fst ?head)" "distinct (map fst ?tail)"
      using assms(2,3) inj by (auto simp: distinct_map inj_on_def dest!: inj)
    moreover have False if "src ! (edge + a) = src ! b" "a < length src - edge" "b < sys_offset" for a b
    proof -
      have "edge + a < length src" "b < length src" using that assms(2,3) by linarith+
      with inj [OF that(1)] that(3) assms(2) show False by simp
    qed
    ultimately show ?thesis by (auto simp: rev_map [symmetric])
  qed
  note look = map_of_eq_Some_iff [OF keys]
  show "i \<notin> set src \<Longrightarrow> place_of src sys_offset (sys_offset + (length src - edge)) i = None"
    using assms(2,3) unfolding p map_of_eq_None_iff by auto
  assume q: "q < length src"
  show "place_of src sys_offset (sys_offset + (length src - edge)) (src ! q) =
      (if q < sys_offset then Some q else if q < edge then None else Some (q - (edge - sys_offset)))"
  proof -
    consider "q < sys_offset" | "sys_offset \<le> q" "q < edge" | "edge \<le> q" by linarith
    then show ?thesis
    proof cases
      case 1
      then have "(src ! q, q) \<in> set (rev (?head @ ?tail))" by auto
      with 1 show ?thesis unfolding p by (simp add: look del: rev_append set_append)
    next
      case 2
      then have "src ! q \<notin> fst ` set (rev (?head @ ?tail))" using inj q assms(2,3) by fastforce
      with 2 show ?thesis unfolding p by (simp add: map_of_eq_None_iff del: rev_append set_append)
    next
      case 3
      then have "q = edge + (q - edge)" "q - edge < length src - edge" "sys_offset + (q - edge) = q - (edge - sys_offset)"
        using q assms(2) by simp_all
      then have "(src ! q, q - (edge - sys_offset)) \<in> set (rev (?head @ ?tail))"
        by (auto simp: image_iff intro!: bexI [of _ "q - edge"])
      with 3 show ?thesis using assms(2) unfolding p by (simp add: look del: rev_append set_append)
    qed
  qed
qed

text \<open>An entry is carried over: unknown ones untouched, known ones rewritten in their own role.\<close>

definition carried :: "json \<Rightarrow> json \<Rightarrow> bool" where
  "carried m m' \<longleftrightarrow>
     (case store_message_to_message m of
        None \<Rightarrow> m' = m
      | Some p \<Rightarrow> \<exists>msg. msg_role msg = msg_role p \<and> m' = message_to_store_message msg m)"

lemma filter_sorted_block:
  assumes "sorted_wrt (<) xs" and "set xs \<subseteq> {..<n}"
  shows "filter (\<lambda>i. i \<in> set xs) [0..<n] = (xs :: nat list)"
proof (rule sorted_distinct_set_unique)
  show "sorted xs" "distinct xs" using assms(1) by (auto simp: strict_sorted_iff)
qed (use assms(2) in \<open>auto intro!: sorted_wrt_filter\<close>)

lemma concat_filter: "concat (map (\<lambda>i. if P i then [f i] else []) xs) = map f (filter P xs)"
  by (induction xs) auto

lemma compaction_account:
  assumes "compact_store_messages fl json_text ms win cfg = Some r"
  shows "\<exists>gone. sublist gone (map fst (project_log ms))
    \<and> sc_removed r = map ((!) ms) gone
    \<and> list_all2 carried (map ((!) ms) (filter (\<lambda>i. i \<notin> set gone) [0..<length ms])) (sc_messages r)"
proof -
  define src where "src = map fst (project_log ms)"
  define view where "view = map snd (project_log ms)"
  define s where "s = sys_count view"
  obtain compressed n where comp: "compress_messages fl json_text win cfg None view = Some (compressed, n)"
    using assms by (auto simp: compact_store_messages_def Let_def view_def split: option.splits)
  obtain edge where e: "s \<le> edge" "edge \<le> length view"
    and roles: "map msg_role compressed = map msg_role (take s view @ drop edge view)"
    using compression_roles [OF comp] unfolding s_def by metis
  define after where "after = repair_tool_pairing compressed"
  have after_roles: "map msg_role after = map msg_role (take s view @ drop edge view)"
    using pair_rounds [of "length compressed" compressed] roles by (simp add: after_def repair_tool_pairing_def)
  have len: "length src = length view" by (simp add: src_def view_def)
  have after_len: "length after = s + (length src - edge)"
    using arg_cong [OF after_roles, of length] e len by simp
  define place where "place = place_of src s (length after)"
  have r: "sc_messages r = rewrite_log ms after place" "sc_removed r = removed_log ms place"
    using assms comp by (auto simp: compact_store_messages_def Let_def place_def after_def src_def s_def view_def)
  have sorted: "sorted_wrt (<) src" unfolding src_def by (rule project_log_sources(1))
  then have dist: "distinct src" by (simp add: strict_sorted_iff)
  have known: "set src = {i. i < length ms \<and> store_message_to_message (ms ! i) \<noteq> None}"
    unfolding src_def by (rule project_log_sources(2))
  have edge: "edge \<le> length src" using e(2) len by simp
  note place_in = place_of_source(1) [OF dist e(1) edge, folded after_len place_def]
  note place_out = place_of_source(2) [OF dist e(1) edge, folded after_len place_def]
  define gone where "gone = take (edge - s) (drop s src)"
  have sub: "sublist gone src" unfolding gone_def by (metis append_take_drop_id sublist_def)
  have gone_iff: "i \<in> set gone \<longleftrightarrow> place i = None \<and> store_message_to_message (ms ! i) \<noteq> None" if "i < length ms" for i
  proof (cases "i \<in> set src")
    case False
    then have "i \<notin> set gone" using sub by (meson set_mono_sublist subsetD)
    with False known that show ?thesis by auto
  next
    case True
    then obtain q where q: "q < length src" "i = src ! q" by (metis in_set_conv_nth)
    have "i \<in> set gone \<longleftrightarrow> s \<le> q \<and> q < edge"
    proof
      assume "i \<in> set gone"
      then obtain k where "k < edge - s" "k < length src - s" "i = src ! (s + k)"
        by (auto simp: gone_def in_set_conv_nth)
      moreover from this q dist have "q = s + k" by (simp add: nth_eq_iff_index_eq)
      ultimately show "s \<le> q \<and> q < edge" by simp
    next
      assume a: "s \<le> q \<and> q < edge"
      then have "gone ! (q - s) = i" "q - s < length gone" using q edge by (auto simp: gone_def)
      then show "i \<in> set gone" by (metis nth_mem)
    qed
    with place_in [OF q(1)] q e known True show ?thesis by auto
  qed
  have gone_block: "filter (\<lambda>i. i \<in> set gone) [0..<length ms] = gone"
  proof (rule filter_sorted_block)
    show "sorted_wrt (<) gone" using sorted by (simp add: gone_def sorted_wrt_take sorted_wrt_drop)
    show "set gone \<subseteq> {..<length ms}" using sub known by (metis (no_types, lifting) lessThan_iff mem_Collect_eq set_mono_sublist subset_eq)
  qed
  have "removed_log ms place = concat (map (\<lambda>i. if i \<in> set gone then [ms ! i] else []) [0..<length ms])"
    unfolding removed_log_def by (intro arg_cong [of _ _ concat] map_cong) (auto simp: gone_iff split: option.split)
  then have "sc_removed r = map ((!) ms) gone" by (simp add: r concat_filter gone_block)
  moreover have "rewrite_log ms after place = concat (map (\<lambda>i. if i \<notin> set gone then
      [case place i of Some j \<Rightarrow> message_to_store_message (after ! j) (ms ! i) | None \<Rightarrow> ms ! i] else []) [0..<length ms])"
    unfolding rewrite_log_def by (intro arg_cong [of _ _ concat] map_cong) (auto simp: gone_iff split: option.split)
  then have out: "sc_messages r = map (\<lambda>i. case place i of Some j \<Rightarrow> message_to_store_message (after ! j) (ms ! i) | None \<Rightarrow> ms ! i)
      (filter (\<lambda>i. i \<notin> set gone) [0..<length ms])"
    by (simp add: r concat_filter)
  have one: "carried (ms ! i) (case place i of Some j \<Rightarrow> message_to_store_message (after ! j) (ms ! i) | None \<Rightarrow> ms ! i)"
    if i: "i < length ms" "i \<notin> set gone" for i
  proof (cases "i \<in> set src")
    case False
    then have "store_message_to_message (ms ! i) = None" using known i(1) by auto
    with place_out [OF False] show ?thesis by (simp add: carried_def)
  next
    case True
    then obtain q where q: "q < length src" "i = src ! q" by (metis in_set_conv_nth)
    have p: "store_message_to_message (ms ! i) = Some (view ! q)"
      using project_log_sources(3) [of q ms] q by (simp add: src_def view_def)
    have "place i \<noteq> None" using gone_iff [OF i(1)] i(2) p by simp
    then have pl: "place i = Some (if q < s then q else q - (edge - s))" "q < s \<or> edge \<le> q"
      using place_in [OF q(1)] q(2) by (auto split: if_splits)
    have "msg_role (after ! (if q < s then q else q - (edge - s))) = msg_role (view ! q)"
    proof -
      let ?j = "if q < s then q else q - (edge - s)"
      have "?j < length after" using pl(2) q(1) after_len e by auto
      then have "msg_role (after ! ?j) = map msg_role (take s view @ drop edge view) ! ?j"
        using after_roles by (metis nth_map)
      also have "\<dots> = msg_role (view ! q)"
        using pl(2) q(1) len e by (auto simp: nth_append)
      finally show ?thesis .
    qed
    with p pl(1) show ?thesis by (auto simp: carried_def)
  qed
  have "list_all2 carried (map ((!) ms) (filter (\<lambda>i. i \<notin> set gone) [0..<length ms])) (sc_messages r)"
    unfolding out by (auto simp: list_all2_map1 list_all2_map2 intro!: list.rel_refl_strong one)
  ultimately show ?thesis using sub unfolding src_def by blast
qed

text \<open>
  C17: a compaction accounts for every entry of the log.  The removed entries are a block of
  consecutive entries among those the loop knows; every other entry is carried over in its place:
  unchanged when its role is unknown, and otherwise rewritten from a message of its own role.
\<close>
theorem compaction_accounts_for_all:
  assumes "compact_store_messages fl json_text ms win cfg = Some r"
  shows "\<exists>gone. sublist gone (map fst (project_log ms))
    \<and> sc_removed r = map ((!) ms) gone
    \<and> list_all2 carried (map ((!) ms) (filter (\<lambda>i. i \<notin> set gone) [0..<length ms])) (sc_messages r)"
  by (rule compaction_account [OF assms])

definition demo_log :: "json list" where
  "demo_log = [JObj [(''role'', JStr ''user''), (''content'', JStr ''hello'')], JObj [(''role'', JStr ''note'')]]"

lemma demo_compacted:
  "compact_store_messages id (\<lambda>_. []) demo_log 100 demo_config =
     Some \<lparr>sc_messages = demo_log, sc_removed = [], before_messages = 2, after_messages = 2,
       before_chars = 5, after_chars = 5\<rparr>"
proof -
  have "compress_messages id (\<lambda>_. []) 100 demo_config None (map snd (project_log demo_log))
      = Some (map snd (project_log demo_log), 0)"
    unfolding compress_messages_def Let_def
    by (simp add: demo_log_def project_log_def store_message_to_message_def str_arg_def str_arg_or_empty_def Let_def
        text_first_def text_block_def arr_arg_def map_filter_simps over_trigger_def stats_total_tokens_def
        chars_to_tokens_def measure_usage_with_ratio_def token_ratio_of_def message_len_def byte_len_def
        trigger_tokens_def demo_config_def)
  then show ?thesis unfolding compact_store_messages_def Let_def by simp code_simp
qed

theorem compaction_accounts_for_all_witness:
  "\<exists>gone. sublist gone (map fst (project_log demo_log)) \<and> [] = map ((!) demo_log) gone
    \<and> list_all2 carried (map ((!) demo_log) (filter (\<lambda>i. i \<notin> set gone) [0..<2])) demo_log"
proof -
  have len: "length demo_log = 2" by (simp add: demo_log_def)
  show ?thesis using compaction_accounts_for_all [OF demo_compacted] unfolding len by simp
qed

text \<open>
  Compacting on request a log of a system message, such as an earlier summary, and one more
  message panics, whatever the configured budgets: the request sets the window to 1, so that every
  text of four bytes is over the trigger.
\<close>
theorem short_log_panics:
  assumes "store_message_to_message m = Some p" and "msg_role p = SystemRole"
    and "store_message_to_message m' = Some q" and "msg_role q \<noteq> SystemRole"
    and "4 \<le> message_len json_text p + message_len json_text q" and "trigger_pct cfg < 100"
  shows "compact_store_messages fl json_text [m, m'] 1 cfg = None"
proof -
  have view: "map snd (project_log [m, m']) = [p, q]"
    using assms(1,3) by (simp add: project_log_def upt_conv_Cons map_filter_simps)
  have "over_trigger fl json_text 1 cfg None [p, q]"
    using assms(5,6) by (simp add: over_trigger_def trigger_tokens_def stats_total_tokens_def chars_to_tokens_def
      measure_usage_with_ratio_def token_ratio_of_def Let_def div_greater_zero_iff)
  moreover have "sys_count [p, q] = 1" using assms(2,4) by (simp add: sys_count_def)
  ultimately have "compress_messages fl json_text 1 cfg None [p, q] = None"
    by (simp add: compress_none)
  then show ?thesis by (simp add: compact_store_messages_def Let_def view)
qed

theorem short_log_panics_witness:
  "compact_store_messages id (\<lambda>_. [])
     [JObj [(''role'', JStr ''system''), (''content'', JStr ''summary'')], JObj [(''role'', JStr ''user''), (''content'', JStr ''go'')]]
     1 default_compression = None"
  by (rule short_log_panics [where p = "\<lparr>msg_role = SystemRole, msg_content = [text_block ''summary''], tool_results = None\<rparr>"
      and q = "\<lparr>msg_role = UserRole, msg_content = [text_block ''go''], tool_results = None\<rparr>"])
    (simp_all add: store_message_to_message_def str_arg_def str_arg_or_empty_def Let_def text_first_def
      text_block_def arr_arg_def map_filter_simps message_len_def byte_len_def default_compression_def)

subsection \<open>Earlier summaries\<close>

definition SUMMARY_PREFIX :: string where
  "SUMMARY_PREFIX = ''[Compression summary]''"

definition summary_body :: "message \<Rightarrow> string option" where
  "summary_body m =
     (let t = trim (content_text m) in
      if prefix SUMMARY_PREFIX t
      then Some (trim (case strip_prefix (SUMMARY_PREFIX @ '':'') t of Some b \<Rightarrow> b
                 | None \<Rightarrow> (case strip_prefix SUMMARY_PREFIX t of Some b \<Rightarrow> b | None \<Rightarrow> t)))
      else None)"

definition SUMMARY_JOINT :: string where
  "SUMMARY_JOINT = [CHR 0x0A, CHR 0x0A] @ ''---'' @ [CHR 0x0A] @ ''[Previous compression]'' @ [CHR 0x0A] @
     ''---'' @ [CHR 0x0A, CHR 0x0A]"

definition extract_compression_summaries :: "message list \<Rightarrow> string \<times> message list" where
  "extract_compression_summaries ms =
     (join_with SUMMARY_JOINT (filter (\<lambda>b. b \<noteq> []) (List.map_filter summary_body ms)),
      filter (\<lambda>m. summary_body m = None) ms)"

subsection \<open>Merging a summary from chunks\<close>

definition PARA :: string where
  "PARA = [CHR 0x0A, CHR 0x0A]"

fun split_loop :: "nat \<Rightarrow> string list \<Rightarrow> string list \<Rightarrow> string \<Rightarrow> string list" where
  "split_loop max_chunk [] chunks current = (if current \<noteq> [] then chunks @ [current] else chunks)"
| "split_loop max_chunk (p # ps) chunks current =
     (let full = (byte_len current + byte_len p > max_chunk \<and> current \<noteq> []);
          chunks' = (if full then chunks @ [current] else chunks);
          current' = (if full then [] else current) in
      split_loop max_chunk ps chunks' ((if current' \<noteq> [] then current' @ PARA else []) @ p))"

definition split_into_chunks :: "string \<Rightarrow> nat \<Rightarrow> string list" where
  "split_into_chunks s max_chunk = split_loop max_chunk (split_str PARA s) [] []"

definition call_summary_llm :: "(nat \<Rightarrow> string option) \<Rightarrow> nat \<Rightarrow> string \<Rightarrow> string" where
  "call_summary_llm llm n fallback = (case llm n of Some out \<Rightarrow> if out \<noteq> [] then out else fallback | None \<Rightarrow> fallback)"

text \<open>One round over the pairs of \<open>chunks(2)\<close>; \<open>n\<close> calls were made before.\<close>

fun merge_round :: "(nat \<Rightarrow> string option) \<Rightarrow> nat \<Rightarrow> string list \<Rightarrow> string list" where
  "merge_round llm n [] = []"
| "merge_round llm n [c] = [call_summary_llm llm n c]"
| "merge_round llm n (c # d # cs) = call_summary_llm llm n (c @ PARA @ d) # merge_round llm (n + 1) cs"

lemma merge_round_length: "length (merge_round llm n cs) = (length cs + 1) div 2"
  by (induction llm n cs rule: merge_round.induct) simp_all

function merge_rounds :: "(nat \<Rightarrow> string option) \<Rightarrow> nat \<Rightarrow> string list \<Rightarrow> string list \<times> nat" where
  "merge_rounds llm n merged =
     (if length merged > 1
      then merge_rounds llm (n + (length merged + 1) div 2) (merge_round llm n merged) else (merged, n))"
  by pat_completeness auto
termination
  by (relation "measure (\<lambda>(llm, n, merged). length merged)") (auto simp: merge_round_length)

declare merge_rounds.simps [simp del]

text \<open>The summary and the number of calls made for it.\<close>

definition merge_chunks :: "(nat \<Rightarrow> string option) \<Rightarrow> string list \<Rightarrow> string \<Rightarrow> string \<times> nat" where
  "merge_chunks llm chunks template =
     (if length chunks \<le> 1 then (call_summary_llm llm 0 template, 1)
      else (case merge_rounds llm ((length chunks + 1) div 2) (merge_round llm 0 chunks) of
          (m # _, n) \<Rightarrow> (m, n) | ([], n) \<Rightarrow> (template, n)))"

definition progressive_merge_summary :: "(nat \<Rightarrow> string option) \<Rightarrow> string \<Rightarrow> string \<Rightarrow> string \<times> nat" where
  "progressive_merge_summary llm full_prompt template =
     merge_chunks llm (split_into_chunks full_prompt 7000) template"

lemma call_fails [simp]: "call_summary_llm (\<lambda>_. None) n c = c"
  by (simp add: call_summary_llm_def)

lemma merge_round_ne: "merge_round llm n cs = [] \<longleftrightarrow> cs = []"
  by (cases "(llm, n, cs)" rule: merge_round.cases) simp_all

lemma merge_round_fails: "join_with PARA (merge_round (\<lambda>_. None) n cs) = join_with PARA cs"
proof (induction "(\<lambda>_. None) :: nat \<Rightarrow> string option" n cs rule: merge_round.induct)
  case (3 n c d cs)
  show ?case
  proof (cases "cs = []")
    case False
    then show ?thesis using 3 by (simp add: join_Cons merge_round_ne)
  qed simp
qed simp_all

lemma merge_rounds_fail:
  "merged \<noteq> [] \<Longrightarrow> fst (merge_rounds (\<lambda>_. None) n merged) = [join_with PARA merged]"
proof (induction "(\<lambda>_. None) :: nat \<Rightarrow> string option" n merged rule: merge_rounds.induct)
  case (1 n merged)
  show ?case
  proof (cases "length merged > 1")
    case True
    with 1 show ?thesis
      by (simp add: merge_rounds.simps [of _ n merged] merge_round_ne merge_round_fails)
  next
    case False
    then have "merge_rounds (\<lambda>_. None) n merged = (merged, n)" by (simp add: merge_rounds.simps [of _ n merged])
    with 1(2) False show ?thesis by (cases merged) simp_all
  qed
qed

lemma merge_rounds_calls:
  "merged \<noteq> [] \<Longrightarrow> length (fst (merge_rounds llm n merged)) = 1 \<and>
     snd (merge_rounds llm n merged) \<le> n + 2 * length merged - 2"
proof (induction llm n merged rule: merge_rounds.induct)
  case (1 llm n merged)
  show ?case
  proof (cases "length merged > 1")
    case True
    then have "merge_round llm n merged \<noteq> []" using merge_round_length [of llm n merged] by auto
    with 1(1) [OF True this] True show ?thesis
      by (simp add: merge_rounds.simps [of llm n merged] merge_round_length) linarith
  next
    case False
    then have "merge_rounds llm n merged = (merged, n)" by (simp add: merge_rounds.simps [of llm n merged])
    with 1(2) False show ?thesis by (cases merged) simp_all
  qed
qed

lemma join_merge: "join_with sep (xs @ (a @ sep @ b) # ys) = join_with sep (xs @ a # b # ys)"
proof (induction xs)
  case Nil
  then show ?case by (cases ys) simp_all
next
  case (Cons x xs)
  then show ?case by (simp add: join_Cons)
qed

lemma split_loop_joins:
  "[] \<notin> set ps \<Longrightarrow> join_with PARA (split_loop k ps chunks current) =
     join_with PARA (chunks @ (if current = [] then [] else [current]) @ ps)"
  by (induction k ps chunks current rule: split_loop.induct) (auto simp: Let_def join_merge)

lemma split_loop_sizes:
  "\<lbrakk>set ps \<subseteq> set all; \<forall>c \<in> set chunks. byte_len c \<le> k + 2 \<or> c \<in> set all;
    current = [] \<or> byte_len current \<le> k + 2 \<or> current \<in> set all\<rbrakk> \<Longrightarrow>
   c \<in> set (split_loop k ps chunks current) \<Longrightarrow> byte_len c \<le> k + 2 \<or> c \<in> set all"
proof (induction k ps chunks current rule: split_loop.induct)
  case (2 k p ps chunks current)
  have para: "byte_len PARA = 2" by (simp add: PARA_def byte_len_def)
  show ?case
  proof (rule 2(1) [OF refl refl refl], goal_cases)
    case 3
    then show ?case using 2(2,4) by (auto simp: byte_len_append para)
  qed (use 2 in \<open>auto simp: Let_def split: if_splits\<close>)
qed (auto split: if_splits)

text \<open>
  A long prompt is cut at its paragraphs into chunks of at most two bytes more than asked for,
  or of a single longer paragraph.  If the summary model never answers, the merging ends with the
  prompt itself, so that nothing of it is lost; in any case it makes at most two calls for each
  chunk.
\<close>
theorem summary_merging:
  assumes "[] \<notin> set (split_str PARA prompt)" and "length (split_into_chunks prompt k) > 1"
  shows "(\<forall>c \<in> set (split_into_chunks prompt k). byte_len c \<le> k + 2 \<or> c \<in> set (split_str PARA prompt))
    \<and> fst (merge_chunks (\<lambda>_. None) (split_into_chunks prompt k) template) = prompt
    \<and> snd (merge_chunks llm (split_into_chunks prompt k) template) \<le> 2 * length (split_into_chunks prompt k)"
proof (intro conjI)
  let ?cs = "split_into_chunks prompt k"
  show "\<forall>c \<in> set ?cs. byte_len c \<le> k + 2 \<or> c \<in> set (split_str PARA prompt)"
    unfolding split_into_chunks_def using split_loop_sizes [of _ "split_str PARA prompt" "[]" k "[]"] by fastforce
  have join: "join_with PARA ?cs = prompt"
    using split_loop_joins [OF assms(1), of k "[]" "[]"] join_split_str [of PARA prompt]
    by (simp add: split_into_chunks_def PARA_def)
  have ne: "merge_round l 0 ?cs \<noteq> []" for l using assms(2) merge_round_length [of l 0 ?cs] by auto
  obtain n where "merge_rounds (\<lambda>_. None) ((length ?cs + 1) div 2) (merge_round (\<lambda>_. None) 0 ?cs) = ([prompt], n)"
    using merge_rounds_fail [of "merge_round (\<lambda>_. None) 0 ?cs" "(length ?cs + 1) div 2"] ne merge_round_fails [of 0 ?cs] join
    by (metis prod.collapse)
  then show "fst (merge_chunks (\<lambda>_. None) ?cs template) = prompt"
    using assms(2) by (simp add: merge_chunks_def)
  show "snd (merge_chunks llm ?cs template) \<le> 2 * length ?cs"
  proof -
    let ?x = "(length ?cs + 1) div 2"
    have "snd (merge_chunks llm ?cs template) = snd (merge_rounds llm ?x (merge_round llm 0 ?cs))"
      using assms(2) by (simp add: merge_chunks_def split: prod.split list.split)
    moreover have "snd (merge_rounds llm ?x (merge_round llm 0 ?cs)) \<le> ?x + 2 * ?x - 2"
      using merge_rounds_calls [OF ne, of llm ?x llm] by (simp only: merge_round_length)
    moreover have "2 * ?x \<le> length ?cs + 1" by simp
    ultimately show ?thesis using assms(2) by linarith
  qed
qed

theorem summary_merging_witness:
  "fst (merge_chunks (\<lambda>_. None) (split_into_chunks (''a'' @ PARA @ ''b'') 1) []) = ''a'' @ PARA @ ''b''"
  by (rule summary_merging [THEN conjunct2, THEN conjunct1]) code_simp+

end
