(* ===== verification/Stream_Events.thy ===== *)
theory Stream_Events
  imports Rust_Text
begin

text \<open>
  The stream of events of a run, \<open>crates/oz-core-types/src/event.rs\<close>: the events, the merging of
  deltas while they are collected, and the compaction of the log before it is stored.
\<close>

record todo_item =
  todo_id :: string
  todo_content :: string
  todo_status :: string
  todo_priority :: string
  todo_order :: nat
  in_progress_since_turn :: "nat option"

datatype stream_event =
    ReasoningStart string | ReasoningDelta string string | ReasoningEnd string
  | TextStart string | TextDelta string string | TextEnd string
  | ToolInputStart string string | ToolInputDelta string string
  | ToolInputAvailable string string string | ToolOutputAvailable string string string
  | ToolCallReady string string string
  | AskUserPending string | AskUserAnswered string
  | DataCompressingContext nat nat nat
  | DataQualityGate string
  | DataTodoUpdate "todo_item list" nat nat
  | StartStep | FinishStep
  | ToolProgress string nat
  | LlmRetry nat nat string nat
  | FinishMessage string
  | StreamError string
  | OpenArtifact string string string
  | DataContextUsage nat nat nat nat nat nat nat
  | UserIntervention string

subsection \<open>Merging deltas\<close>

text \<open>The event two deltas of one block merge to.\<close>

definition merged :: "stream_event \<Rightarrow> stream_event \<Rightarrow> stream_event option" where
  "merged a b =
     (case a of
        TextDelta i s \<Rightarrow> (case b of TextDelta j t \<Rightarrow> if i = j then Some (TextDelta i (s @ t)) else None | _ \<Rightarrow> None)
      | ReasoningDelta i s \<Rightarrow>
          (case b of ReasoningDelta j t \<Rightarrow> if i = j then Some (ReasoningDelta i (s @ t)) else None | _ \<Rightarrow> None)
      | ToolInputDelta i s \<Rightarrow>
          (case b of ToolInputDelta j t \<Rightarrow> if i = j then Some (ToolInputDelta i (s @ t)) else None | _ \<Rightarrow> None)
      | _ \<Rightarrow> None)"

lemma merged_cases:
  assumes "merged a b = Some m"
  obtains i s t where "a = TextDelta i s" "b = TextDelta i t" "m = TextDelta i (s @ t)"
    | i s t where "a = ReasoningDelta i s" "b = ReasoningDelta i t" "m = ReasoningDelta i (s @ t)"
    | i s t where "a = ToolInputDelta i s" "b = ToolInputDelta i t" "m = ToolInputDelta i (s @ t)"
  using assms unfolding merged_def
  by (cases a; simp only: stream_event.case; simp split: stream_event.splits if_splits)

definition append_coalesced :: "stream_event list \<Rightarrow> stream_event \<Rightarrow> bool \<times> stream_event list" where
  "append_coalesced buf ev =
     (case (if buf = [] then None else merged (last buf) ev) of
        Some m \<Rightarrow> (True, butlast buf @ [m])
      | None \<Rightarrow> (False, buf @ [ev]))"

definition collect_events :: "stream_event list \<Rightarrow> stream_event list" where
  "collect_events evs = fold (\<lambda>ev buf. snd (append_coalesced buf ev)) evs []"

text \<open>What a consumer reconstructs: an event stream with every delta cut to single characters.\<close>

fun explode :: "stream_event \<Rightarrow> stream_event list" where
  "explode (TextDelta i s) = map (\<lambda>c. TextDelta i [c]) s"
| "explode (ReasoningDelta i s) = map (\<lambda>c. ReasoningDelta i [c]) s"
| "explode (ToolInputDelta i s) = map (\<lambda>c. ToolInputDelta i [c]) s"
| "explode e = [e]"

lemma merged_explode: "merged a b = Some m \<Longrightarrow> explode m = explode a @ explode b"
  by (erule merged_cases) simp_all

lemma append_coalesced_explode:
  "concat (map explode (snd (append_coalesced buf ev))) = concat (map explode buf) @ explode ev"
proof (cases "if buf = [] then None else merged (last buf) ev")
  case (Some m)
  then have ne: "buf \<noteq> []" and m: "merged (last buf) ev = Some m" by (auto split: if_splits)
  then obtain es e where "buf = es @ [e]" by (metis append_butlast_last_id)
  with m show ?thesis by (simp add: append_coalesced_def merged_explode)
qed (auto simp: append_coalesced_def)

text \<open>No two neighbours of the collected stream could still be merged.\<close>

fun settled :: "stream_event list \<Rightarrow> bool" where
  "settled (a # b # es) \<longleftrightarrow> merged a b = None \<and> settled (b # es)"
| "settled _ = True"

lemma settled_snoc: "settled (es @ [e]) \<longleftrightarrow> settled es \<and> (es = [] \<or> merged (last es) e = None)"
  by (induction es rule: settled.induct) auto

lemma merged_keeps_left: "merged a b = Some m \<Longrightarrow> merged c m = None \<longleftrightarrow> merged c a = None"
  by (erule merged_cases) (simp_all add: merged_def split: stream_event.split)

lemma append_coalesced_settled: "settled buf \<Longrightarrow> settled (snd (append_coalesced buf ev))"
proof (cases "if buf = [] then None else merged (last buf) ev")
  case (Some m)
  assume s: "settled buf"
  from Some have ne: "buf \<noteq> []" and m: "merged (last buf) ev = Some m" by (auto split: if_splits)
  then obtain es e where buf: "buf = es @ [e]" by (metis append_butlast_last_id)
  with s m ne Some show ?thesis
    by (auto simp: append_coalesced_def settled_snoc merged_keeps_left)
qed (auto simp: append_coalesced_def settled_snoc split: if_splits)

lemma collect_events_snoc: "collect_events (evs @ [e]) = snd (append_coalesced (collect_events evs) e)"
  by (simp add: collect_events_def)

text \<open>
  Collecting a stream with merging changes nothing a consumer can reconstruct: the characters
  of every block and the events between them are the same and in the same order, and the collected
  stream has no two neighbours left that could be merged.
\<close>
theorem collected_stream_is_equivalent:
  "concat (map explode (collect_events evs)) = concat (map explode evs) \<and> settled (collect_events evs)"
proof (induction evs rule: rev_induct)
  case (snoc e evs)
  then show ?case by (simp add: collect_events_snoc append_coalesced_explode append_coalesced_settled)
qed (simp add: collect_events_def)

subsection \<open>The stored log\<close>

definition ev_type :: "json \<Rightarrow> string" where
  "ev_type ev = str_arg_or_empty ev ''type''"

definition call_of :: "json \<Rightarrow> string" where
  "call_of ev = str_arg_or_empty ev ''tool_call_id''"

definition complete_args :: "json list \<Rightarrow> string list" where
  "complete_args events =
     filter (\<lambda>i. i \<noteq> []) (map call_of (filter (\<lambda>ev. str_arg ev ''type'' = Some ''tool_input_available'') events))"

record compact_state =
  out :: "json list"
  output_index :: "(string, nat) hash_map"
  seen_input :: "string list"
  last_usage :: "json option"
  last_todo :: "json option"

definition PERSIST_EVENT_CAP :: nat where
  "PERSIST_EVENT_CAP = 6000"

text \<open>Appending the text field of an event to that of the last one kept.\<close>

definition join_field :: "string \<Rightarrow> json \<Rightarrow> json \<Rightarrow> json" where
  "join_field field prev ev = jinsert field (JStr (str_arg_or_empty prev field @ str_arg_or_empty ev field)) prev"

definition push_out :: "json \<Rightarrow> compact_state \<Rightarrow> compact_state" where
  "push_out ev st = st\<lparr>out := out st @ [ev]\<rparr>"

definition merge_out :: "string \<Rightarrow> json \<Rightarrow> compact_state \<Rightarrow> compact_state" where
  "merge_out field ev st = st\<lparr>out := butlast (out st) @ [join_field field (last (out st)) ev]\<rparr>"

definition compact_event :: "string list \<Rightarrow> json \<Rightarrow> compact_state \<Rightarrow> compact_state" where
  "compact_event complete_ids ev st =
     (let kind = ev_type ev in
      if kind = ''reasoning_delta'' \<or> kind = ''text_delta'' then
        (if out st \<noteq> [] \<and> str_arg (last (out st)) ''type'' = Some kind
            \<and> str_arg_or_empty (last (out st)) ''id'' = str_arg_or_empty ev ''id''
            \<and> str_arg (last (out st)) ''text'' \<noteq> None
         then merge_out ''text'' ev st else push_out ev st)
      else if kind = ''tool_input_delta'' then
        (if call_of ev \<in> set complete_ids then st
         else if out st \<noteq> [] \<and> str_arg (last (out st)) ''type'' = Some ''tool_input_delta''
            \<and> call_of (last (out st)) = call_of ev
         then merge_out ''delta'' ev st else push_out ev st)
      else if kind = ''tool_input_available'' then
        (if call_of ev \<noteq> [] \<and> call_of ev \<in> set (seen_input st) then st
         else push_out ev (if call_of ev \<noteq> [] then st\<lparr>seen_input := call_of ev # seen_input st\<rparr> else st))
      else if kind = ''tool_output_available'' then
        (if call_of ev = [] then push_out ev st
         else (case hm_get (call_of ev) (output_index st) of
             Some idx \<Rightarrow> st\<lparr>out := (out st)[idx := ev]\<rparr>
           | None \<Rightarrow> push_out ev (st\<lparr>output_index := hm_insert (call_of ev) (length (out st)) (output_index st)\<rparr>)))
      else if kind = ''data_context_usage'' then st\<lparr>last_usage := Some ev\<rparr>
      else if kind = ''data_todo_update'' then st\<lparr>last_todo := Some ev\<rparr>
      else push_out ev st)"

definition compact_start :: compact_state where
  "compact_start = \<lparr>out = [], output_index = hm_empty, seen_input = [], last_usage = None, last_todo = None\<rparr>"

definition opt_event :: "json option \<Rightarrow> json list" where
  "opt_event e = (case e of Some v \<Rightarrow> [v] | None \<Rightarrow> [])"

definition uncapped :: "json list \<Rightarrow> json list" where
  "uncapped events =
     (let st = fold (compact_event (complete_args events)) events compact_start in
      out st @ opt_event (last_usage st) @ opt_event (last_todo st))"

definition compact_stream_events :: "json list \<Rightarrow> json list" where
  "compact_stream_events events =
     (let evs = uncapped events in
      if length evs > PERSIST_EVENT_CAP
      then (let head = PERSIST_EVENT_CAP div 2; tail = PERSIST_EVENT_CAP - head in
            take head evs @ drop (length evs - tail) evs)
      else evs)"

subsection \<open>What the stored log keeps\<close>

text \<open>The text of one block, and the outputs of one call.\<close>

definition block_chars_of :: "string \<Rightarrow> string \<Rightarrow> json \<Rightarrow> string" where
  "block_chars_of kind i ev =
     (if ev_type ev = kind \<and> str_arg_or_empty ev ''id'' = i then str_arg_or_empty ev ''text'' else [])"

definition block_text_of :: "string \<Rightarrow> string \<Rightarrow> json list \<Rightarrow> string" where
  "block_text_of kind i evs = concat (map (block_chars_of kind i) evs)"

definition is_output :: "string \<Rightarrow> json \<Rightarrow> bool" where
  "is_output i ev \<longleftrightarrow> ev_type ev = ''tool_output_available'' \<and> call_of ev = i"

definition outputs_of :: "string \<Rightarrow> json list \<Rightarrow> json list" where
  "outputs_of i evs = filter (is_output i) evs"

text \<open>The index knows the place of the one output kept for each call.\<close>

definition place_ok :: "string \<Rightarrow> nat option \<Rightarrow> json list \<Rightarrow> bool" where
  "place_ok i p evs =
     (case p of
        None \<Rightarrow> \<forall>m < length evs. \<not> is_output i (evs ! m)
      | Some n \<Rightarrow> n < length evs \<and> (\<forall>m < length evs. is_output i (evs ! m) \<longleftrightarrow> m = n))"

definition index_ok :: "compact_state \<Rightarrow> bool" where
  "index_ok st \<longleftrightarrow> (\<forall>i. i \<noteq> [] \<longrightarrow> place_ok i (hm_get i (output_index st)) (out st))"

lemma index_okD: "index_ok st \<Longrightarrow> i \<noteq> [] \<Longrightarrow> place_ok i (hm_get i (output_index st)) (out st)"
  by (simp add: index_ok_def)

lemma index_okI:
  "(\<And>i. i \<noteq> [] \<Longrightarrow> place_ok i (hm_get i (output_index st)) (out st)) \<Longrightarrow> index_ok st"
  by (simp add: index_ok_def)

lemma index_ok_place:
  assumes "index_ok st" and "hm_get i (output_index st) = Some n" and "i \<noteq> []"
  shows "n < length (out st)" and "\<forall>m < length (out st). is_output i (out st ! m) \<longleftrightarrow> m = n"
  using index_okD [OF assms(1,3)] assms(2) by (simp_all add: place_ok_def)

lemma place_ok_append:
  "place_ok i p evs \<Longrightarrow> \<not> is_output i ev \<Longrightarrow> place_ok i p (evs @ [ev])"
  "place_ok i None evs \<Longrightarrow> is_output i ev \<Longrightarrow> place_ok i (Some (length evs)) (evs @ [ev])"
  by (auto simp: place_ok_def nth_append less_Suc_eq split: option.splits)

lemma place_ok_same:
  "length evs' = length evs \<Longrightarrow> (\<And>m. m < length evs \<Longrightarrow> is_output i (evs' ! m) \<longleftrightarrow> is_output i (evs ! m))
   \<Longrightarrow> place_ok i p evs' = place_ok i p evs"
  by (simp add: place_ok_def split: option.splits)

lemma join_field_keeps:
  assumes "is_object prev" and "field = ''text'' \<or> field = ''delta''"
  shows "ev_type (join_field field prev ev) = ev_type prev" "call_of (join_field field prev ev) = call_of prev"
    "str_arg_or_empty (join_field field prev ev) ''id'' = str_arg_or_empty prev ''id''"
    "str_arg_or_empty (join_field ''text'' prev ev) ''text'' = str_arg_or_empty prev ''text'' @ str_arg_or_empty ev ''text''"
  using assms by (auto simp: join_field_def ev_type_def call_of_def str_arg_or_empty_def)

lemma merge_out_places:
  assumes "out st \<noteq> []" and "is_object (last (out st))" and "ev_type (last (out st)) = kind"
    and "kind \<noteq> ''tool_output_available''" and "field = ''text'' \<or> field = ''delta''"
  shows "length (out (merge_out field ev st)) = length (out st)"
    and "m < length (out st) \<Longrightarrow> is_output i (out (merge_out field ev st) ! m) \<longleftrightarrow> is_output i (out st ! m)"
    and "outputs_of i (out (merge_out field ev st)) = outputs_of i (out st)"
    and "output_index (merge_out field ev st) = output_index st"
proof -
  obtain es e where o: "out st = es @ [e]" using assms(1) by (metis append_butlast_last_id)
  have no: "\<not> is_output i e" "\<not> is_output i (join_field field e ev)"
    using assms o by (auto simp: is_output_def join_field_keeps)
  show "length (out (merge_out field ev st)) = length (out st)" "output_index (merge_out field ev st) = output_index st"
    by (simp_all add: merge_out_def o)
  show "m < length (out st) \<Longrightarrow> is_output i (out (merge_out field ev st) ! m) \<longleftrightarrow> is_output i (out st ! m)"
    using no by (auto simp: merge_out_def o nth_append)
  show "outputs_of i (out (merge_out field ev st)) = outputs_of i (out st)"
    using no by (simp add: merge_out_def o outputs_of_def)
qed

text \<open>
  Every event that is kept is merged into the last one, appended, or put in the place of an
  earlier output; the cases of one step, with what each needs for the theorems.
\<close>

lemma compact_event_cases [consumes 1, case_names merge push replace skip]:
  assumes "index_ok st"
  obtains (merge) kind field where "compact_event cs ev st = merge_out field ev st" "out st \<noteq> []"
      "is_object (last (out st))" "ev_type (last (out st)) = kind" "ev_type ev = kind"
      "kind \<noteq> ''tool_output_available''"
      "field = ''text'' \<and> str_arg_or_empty (last (out st)) ''id'' = str_arg_or_empty ev ''id''
       \<or> field = ''delta'' \<and> kind = ''tool_input_delta''"
  | (push) st' where "compact_event cs ev st = push_out ev st'" "out st' = out st"
      "ev_type ev \<noteq> ''tool_output_available'' \<or> call_of ev = [] \<Longrightarrow> output_index st' = output_index st"
      "ev_type ev = ''tool_output_available'' \<Longrightarrow> call_of ev \<noteq> [] \<Longrightarrow>
         hm_get (call_of ev) (output_index st) = None
         \<and> output_index st' = hm_insert (call_of ev) (length (out st)) (output_index st)"
  | (replace) n where "compact_event cs ev st = st\<lparr>out := (out st)[n := ev]\<rparr>"
      "hm_get (call_of ev) (output_index st) = Some n" "is_output (call_of ev) ev" "call_of ev \<noteq> []"
  | (skip) "out (compact_event cs ev st) = out st" "output_index (compact_event cs ev st) = output_index st"
      "ev_type ev \<notin> {''reasoning_delta'', ''text_delta'', ''tool_output_available''}"
proof -
  have obj: "str_arg (last (out st)) ''type'' = Some k \<Longrightarrow> is_object (last (out st)) \<and> ev_type (last (out st)) = k" for k
    by (auto simp: ev_type_def str_arg_or_empty_def dest: str_arg_object)
  consider "ev_type ev \<in> {''reasoning_delta'', ''text_delta''}" | "ev_type ev = ''tool_input_delta''"
    | "ev_type ev = ''tool_input_available''" | "ev_type ev = ''tool_output_available''"
    | "ev_type ev \<in> {''data_context_usage'', ''data_todo_update''}"
    | "ev_type ev \<notin> {''reasoning_delta'', ''text_delta'', ''tool_input_delta'', ''tool_input_available'',
        ''tool_output_available'', ''data_context_usage'', ''data_todo_update''}"
    by blast
  then show thesis
  proof cases
    case 1
    show thesis
    proof (cases "out st \<noteq> [] \<and> str_arg (last (out st)) ''type'' = Some (ev_type ev)
            \<and> str_arg_or_empty (last (out st)) ''id'' = str_arg_or_empty ev ''id''
            \<and> str_arg (last (out st)) ''text'' \<noteq> None")
      case True
      with 1 obj [of "ev_type ev"] show thesis
        by (intro merge [of "''text''" "ev_type ev"]) (auto simp: compact_event_def Let_def)
    next
      case False
      with 1 show thesis by (intro push [of st]) (auto simp: compact_event_def Let_def)
    qed
  next
    case 2
    show thesis
    proof (cases "call_of ev \<in> set cs")
      case True
      with 2 show thesis by (intro skip) (auto simp: compact_event_def)
    next
      case False
      show thesis
      proof (cases "out st \<noteq> [] \<and> str_arg (last (out st)) ''type'' = Some ''tool_input_delta''
            \<and> call_of (last (out st)) = call_of ev")
        case True
        with 2 False obj [of "''tool_input_delta''"] show thesis
          by (intro merge [of "''delta''" "''tool_input_delta''"]) (auto simp: compact_event_def)
      next
        case not: False
        with 2 False show thesis by (intro push [of st]) (auto simp: compact_event_def)
      qed
    qed
  next
    case 3
    show thesis
    proof (cases "call_of ev \<noteq> [] \<and> call_of ev \<in> set (seen_input st)")
      case True
      with 3 show thesis by (intro skip) (auto simp: compact_event_def)
    next
      case False
      with 3 show thesis
        by (intro push [of "if call_of ev \<noteq> [] then st\<lparr>seen_input := call_of ev # seen_input st\<rparr> else st"])
          (auto simp: compact_event_def)
    qed
  next
    case 4
    show thesis
    proof (cases "call_of ev = []")
      case True
      with 4 show thesis by (intro push [of st]) (auto simp: compact_event_def)
    next
      case False
      show thesis
      proof (cases "hm_get (call_of ev) (output_index st)")
        case None
        with 4 False show thesis
          by (intro push [of "st\<lparr>output_index := hm_insert (call_of ev) (length (out st)) (output_index st)\<rparr>"])
            (auto simp: compact_event_def)
      next
        case (Some n)
        with 4 False show thesis by (intro replace [of n]) (auto simp: compact_event_def is_output_def)
      qed
    qed
  next
    case 5
    then show thesis by (intro skip) (auto simp: compact_event_def Let_def)
  next
    case 6
    then show thesis by (intro push [of st]) (auto simp: compact_event_def Let_def)
  qed
qed

lemma update_places:
  assumes "\<forall>m < length xs. P (xs ! m) \<longleftrightarrow> m = n" and "n < length xs"
  shows "filter P xs = [xs ! n]"
proof -
  have "xs = take n xs @ xs ! n # drop (Suc n) xs" using assms(2) by (simp add: id_take_nth_drop)
  moreover have "filter P (take n xs) = []" using assms by (auto simp: filter_empty_conv in_set_conv_nth)
  moreover have "filter P (drop (Suc n) xs) = []"
    using assms(1) by (auto simp: filter_empty_conv in_set_conv_nth)
  ultimately show ?thesis using assms by (metis append.simps(1) filter.simps(2) filter_append)
qed

lemma index_ok_step: "index_ok st \<Longrightarrow> index_ok (compact_event cs ev st)"
proof -
  assume ok: "index_ok st"
  then show ?thesis
  proof (cases rule: compact_event_cases [where cs = cs and ev = ev])
    case (merge kind field)
    from merge(7) have "field = ''text'' \<or> field = ''delta''" by blast
    note p = merge_out_places [OF merge(2-4,6) this]
    have "place_ok i q (out (merge_out field ev st)) = place_ok i q (out st)" for i q
      by (rule place_ok_same) (fact p(1), rule p(2))
    then show ?thesis unfolding merge(1) by (intro index_okI) (simp add: p(4) index_okD [OF ok])
  next
    case (push st')
    show ?thesis
    proof (cases "ev_type ev = ''tool_output_available'' \<and> call_of ev \<noteq> []")
      case True
      then have new: "hm_get (call_of ev) (output_index st) = None"
        "output_index st' = hm_insert (call_of ev) (length (out st)) (output_index st)"
        using push(4) by blast+
      have outp: "is_output i ev \<longleftrightarrow> i = call_of ev" for i using True by (auto simp: is_output_def)
      show ?thesis unfolding push(1)
      proof (rule index_okI)
        fix i :: string assume i: "i \<noteq> []"
        show "place_ok i (hm_get i (output_index (push_out ev st'))) (out (push_out ev st'))"
          using index_okD [OF ok i] new
          by (cases "i = call_of ev") (simp_all add: push_out_def push(2) outp place_ok_append)
      qed
    next
      case False
      then have "output_index st' = output_index st" "i \<noteq> [] \<Longrightarrow> \<not> is_output i ev" for i
        using push(3) by (auto simp: is_output_def)
      then show ?thesis unfolding push(1) using index_okD [OF ok]
        by (intro index_okI) (simp add: push_out_def push(2) place_ok_append)
    qed
  next
    case (replace n)
    note n = index_ok_place [OF ok replace(2,4)]
    then have same: "is_output i (out st ! n) \<longleftrightarrow> is_output i ev" for i
      using replace(3) by (auto simp: is_output_def)
    have "place_ok i q ((out st)[n := ev]) = place_ok i q (out st)" for i q
      by (rule place_ok_same) (use n(1) same in \<open>auto simp: nth_list_update\<close>)
    then show ?thesis unfolding replace(1) by (intro index_okI) (simp add: index_okD [OF ok])
  next
    case skip
    then show ?thesis using ok by (simp add: index_ok_def)
  qed
qed

lemma block_text_append [simp]: "block_text_of k i (xs @ ys) = block_text_of k i xs @ block_text_of k i ys"
  by (simp add: block_text_of_def)

lemma block_text_step:
  assumes "index_ok st" and "kind = ''reasoning_delta'' \<or> kind = ''text_delta''"
  shows "block_text_of kind i (out (compact_event cs ev st)) = block_text_of kind i (out st) @ block_text_of kind i [ev]"
  using assms(1)
proof (cases rule: compact_event_cases [where cs = cs and ev = ev])
  case (merge k field)
  obtain es e where o: "out st = es @ [e]" using merge(2) by (metis append_butlast_last_id)
  have f: "field = ''text'' \<or> field = ''delta''" using merge(7) by blast
  have "is_object e" using merge(3) o by simp
  note j = join_field_keeps [OF this f]
  show ?thesis using merge(4-7) assms(2) unfolding merge(1)
    by (auto simp: merge_out_def o block_text_of_def block_chars_of_def j join_field_keeps(4) [OF \<open>is_object e\<close>])
next
  case (push st')
  then show ?thesis by (simp add: push_out_def)
next
  case (replace n)
  then have n: "n < length (out st)" "is_output (call_of ev) (out st ! n)"
    using index_ok_place [OF assms(1)] by blast+
  have "block_chars_of kind i (out st ! n) = []" "block_chars_of kind i ev = []"
    using n(2) replace(3) assms(2) by (auto simp: is_output_def block_chars_of_def)
  then have "map (block_chars_of kind i) ((out st)[n := ev]) = map (block_chars_of kind i) (out st)"
    using n(1) by (simp add: map_update list_update_same_conv)
  with replace(1) \<open>block_chars_of kind i ev = []\<close> show ?thesis by (simp add: block_text_of_def)
next
  case skip
  then show ?thesis using assms(2) by (auto simp: block_text_of_def block_chars_of_def)
qed

lemma outputs_step:
  assumes "index_ok st" and "i \<noteq> []"
  shows "outputs_of i (out (compact_event cs ev st)) = (if is_output i ev then [ev] else outputs_of i (out st))"
  using assms(1)
proof (cases rule: compact_event_cases [where cs = cs and ev = ev])
  case (merge kind field)
  from merge(7) have "field = ''text'' \<or> field = ''delta''" by blast
  then show ?thesis using merge_out_places(3) [OF merge(2-4,6)] merge by (auto simp: is_output_def)
next
  case (push st')
  show ?thesis
  proof (cases "is_output i ev")
    case True
    then have "hm_get i (output_index st) = None" using push(4) assms(2) by (auto simp: is_output_def)
    then have "outputs_of i (out st) = []"
      using index_okD [OF assms] by (auto simp: place_ok_def outputs_of_def filter_empty_conv in_set_conv_nth)
    with True push show ?thesis by (simp add: push_out_def outputs_of_def)
  next
    case False
    with push show ?thesis by (simp add: push_out_def outputs_of_def)
  qed
next
  case (replace n)
  then have n: "n < length (out st)" "\<forall>m < length (out st). is_output (call_of ev) (out st ! m) \<longleftrightarrow> m = n"
    using index_ok_place [OF assms(1)] by blast+
  show ?thesis
  proof (cases "is_output i ev")
    case True
    then have "i = call_of ev" by (simp add: is_output_def)
    with n True have "filter (is_output i) ((out st)[n := ev]) = [(out st)[n := ev] ! n]"
      by (intro update_places) (auto simp: nth_list_update)
    with True n replace(1) show ?thesis by (simp add: outputs_of_def)
  next
    case False
    then have "\<not> is_output i (out st ! n)" using n replace(3) by (auto simp: is_output_def)
    with False n(1) replace(1) show ?thesis
      by (simp add: outputs_of_def upd_conv_take_nth_drop) (metis filter.simps(2) filter_append id_take_nth_drop)
  qed
next
  case skip
  then show ?thesis by (auto simp: is_output_def)
qed

lemma compact_fold:
  assumes "index_ok st"
  shows "index_ok (fold (compact_event cs) evs st)"
    and "kind = ''reasoning_delta'' \<or> kind = ''text_delta'' \<Longrightarrow>
      block_text_of kind i (out (fold (compact_event cs) evs st)) = block_text_of kind i (out st) @ block_text_of kind i evs"
    and "i \<noteq> [] \<Longrightarrow> outputs_of i (out (fold (compact_event cs) evs st)) =
      (if outputs_of i evs = [] then outputs_of i (out st) else [last (outputs_of i evs)])"
  using assms
proof (induction evs arbitrary: st)
  case (Cons ev evs)
  {
    case 1
    then show ?case using Cons(1) index_ok_step by simp
  next
    case 2
    then show ?case using Cons(2) [OF _ index_ok_step] block_text_step [of st kind i cs ev]
      by (simp add: block_text_of_def)
  next
    case 3
    then show ?case using Cons(3) [OF _ index_ok_step] outputs_step [of st i cs ev]
      by (simp add: outputs_of_def)
  }
qed (simp_all add: block_text_of_def outputs_of_def)

lemma last_readouts:
  "\<forall>e. last_usage st = Some e \<longrightarrow> ev_type e = ''data_context_usage'' \<Longrightarrow>
   \<forall>e. last_todo st = Some e \<longrightarrow> ev_type e = ''data_todo_update'' \<Longrightarrow>
   (\<forall>e. last_usage (fold (compact_event cs) evs st) = Some e \<longrightarrow> ev_type e = ''data_context_usage'') \<and>
   (\<forall>e. last_todo (fold (compact_event cs) evs st) = Some e \<longrightarrow> ev_type e = ''data_todo_update'')"
proof (induction evs arbitrary: st)
  case (Cons ev evs)
  show ?case unfolding fold_simps
    by (rule Cons.IH) (use Cons.prems in \<open>auto simp: compact_event_def merge_out_def push_out_def Let_def split: if_splits option.splits\<close>)
qed simp

lemma uncapped_keeps:
  "kind = ''reasoning_delta'' \<or> kind = ''text_delta'' \<Longrightarrow> block_text_of kind i (uncapped evs) = block_text_of kind i evs"
  "i \<noteq> [] \<Longrightarrow> outputs_of i (uncapped evs) = (if outputs_of i evs = [] then [] else [last (outputs_of i evs)])"
proof -
  let ?st = "fold (compact_event (complete_args evs)) evs compact_start"
  have ok: "index_ok compact_start" by (simp add: index_ok_def place_ok_def compact_start_def)
  have "\<forall>e. last_usage ?st = Some e \<longrightarrow> ev_type e = ''data_context_usage''"
    "\<forall>e. last_todo ?st = Some e \<longrightarrow> ev_type e = ''data_todo_update''"
    using last_readouts [of compact_start "complete_args evs" evs] by (simp_all add: compact_start_def)
  then have t: "e \<in> set (opt_event (last_usage ?st) @ opt_event (last_todo ?st)) \<Longrightarrow>
      ev_type e = ''data_context_usage'' \<or> ev_type e = ''data_todo_update''" for e
    by (auto simp: opt_event_def split: option.splits)
  have none: "outputs_of i (opt_event (last_usage ?st) @ opt_event (last_todo ?st)) = []" for i
    using t unfolding outputs_of_def filter_empty_conv is_output_def by force
  show "kind = ''reasoning_delta'' \<or> kind = ''text_delta'' \<Longrightarrow> block_text_of kind i (uncapped evs) = block_text_of kind i evs"
  proof -
    assume k: "kind = ''reasoning_delta'' \<or> kind = ''text_delta''"
    then have "block_chars_of kind i e = []" if "e \<in> set (opt_event (last_usage ?st) @ opt_event (last_todo ?st))" for e
      using t [OF that] by (auto simp: block_chars_of_def)
    then have "block_text_of kind i (opt_event (last_usage ?st) @ opt_event (last_todo ?st)) = []"
      unfolding block_text_of_def by simp
    with compact_fold(2) [OF ok k, of i "complete_args evs" evs] show ?thesis
      by (simp add: uncapped_def Let_def compact_start_def block_text_of_def [of _ _ "[]"])
  qed
  show "i \<noteq> [] \<Longrightarrow> outputs_of i (uncapped evs) = (if outputs_of i evs = [] then [] else [last (outputs_of i evs)])"
    using compact_fold(3) [OF ok, of i "complete_args evs" evs] none [of i]
    by (simp add: uncapped_def Let_def compact_start_def outputs_of_def)
qed

text \<open>
  The stored log is never longer than its cap, and as long as the cap is not reached it holds
  the whole text of every text and reasoning block, and of the outputs of a call exactly the last.
\<close>
theorem stored_log_renders_the_same:
  assumes "length (uncapped evs) \<le> PERSIST_EVENT_CAP"
  shows "block_text_of ''text_delta'' i (compact_stream_events evs) = block_text_of ''text_delta'' i evs
    \<and> block_text_of ''reasoning_delta'' i (compact_stream_events evs) = block_text_of ''reasoning_delta'' i evs
    \<and> (i = [] \<or> outputs_of i (compact_stream_events evs) =
         (if outputs_of i evs = [] then [] else [last (outputs_of i evs)]))
    \<and> length (compact_stream_events evs') \<le> PERSIST_EVENT_CAP"
  using assms uncapped_keeps(1) [of _ i evs] uncapped_keeps(2) [of i evs]
  by (cases "i = []") (auto simp: compact_stream_events_def Let_def PERSIST_EVENT_CAP_def)

theorem stored_log_renders_the_same_witness:
  "block_text_of ''text_delta'' ''a'' (compact_stream_events
     [JObj [(''type'', JStr ''text_delta''), (''id'', JStr ''a''), (''text'', JStr ''x'')],
      JObj [(''type'', JStr ''text_delta''), (''id'', JStr ''a''), (''text'', JStr ''y'')]]) =
   block_text_of ''text_delta'' ''a''
     [JObj [(''type'', JStr ''text_delta''), (''id'', JStr ''a''), (''text'', JStr ''x'')],
      JObj [(''type'', JStr ''text_delta''), (''id'', JStr ''a''), (''text'', JStr ''y'')]]"
  by (rule stored_log_renders_the_same [THEN conjunct1])
    (simp add: uncapped_def PERSIST_EVENT_CAP_def compact_event_def compact_start_def ev_type_def complete_args_def
      str_arg_or_empty_def str_arg_def push_out_def merge_out_def opt_event_def Let_def)

end
