(* ===== verification/Tool_Outcomes.thy ===== *)
theory Tool_Outcomes
  imports Compress Llm_Retry "HOL-Library.List_Lexorder" "HOL-Library.Char_ord"
begin

text \<open>
  What the agent loop does with the result of a tool call: the helpers of
  \<open>crates/oz-core/src/agent_loop.rs\<close> that bound texts and images, the outcome types of
  \<open>crates/oz-core-types/src/tool.rs\<close> and \<open>error.rs\<close>, and \<open>process_tool_outcome\<close>, which files an outcome
  as a tool result, a note for the next turn, a question to the user or the reason to stop.

  The notes to the model exist in English and in Chinese; a note is a constructor of \<open>phrase\<close> with
  what is inserted in it, and the parameter \<open>say\<close> gives its wording in the configured language.
  \<open>json_text\<close> is the text \<open>serde_json\<close> makes of a value.
\<close>

subsection \<open>Outcomes of tools\<close>

record step_outcome =
  oc_data :: json
  oc_next_prompt :: "string option"
  should_exit :: bool
  oc_images :: "image_ref list"

definition step_success :: "json \<Rightarrow> step_outcome" where
  "step_success d = \<lparr>oc_data = d, oc_next_prompt = Some [CHR 0x0A], should_exit = False, oc_images = []\<rparr>"

definition step_success_with_prompt :: "json \<Rightarrow> string \<Rightarrow> step_outcome" where
  "step_success_with_prompt d p = \<lparr>oc_data = d, oc_next_prompt = Some p, should_exit = False, oc_images = []\<rparr>"

definition step_exit :: "json \<Rightarrow> step_outcome" where
  "step_exit d = \<lparr>oc_data = d, oc_next_prompt = None, should_exit = True, oc_images = []\<rparr>"

definition bad_json :: "string \<Rightarrow> step_outcome" where
  "bad_json msg =
     \<lparr>oc_data = JObj [(''status'', JStr ''error''), (''error'', JStr msg)], oc_next_prompt = Some msg,
      should_exit = False, oc_images = []\<rparr>"

datatype tool_error =
    Missing_Arg string | Unsupported_Type string | File_Not_Found string | Patch_Failed string | Tool_Custom string

fun tool_error_text :: "tool_error \<Rightarrow> string" where
  "tool_error_text (Missing_Arg a) = ''Missing argument: '' @ a"
| "tool_error_text (Unsupported_Type a) = ''Unsupported type: '' @ a"
| "tool_error_text (File_Not_Found a) = ''File not found: '' @ a"
| "tool_error_text (Patch_Failed a) = ''Patch failed: '' @ a"
| "tool_error_text (Tool_Custom a) = a"

type_synonym dispatch_result = "(tool_error, step_outcome) result"

subsection \<open>Numbers and truth values of JSON\<close>

fun as_bool :: "json \<Rightarrow> bool option" where
  "as_bool (JBool b) = Some b"
| "as_bool _ = None"

text \<open>\<open>as_i64\<close> on a number as it is written: an integer in the range of 64 bits.\<close>

definition is_digits :: "string \<Rightarrow> bool" where
  "is_digits s \<longleftrightarrow> s \<noteq> [] \<and> list_all is_ascii_digit s"

fun as_i64 :: "json \<Rightarrow> int option" where
  "as_i64 (JNum t) =
     (if is_digits t \<and> text_nat t < 2 ^ 63 then Some (int (text_nat t))
      else if t \<noteq> [] \<and> hd t = CHR ''-'' \<and> is_digits (tl t) \<and> text_nat (tl t) \<noteq> 0 \<and> text_nat (tl t) \<le> 2 ^ 63
      then Some (- int (text_nat (tl t)))
      else None)"
| "as_i64 _ = None"

subsection \<open>Bounded texts\<close>

text \<open>
  A character is one element of a text, so that \<open>&text[..nth_char_offset(text, n)]\<close> is \<open>take n text\<close>.
\<close>

definition smart_format :: "string \<Rightarrow> nat \<Rightarrow> string" where
  "smart_format txt max_len =
     (let n = length txt in
      if n \<le> max_len then txt
      else (let half = (if max_len = 0 then min 3 (n div 2) else max_len div 2)
            in take half txt @ ''...'' @ drop (n - half) txt))"

definition truncate_text :: "string \<Rightarrow> string \<Rightarrow> nat \<Rightarrow> string" where
  "truncate_text mark s n = (if length s \<le> n then s else take n s @ mark)"

definition MAX_TOOL_RESULT_CTX_CHARS :: nat where
  "MAX_TOOL_RESULT_CTX_CHARS = 100000"

definition tool_result_content :: "(json \<Rightarrow> string) \<Rightarrow> json \<Rightarrow> string" where
  "tool_result_content json_text d =
     (let serialized = json_text d in
      if byte_len serialized \<le> MAX_TOOL_RESULT_CTX_CHARS then serialized
      else smart_format serialized MAX_TOOL_RESULT_CTX_CHARS)"

definition truncate_stream_output :: "string \<Rightarrow> nat \<Rightarrow> string" where
  "truncate_stream_output s max_bytes =
     (if byte_len s \<le> max_bytes then s
      else (let kept = take_bytes max_bytes s in
        kept @ [CHR 0x0A] @ ''...[truncated, original '' @ nat_text (byte_len s) @ '' bytes, kept first ''
          @ nat_text (byte_len kept) @ '']''))"

lemma smart_format_bound: "length (smart_format txt n) \<le> max n 6 + 3"
  by (auto simp: smart_format_def Let_def min_def)

lemma take_bytes_bytes: "byte_len (take_bytes n s) \<le> byte_len s"
proof -
  obtain r where "s = take_bytes n s @ r" using take_bytes_prefix [of n s] by (auto simp: prefix_def)
  then have "byte_len s = byte_len (take_bytes n s) + byte_len r" by (metis byte_len_append)
  then show ?thesis by simp
qed

subsection \<open>Waiting between attempts\<close>

definition outage_retry_delay :: "nat \<Rightarrow> rat" where
  "outage_retry_delay consecutive = outage_backoff_delay (consecutive - 1)"

definition llm_retry_budget_exhausted :: "nat \<Rightarrow> nat \<Rightarrow> bool" where
  "llm_retry_budget_exhausted elapsed_secs budget_secs \<longleftrightarrow> elapsed_secs \<ge> budget_secs"

subsection \<open>Pictures kept in the conversation\<close>

definition omitted_note :: "string \<Rightarrow> string" where
  "omitted_note url =
     ''[earlier screenshot omitted from context to bound its size: ~'' @ nat_text (byte_len url div 1024)
       @ '' KB of base64; re-read the file if you still need to look at it]''"

fun retain_blocks :: "nat \<Rightarrow> nat \<Rightarrow> nat \<Rightarrow> content_block list \<Rightarrow> content_block list \<times> nat \<times> nat" where
  "retain_blocks keep seen dropped [] = ([], seen, dropped)"
| "retain_blocks keep seen dropped (b # bs) =
     (case b of
        ImageUrl url mt \<Rightarrow>
          (let seen' = seen + 1; over = (seen' > keep);
               (rest, s, d) = retain_blocks keep seen' (if over then dropped + 1 else dropped) bs
           in ((if over then text_block (omitted_note url) else b) # rest, s, d))
      | _ \<Rightarrow> (let (rest, s, d) = retain_blocks keep seen dropped bs in (b # rest, s, d)))"

text \<open>The messages from the last to the first, the blocks of each from the first to the last.\<close>

fun retain_messages :: "nat \<Rightarrow> nat \<Rightarrow> nat \<Rightarrow> message list \<Rightarrow> message list \<times> nat" where
  "retain_messages keep seen dropped [] = ([], dropped)"
| "retain_messages keep seen dropped (m # ms) =
     (let (bs, s, d) = retain_blocks keep seen dropped (msg_content m);
          (rest, d') = retain_messages keep s d ms
      in (m\<lparr>msg_content := bs\<rparr> # rest, d'))"

definition retain_recent_images :: "message list \<Rightarrow> nat \<Rightarrow> message list \<times> nat" where
  "retain_recent_images ms keep = (let (r, d) = retain_messages keep 0 0 (rev ms) in (rev r, d))"

definition MAX_LIVE_IMAGES :: nat where
  "MAX_LIVE_IMAGES = 2"

definition is_image :: "content_block \<Rightarrow> bool" where
  "is_image b = (case b of ImageUrl _ _ \<Rightarrow> True | _ \<Rightarrow> False)"

definition images_of :: "message \<Rightarrow> nat" where
  "images_of m = length (filter is_image (msg_content m))"

text \<open>A message after the trimming: its own role, and at every place its own block or a note.\<close>

definition same_but_images :: "message \<Rightarrow> message \<Rightarrow> bool" where
  "same_but_images m m' \<longleftrightarrow>
     msg_role m' = msg_role m \<and>
     list_all2 (\<lambda>b b'. b' = b \<or> is_image b \<and> (\<exists>t. b' = text_block t)) (msg_content m) (msg_content m')"

lemma is_image_simps [simp]:
  "is_image (ImageUrl u mt)" "\<not> is_image (TextBlock t cc)" "\<not> is_image (ToolUse i n v)"
  "\<not> is_image (ToolResult i c e)" "\<not> is_image (Thinking t s)" "\<not> is_image (text_block t)"
  by (simp_all add: is_image_def text_block_def)

lemma retain_blocks_spec:
  "retain_blocks keep seen dropped bs = (bs', s, d) \<Longrightarrow>
     s = seen + length (filter is_image bs)
   \<and> length (filter is_image bs') = min (length (filter is_image bs)) (keep - seen)
   \<and> d = dropped + (length (filter is_image bs) - (keep - seen))
   \<and> list_all2 (\<lambda>b b'. b' = b \<or> is_image b \<and> (\<exists>t. b' = text_block t)) bs bs'"
proof (induction bs arbitrary: bs' seen dropped s d)
  case (Cons b bs)
  show ?case
  proof (cases b)
    case (ImageUrl url mt)
    let ?d = "if seen + 1 > keep then dropped + 1 else dropped"
    obtain rest s' d' where r: "retain_blocks keep (seen + 1) ?d bs = (rest, s', d')" by (metis prod_cases3)
    from Cons.IH [OF r] Cons.prems r show ?thesis by (auto simp: ImageUrl Let_def split: if_splits)
  qed (use Cons in \<open>auto simp: Let_def split: prod.splits\<close>)
qed simp

lemma shared_allowance:
  fixes a b k s :: nat
  shows "min a (k - s) + min b (k - (s + a)) = min (a + b) (k - s)"
    "(a - (k - s)) + (b - (k - (s + a))) = a + b - (k - s)"
  by linarith+

lemma retain_messages_spec:
  "retain_messages keep seen dropped ms = (ms', d) \<Longrightarrow>
     sum_list (map images_of ms') = min (sum_list (map images_of ms)) (keep - seen)
   \<and> d = dropped + (sum_list (map images_of ms) - (keep - seen))
   \<and> list_all2 same_but_images ms ms'"
proof (induction ms arbitrary: ms' seen dropped d)
  case (Cons m ms)
  obtain bs s d1 where b: "retain_blocks keep seen dropped (msg_content m) = (bs, s, d1)" by (metis prod_cases3)
  obtain rest d2 where r: "retain_messages keep s d1 ms = (rest, d2)" by fastforce
  have "ms' = m\<lparr>msg_content := bs\<rparr> # rest" "d = d2" using Cons.prems b r by simp_all
  moreover have "sum_list (map images_of rest) = min (sum_list (map images_of ms)) (keep - s)"
    "d2 = d1 + (sum_list (map images_of ms) - (keep - s))" "list_all2 same_but_images ms rest"
    using Cons.IH [OF r] by blast+
  moreover have "s = seen + images_of m" "images_of (m\<lparr>msg_content := bs\<rparr>) = min (images_of m) (keep - seen)"
    "d1 = dropped + (images_of m - (keep - seen))" "same_but_images m (m\<lparr>msg_content := bs\<rparr>)"
    using retain_blocks_spec [OF b] by (simp_all add: images_of_def same_but_images_def)
  ultimately show ?case
    using shared_allowance [of "images_of m" keep seen "sum_list (map images_of ms)"] by simp
qed simp

text \<open>
  After a turn the conversation holds at most the allowed number of pictures, and all of them
  if there were no more; the others, and nothing else, are replaced by notes, and the number of
  replacements is reported.
\<close>
theorem pictures_are_bounded:
  "case retain_recent_images ms keep of (ms', dropped) \<Rightarrow>
     sum_list (map images_of ms') = min (sum_list (map images_of ms)) keep
   \<and> dropped = sum_list (map images_of ms) - keep
   \<and> list_all2 same_but_images ms ms'"
proof -
  obtain r d where r: "retain_messages keep 0 0 (rev ms) = (r, d)" by fastforce
  have "list_all2 same_but_images (rev (rev ms)) (rev r)"
    using retain_messages_spec [OF r] by (simp only: list_all2_rev)
  with retain_messages_spec [OF r] show ?thesis
    by (simp add: retain_recent_images_def r sum_list_rev rev_map [symmetric])
qed

text \<open>
  The last pictures are meant to be kept.  Within one message they are counted from its first
  block, so that of several pictures of one message the oldest stay.
\<close>

lemma oldest_picture_of_message_kept:
  "map msg_content (fst (retain_recent_images
     [\<lparr>msg_role = UserRole, msg_content = [ImageUrl a None, ImageUrl b None], tool_results = None\<rparr>] 1))
   = [[ImageUrl a None, text_block (omitted_note b)]]"
  by (simp add: retain_recent_images_def)

end
