(* ===== verification/Tool_Turn.thy ===== *)
theory Tool_Turn
  imports Tool_Outcomes Sensorium "HOL-Library.Multiset"
begin

text \<open>
  The calls of one turn of the agent loop, \<open>crates/oz-core/src/agent_loop.rs\<close>: what is noted for each
  call, the calls the breaker refuses, the outcomes in order, and the two messages a turn leaves in
  the conversation.  The providers reject a conversation in which a call has no result or a result
  no call; the theorems say when the two messages agree.
\<close>

subsection \<open>The state of a turn\<close>

datatype phrase =
    Empty_Question_Reason | Empty_Question_Note | Same_Question_Reason | Same_Question_Note
  | Question_Limit_Reason | Question_Limit_Note | Truncated_Mark | Ellipsis_Mark | Breaker_Note string
  | Answered_Note string | Unanswered_Note nat | Plan_Approved_Note | Plan_Rejected_Note string
  | Plan_Question string nat | Plan_Approve_Choice | Plan_Modify_Choice | Verify_Override_Note string string | Verify_Failed_Note string string
  | Unknown_Todo_Note string "string list" | Todo_Status_Note nat nat "(string \<times> string \<times> string \<times> nat option) list"

text \<open>A question to the user that waits for its answer.\<close>

record pending_ask =
  ask_use_id :: string
  ask_call_id :: string
  ask_tool :: string
  ask_payload :: json

record turn_state =
  ts_results :: "tool_result_item list"
  ts_prompts :: "string list"
  ts_exit :: "string option"
  ts_questions :: "pending_ask list"
  ts_log :: "(string \<times> bool \<times> string) list"
  ts_failures :: "(string, nat) hash_map"

definition text_result :: "string \<Rightarrow> string \<Rightarrow> tool_result_item" where
  "text_result i c = \<lparr>result_id = i, result_content = c, result_images = []\<rparr>"

subsection \<open>The identity of a call\<close>

text \<open>
  \<open>digest\<close> is the hash of a sequence of texts in hexadecimal.  The hashed texts are the arguments in
  the order of their names, long texts by their length and their own digest.
\<close>

definition rendered_arg :: "(json \<Rightarrow> string) \<Rightarrow> (string list \<Rightarrow> string) \<Rightarrow> json \<Rightarrow> string" where
  "rendered_arg json_text digest v =
     (case v of
        JStr s \<Rightarrow> if length s > 200 then ''len='' @ nat_text (byte_len s) @ ''#'' @ digest [s] else json_text v
      | _ \<Rightarrow> json_text v)"

definition hashed_parts :: "(json \<Rightarrow> string) \<Rightarrow> (string list \<Rightarrow> string) \<Rightarrow> json \<Rightarrow> string list" where
  "hashed_parts json_text digest args =
     (case args of
        JObj kvs \<Rightarrow> concat (map (\<lambda>(k, v). [k, rendered_arg json_text digest v]) (sort_key fst kvs))
      | _ \<Rightarrow> [json_text args])"

definition failure_key :: "(json \<Rightarrow> string) \<Rightarrow> (string list \<Rightarrow> string) \<Rightarrow> string \<Rightarrow> json \<Rightarrow> string" where
  "failure_key json_text digest tool args = tool @ ''|'' @ digest (hashed_parts json_text digest args)"

subsection \<open>One outcome\<close>

definition MAX_ASK_USER_PER_TURN :: nat where
  "MAX_ASK_USER_PER_TURN = 4"

definition is_interrupt :: "json \<Rightarrow> bool" where
  "is_interrupt d \<longleftrightarrow> str_arg d ''status'' = Some ''INTERRUPT'' \<and> str_arg d ''intent'' = Some ''HUMAN_INTERVENTION''"

definition question_of :: "json \<Rightarrow> string option" where
  "question_of d = Option.bind (jget d ''data'') (\<lambda>q. str_arg q ''question'')"

definition outcome_ok :: "json \<Rightarrow> bool" where
  "outcome_ok d \<longleftrightarrow>
     str_arg d ''status'' \<noteq> Some ''error''
   \<and> (case Option.bind (jget d ''exit_code'') as_i64 of Some c \<Rightarrow> c = 0 | None \<Rightarrow> True)
   \<and> Option.bind (jget d ''timeout'') as_bool \<noteq> Some True
   \<and> jget d ''error'' = None"

definition reject_call ::
  "(phrase \<Rightarrow> string) \<Rightarrow> (json \<Rightarrow> string) \<Rightarrow> string \<Rightarrow> string \<Rightarrow> phrase \<Rightarrow> phrase \<Rightarrow> bool \<Rightarrow> turn_state \<Rightarrow> turn_state" where
  "reject_call say json_text tool tid reason note ok st =
     st\<lparr>ts_results := ts_results st @
          [text_result tid (json_text (JObj [(''status'', JStr ''REJECTED''), (''error'', JStr (say reason))]))],
        ts_prompts := ts_prompts st @ [say note],
        ts_log := ts_log st @ [(tool, ok, say reason)]\<rparr>"

definition file_question ::
  "(phrase \<Rightarrow> string) \<Rightarrow> (json \<Rightarrow> string) \<Rightarrow> json \<Rightarrow> string \<Rightarrow> string \<Rightarrow> string \<Rightarrow> turn_state \<Rightarrow> turn_state" where
  "file_question say json_text d tool tid tc_id st =
     (let q = trim (case question_of d of Some q \<Rightarrow> q | None \<Rightarrow> []) in
      if q = [] then reject_call say json_text tool tid Empty_Question_Reason Empty_Question_Note False st
      else if list_ex (\<lambda>p. map_option trim (question_of (ask_payload p)) = Some q) (ts_questions st)
      then reject_call say json_text tool tid Same_Question_Reason Same_Question_Note True st
      else if length (ts_questions st) \<ge> MAX_ASK_USER_PER_TURN
      then reject_call say json_text tool tid Question_Limit_Reason Question_Limit_Note False st
      else st\<lparr>ts_questions := ts_questions st @
             [\<lparr>ask_use_id = tid, ask_call_id = tc_id, ask_tool = tool, ask_payload = d\<rparr>]\<rparr>)"

definition outcome_result :: "(json \<Rightarrow> string) \<Rightarrow> string \<Rightarrow> step_outcome \<Rightarrow> tool_result_item" where
  "outcome_result json_text tid oc =
     \<lparr>result_id = tid, result_content = tool_result_content json_text (oc_data oc), result_images = oc_images oc\<rparr>"

definition process_tool_outcome ::
  "(phrase \<Rightarrow> string) \<Rightarrow> (json \<Rightarrow> string) \<Rightarrow> (string list \<Rightarrow> string) \<Rightarrow> dispatch_result \<Rightarrow>
     string \<Rightarrow> string \<Rightarrow> string \<Rightarrow> nat \<Rightarrow> json \<Rightarrow> turn_state \<Rightarrow> turn_state" where
  "process_tool_outcome say json_text digest outcome tool tid tc_id ii args st =
     (let key = failure_key json_text digest tool args;
          shown = (\<lambda>oc. truncate_text (say Truncated_Mark) (tool_result_content json_text (oc_data oc)) 300) in
      case outcome of
        Inr oc \<Rightarrow>
          if is_interrupt (oc_data oc) then file_question say json_text (oc_data oc) tool tid tc_id st
          else if should_exit oc then
            st\<lparr>ts_exit := Some ''EXITED'', ts_log := ts_log st @ [(tool, True, shown oc)],
               ts_results := ts_results st @ [outcome_result json_text tid oc]\<rparr>
          else
            (let ok = outcome_ok (oc_data oc) in
             st\<lparr>ts_failures := (if ok then hm_remove key (ts_failures st) else hm_upsert key 0 (\<lambda>n. n + 1) (ts_failures st)),
                ts_log := ts_log st @ [(tool, ok, shown oc)],
                ts_results := ts_results st @ [outcome_result json_text tid oc],
                ts_prompts := ts_prompts st @
                  (case oc_next_prompt oc of
                     None \<Rightarrow> []
                   | Some np \<Rightarrow> if \<not> (np = [CHR 0x0A] \<and> ii > 0) \<or> byte_len np > 1 then [np] else [])\<rparr>)
      | Inl e \<Rightarrow>
          (let msg = ''[TOOL_ERROR] '' @ tool @ '': '' @ tool_error_text e in
           st\<lparr>ts_log := ts_log st @ [(tool, False, msg)],
              ts_failures := hm_upsert key 0 (\<lambda>n. n + 1) (ts_failures st),
              ts_results := ts_results st @ [text_result tid msg],
              ts_prompts := ts_prompts st @ [msg]\<rparr>))"

subsection \<open>The calls of a turn\<close>

record tool_call =
  tc_name :: string
  tc_args :: json
  tc_id :: string

definition tool_call_new :: "string \<Rightarrow> json \<Rightarrow> tool_call" where
  "tool_call_new name args = \<lparr>tc_name = name, tc_args = args, tc_id = []\<rparr>"

record call_meta =
  meta_ii :: nat
  meta_tool :: string
  meta_args :: json
  meta_tid :: string
  meta_tc_id :: string
  meta_blocked :: bool

text \<open>
  What is noted for each call: the sensorium and the breaker see the calls in order, the breaker
  not those that were executed while the answer was still streamed.  The two readings of the
  clock are those of the breaker's check; \<open>fresh i\<close> is the next identifier of a block.
\<close>

fun prepare_calls ::
  "(nat \<Rightarrow> instant \<times> instant) \<Rightarrow> (nat \<Rightarrow> string) \<Rightarrow> string list \<Rightarrow> nat \<Rightarrow> tool_call list \<Rightarrow>
     sensorium \<Rightarrow> breaker \<Rightarrow> call_meta list \<times> sensorium \<times> breaker" where
  "prepare_calls clock fresh cached ii [] sn br = ([], sn, br)"
| "prepare_calls clock fresh cached ii (c # cs) sn br =
     (let tool = tc_name c; already = (tc_id c \<noteq> [] \<and> tc_id c \<in> set cached);
          (ok, br') = (if tool \<noteq> ''respond'' \<and> \<not> already
                       then breaker_check (fst (clock ii)) (snd (clock ii)) tool br else (True, br));
          (ms, sn'', br'') = prepare_calls clock fresh cached (ii + 1) cs (record_tool tool sn) br'
      in (\<lparr>meta_ii = ii, meta_tool = tool, meta_args = tc_args c, meta_tid = tc_id c,
            meta_tc_id = (if tc_id c = [] then fresh ii else tc_id c), meta_blocked = \<not> ok\<rparr> # ms, sn'', br''))"

definition executed :: "call_meta list \<Rightarrow> call_meta list" where
  "executed metas = filter (\<lambda>m. \<not> meta_blocked m \<and> meta_tool m \<noteq> ''respond'') metas"

definition refuse_blocked :: "(phrase \<Rightarrow> string) \<Rightarrow> call_meta \<Rightarrow> turn_state \<Rightarrow> turn_state" where
  "refuse_blocked say m st =
     (if meta_blocked m
      then (let msg = say (Breaker_Note (meta_tool m)) in
        st\<lparr>ts_prompts := ts_prompts st @ [msg],
           ts_results := ts_results st @ (if meta_tid m \<noteq> [] then [text_result (meta_tid m) msg] else [])\<rparr>)
      else st)"

text \<open>\<open>run i\<close> is what the dispatch of the \<open>i\<close>-th call gave; the outcomes are taken in the order of the calls.\<close>

definition tool_phases ::
  "(phrase \<Rightarrow> string) \<Rightarrow> (json \<Rightarrow> string) \<Rightarrow> (string list \<Rightarrow> string) \<Rightarrow> (nat \<Rightarrow> dispatch_result) \<Rightarrow>
     call_meta list \<Rightarrow> turn_state \<Rightarrow> turn_state" where
  "tool_phases say json_text digest run metas st =
     fold (\<lambda>m. process_tool_outcome say json_text digest (run (meta_ii m)) (meta_tool m) (meta_tid m)
                (meta_tc_id m) (meta_ii m) (meta_args m))
       (executed metas) (fold (refuse_blocked say) metas st)"

text \<open>A turn of nothing but \<open>respond\<close> takes the short way.\<close>

definition is_text_only :: "tool_call list \<Rightarrow> bool" where
  "is_text_only tcs \<longleftrightarrow> list_all (\<lambda>c. tc_name c = ''respond'') tcs"

definition text_phase ::
  "(phrase \<Rightarrow> string) \<Rightarrow> (json \<Rightarrow> string) \<Rightarrow> (string list \<Rightarrow> string) \<Rightarrow> (tool_call \<Rightarrow> dispatch_result) \<Rightarrow>
     tool_call list \<Rightarrow> turn_state \<Rightarrow> turn_state" where
  "text_phase say json_text digest run tcs st =
     fold (\<lambda>c. process_tool_outcome say json_text digest (run c) (tc_name c) (tc_id c) (tc_id c) 0 (tc_args c)) tcs st"

subsection \<open>The messages of a turn\<close>

definition use_block :: "tool_call \<Rightarrow> content_block option" where
  "use_block c =
     (if tc_name c = ''respond'' \<or> tc_id c = [] then None
      else Some (ToolUse (tc_id c) (tc_name c) (tc_args c)))"

definition assistant_turn :: "string \<Rightarrow> tool_call list \<Rightarrow> message" where
  "assistant_turn clean tcs =
     (let bs = (if clean \<noteq> [] then [text_block clean] else []) @ List.map_filter use_block tcs in
      \<lparr>msg_role = AssistantRole, msg_content = (if bs = [] then [text_block []] else bs), tool_results = None\<rparr>)"

definition result_blocks :: "tool_result_item \<Rightarrow> content_block list" where
  "result_blocks r =
     ToolResult (result_id r) (ContentText (result_content r)) None #
       map (\<lambda>i. ImageUrl (image_url i) (Some (image_type i))) (result_images r)"

definition user_turn :: "tool_result_item list \<Rightarrow> string \<Rightarrow> message option" where
  "user_turn rs np =
     (let bs = concat (map result_blocks rs) @ (if np \<noteq> [] then [text_block np] else []) in
      if bs = [] then None else Some \<lparr>msg_role = UserRole, msg_content = bs, tool_results = None\<rparr>)"

definition append_turn :: "string \<Rightarrow> tool_call list \<Rightarrow> tool_result_item list \<Rightarrow> string \<Rightarrow> message list \<Rightarrow> message list" where
  "append_turn clean tcs rs np ms =
     ms @ assistant_turn clean tcs # (case user_turn rs np of Some m \<Rightarrow> [m] | None \<Rightarrow> [])"

subsection \<open>Every call has its result\<close>

text \<open>
  The calls a turn has answered or is asking the user about.  The question about a plan is put by
  the loop itself, beside the result of its call, and owes none.
\<close>

definition answered :: "turn_state \<Rightarrow> string multiset" where
  "answered st = mset (map result_id (ts_results st))
     + mset (map ask_use_id (filter (\<lambda>q. ask_tool q \<noteq> ''submit_plan'') (ts_questions st)))"

definition plans_plainly :: "string \<Rightarrow> dispatch_result \<Rightarrow> bool" where
  "plans_plainly tool outcome \<longleftrightarrow>
     tool \<noteq> ''submit_plan'' \<or> (case outcome of Inr oc \<Rightarrow> \<not> is_interrupt (oc_data oc) | Inl e \<Rightarrow> True)"

lemma process_answers:
  "plans_plainly tool outcome \<Longrightarrow>
     answered (process_tool_outcome say json_text digest outcome tool tid tci ii args st) = answered st + {#tid#}"
  by (auto simp: answered_def plans_plainly_def process_tool_outcome_def file_question_def reject_call_def
      text_result_def outcome_result_def Let_def split: sum.splits)

lemma fold_answers:
  "(\<And>x s. x \<in> set xs \<Longrightarrow> answered (f x s) = answered s + g x) \<Longrightarrow>
     answered (fold f xs st) = answered st + sum_list (map g xs)"
  by (induction xs arbitrary: st) (simp_all add: add.assoc)

definition refused_ids :: "call_meta list \<Rightarrow> string multiset" where
  "refused_ids metas = mset (map meta_tid (filter (\<lambda>m. meta_blocked m \<and> meta_tid m \<noteq> []) metas))"

lemma sum_list_singles: "sum_list (map (\<lambda>x. {#f x#}) xs) = mset (map f xs)"
  by (induction xs) simp_all

lemma sum_list_filter: "sum_list (map (\<lambda>x. if P x then {#f x#} else {#}) xs) = mset (map f (filter P xs))"
  by (induction xs) simp_all

lemma tool_phases_answers:
  assumes "\<forall>m \<in> set (executed metas). plans_plainly (meta_tool m) (run (meta_ii m))"
  shows "answered (tool_phases say json_text digest run metas st) =
     answered st + refused_ids metas + mset (map meta_tid (executed metas))"
proof -
  let ?file = "\<lambda>m. process_tool_outcome say json_text digest (run (meta_ii m)) (meta_tool m) (meta_tid m)
      (meta_tc_id m) (meta_ii m) (meta_args m)"
  have refuse: "answered (refuse_blocked say m s) = answered s + (if meta_blocked m \<and> meta_tid m \<noteq> [] then {#meta_tid m#} else {#})" for m s
    by (simp add: refuse_blocked_def answered_def text_result_def Let_def)
  have filed: "answered (fold ?file (executed metas) s) = answered s + mset (map meta_tid (executed metas))" for s
    unfolding sum_list_singles [symmetric] by (rule fold_answers) (use assms in \<open>simp add: process_answers\<close>)
  show ?thesis
    unfolding tool_phases_def filed
    by (simp add: fold_answers [OF refuse] sum_list_filter refused_ids_def)
qed

lemma prepare_calls_meta:
  "prepare_calls clock fresh cached ii tcs sn br = (ms, sn', br') \<Longrightarrow>
     length ms = length tcs
   \<and> (\<forall>i < length tcs. meta_ii (ms ! i) = ii + i \<and> meta_tool (ms ! i) = tc_name (tcs ! i)
        \<and> meta_tid (ms ! i) = tc_id (tcs ! i) \<and> meta_args (ms ! i) = tc_args (tcs ! i)
        \<and> (meta_blocked (ms ! i) \<longrightarrow> tc_name (tcs ! i) \<noteq> ''respond''))"
proof (induction tcs arbitrary: ii ms sn br sn' br')
  case (Cons c cs)
  obtain ok b where k: "(if tc_name c \<noteq> ''respond'' \<and> \<not> (tc_id c \<noteq> [] \<and> tc_id c \<in> set cached)
      then breaker_check (fst (clock ii)) (snd (clock ii)) (tc_name c) br else (True, br)) = (ok, b)" by fastforce
  obtain rest s2 b2 where r: "prepare_calls clock fresh cached (ii + 1) cs (record_tool (tc_name c) sn) b = (rest, s2, b2)"
    by (metis prod_cases3)
  have ok: "\<not> ok \<Longrightarrow> tc_name c \<noteq> ''respond''" using k by (auto split: if_splits)
  show ?case using Cons.prems Cons.IH [OF r] k r ok
    by (auto simp: Let_def nth_Cons split: nat.split)
qed simp

lemma meta_ids:
  assumes "prepare_calls clock fresh cached ii tcs sn br = (ms, sn', br')"
  shows "map (\<lambda>m. (meta_tool m, meta_tid m)) ms = map (\<lambda>c. (tc_name c, tc_id c)) tcs"
    and "m \<in> set ms \<Longrightarrow> meta_blocked m \<Longrightarrow> meta_tool m \<noteq> ''respond''"
  using prepare_calls_meta [OF assms] by (auto intro!: nth_equalityI simp: in_set_conv_nth)

definition called :: "tool_call list \<Rightarrow> string multiset" where
  "called tcs = mset (map tc_id (filter (\<lambda>c. tc_name c \<noteq> ''respond'') tcs))"

lemma prepared_called:
  assumes "prepare_calls clock fresh cached ii tcs sn br = (ms, sn', br')"
    and "\<forall>c \<in> set tcs. tc_name c \<noteq> ''respond'' \<longrightarrow> tc_id c \<noteq> []"
  shows "refused_ids ms + mset (map meta_tid (executed ms)) = called tcs"
proof -
  have c: "called tcs = mset (map snd (filter (\<lambda>p. fst p \<noteq> ''respond'') (map (\<lambda>m. (meta_tool m, meta_tid m)) ms)))"
    unfolding meta_ids(1) [OF assms(1)] called_def by (simp add: filter_map comp_def)
  have ne: "meta_tool m \<noteq> ''respond'' \<Longrightarrow> meta_tid m \<noteq> []" if "m \<in> set ms" for m
  proof -
    have "(meta_tool m, meta_tid m) \<in> set (map (\<lambda>c. (tc_name c, tc_id c)) tcs)"
      using that meta_ids(1) [OF assms(1)] by (metis (mono_tags, lifting) image_eqI list.set_map)
    then show "meta_tool m \<noteq> ''respond'' \<Longrightarrow> meta_tid m \<noteq> []" using assms(2) by auto
  qed
  have b: "m \<in> set ms \<Longrightarrow> meta_blocked m \<Longrightarrow> meta_tool m \<noteq> ''respond''" for m
    using meta_ids(2) [OF assms(1)] .
  have "refused_ids xs + mset (map meta_tid (executed xs)) =
      mset (map snd (filter (\<lambda>p. fst p \<noteq> ''respond'') (map (\<lambda>m. (meta_tool m, meta_tid m)) xs)))"
    if "set xs \<subseteq> set ms" for xs
    using that by (induction xs) (use ne b in \<open>auto simp: refused_ids_def executed_def\<close>)
  then show ?thesis unfolding c by simp
qed

lemma use_ids_assistant_turn:
  "\<forall>c \<in> set tcs. tc_name c \<noteq> ''respond'' \<longrightarrow> tc_id c \<noteq> [] \<Longrightarrow> mset (use_ids (assistant_turn clean tcs)) = called tcs"
proof -
  assume a: "\<forall>c \<in> set tcs. tc_name c \<noteq> ''respond'' \<longrightarrow> tc_id c \<noteq> []"
  have "List.map_filter tool_use_id (List.map_filter use_block tcs) = map tc_id (filter (\<lambda>c. tc_name c \<noteq> ''respond'') tcs)"
    using a by (induction tcs) (simp_all add: map_filter_simps use_block_def)
  moreover from this have "filter (\<lambda>c. tc_name c \<noteq> ''respond'') tcs = []" if "List.map_filter use_block tcs = []"
    using that by (simp add: map_filter_simps)
  ultimately show ?thesis
    by (auto simp: assistant_turn_def use_ids_def called_def map_filter_append map_filter_simps text_block_def Let_def
        filter_empty_conv)
qed

lemma result_ids_blocks: "List.map_filter tool_result_id (result_blocks r) = [result_id r]"
proof -
  have "List.map_filter tool_result_id (map (\<lambda>i. ImageUrl (image_url i) (Some (image_type i))) is) = []" for "is"
    by (induction "is") (simp_all add: map_filter_simps)
  then show ?thesis by (simp add: result_blocks_def map_filter_simps)
qed

lemma result_ids_user_turn:
  "case user_turn rs np of Some m \<Rightarrow> result_ids m = map result_id rs | None \<Rightarrow> rs = []"
proof -
  have "List.map_filter tool_result_id (concat (map result_blocks rs)) = map result_id rs"
    by (induction rs) (simp_all add: map_filter_simps map_filter_append result_ids_blocks)
  moreover have "concat (map result_blocks rs) = [] \<Longrightarrow> rs = []"
    by (cases rs) (simp_all add: result_blocks_def)
  ultimately show ?thesis
    by (auto simp: user_turn_def result_ids_def Let_def map_filter_append map_filter_simps text_block_def)
qed

end
