(* ===== verification/Todo_Turn.thy ===== *)
theory Todo_Turn
  imports Tool_Turn Stream_Events
begin

text \<open>
  The todo list and the questions to the user of one turn, \<open>crates/oz-core/src/agent_loop.rs\<close>: new
  items, plans that wait for approval, changes of status with their verification, and the loop
  that waits for the answer to each question.

  The verifier and the answers of the user are parameters; so is \<open>fresh\<close>, the next identifier of an
  item.  The words for an approval that the code also accepts in Chinese cannot occur in a text of
  8-bit characters and are left out.
\<close>

subsection \<open>The todo list\<close>

record todo_state =
  td_items :: "todo_item list"
  td_plan_mode :: "string option"
  td_fails :: "(string, nat) hash_map"
  td_plan :: "(string \<times> string list) option"
  td_snapshot :: string
  td_summary_turn :: nat

definition normalized :: "string \<Rightarrow> string" where
  "normalized s = to_lowercase (trim s)"

definition is_duplicate :: "string \<Rightarrow> todo_state \<Rightarrow> bool" where
  "is_duplicate content td \<longleftrightarrow> list_ex (\<lambda>t. normalized (todo_content t) = normalized content) (td_items td)"

definition add_todo :: "string \<Rightarrow> string \<Rightarrow> string \<Rightarrow> todo_state \<Rightarrow> todo_state" where
  "add_todo i content priority td =
     (if is_duplicate content td then td
      else td\<lparr>td_items := td_items td @
        [\<lparr>todo_id = i, todo_content = content, todo_status = ''pending'', todo_priority = priority,
          todo_order = length (td_items td), in_progress_since_turn = None\<rparr>]\<rparr>)"

fun update_first :: "string \<Rightarrow> (todo_item \<Rightarrow> todo_item) \<Rightarrow> todo_item list \<Rightarrow> todo_item list" where
  "update_first i f [] = []"
| "update_first i f (t # ts) = (if todo_id t = i then f t # ts else t # update_first i f ts)"

datatype verify_result = Verify_Passed | Verify_SoftPass | Verify_Failed string

text \<open>\<open>todoupdate\<close>: a completion goes through the verifier, any other status is taken as it is.\<close>

definition set_status :: "string \<Rightarrow> nat option \<Rightarrow> todo_item \<Rightarrow> todo_item" where
  "set_status status since t = t\<lparr>todo_status := status, in_progress_since_turn := since\<rparr>"

definition complete_todo ::
  "(phrase \<Rightarrow> string) \<Rightarrow> verify_result \<Rightarrow> string \<Rightarrow> todo_item \<Rightarrow> turn_state \<Rightarrow> todo_state \<Rightarrow> turn_state \<times> todo_state" where
  "complete_todo say verdict i t st td =
     (case verdict of
        Verify_Failed reason \<Rightarrow>
          (let td1 = td\<lparr>td_fails := hm_upsert i 0 (\<lambda>n. n + 1) (td_fails td)\<rparr>;
               n = (case hm_get i (td_fails td1) of Some n \<Rightarrow> n | None \<Rightarrow> 0) in
           if n \<ge> 2
           then (st\<lparr>ts_prompts := ts_prompts st @ [say (Verify_Override_Note (todo_content t) reason)]\<rparr>,
                 td1\<lparr>td_items := update_first i (set_status ''completed'' None) (td_items td)\<rparr>)
           else (st\<lparr>ts_prompts := ts_prompts st @ [say (Verify_Failed_Note (todo_content t) reason)]\<rparr>,
                 td1\<lparr>td_items := update_first i (\<lambda>t. t\<lparr>todo_status := ''in_progress''\<rparr>) (td_items td)\<rparr>))
      | _ \<Rightarrow>
          (st, td\<lparr>td_fails := hm_remove i (td_fails td),
                 td_items := update_first i (set_status ''completed'' None) (td_items td)\<rparr>))"

definition update_todo ::
  "(phrase \<Rightarrow> string) \<Rightarrow> (string \<Rightarrow> verify_result) \<Rightarrow> nat \<Rightarrow> string \<Rightarrow> string \<Rightarrow> turn_state \<Rightarrow> todo_state \<Rightarrow>
     turn_state \<times> todo_state" where
  "update_todo say verify turn i status st td =
     (case find (\<lambda>t. todo_id t = i) (td_items td) of
        None \<Rightarrow>
          (st\<lparr>ts_prompts := ts_prompts st @ [say (Unknown_Todo_Note i (map todo_id (td_items td)))]\<rparr>, td)
      | Some t \<Rightarrow>
          if status = ''completed'' then complete_todo say (verify (todo_content t)) i t st td
          else (st, td\<lparr>td_fails := hm_remove i (td_fails td),
                     td_items := update_first i
                       (set_status status (if status = ''in_progress'' then Some turn else None)) (td_items td)\<rparr>))"

definition str_or :: "string \<Rightarrow> json \<Rightarrow> string \<Rightarrow> string" where
  "str_or d j k = (case str_arg j k of Some s \<Rightarrow> s | None \<Rightarrow> d)"

definition plan_steps :: "json \<Rightarrow> string list" where
  "plan_steps args = filter (\<lambda>s. trim s \<noteq> []) (List.map_filter as_str (arr_arg args ''steps''))"

definition plan_question :: "(phrase \<Rightarrow> string) \<Rightarrow> string \<Rightarrow> string list \<Rightarrow> json" where
  "plan_question say goal steps =
     JObj [(''data'', JObj [(''question'', JStr (say (Plan_Question goal (length steps)))),
       (''candidates'', JArr [JStr (say Plan_Approve_Choice), JStr (say Plan_Modify_Choice)])])]"

text \<open>
  The identifier \<open>todowrite\<close> gave the item, when the call was executed; every call of the turn is
  looked at, also one that was refused or failed.
\<close>

definition written_id :: "(nat \<Rightarrow> dispatch_result) \<Rightarrow> call_meta list \<Rightarrow> call_meta \<Rightarrow> string option" where
  "written_id run metas m =
     (if m \<in> set (executed metas)
      then (case run (meta_ii m) of Inr oc \<Rightarrow> str_arg (oc_data oc) ''todo_id'' | Inl e \<Rightarrow> None) else None)"

definition track_call ::
  "(phrase \<Rightarrow> string) \<Rightarrow> (string \<Rightarrow> verify_result) \<Rightarrow> nat \<Rightarrow> (nat \<Rightarrow> string) \<Rightarrow> (call_meta \<Rightarrow> string option) \<Rightarrow>
     call_meta \<Rightarrow> turn_state \<times> todo_state \<Rightarrow> turn_state \<times> todo_state" where
  "track_call say verify turn fresh written m s =
     (let (st, td) = s; args = meta_args m in
      if meta_tool m = ''todowrite'' then
        (let content = str_or [] args ''content'';
             i = (case written m of Some i \<Rightarrow> i | None \<Rightarrow> ''todo_'' @ fresh (meta_ii m)) in
         (st, if content \<noteq> [] then add_todo i content (str_or ''medium'' args ''priority'') td else td))
      else if meta_tool m = ''submit_plan'' then
        (let goal = str_or [] args ''goal''; steps = plan_steps args in
         if goal \<noteq> [] \<and> steps \<noteq> []
         then (st\<lparr>ts_questions := ts_questions st @
                 [\<lparr>ask_use_id = meta_tid m, ask_call_id = meta_tc_id m, ask_tool = ''submit_plan'',
                   ask_payload = plan_question say goal steps\<rparr>]\<rparr>, td\<lparr>td_plan := Some (goal, steps)\<rparr>)
         else s)
      else if meta_tool m = ''todoupdate'' then
        (let i = str_or [] args ''id'' in
         if i \<noteq> [] then update_todo say verify turn i (str_or ''in_progress'' args ''status'') st td else s)
      else s)"

text \<open>The reminder of the list, when it changed and at least every five turns.\<close>

definition snapshot_of :: "todo_item list \<Rightarrow> string" where
  "snapshot_of ts = join_with '','' (map (\<lambda>t. todo_id t @ ''|'' @ todo_status t) ts)"

definition todo_line :: "nat \<Rightarrow> todo_item \<Rightarrow> string \<times> string \<times> string \<times> nat option" where
  "todo_line turn t =
     (todo_id t, todo_status t, todo_content t,
      if todo_status t = ''in_progress'' then map_option (\<lambda>s. turn - s) (in_progress_since_turn t) else None)"

definition remind :: "(phrase \<Rightarrow> string) \<Rightarrow> nat \<Rightarrow> turn_state \<times> todo_state \<Rightarrow> turn_state \<times> todo_state" where
  "remind say turn s =
     (let (st, td) = s; snap = snapshot_of (td_items td) in
      if snap \<noteq> td_snapshot td \<or> turn - td_summary_turn td \<ge> 5
      then (st\<lparr>ts_prompts := ts_prompts st @
              [say (Todo_Status_Note (length (filter (\<lambda>t. todo_status t = ''completed'') (td_items td)))
                     (length (td_items td)) (map (todo_line turn) (td_items td)))]\<rparr>,
            td\<lparr>td_snapshot := snap, td_summary_turn := turn\<rparr>)
      else s)"

definition track_todos ::
  "(phrase \<Rightarrow> string) \<Rightarrow> (string \<Rightarrow> verify_result) \<Rightarrow> nat \<Rightarrow> (nat \<Rightarrow> string) \<Rightarrow> (nat \<Rightarrow> dispatch_result) \<Rightarrow>
     call_meta list \<Rightarrow> turn_state \<times> todo_state \<Rightarrow> turn_state \<times> todo_state" where
  "track_todos say verify turn fresh run metas s =
     remind say turn (fold (track_call say verify turn fresh (written_id run metas)) metas s)"

subsection \<open>Questions to the user\<close>

text \<open>\<open>None\<close> in place of a reply: the run was stopped while it waited.\<close>

datatype ask_answer = Ask_Reply string | Ask_Stopped | Ask_Timed_Out

record ask_counters =
  ac_turn :: nat
  ac_timeouts :: nat
  ac_unanswered :: nat

definition count_timeout :: "ask_counters \<Rightarrow> ask_counters" where
  "count_timeout c =
     (if ac_timeouts c < 3
      then c\<lparr>ac_timeouts := ac_timeouts c + 1, ac_turn := ac_turn c - 1, ac_unanswered := ac_unanswered c + 1\<rparr>
      else c\<lparr>ac_unanswered := ac_unanswered c + 1\<rparr>)"

definition plan_approved :: "string \<Rightarrow> bool" where
  "plan_approved reply \<longleftrightarrow>
     trim reply = [] \<or> list_ex (\<lambda>k. contains_str k (to_lowercase reply)) [''approve'', ''yes'', ''ok'', ''y'']"

definition PLAN_CHOICES_EN :: "string list" where
  "PLAN_CHOICES_EN = [''Approve'', ''Modify plan'']"

definition truncate_feedback :: "(phrase \<Rightarrow> string) \<Rightarrow> string \<Rightarrow> string" where
  "truncate_feedback say s = (if length s \<le> 300 then s else take 300 s @ say Ellipsis_Mark)"

definition settle_plan ::
  "(phrase \<Rightarrow> string) \<Rightarrow> (nat \<Rightarrow> string) \<Rightarrow> string \<Rightarrow> turn_state \<times> todo_state \<Rightarrow> turn_state \<times> todo_state" where
  "settle_plan say fresh reply s =
     (let (st, td) = s in
      case td_plan td of
        None \<Rightarrow> s
      | Some (goal, steps) \<Rightarrow>
          if plan_approved reply
          then (st\<lparr>ts_prompts := ts_prompts st @ [say Plan_Approved_Note]\<rparr>,
                fold (\<lambda>c td. add_todo (''todo_'' @ fresh (length (td_items td))) c ''medium'' td) steps
                  (td\<lparr>td_plan := None,
                     td_plan_mode := (case td_plan_mode td of None \<Rightarrow> Some goal | Some g \<Rightarrow> Some g)\<rparr>))
          else (st\<lparr>ts_prompts := ts_prompts st @ [say (Plan_Rejected_Note (truncate_feedback say reply))]\<rparr>,
                td\<lparr>td_plan := None\<rparr>))"

definition reply_result :: "(json \<Rightarrow> string) \<Rightarrow> pending_ask \<Rightarrow> string \<Rightarrow> tool_result_item" where
  "reply_result json_text q reply =
     text_result (ask_use_id q) (json_text (JObj [(''status'', JStr ''USER_REPLIED''), (''user_reply'', JStr reply)]))"

text \<open>
  The questions are answered in order.  The loop leaves the whole run when it is stopped, or when a
  tool of this turn has asked to exit.
\<close>

fun ask_loop ::
  "(phrase \<Rightarrow> string) \<Rightarrow> (json \<Rightarrow> string) \<Rightarrow> nat \<Rightarrow> (nat \<Rightarrow> string) \<Rightarrow> (nat \<Rightarrow> ask_answer) \<Rightarrow> nat \<Rightarrow> pending_ask list \<Rightarrow>
     turn_state \<times> todo_state \<times> ask_counters \<Rightarrow> turn_state \<times> todo_state \<times> ask_counters" where
  "ask_loop say json_text timeout fresh answer k [] s = s"
| "ask_loop say json_text timeout fresh answer k (q # qs) (st, td, ct) =
     (let st1 = st\<lparr>ts_questions := qs\<rparr>;
          ct1 = (if answer k = Ask_Timed_Out then count_timeout ct else ct);
          reply = (case answer k of Ask_Reply r \<Rightarrow> r | Ask_Timed_Out \<Rightarrow> say (Unanswered_Note timeout) | Ask_Stopped \<Rightarrow> []);
          st2 = (if answer k = Ask_Stopped then st1\<lparr>ts_exit := Some ''stopped_by_user''\<rparr> else st1) in
      if ts_exit st2 \<noteq> None then (st2, td, ct1)
      else if ask_tool q = ''submit_plan''
      then (let (st3, td3) = settle_plan say fresh reply (st2, td)
            in ask_loop say json_text timeout fresh answer (k + 1) qs (st3, td3, ct1))
      else ask_loop say json_text timeout fresh answer (k + 1) qs
             (st2\<lparr>ts_results := ts_results st2 @ [reply_result json_text q reply],
                 ts_prompts := ts_prompts st2 @ [say (Answered_Note reply)]\<rparr>, td, ct1))"

subsection \<open>Every call of a turn has its result\<close>

lemma settle_plan_keeps:
  "settle_plan say fresh reply (st, td) = (st', td') \<Longrightarrow>
     ts_results st' = ts_results st \<and> ts_questions st' = ts_questions st \<and> ts_exit st' = ts_exit st"
  by (auto simp: settle_plan_def split: option.splits if_splits prod.splits)

lemma ask_loop_answers:
  "ask_loop say json_text timeout fresh answer k qs (st, td, ct) = (st', td', ct') \<Longrightarrow>
     ts_questions st = qs \<Longrightarrow> ts_exit st' = None \<Longrightarrow>
     ts_questions st' = [] \<and> mset (map result_id (ts_results st')) = answered st"
proof (induction qs arbitrary: k st td ct)
  case Nil
  then show ?case by (simp add: answered_def)
next
  case (Cons q qs)
  let ?st1 = "st\<lparr>ts_questions := qs\<rparr>"
  have run: "answer k \<noteq> Ask_Stopped" "ts_exit st = None"
    using Cons.prems(1,3) by (auto simp: Let_def split: if_splits prod.splits)
  define reply where "reply = (case answer k of Ask_Reply r \<Rightarrow> r | Ask_Timed_Out \<Rightarrow> say (Unanswered_Note timeout) | Ask_Stopped \<Rightarrow> [])"
  show ?case
  proof (cases "ask_tool q = ''submit_plan''")
    case True
    obtain st3 td3 where p: "settle_plan say fresh reply (?st1, td) = (st3, td3)" by fastforce
    obtain c where "ask_loop say json_text timeout fresh answer (k + 1) qs (st3, td3, c) = (st', td', ct')"
      using Cons.prems(1) run True p by (auto simp: reply_def Let_def)
    from Cons.IH [OF this _ Cons.prems(3)] settle_plan_keeps [OF p] Cons.prems(2) True
    show ?thesis by (simp add: answered_def)
  next
    case False
    let ?st2 = "?st1\<lparr>ts_results := ts_results st @ [reply_result json_text q reply],
        ts_prompts := ts_prompts st @ [say (Answered_Note reply)]\<rparr>"
    obtain c where "ask_loop say json_text timeout fresh answer (k + 1) qs (?st2, td, c) = (st', td', ct')"
      using Cons.prems(1) run False by (auto simp: reply_def Let_def)
    from Cons.IH [OF this _ Cons.prems(3)] Cons.prems(2) False
    show ?thesis by (simp add: answered_def reply_result_def text_result_def)
  qed
qed

lemma track_call_answers: "answered (fst (track_call say verify turn fresh written m s)) = answered (fst s)"
  by (auto simp: track_call_def update_todo_def complete_todo_def answered_def Let_def
      split: prod.splits option.splits verify_result.splits)

lemma remind_answers: "answered (fst (remind say turn s)) = answered (fst s)"
  by (auto simp: remind_def answered_def Let_def split: prod.splits)

lemma track_todos_answers: "answered (fst (track_todos say verify turn fresh run metas s)) = answered (fst s)"
proof -
  have "answered (fst (fold (track_call say verify turn fresh (written_id run metas)) ms s)) = answered (fst s)" for ms
    by (induction ms arbitrary: s) (simp_all add: track_call_answers)
  then show ?thesis by (simp add: track_todos_def remind_answers)
qed

lemma turn_messages:
  assumes prepared: "prepare_calls clock fresh_id cached 0 tcs sn br = (metas, sn', br')"
    and ids: "\<forall>c \<in> set tcs. tc_name c \<noteq> ''respond'' \<longrightarrow> tc_id c \<noteq> []"
    and plain: "\<forall>m \<in> set (executed metas). plans_plainly (meta_tool m) (run (meta_ii m))"
    and start: "ts_results st = []" "ts_questions st = []"
    and tracked: "track_todos say verify turn fresh run metas (tool_phases say json_text digest run metas st, td) = (st1, td1)"
    and asked: "ask_loop say json_text timeout fresh answer 0 (ts_questions st1) (st1, td1, ct) = (st2, td2, ct2)"
    and goes_on: "ts_exit st2 = None"
  shows "mset (use_ids (assistant_turn clean tcs)) =
    (case user_turn (ts_results st2) np of Some m \<Rightarrow> mset (result_ids m) | None \<Rightarrow> {#})"
proof -
  have "answered st1 = answered (tool_phases say json_text digest run metas st)"
    using track_todos_answers [of say verify turn fresh run metas "(tool_phases say json_text digest run metas st, td)"] tracked by simp
  also have "\<dots> = called tcs"
    using tool_phases_answers [OF plain, of say json_text digest st] prepared_called [OF prepared ids] start
    by (simp add: answered_def)
  finally have "mset (map result_id (ts_results st2)) = called tcs"
    using ask_loop_answers [OF asked refl goes_on] by simp
  then show ?thesis
    using use_ids_assistant_turn [OF ids, of clean] result_ids_user_turn [of "ts_results st2" np]
    by (auto split: option.splits)
qed

text \<open>
  C19: a turn that called tools and goes on leaves two messages that agree: the calls of the
  assistant's message are exactly the results of the message after it, each as often, whatever
  the tools returned, the breaker refused and the user answered.  It needs the calls to carry
  identifiers and the plan tool not to ask questions of its own.
\<close>
theorem calls_and_results_agree:
  assumes "prepare_calls clock fresh_id cached 0 tcs sn br = (metas, sn', br')"
    and "\<forall>c \<in> set tcs. tc_name c \<noteq> ''respond'' \<longrightarrow> tc_id c \<noteq> []"
    and "\<forall>m \<in> set (executed metas). plans_plainly (meta_tool m) (run (meta_ii m))"
    and "ts_results st = []" and "ts_questions st = []"
    and "track_todos say verify turn fresh run metas (tool_phases say json_text digest run metas st, td) = (st1, td1)"
    and "ask_loop say json_text timeout fresh answer 0 (ts_questions st1) (st1, td1, ct) = (st2, td2, ct2)"
    and "ts_exit st2 = None"
  shows "mset (use_ids (assistant_turn clean tcs)) =
    (case user_turn (ts_results st2) np of Some m \<Rightarrow> mset (result_ids m) | None \<Rightarrow> {#})"
  by (rule turn_messages [OF assms])

text \<open>A turn with a read, a question the user answers, and a reply that is not a call.\<close>

definition demo_calls :: "tool_call list" where
  "demo_calls =
     [\<lparr>tc_name = ''read'', tc_args = JObj [], tc_id = ''a''\<rparr>,
      \<lparr>tc_name = ''ask_user'', tc_args = JObj [], tc_id = ''b''\<rparr>,
      \<lparr>tc_name = ''respond'', tc_args = JObj [], tc_id = ''c''\<rparr>]"

definition demo_run :: "nat \<Rightarrow> dispatch_result" where
  "demo_run i =
     Ok (if i = 1
         then step_success (JObj [(''status'', JStr ''INTERRUPT''), (''intent'', JStr ''HUMAN_INTERVENTION''),
                (''data'', JObj [(''question'', JStr ''why'')])])
         else step_success (JObj []))"

definition demo_turn :: turn_state where
  "demo_turn = \<lparr>ts_results = [], ts_prompts = [], ts_exit = None, ts_questions = [], ts_log = [], ts_failures = []\<rparr>"

definition demo_todos :: todo_state where
  "demo_todos = \<lparr>td_items = [], td_plan_mode = None, td_fails = [], td_plan = None, td_snapshot = [], td_summary_turn = 0\<rparr>"

definition demo_metas :: "call_meta list" where
  "demo_metas =
     [\<lparr>meta_ii = 0, meta_tool = ''read'', meta_args = JObj [], meta_tid = ''a'', meta_tc_id = ''a'', meta_blocked = False\<rparr>,
      \<lparr>meta_ii = 1, meta_tool = ''ask_user'', meta_args = JObj [], meta_tid = ''b'', meta_tc_id = ''b'', meta_blocked = False\<rparr>,
      \<lparr>meta_ii = 2, meta_tool = ''respond'', meta_args = JObj [], meta_tid = ''c'', meta_tc_id = ''c'', meta_blocked = False\<rparr>]"

lemma demo_prepared:
  "fst (prepare_calls (\<lambda>_. (0, 0)) (\<lambda>_. []) [] 0 demo_calls (sensorium_new 0) (breaker_new 0)) = demo_metas"
  by code_simp

lemma demo_executed: "executed demo_metas = take 2 demo_metas"
  by (simp add: executed_def demo_metas_def numeral_2_eq_2)

abbreviation "demo_say \<equiv> \<lambda>_ :: phrase. ''note''"
abbreviation "demo_json \<equiv> \<lambda>_ :: json. ''{}''"
abbreviation "demo_digest \<equiv> \<lambda>_ :: string list. ''0''"

definition demo_after :: turn_state where
  "demo_after = tool_phases demo_say demo_json demo_digest demo_run demo_metas demo_turn"

lemma demo_after:
  "map result_id (ts_results demo_after) = [''a'']" "ts_exit demo_after = None"
  "ts_questions demo_after = [\<lparr>ask_use_id = ''b'', ask_call_id = ''b'', ask_tool = ''ask_user'',
     ask_payload = JObj [(''status'', JStr ''INTERRUPT''), (''intent'', JStr ''HUMAN_INTERVENTION''),
                (''data'', JObj [(''question'', JStr ''why'')])]\<rparr>]"
proof -
  have q: "trim ''why'' = ''why''" by code_simp
  have e: "demo_after = process_tool_outcome demo_say demo_json demo_digest (demo_run 1) ''ask_user'' ''b'' ''b'' 1 (JObj [])
      (process_tool_outcome demo_say demo_json demo_digest (demo_run 0) ''read'' ''a'' ''a'' 0 (JObj []) demo_turn)"
    by (simp add: demo_after_def tool_phases_def demo_executed) (simp add: demo_metas_def numeral_2_eq_2 refuse_blocked_def)
  show "map result_id (ts_results demo_after) = [''a'']" "ts_exit demo_after = None"
    "ts_questions demo_after = [\<lparr>ask_use_id = ''b'', ask_call_id = ''b'', ask_tool = ''ask_user'',
     ask_payload = JObj [(''status'', JStr ''INTERRUPT''), (''intent'', JStr ''HUMAN_INTERVENTION''),
                (''data'', JObj [(''question'', JStr ''why'')])]\<rparr>]"
    unfolding e by (simp_all add: process_tool_outcome_def demo_run_def step_success_def is_interrupt_def str_arg_def
        file_question_def question_of_def q demo_turn_def outcome_result_def MAX_ASK_USER_PER_TURN_def Let_def)
qed

lemma demo_tracked:
  "track_todos demo_say (\<lambda>_. Verify_Passed) 1 (\<lambda>_. []) demo_run demo_metas (demo_after, demo_todos) = (demo_after, demo_todos)"
  by (simp add: track_todos_def demo_metas_def track_call_def remind_def demo_todos_def snapshot_of_def)

theorem calls_and_results_agree_witness:
  "mset (use_ids (assistant_turn [] demo_calls)) = {#''a'', ''b''#}"
proof -
  obtain sn br where p: "prepare_calls (\<lambda>_. (0, 0)) (\<lambda>_. []) [] 0 demo_calls (sensorium_new 0) (breaker_new 0) = (demo_metas, sn, br)"
    using demo_prepared by (metis prod.collapse)
  obtain st td ct where a: "ask_loop demo_say demo_json 0 (\<lambda>_. []) (\<lambda>_. Ask_Reply ''so'') 0 (ts_questions demo_after)
      (demo_after, demo_todos, \<lparr>ac_turn = 1, ac_timeouts = 0, ac_unanswered = 0\<rparr>) = (st, td, ct)" "ts_exit st = None"
      "map result_id (ts_results st) = [''a'', ''b'']"
    by (simp add: demo_after reply_result_def text_result_def)
  have "mset (use_ids (assistant_turn [] demo_calls)) =
    (case user_turn (ts_results st) [] of Some m \<Rightarrow> mset (result_ids m) | None \<Rightarrow> {#})"
    by (rule calls_and_results_agree [OF p _ _ _ _ demo_tracked [unfolded demo_after_def] a(1) [unfolded demo_after_def] a(2)])
      (auto simp: demo_calls_def executed_def demo_metas_def plans_plainly_def demo_turn_def)
  then show ?thesis
    using result_ids_user_turn [of "ts_results st" "[]"] a(3) by (auto split: option.splits)
qed

subsection \<open>A reply that is sent back\<close>

text \<open>
  A turn that only replies leaves results without calls.  When the gates at the end send such
  a turn back to work, the message of the assistant holds no call, because the reply is no tool,
  but the message after it holds a result for every \<open>respond\<close> of the turn.
\<close>
theorem reply_leaves_orphan_result:
  assumes "is_text_only tcs" and "ts_results st = []"
    and "\<forall>c. case run c of Inr oc \<Rightarrow> \<not> is_interrupt (oc_data oc) | Inl e \<Rightarrow> True"
  shows "use_ids (assistant_turn clean tcs) = []
   \<and> (case user_turn (ts_results (text_phase say json_text digest run tcs st)) np of
        Some m \<Rightarrow> result_ids m = map tc_id tcs | None \<Rightarrow> tcs = [])"
proof -
  have "List.map_filter use_block tcs = []"
    using assms(1) by (induction tcs) (simp_all add: is_text_only_def use_block_def map_filter_simps)
  then have uses: "use_ids (assistant_turn clean tcs) = []"
    by (simp add: assistant_turn_def use_ids_def text_block_def map_filter_simps)
  have one: "map result_id (ts_results (process_tool_outcome say json_text digest (run c) (tc_name c) (tc_id c) (tc_id c) 0 (tc_args c) s))
      = map result_id (ts_results s) @ [tc_id c]" for c s
    using assms(3) [rule_format, of c]
    by (auto simp: process_tool_outcome_def text_result_def outcome_result_def Let_def split: sum.split)
  have "map result_id (ts_results (text_phase say json_text digest run cs s)) = map result_id (ts_results s) @ map tc_id cs" for cs s
    unfolding text_phase_def by (induction cs arbitrary: s) (simp_all add: one)
  with assms(2) have "map result_id (ts_results (text_phase say json_text digest run tcs st)) = map tc_id tcs" by simp
  with uses show ?thesis
    using result_ids_user_turn [of "ts_results (text_phase say json_text digest run tcs st)" np]
    by (auto split: option.splits)
qed

theorem reply_leaves_orphan_result_witness:
  "use_ids (assistant_turn ''done'' [\<lparr>tc_name = ''respond'', tc_args = JObj [], tc_id = ''c''\<rparr>]) = []
   \<and> (case user_turn (ts_results (text_phase demo_say demo_json demo_digest (\<lambda>_. Ok (step_exit (JObj [])))
          [\<lparr>tc_name = ''respond'', tc_args = JObj [], tc_id = ''c''\<rparr>] demo_turn)) ''[CHECKLIST]'' of
        Some m \<Rightarrow> result_ids m = map tc_id [\<lparr>tc_name = ''respond'', tc_args = JObj [], tc_id = ''c''\<rparr>]
      | None \<Rightarrow> [\<lparr>tc_name = ''respond'', tc_args = JObj [], tc_id = ''c''\<rparr>] = [])"
  by (rule reply_leaves_orphan_result)
    (simp_all add: is_text_only_def demo_turn_def step_exit_def is_interrupt_def str_arg_def)

subsection \<open>The list stays in order\<close>

definition todos_ok :: "todo_state \<Rightarrow> bool" where
  "todos_ok td \<longleftrightarrow>
     distinct (map (\<lambda>t. normalized (todo_content t)) (td_items td))
   \<and> map todo_order (td_items td) = [0..<length (td_items td)]"

lemma update_first_map: "(\<And>t. g (f t) = g t) \<Longrightarrow> map g (update_first i f ts) = map g ts"
  by (induction ts) simp_all

lemma update_first_length [simp]: "length (update_first i f ts) = length ts"
  by (induction ts) simp_all

lemma todos_ok_same:
  "map (\<lambda>t. normalized (todo_content t)) (td_items td') = map (\<lambda>t. normalized (todo_content t)) (td_items td) \<Longrightarrow>
   map todo_order (td_items td') = map todo_order (td_items td) \<Longrightarrow> todos_ok td' = todos_ok td"
proof -
  assume a: "map todo_order (td_items td') = map todo_order (td_items td)"
  then have "length (td_items td') = length (td_items td)" by (metis length_map)
  then show "map (\<lambda>t. normalized (todo_content t)) (td_items td') = map (\<lambda>t. normalized (todo_content t)) (td_items td) \<Longrightarrow>
      todos_ok td' = todos_ok td"
    using a by (simp add: todos_ok_def)
qed

lemma todos_ok_fields [simp]:
  "todos_ok (td\<lparr>td_plan := p\<rparr>) = todos_ok td" "todos_ok (td\<lparr>td_plan_mode := g\<rparr>) = todos_ok td"
  "todos_ok (td\<lparr>td_snapshot := sn\<rparr>) = todos_ok td" "todos_ok (td\<lparr>td_summary_turn := n\<rparr>) = todos_ok td"
  by (simp_all add: todos_ok_def)

lemma add_todo_ok [keeps]: "todos_ok td \<Longrightarrow> todos_ok (add_todo i c p td)"
  by (auto simp: add_todo_def todos_ok_def is_duplicate_def list_ex_iff)

lemma update_todo_ok [keeps]: "todos_ok (snd (update_todo say verify turn i status st td)) = todos_ok td"
  by (rule todos_ok_same)
    (auto simp: update_todo_def complete_todo_def set_status_def update_first_map Let_def
      split: option.split verify_result.split)

lemma track_call_ok [keeps]: "todos_ok (snd s) \<Longrightarrow> todos_ok (snd (track_call say verify turn fresh written m s))"
  by (cases s) (auto simp: track_call_def Let_def update_todo_ok add_todo_ok)

lemma fold_track_ok: "todos_ok (snd s) \<Longrightarrow> todos_ok (snd (fold (track_call say verify turn fresh written) ms s))"
  by (induction ms arbitrary: s) (simp_all add: track_call_ok)

lemma track_todos_ok [keeps]: "todos_ok (snd s) \<Longrightarrow> todos_ok (snd (track_todos say verify turn fresh run metas s))"
  using fold_track_ok [of s say verify turn fresh "written_id run metas" metas]
  by (auto simp: track_todos_def remind_def Let_def split: prod.split)

lemma add_steps_ok: "todos_ok td \<Longrightarrow> todos_ok (fold (\<lambda>c td. add_todo (f td) c p td) steps td)"
  by (induction steps arbitrary: td) (simp_all add: add_todo_ok)

lemma settle_plan_ok [keeps]: "todos_ok (snd s) \<Longrightarrow> todos_ok (snd (settle_plan say fresh reply s))"
  by (auto simp: settle_plan_def intro!: add_steps_ok split: prod.split option.split)

lemma ask_loop_ok [keeps]:
  "todos_ok td \<Longrightarrow> todos_ok (fst (snd (ask_loop say json_text timeout fresh answer k qs (st, td, ct))))"
proof (induction qs arbitrary: k st td ct)
  case (Cons q qs)
  have "todos_ok (snd (settle_plan say fresh r (s, td)))" for r s using Cons.prems by (simp add: settle_plan_ok)
  then have plan: "settle_plan say fresh r (s, td) = (s', td') \<Longrightarrow> todos_ok td'" for r s s' td' by (metis snd_conv)
  show ?case using Cons.IH plan Cons.prems by (simp add: Let_def split: prod.split)
qed simp

text \<open>
  The todo list never holds two items that differ only in case and surrounding blanks, and
  every item keeps the number of its place, through every call of a turn and every answer of the
  user; items are never removed.
\<close>
theorem todo_list_stays_in_order:
  assumes "todos_ok td" and "track_todos say verify turn fresh run metas (st, td) = (st1, td1)"
    and "ask_loop say json_text timeout fresh answer k qs (st1, td1, ct) = (st2, td2, ct2)"
  shows "todos_ok td1 \<and> todos_ok td2"
  using track_todos_ok [of "(st, td)"] ask_loop_ok [of td1] assms by (metis fst_conv snd_conv)

theorem todo_list_stays_in_order_witness: "todos_ok demo_todos \<and> todos_ok demo_todos"
  by (rule todo_list_stays_in_order [OF _ demo_tracked, where qs = "[]"])
    (simp_all add: todos_ok_def demo_todos_def)

text \<open>
  An item is completed only when the verifier has not refused it, or refuses it for the second
  time in a row.  Every other status is taken as the model gives it, so that an item marked
  with any word but the two for open work no longer holds the run back, without verification.
\<close>
theorem completion_is_verified:
  assumes "find (\<lambda>t. todo_id t = i) (td_items td) = Some t"
  shows "map_option todo_status (find (\<lambda>t. todo_id t = i) (td_items (snd (update_todo say verify turn i status st td)))) =
    Some (if status \<noteq> ''completed'' then status
          else case verify (todo_content t) of
              Verify_Failed reason \<Rightarrow>
                if hm_get i (td_fails td) \<in> {None, Some 0} then ''in_progress'' else ''completed''
            | _ \<Rightarrow> ''completed'')"
proof -
  have upd: "find (\<lambda>t. todo_id t = i) (update_first i f ts) = map_option f (find (\<lambda>t. todo_id t = i) ts)"
    if "\<And>t. todo_id (f t) = todo_id t" for f ts
    using that by (induction ts) simp_all
  show ?thesis
    using assms
    by (auto simp: update_todo_def complete_todo_def upd set_status_def Let_def split: verify_result.split option.split)
qed

definition demo_item :: todo_item where
  "demo_item = \<lparr>todo_id = ''t'', todo_content = ''ship'', todo_status = ''pending'', todo_priority = ''high'',
     todo_order = 0, in_progress_since_turn = None\<rparr>"

theorem completion_is_verified_witness:
  "map_option todo_status (find (\<lambda>t. todo_id t = ''t'')
     (td_items (snd (update_todo demo_say (\<lambda>_. Verify_Failed ''no'') 1 ''t'' ''done'' demo_turn
        (demo_todos\<lparr>td_items := [demo_item]\<rparr>))))) = Some ''done''
   \<and> map_option todo_status (find (\<lambda>t. todo_id t = ''t'')
     (td_items (snd (update_todo demo_say (\<lambda>_. Verify_Failed ''no'') 1 ''t'' ''completed'' demo_turn
        (demo_todos\<lparr>td_items := [demo_item]\<rparr>))))) = Some ''in_progress''"
proof -
  have f: "find (\<lambda>t. todo_id t = ''t'') (td_items (demo_todos\<lparr>td_items := [demo_item]\<rparr>)) = Some demo_item"
    by (simp add: demo_item_def)
  show ?thesis unfolding completion_is_verified [OF f] by (simp add: demo_todos_def hm_get_def)
qed

lemma add_todo_covers: "\<exists>t \<in> set (td_items (add_todo i c p td)). normalized (todo_content t) = normalized c"
  by (auto simp: add_todo_def is_duplicate_def list_ex_iff)

lemma add_todo_keeps_items: "set (td_items td) \<subseteq> set (td_items (add_todo i c p td))"
  by (auto simp: add_todo_def)

lemma add_steps_keep: "set (td_items td) \<subseteq> set (td_items (fold (\<lambda>c td. add_todo (f td) c p td) steps td))"
proof (induction steps arbitrary: td)
  case (Cons c cs)
  then show ?case using add_todo_keeps_items [of td "f td" c p] by fastforce
qed simp

lemma add_steps_cover:
  "c \<in> set steps \<Longrightarrow> \<exists>t \<in> set (td_items (fold (\<lambda>c td. add_todo (f td) c p td) steps td)). normalized (todo_content t) = normalized c"
proof (induction steps arbitrary: td)
  case (Cons d ds)
  show ?case
  proof (cases "c = d")
    case True
    then show ?thesis
      using add_todo_covers [of "f td" d p td] add_steps_keep [of "add_todo (f td) d p td" f p ds] by auto
  next
    case False
    with Cons show ?thesis by simp
  qed
qed simp

text \<open>
  Both choices the user is offered approve the plan.  A reply counts as an approval as soon as
  it contains the letter y, and the second choice, to modify the plan, does: the plan is put into
  effect with all its steps.
\<close>
theorem modify_plan_is_approval:
  assumes "td_plan td = Some (goal, steps)" and "reply \<in> set PLAN_CHOICES_EN" and "c \<in> set steps"
  shows "td_plan_mode (snd (settle_plan say fresh reply (st, td))) \<noteq> None
   \<and> (\<exists>t \<in> set (td_items (snd (settle_plan say fresh reply (st, td)))). normalized (todo_content t) = normalized c)"
proof -
  have "plan_approved ''Approve'' \<and> plan_approved ''Modify plan''" by code_simp
  then have ok: "plan_approved reply" using assms(2) by (auto simp: PLAN_CHOICES_EN_def)
  have mode: "td_plan_mode (fold (\<lambda>c td. add_todo (f td) c p td) cs td) = td_plan_mode td" for f p cs td
    by (induction cs arbitrary: td) (simp_all add: add_todo_def)
  show ?thesis using ok assms(1) add_steps_cover [OF assms(3)]
    by (simp add: settle_plan_def mode split: option.split)
qed

theorem modify_plan_is_approval_witness:
  "td_plan_mode (snd (settle_plan demo_say (\<lambda>_. []) ''Modify plan'' (demo_turn, demo_todos\<lparr>td_plan := Some (''goal'', [''drop tables''])\<rparr>))) \<noteq> None"
  by (rule modify_plan_is_approval [THEN conjunct1, OF _ _ list.set_intros(1)]) (simp_all add: PLAN_CHOICES_EN_def)

end
