(* ===== verification/Message_Format.thy ===== *)
theory Message_Format
  imports Tool_Turn
begin

text \<open>
  The formats of the providers: \<open>crates/oz-llm/src/message_format.rs\<close>, which turns a conversation into
  the messages of the OpenAI protocol or of the Claude protocol, and the preparation of a request
  in \<open>crates/oz-llm/src/client.rs\<close>.

  A request is a list of JSON values.  \<open>json_text\<close> is the text \<open>serde_json\<close> makes of a value;
  \<open>block_value\<close> is the value \<open>serde\<close>'s derive makes of a block from the attributes of its type: the
  type carries no tag, so that a block is an object with its variant as the only key.
\<close>

subsection \<open>Values of blocks\<close>

fun block_value :: "content_block \<Rightarrow> json" and container_value :: "content_container \<Rightarrow> json" where
  "block_value (TextBlock t cc) =
     JObj [(''text'', JObj ((''text'', JStr t) #
       (case cc of None \<Rightarrow> [] | Some c \<Rightarrow> [(''cache_control'', JObj [(''type'', JStr c)])])))]"
| "block_value (ToolUse i n v) = JObj [(''tool_use'', JObj [(''id'', JStr i), (''name'', JStr n), (''input'', v)])]"
| "block_value (ToolResult i c e) =
     JObj [(''tool_result'', JObj ([(''tool_use_id'', JStr i), (''content'', container_value c)] @
       (case e of None \<Rightarrow> [] | Some b \<Rightarrow> [(''is_error'', JBool b)])))]"
| "block_value (Thinking t s) =
     JObj [(''thinking'', JObj ((''thinking'', JStr t) # (case s of None \<Rightarrow> [] | Some g \<Rightarrow> [(''signature'', JStr g)])))]"
| "block_value (ImageUrl u m) =
     JObj [(''image_url'', JObj ((''url'', JStr u) # (case m of None \<Rightarrow> [] | Some t \<Rightarrow> [(''media_type'', JStr t)])))]"
| "container_value (ContentText t) = JStr t"
| "container_value (ContentBlocks bs) = JArr (map block_value bs)"

definition blocks_to_json_value :: "content_block list \<Rightarrow> json" where
  "blocks_to_json_value bs = JArr (map block_value bs)"

subsection \<open>The OpenAI format\<close>

definition text_part :: "string \<Rightarrow> json" where
  "text_part t = JObj [(''type'', JStr ''text''), (''text'', JStr t)]"

fun user_part :: "content_block \<Rightarrow> json option" where
  "user_part (TextBlock t _) = Some (text_part t)"
| "user_part (ImageUrl u _) =
     Some (JObj [(''type'', JStr ''image_url''), (''image_url'', JObj [(''url'', JStr u), (''detail'', JStr ''auto'')])])"
| "user_part _ = None"

fun assistant_part :: "content_block \<Rightarrow> json option" where
  "assistant_part (TextBlock t _) = Some (text_part t)"
| "assistant_part _ = None"

fun reasoning_of :: "content_block \<Rightarrow> string" where
  "reasoning_of (Thinking t _) = t"
| "reasoning_of _ = []"

text \<open>A call is replayed when its input is an object.\<close>

fun replay_call :: "(json \<Rightarrow> string) \<Rightarrow> content_block \<Rightarrow> (string \<times> json) option" where
  "replay_call json_text (ToolUse i n v) =
     (if is_object v
      then Some (i, JObj [(''id'', JStr i), (''type'', JStr ''function''),
        (''function'', JObj [(''name'', JStr n), (''arguments'', JStr (json_text v))])])
      else None)"
| "replay_call json_text _ = None"

definition replay_ids :: "message \<Rightarrow> string list" where
  "replay_ids m = map fst (List.map_filter (replay_call (\<lambda>_. [])) (msg_content m))"

definition answered_after :: "message list \<Rightarrow> string list" where
  "answered_after rest = (case rest of m # _ \<Rightarrow> if msg_role m = UserRole then result_ids m else [] | [] \<Rightarrow> [])"

definition declared_at :: "message option \<Rightarrow> string list" where
  "declared_at prev = (case prev of Some m \<Rightarrow> if msg_role m = AssistantRole then replay_ids m else [] | None \<Rightarrow> [])"

definition tool_message :: "string \<Rightarrow> string \<Rightarrow> json" where
  "tool_message i c = JObj [(''role'', JStr ''tool''), (''tool_call_id'', JStr i), (''content'', JStr c)]"

definition synthetic :: "message \<Rightarrow> message list \<Rightarrow> json list" where
  "synthetic m rest =
     map (\<lambda>i. tool_message i ''(no result recorded)'') (filter (\<lambda>i. i \<notin> set (answered_after rest)) (replay_ids m))"

definition assistant_value :: "(json \<Rightarrow> string) \<Rightarrow> message \<Rightarrow> json" where
  "assistant_value json_text m =
     (let texts = List.map_filter assistant_part (msg_content m);
          tool_calls = map snd (List.map_filter (replay_call json_text) (msg_content m));
          reasoning = concat (map reasoning_of (msg_content m)) in
      JObj ([(''role'', JStr ''assistant'')]
        @ (if reasoning \<noteq> [] then [(''reasoning_content'', JStr reasoning)] else [])
        @ (if texts \<noteq> [] then [(''content'', JArr texts)]
           else if tool_calls = [] then [(''content'', JStr ''.'')] else [])
        @ (if tool_calls \<noteq> [] then [(''tool_calls'', JArr tool_calls)] else [])))"

fun tool_item :: "string list \<Rightarrow> content_block \<Rightarrow> json option" where
  "tool_item declared (ToolResult i c _) =
     (if i \<in> set declared then Some (tool_message i (content_container_text c)) else None)"
| "tool_item declared _ = None"

definition user_value :: "message \<Rightarrow> json list" where
  "user_value m =
     (let parts = List.map_filter user_part (msg_content m) in
      if parts = [] then [] else [JObj [(''role'', JStr ''user''), (''content'', JArr parts)]])"

definition other_value :: "message \<Rightarrow> json" where
  "other_value m = JObj [(''role'', JStr (role_text (msg_role m))), (''content'', blocks_to_json_value (msg_content m))]"

text \<open>\<open>prev\<close> is the message before, \<open>pending\<close> the answers that were made up for its open calls.\<close>

fun oai_from :: "(json \<Rightarrow> string) \<Rightarrow> message option \<Rightarrow> json list \<Rightarrow> message list \<Rightarrow> json list" where
  "oai_from json_text prev pending [] = pending"
| "oai_from json_text prev pending (m # ms) =
     (case msg_role m of
        AssistantRole \<Rightarrow> pending @ assistant_value json_text m # oai_from json_text (Some m) (synthetic m ms) ms
      | UserRole \<Rightarrow>
          pending @ List.map_filter (tool_item (declared_at prev)) (msg_content m) @ user_value m @
            oai_from json_text (Some m) [] ms
      | _ \<Rightarrow> pending @ other_value m # oai_from json_text (Some m) [] ms)"

definition msgs_claude2oai :: "(json \<Rightarrow> string) \<Rightarrow> message list \<Rightarrow> json list" where
  "msgs_claude2oai json_text ms = oai_from json_text None [] ms"

text \<open>
  The request of a conversation: no system messages, and the results that wait with the last
  message of the user are put into it.
\<close>

definition waiting_results :: "message \<Rightarrow> content_block list" where
  "waiting_results m =
     (case tool_results m of None \<Rightarrow> []
      | Some trs \<Rightarrow> map (\<lambda>r. ToolResult (result_id r) (ContentText (result_content r)) None) trs)"

definition last_user :: "message list \<Rightarrow> nat option" where
  "last_user ms = find (\<lambda>i. msg_role (ms ! i) = UserRole) (rev [0..<length ms])"

definition build_request_messages :: "message list \<Rightarrow> message list" where
  "build_request_messages ms =
     List.map_filter (\<lambda>i. let m = ms ! i in
       if msg_role m = SystemRole then None
       else Some \<lparr>msg_role = msg_role m,
              msg_content = msg_content m @ (if last_user ms = Some i then waiting_results m else []),
              tool_results = None\<rparr>) [0..<length ms]"

definition system_parts :: "message list \<Rightarrow> string list" where
  "system_parts ms = filter (\<lambda>t. t \<noteq> []) (map content_text (filter (\<lambda>m. msg_role m = SystemRole) ms))"

subsection \<open>The protocol of tool calls\<close>

text \<open>
  What strict gateways check: the messages of role \<open>tool\<close> right after a message answer exactly its
  calls, and there are no others.
\<close>

definition is_tool :: "json \<Rightarrow> bool" where
  "is_tool m \<longleftrightarrow> str_arg m ''role'' = Some ''tool''"

definition call_ids :: "json \<Rightarrow> string list" where
  "call_ids m = map (\<lambda>c. str_arg_or_empty c ''id'') (arr_arg m ''tool_calls'')"

definition answers_of :: "json list \<Rightarrow> string set" where
  "answers_of ms = set (map (\<lambda>m. str_arg_or_empty m ''tool_call_id'') (takeWhile is_tool ms))"

function oai_ok :: "json list \<Rightarrow> bool" where
  "oai_ok [] = True"
| "oai_ok (m # ms) \<longleftrightarrow> \<not> is_tool m \<and> set (call_ids m) = answers_of ms \<and> oai_ok (dropWhile is_tool ms)"
  by pat_completeness auto
termination by (relation "measure length") (simp_all add: le_imp_less_Suc length_dropWhile_le)

lemma tool_message_reads [simp]:
  "is_tool (tool_message i c)" "str_arg_or_empty (tool_message i c) ''tool_call_id'' = i"
  by (simp_all add: is_tool_def tool_message_def str_arg_def str_arg_or_empty_def)

lemma answers_of_tools: "list_all is_tool ts \<Longrightarrow>
    answers_of (ts @ ms) = (\<lambda>m. str_arg_or_empty m ''tool_call_id'') ` set ts \<union> answers_of ms"
  by (induction ts) (auto simp: answers_of_def)

lemma dropWhile_tools: "list_all is_tool ts \<Longrightarrow> dropWhile is_tool (ts @ ms) = dropWhile is_tool ms"
  by (induction ts) simp_all

lemma other_not_tool:
  "msg_role m \<noteq> ToolRole \<Longrightarrow> \<not> is_tool (other_value m)" "call_ids (other_value m) = []"
  by (cases "msg_role m"; simp add: is_tool_def other_value_def str_arg_def call_ids_def arr_arg_def)+

lemma assistant_reads:
  "\<not> is_tool (assistant_value json_text m)" "call_ids (assistant_value json_text m) = replay_ids m"
proof -
  show "\<not> is_tool (assistant_value json_text m)"
    by (simp add: is_tool_def assistant_value_def str_arg_def Let_def)
  have ids: "map (\<lambda>c. str_arg_or_empty c ''id'') (map snd (List.map_filter (replay_call json_text) bs))
      = map fst (List.map_filter (replay_call (\<lambda>_. [])) bs)" for bs
  proof (induction bs)
    case (Cons b bs)
    then show ?case by (cases b) (simp_all add: map_filter_simps str_arg_def str_arg_or_empty_def)
  qed (simp add: map_filter_simps)
  have "arr_arg (assistant_value json_text m) ''tool_calls'' = map snd (List.map_filter (replay_call json_text) (msg_content m))"
    by (simp add: assistant_value_def arr_arg_def Let_def)
  then show "call_ids (assistant_value json_text m) = replay_ids m"
    unfolding call_ids_def replay_ids_def by (simp only: ids)
qed

lemma user_reads:
  "answers_of (user_value m @ ms) = (if user_value m = [] then answers_of ms else {})"
  "answers_of ms = {} \<Longrightarrow> oai_ok (dropWhile is_tool ms) \<Longrightarrow> oai_ok (dropWhile is_tool (user_value m @ ms))"
  by (auto simp: user_value_def answers_of_def is_tool_def str_arg_def call_ids_def arr_arg_def Let_def)

lemma synthetic_reads:
  "list_all is_tool (synthetic m rest)"
  "(\<lambda>m. str_arg_or_empty m ''tool_call_id'') ` set (synthetic m rest) = set (replay_ids m) - set (answered_after rest)"
  by (auto simp: synthetic_def list_all_iff image_iff)

lemma tool_items_read:
  "list_all is_tool (List.map_filter (tool_item declared) bs)"
  "(\<lambda>m. str_arg_or_empty m ''tool_call_id'') ` set (List.map_filter (tool_item declared) bs)
     = set (List.map_filter tool_result_id bs) \<inter> set declared"
proof (induction bs)
  case (Cons b bs)
  {
    case 1
    then show ?case using Cons by (cases b) (simp_all add: map_filter_simps)
  next
    case 2
    then show ?case using Cons by (cases b) (auto simp: map_filter_simps)
  }
qed (simp_all add: map_filter_simps)

text \<open>The open calls of the message before are answered first; then everything is in order.\<close>

lemma oai_from_ok:
  assumes "list_all (\<lambda>m. msg_role m \<noteq> ToolRole) ms"
  shows "(case prev of Some p \<Rightarrow> if msg_role p = AssistantRole then pending = synthetic p ms else pending = []
       | None \<Rightarrow> pending = []) \<Longrightarrow>
     answers_of (oai_from json_text prev pending ms) = set (declared_at prev)
   \<and> oai_ok (dropWhile is_tool (oai_from json_text prev pending ms))"
  using assms
proof (induction ms arbitrary: prev pending)
  case Nil
  have "answers_of pending = set (declared_at prev) \<and> dropWhile is_tool pending = []"
    using Nil.prems(1) answers_of_tools [OF synthetic_reads(1), of _ "[]" "[]"] dropWhile_tools [OF synthetic_reads(1), of _ "[]" "[]"]
    by (auto simp: declared_at_def answers_of_def [of "[]"] synthetic_reads(2) answered_after_def split: option.splits if_splits)
  then show ?case by (simp only: oai_from.simps oai_ok.simps simp_thms)
next
  case (Cons m ms)
  have tools: "list_all is_tool pending"
    using Cons.prems(1) by (auto simp: synthetic_reads(1) split: option.splits if_splits)
  have open_ids: "(\<lambda>m. str_arg_or_empty m ''tool_call_id'') ` set pending = set (declared_at prev) - set (answered_after (m # ms))"
    using Cons.prems(1) by (auto simp: declared_at_def synthetic_reads(2) split: option.splits if_splits)
  note front = answers_of_tools [OF tools] dropWhile_tools [OF tools]
  show ?case
  proof (cases "msg_role m")
    case AssistantRole
    have ih: "answers_of (oai_from json_text (Some m) (synthetic m ms) ms) = set (declared_at (Some m))
        \<and> oai_ok (dropWhile is_tool (oai_from json_text (Some m) (synthetic m ms) ms))"
      by (rule Cons.IH) (use Cons.prems(2) AssistantRole in simp_all)
    moreover have "answers_of (assistant_value json_text m # ms') = {}" for ms'
      by (simp add: answers_of_def assistant_reads)
    ultimately show ?thesis
      using AssistantRole open_ids by (simp add: front assistant_reads declared_at_def [of "Some m"] answered_after_def)
  next
    case UserRole
    let ?items = "List.map_filter (tool_item (declared_at prev)) (msg_content m)"
    have ih: "answers_of (oai_from json_text (Some m) [] ms) = {}
        \<and> oai_ok (dropWhile is_tool (oai_from json_text (Some m) [] ms))"
      using Cons.IH [of "[]" "Some m"] Cons.prems(2) UserRole by (simp add: declared_at_def)
    have out: "oai_from json_text prev pending (m # ms) = pending @ ?items @ user_value m @ oai_from json_text (Some m) [] ms"
      by (simp add: UserRole)
    have "set (declared_at prev) - set (answered_after (m # ms)) \<union> set (result_ids m) \<inter> set (declared_at prev) = set (declared_at prev)"
      by (auto simp: answered_after_def UserRole)
    then show ?thesis
      unfolding out front answers_of_tools [OF tool_items_read(1)] dropWhile_tools [OF tool_items_read(1)]
      using open_ids ih user_reads [where m = m]
      by (auto simp: tool_items_read(2) result_ids_def)
  next
    case SystemRole
    have ih: "answers_of (oai_from json_text (Some m) [] ms) = {}
        \<and> oai_ok (dropWhile is_tool (oai_from json_text (Some m) [] ms))"
      using Cons.IH [of "[]" "Some m"] Cons.prems(2) SystemRole by (simp add: declared_at_def)
    have "answers_of (other_value m # ms') = {}" for ms' by (simp add: answers_of_def other_not_tool SystemRole)
    then show ?thesis
      using SystemRole open_ids ih by (simp add: front other_not_tool answered_after_def)
  next
    case ToolRole
    then show ?thesis using Cons.prems(2) by simp
  qed
qed

text \<open>
  C31: whatever the stored conversation looks like, its OpenAI form keeps the protocol of tool calls:
  every batch of calls is followed at once by answers to exactly its calls, and no answer stands
  anywhere else.  Results without a call are dropped and calls without a result get one.  It needs
  the conversation to hold no message of role \<open>tool\<close>.
\<close>
theorem oai_request_keeps_protocol:
  assumes "list_all (\<lambda>m. msg_role m \<noteq> ToolRole) ms"
  shows "oai_ok (msgs_claude2oai json_text ms)"
proof -
  have a: "answers_of (msgs_claude2oai json_text ms) = {} \<and> oai_ok (dropWhile is_tool (msgs_claude2oai json_text ms))"
    using oai_from_ok [OF assms, where prev = None and pending = "[]" and json_text = json_text] by (simp add: msgs_claude2oai_def declared_at_def)
  then have "takeWhile is_tool (msgs_claude2oai json_text ms) = []" by (auto simp: answers_of_def)
  then have "dropWhile is_tool (msgs_claude2oai json_text ms) = msgs_claude2oai json_text ms"
    by (metis append_Nil takeWhile_dropWhile_id)
  with a show ?thesis by simp
qed

theorem oai_request_keeps_protocol_witness:
  "oai_ok (msgs_claude2oai (\<lambda>_. ''{}'')
     [user_message ''hi'',
      \<lparr>msg_role = AssistantRole, msg_content = [ToolUse ''a'' ''read'' (JObj [])], tool_results = None\<rparr>,
      user_message ''go on''])"
  by (rule oai_request_keeps_protocol) (simp add: user_message_def)

subsection \<open>Calls found in the text\<close>

lemma oai_from_tail:
  assumes "\<And>prev pending. oai_from json_text prev pending (a # us) = oai_from json_text prev pending (a # vs)"
    and "answered_after (a # us) = answered_after (a # vs)"
  shows "oai_from json_text prev pending (xs @ a # us) = oai_from json_text prev pending (xs @ a # vs)"
proof (induction xs arbitrary: prev pending)
  case (Cons x xs)
  have "answered_after (xs @ a # us) = answered_after (xs @ a # vs)"
    using assms(2) by (cases xs) (simp_all add: answered_after_def)
  then have "synthetic x (xs @ a # us) = synthetic x (xs @ a # vs)" by (simp add: synthetic_def)
  with Cons show ?case by (simp split: role.split)
qed (simp add: assms(1) del: oai_from.simps)

lemma tool_items_undeclared: "List.map_filter (tool_item []) bs = []"
proof (induction bs)
  case (Cons b bs)
  then show ?case by (cases b) (simp_all add: map_filter_simps)
qed (simp add: map_filter_simps)

lemma unnamed_calls: "List.map_filter use_block (map (\<lambda>(n, a). tool_call_new n a) cs) = []"
  by (induction cs) (auto simp: map_filter_simps use_block_def tool_call_new_def)

lemma user_parts_of_results:
  "\<forall>r \<in> set rs. result_images r = [] \<Longrightarrow> List.map_filter user_part (concat (map result_blocks rs)) = []"
  by (induction rs) (simp_all add: map_filter_simps map_filter_append result_blocks_def)

text \<open>
  The results of calls that were found in the text of an answer never reach the model.  Such a
  call carries no identifier, so that the turn leaves no call for its result to answer, and the
  OpenAI form of the conversation is the same as if the tools had returned nothing.
\<close>
theorem text_calls_lose_their_results:
  assumes "\<forall>r \<in> set rs. result_images r = []"
  shows "msgs_claude2oai json_text (append_turn clean (map (\<lambda>(n, a). tool_call_new n a) cs) rs np ms) =
    msgs_claude2oai json_text (append_turn clean (map (\<lambda>(n, a). tool_call_new n a) cs) [] np ms)"
proof -
  let ?a = "assistant_turn clean (map (\<lambda>(n, a). tool_call_new n a) cs)"
  have a: "msg_role ?a = AssistantRole" "replay_ids ?a = []"
    by (simp_all add: assistant_turn_def unnamed_calls replay_ids_def text_block_def map_filter_simps Let_def)
  have none: "synthetic ?a rest = []" "declared_at (Some ?a) = []" for rest
    using a by (simp_all add: synthetic_def declared_at_def)
  define said where "said = (if np \<noteq> [] then [JObj [(''role'', JStr ''user''), (''content'', JArr [text_part np])]] else [])"
  have turn: "oai_from json_text (Some ?a) [] (case user_turn xs np of Some m \<Rightarrow> [m] | None \<Rightarrow> []) = said"
    if "\<forall>r \<in> set xs. result_images r = []" for xs
    using user_parts_of_results [OF that]
    by (auto simp: user_turn_def said_def none tool_items_undeclared user_value_def map_filter_append
        map_filter_simps text_block_def text_part_def Let_def)
  have "oai_from json_text prev pending (?a # (case user_turn xs np of Some m \<Rightarrow> [m] | None \<Rightarrow> [])) =
      pending @ assistant_value json_text ?a # said" if "\<forall>r \<in> set xs. result_images r = []" for xs prev pending
    using turn [OF that] by (simp add: a none)
  then show ?thesis
    unfolding msgs_claude2oai_def append_turn_def
    by (intro oai_from_tail) (use assms in \<open>simp_all add: answered_after_def a(1)\<close>)
qed

theorem text_calls_lose_their_results_witness:
  "msgs_claude2oai (\<lambda>_. ''{}'') (append_turn ''see'' (map (\<lambda>(n, a). tool_call_new n a) [(''read'', JObj [])])
       [text_result [] ''the content of the file''] [] [user_message ''read it'']) =
   msgs_claude2oai (\<lambda>_. ''{}'') (append_turn ''see'' (map (\<lambda>(n, a). tool_call_new n a) [(''read'', JObj [])])
       [] [] [user_message ''read it''])"
  by (rule text_calls_lose_their_results) (simp add: text_result_def)

subsection \<open>The Claude format\<close>

definition merge_content_blocks :: "json \<Rightarrow> json \<Rightarrow> json" where
  "merge_content_blocks a b =
     JArr ((case a of JArr xs \<Rightarrow> xs | JStr t \<Rightarrow> [text_part t] | _ \<Rightarrow> [])
       @ (case b of JArr ys \<Rightarrow> text_part [CHR 0x0A] # ys | JStr t \<Rightarrow> [text_part [CHR 0x0A], text_part t] | _ \<Rightarrow> []))"

definition ids_of_type :: "string \<Rightarrow> string \<Rightarrow> json \<Rightarrow> string list" where
  "ids_of_type type key content =
     (case as_array content of
        None \<Rightarrow> []
      | Some bs \<Rightarrow> List.map_filter (\<lambda>b. if str_arg b ''type'' = Some type then str_arg b key else None) bs)"

definition json_or_null :: "json option \<Rightarrow> json" where
  "json_or_null v = (case v of Some j \<Rightarrow> j | None \<Rightarrow> JNull)"

definition extract_tool_use_ids :: "json \<Rightarrow> string list" where
  "extract_tool_use_ids msg = ids_of_type ''tool_use'' ''id'' (json_or_null (jget msg ''content''))"

definition extract_tool_result_ids :: "json \<Rightarrow> string list" where
  "extract_tool_result_ids content = ids_of_type ''tool_result'' ''tool_use_id'' content"

definition error_result :: "string \<Rightarrow> json" where
  "error_result uid =
     JObj [(''type'', JStr ''tool_result''), (''tool_use_id'', JStr uid), (''content'', JStr ''(error)'')]"

definition fill_missing :: "json \<Rightarrow> json \<Rightarrow> json" where
  "fill_missing last_msg content =
     fold (\<lambda>uid c. case c of JArr xs \<Rightarrow> JArr (xs @ [error_result uid]) | _ \<Rightarrow> c)
       (filter (\<lambda>i. i \<notin> set (extract_tool_result_ids content)) (extract_tool_use_ids last_msg)) content"

definition claude_value :: "string \<Rightarrow> json \<Rightarrow> json" where
  "claude_value role content = JObj [(''role'', JStr role), (''content'', content)]"

definition fix_step :: "message \<Rightarrow> json list \<Rightarrow> json list" where
  "fix_step m fixed =
     (let role = role_text (msg_role m); content = blocks_to_json_value (msg_content m) in
      if fixed = [] then [claude_value role content]
      else (let prev = last fixed in
        if str_arg prev ''role'' = Some role
        then butlast fixed @ [jinsert ''content'' (merge_content_blocks (json_or_null (jget prev ''content'')) content) prev]
        else if str_arg prev ''role'' = Some ''assistant'' \<and> role = ''user''
        then fixed @ [claude_value role (fill_missing prev content)]
        else fixed @ [claude_value role content]))"

definition fix_messages :: "message list \<Rightarrow> json list" where
  "fix_messages ms = dropWhile (\<lambda>v. str_arg v ''role'' \<noteq> Some ''user'') (fold fix_step ms [])"

definition drop_unsigned_thinking :: "json list \<Rightarrow> json list" where
  "drop_unsigned_thinking ms =
     map (\<lambda>m. case Option.bind (jget m ''content'') as_array of
         Some bs \<Rightarrow> jinsert ''content'' (JArr (filter (\<lambda>b. \<not> (str_arg b ''type'' = Some ''thinking''
           \<and> str_arg_or_empty b ''signature'' = [])) bs)) m
       | None \<Rightarrow> m) ms"

definition placeholder_thinking :: json where
  "placeholder_thinking =
     JObj [(''type'', JStr ''thinking''), (''thinking'', JStr ''...''), (''signature'', JStr ''placeholder'')]"

definition ensure_thinking_blocks :: "string \<Rightarrow> json list \<Rightarrow> json list" where
  "ensure_thinking_blocks model ms =
     (if \<not> contains_str ''deepseek'' (to_lowercase model) then ms
      else map (\<lambda>m. if str_arg m ''role'' \<noteq> Some ''assistant'' then m
        else (case Option.bind (jget m ''content'') as_array of
            None \<Rightarrow> m
          | Some bs \<Rightarrow> if list_ex (\<lambda>b. str_arg b ''type'' = Some ''thinking'') bs then m
              else jinsert ''content'' (JArr (placeholder_thinking # bs)) m)) ms)"

text \<open>The markers for the cache go to the last two messages of the user.\<close>

definition cache_marker :: json where
  "cache_marker = JObj [(''type'', JStr ''ephemeral'')]"

definition stamp_one :: "json \<Rightarrow> json" where
  "stamp_one m =
     (case json_or_null (jget m ''content'') of
        JStr t \<Rightarrow> jinsert ''content''
          (JArr [JObj [(''type'', JStr ''text''), (''text'', JStr t), (''cache_control'', cache_marker)]]) m
      | JArr bs \<Rightarrow> if bs = [] then m
          else jinsert ''content'' (JArr (butlast bs @ [jinsert ''cache_control'' cache_marker (last bs)])) m
      | _ \<Rightarrow> m)"

definition user_places :: "json list \<Rightarrow> nat list" where
  "user_places ms = filter (\<lambda>i. str_arg (ms ! i) ''role'' = Some ''user'') [0..<length ms]"

definition stamp_oai_cache_markers :: "string \<Rightarrow> json list \<Rightarrow> json list" where
  "stamp_oai_cache_markers model ms =
     (let ml = to_lowercase model in
      if \<not> contains_str ''claude'' ml \<and> \<not> contains_str ''anthropic'' ml then ms
      else fold (\<lambda>i vs. vs[i := stamp_one (vs ! i)]) (take 2 (rev (user_places ms))) ms)"

definition tool_to_claude :: "string \<Rightarrow> string \<Rightarrow> json \<Rightarrow> json" where
  "tool_to_claude name description parameters =
     JObj [(''name'', JStr name), (''description'', JStr description), (''input_schema'', parameters)]"

lemma blocks_have_no_type:
  "\<forall>b \<in> set (map block_value bs). str_arg b ''type'' = None"
proof -
  have "str_arg (block_value b) ''type'' = None" for b by (cases b) (simp_all add: str_arg_def)
  then show ?thesis by simp
qed

text \<open>What the messages look like at every stage: no block has a type, but for separating texts.\<close>

definition untyped :: "json \<Rightarrow> bool" where
  "untyped v \<longleftrightarrow>
     (\<exists>role bs. v = claude_value role (JArr bs) \<and>
        (\<forall>b \<in> set bs. str_arg b ''type'' = None \<or> b = text_part [CHR 0x0A]))"

lemma untyped_value: "untyped (claude_value role (blocks_to_json_value bs))"
  unfolding untyped_def blocks_to_json_value_def using blocks_have_no_type [of bs] by blast

lemma untyped_reads:
  assumes "untyped v"
  shows "extract_tool_use_ids v = []"
proof -
  obtain role bs where v: "v = claude_value role (JArr bs)"
    and b: "\<forall>b \<in> set bs. str_arg b ''type'' = None \<or> b = text_part [CHR 0x0A]"
    using assms by (auto simp: untyped_def)
  have "List.map_filter (\<lambda>b. if str_arg b ''type'' = Some ''tool_use'' then str_arg b ''id'' else None) bs = []"
    using b by (induction bs) (auto simp: map_filter_simps text_part_def str_arg_def)
  then show ?thesis by (simp add: v extract_tool_use_ids_def ids_of_type_def claude_value_def json_or_null_def)
qed

text \<open>The same loop without the search for missing results.\<close>

definition merge_step :: "message \<Rightarrow> json list \<Rightarrow> json list" where
  "merge_step m fixed =
     (let role = role_text (msg_role m); content = blocks_to_json_value (msg_content m) in
      if fixed \<noteq> [] \<and> str_arg (last fixed) ''role'' = Some role
      then butlast fixed @ [jinsert ''content'' (merge_content_blocks (json_or_null (jget (last fixed) ''content'')) content) (last fixed)]
      else fixed @ [claude_value role content])"

lemma merged_untyped:
  assumes "untyped v"
  shows "untyped (jinsert ''content'' (merge_content_blocks (json_or_null (jget v ''content'')) (blocks_to_json_value bs)) v)"
    and "str_arg (jinsert ''content'' c v) ''role'' = str_arg v ''role''"
proof -
  obtain role xs where v: "v = claude_value role (JArr xs)"
    and x: "\<forall>b \<in> set xs. str_arg b ''type'' = None \<or> b = text_part [CHR 0x0A]"
    using assms by (auto simp: untyped_def)
  show "untyped (jinsert ''content'' (merge_content_blocks (json_or_null (jget v ''content'')) (blocks_to_json_value bs)) v)"
    using x blocks_have_no_type [of bs]
    by (auto simp: v untyped_def claude_value_def json_or_null_def merge_content_blocks_def blocks_to_json_value_def
        hm_insert_def)
  show "str_arg (jinsert ''content'' c v) ''role'' = str_arg v ''role''"
    by (simp add: v claude_value_def str_arg_def hm_insert_def)
qed

lemma fix_step_merges:
  assumes "\<forall>v \<in> set fixed. untyped v"
  shows "fix_step m fixed = merge_step m fixed" and "\<forall>v \<in> set (merge_step m fixed). untyped v"
proof -
  have l: "untyped (last fixed)" if "fixed \<noteq> []" using assms that by simp
  have "fill_missing (last fixed) c = c" if "fixed \<noteq> []" for c
    using untyped_reads [OF l [OF that]] by (simp add: fill_missing_def)
  then show "fix_step m fixed = merge_step m fixed"
    by (auto simp: fix_step_def merge_step_def Let_def)
  show "\<forall>v \<in> set (merge_step m fixed). untyped v"
    using assms l merged_untyped(1) untyped_value
    by (auto simp: merge_step_def Let_def dest!: in_set_butlastD)
qed

lemma fix_fold:
  assumes "\<forall>v \<in> set fixed. untyped v"
  shows "fold fix_step ms fixed = fold merge_step ms fixed \<and> (\<forall>v \<in> set (fold merge_step ms fixed). untyped v)"
  using assms
proof (induction ms arbitrary: fixed)
  case (Cons m ms)
  then show ?case using fix_step_merges [of fixed m] by simp
qed simp

text \<open>No two neighbours of one role.\<close>

fun alternating :: "json list \<Rightarrow> bool" where
  "alternating (a # b # vs) \<longleftrightarrow> str_arg a ''role'' \<noteq> str_arg b ''role'' \<and> alternating (b # vs)"
| "alternating _ = True"

lemma alternating_snoc:
  "alternating (vs @ [v]) \<longleftrightarrow> alternating vs \<and> (vs = [] \<or> str_arg (last vs) ''role'' \<noteq> str_arg v ''role'')"
  by (induction vs rule: alternating.induct) auto

lemma alternating_dropWhile: "alternating vs \<Longrightarrow> alternating (dropWhile P vs)"
  by (induction vs rule: alternating.induct) auto

lemma merge_step_alternates:
  assumes "\<forall>v \<in> set fixed. untyped v" and "alternating fixed"
  shows "alternating (merge_step m fixed)"
proof (cases "fixed = []")
  case False
  then obtain vs v where f: "fixed = vs @ [v]" by (metis append_butlast_last_id)
  have "untyped v" using assms(1) by (simp add: f)
  then have role: "str_arg (jinsert ''content'' c v) ''role'' = str_arg v ''role''" for c by (rule merged_untyped(2))
  have new: "str_arg (claude_value r c) ''role'' = Some r" for r c
    by (simp add: claude_value_def str_arg_def)
  have kept: "alternating vs \<and> (vs = [] \<or> str_arg (last vs) ''role'' \<noteq> str_arg v ''role'')"
    using assms(2) by (simp only: f alternating_snoc)
  show ?thesis
  proof (cases "str_arg v ''role'' = Some (role_text (msg_role m))")
    case True
    then show ?thesis using kept by (simp add: merge_step_def Let_def f alternating_snoc role)
  next
    case False
    then show ?thesis
      using assms(2) alternating_snoc [of "vs @ [v]"] new by (simp add: merge_step_def Let_def f)
  qed
qed (simp add: merge_step_def Let_def)

lemma fold_alternates:
  assumes "\<forall>v \<in> set fixed. untyped v" and "alternating fixed"
  shows "alternating (fold merge_step ms fixed)"
  using assms
proof (induction ms arbitrary: fixed)
  case (Cons m ms)
  then show ?case using fix_step_merges(2) [of fixed m] merge_step_alternates [of fixed m] by simp
qed simp

text \<open>
  The Claude form of a conversation begins with the user and never has two messages of one role
  in a row.  The search for calls without results finds none, whatever the conversation: it looks
  for the type of a block, and the blocks carry their variant as a key instead; so the form is
  that of the plain merge, and no missing result is ever filled in.
\<close>
theorem claude_form_alternates_but_fills_nothing:
  "alternating (fix_messages ms)
   \<and> (fix_messages ms = [] \<or> str_arg (hd (fix_messages ms)) ''role'' = Some ''user'')
   \<and> fix_messages ms = dropWhile (\<lambda>v. str_arg v ''role'' \<noteq> Some ''user'') (fold merge_step ms [])"
proof -
  have "fold fix_step ms [] = fold merge_step ms []" using fix_fold [of "[]" ms] by simp
  moreover have "alternating (fold merge_step ms [])" by (rule fold_alternates) simp_all
  moreover have "vs = [] \<or> str_arg (hd vs) ''role'' = Some ''user''"
    if "vs = dropWhile (\<lambda>v. str_arg v ''role'' \<noteq> Some ''user'') us" for vs us
    using that hd_dropWhile [of "\<lambda>v. str_arg v ''role'' \<noteq> Some ''user''" us] by auto
  ultimately show ?thesis by (simp add: fix_messages_def alternating_dropWhile)
qed

lemma filter_thinking_nothing:
  assumes "untyped v"
  shows "drop_unsigned_thinking [v] = [v]"
proof -
  obtain role bs where v: "v = claude_value role (JArr bs)"
    and b: "\<forall>b \<in> set bs. str_arg b ''type'' = None \<or> b = text_part [CHR 0x0A]"
    using assms by (auto simp: untyped_def)
  have "filter (\<lambda>b. \<not> (str_arg b ''type'' = Some ''thinking'' \<and> str_arg_or_empty b ''signature'' = [])) bs = bs"
    using b by (auto simp: filter_id_conv text_part_def str_arg_def)
  then show ?thesis
    by (simp add: v drop_unsigned_thinking_def claude_value_def hm_insert_def)
qed

text \<open>
  The filter for thinking without a signature, which follows, removes nothing for the same reason.
\<close>
theorem unsigned_thinking_stays: "drop_unsigned_thinking (fix_messages ms) = fix_messages ms"
proof -
  have "drop_unsigned_thinking vs = vs" if "\<forall>v \<in> set vs. untyped v" for vs
    using that
  proof (induction vs)
    case (Cons v vs)
    have "drop_unsigned_thinking (v # vs) = drop_unsigned_thinking [v] @ drop_unsigned_thinking vs"
      by (simp add: drop_unsigned_thinking_def)
    with Cons filter_thinking_nothing [of v] show ?case by simp
  qed (simp add: drop_unsigned_thinking_def)
  moreover have "\<forall>v \<in> set (fix_messages ms). untyped v"
    using fix_fold [of "[]" ms] set_dropWhileD unfolding fix_messages_def by force
  ultimately show ?thesis by blast
qed

end
