(* ===== verification/Rate_Limit.thy ===== *)
theory Rate_Limit
  imports Prelude Complex_Main
begin

text \<open>
  The request limiter of the server, \<open>crates/oz-server/src/middleware/rate_limit.rs\<close>: a token
  bucket for each session or address.

  The parameter \<open>fl\<close> rounds the exact result of a float operation, as in the compression.  The
  window is at least one second long, so that the rate is a finite number.
\<close>

definition DEFAULT_RATE :: nat where "DEFAULT_RATE = 60"
definition DEFAULT_WINDOW :: int where "DEFAULT_WINDOW = nanos 60"
definition MAX_BUCKETS :: nat where "MAX_BUCKETS = 1000"

record bucket =
  tokens :: nat
  max_tokens :: nat
  refill_rate :: rat
  last_refill :: instant

text \<open>\<open>Duration::as_secs_f64\<close>, and the saturating cast \<open>as u32\<close> of a float.\<close>

definition secs_f64 :: "(rat \<Rightarrow> rat) \<Rightarrow> int \<Rightarrow> rat" where
  "secs_f64 fl d = fl (fl (of_int (d div 1000000000)) + fl (fl (of_int (d mod 1000000000)) / 1000000000))"

definition to_u32 :: "rat \<Rightarrow> nat" where
  "to_u32 q = min (nat \<lfloor>q\<rfloor>) (2 ^ 32 - 1)"

definition bucket_new :: "(rat \<Rightarrow> rat) \<Rightarrow> nat \<Rightarrow> int \<Rightarrow> instant \<Rightarrow> bucket" where
  "bucket_new fl m window now =
     \<lparr>tokens = m, max_tokens = m, refill_rate = fl (fl (of_nat m) / secs_f64 fl window), last_refill = now\<rparr>"

definition new_tokens :: "(rat \<Rightarrow> rat) \<Rightarrow> instant \<Rightarrow> bucket \<Rightarrow> nat" where
  "new_tokens fl now b =
     (let elapsed = secs_f64 fl (max (now - last_refill b) 0) in to_u32 (fl (elapsed * refill_rate b)))"

definition refill :: "(rat \<Rightarrow> rat) \<Rightarrow> instant \<Rightarrow> bucket \<Rightarrow> bucket" where
  "refill fl now b =
     b\<lparr>tokens := min ((tokens b + new_tokens fl now b) mod 2 ^ 32) (max_tokens b), last_refill := now\<rparr>"

definition try_consume :: "(rat \<Rightarrow> rat) \<Rightarrow> instant \<Rightarrow> bucket \<Rightarrow> bool \<times> bucket" where
  "try_consume fl now b =
     (let b' = refill fl now b in
      if tokens b' > 0 then (True, b'\<lparr>tokens := tokens b' - 1\<rparr>) else (False, b'))"

record rate_limiter =
  buckets :: "(string, bucket) hash_map"
  limiter_max :: nat
  limiter_window :: int

definition limiter_new :: "nat \<Rightarrow> nat \<Rightarrow> rate_limiter" where
  "limiter_new m window_secs = \<lparr>buckets = hm_empty, limiter_max = m, limiter_window = nanos (int window_secs)\<rparr>"

text \<open>\<open>now\<close> is read when a bucket is made, \<open>now'\<close> in its refill.\<close>

definition limiter_check :: "(rat \<Rightarrow> rat) \<Rightarrow> instant \<Rightarrow> instant \<Rightarrow> string \<Rightarrow> rate_limiter \<Rightarrow> bool \<times> rate_limiter" where
  "limiter_check fl now now' key l =
     (let m = (if hm_len (buckets l) > MAX_BUCKETS then hm_empty else buckets l);
          b = (case hm_get key m of Some b \<Rightarrow> b | None \<Rightarrow> bucket_new fl (limiter_max l) (limiter_window l) now);
          (ok, b') = try_consume fl now' b in
      (ok, l\<lparr>buckets := hm_insert key b' m\<rparr>))"

text \<open>
  The key of a request: the session in its path (\<open>/api/sessions/<id>/...\<close>, the pieces of the path
  between slashes), else the address a proxy reports.
\<close>

definition request_key :: "string list \<Rightarrow> string option \<Rightarrow> string" where
  "request_key pieces forwarded =
     (case (if length pieces > 3 \<and> pieces ! 3 \<noteq> [] then Some (pieces ! 3) else None) of
        Some s \<Rightarrow> ''session:'' @ s
      | None \<Rightarrow> ''ip:'' @ (case forwarded of Some ip \<Rightarrow> ip | None \<Rightarrow> ''unknown''))"

datatype response = Pass | Too_Many_Requests nat

text \<open>The middleware: without a limiter among the extensions of the request it makes one.\<close>

definition rate_limit ::
  "(rat \<Rightarrow> rat) \<Rightarrow> instant \<Rightarrow> instant \<Rightarrow> rate_limiter option \<Rightarrow> string list \<Rightarrow> string option \<Rightarrow> response \<times> rate_limiter option" where
  "rate_limit fl now now' extension pieces forwarded =
     (let l = (case extension of Some l \<Rightarrow> l | None \<Rightarrow> limiter_new DEFAULT_RATE 60);
          (ok, l') = limiter_check fl now now' (request_key pieces forwarded) l in
      (if ok then Pass else Too_Many_Requests 60, map_option (\<lambda>_. l') extension))"

subsection \<open>The promise of a bucket\<close>

definition bucket_ok :: "bucket \<Rightarrow> bool" where
  "bucket_ok b \<longleftrightarrow> tokens b \<le> max_tokens b"

definition consume_step :: "(rat \<Rightarrow> rat) \<Rightarrow> instant \<Rightarrow> bucket \<Rightarrow> bucket" where
  "consume_step fl now b = snd (try_consume fl now b)"

lemma try_consume_max [simp]: "max_tokens (snd (try_consume fl now b)) = max_tokens b"
  by (simp add: try_consume_def refill_def Let_def)

lemma consume_step_ok [keeps]: "bucket_ok (consume_step fl now b)"
proof -
  have "tokens (refill fl now b) \<le> max_tokens b" "max_tokens (refill fl now b) = max_tokens b"
    by (simp_all add: refill_def)
  then show ?thesis by (auto simp: bucket_ok_def consume_step_def try_consume_def Let_def)
qed

interpretation bucket: bounded_machine "\<lambda>b. b = bucket_new fl m window now" "consume_step fl"
  "\<lambda>b. bucket_ok b \<and> max_tokens b = m" tokens m
  by unfold_locales (auto simp: consume_step_ok, auto simp: bucket_ok_def bucket_new_def consume_step_def)

text \<open>How many requests of a list of arrival times are let through, and what was refilled for them.\<close>

fun let_through :: "(rat \<Rightarrow> rat) \<Rightarrow> instant list \<Rightarrow> bucket \<Rightarrow> nat" where
  "let_through fl [] b = 0"
| "let_through fl (t # ts) b =
     (case try_consume fl t b of (ok, b') \<Rightarrow> (if ok then 1 else 0) + let_through fl ts b')"

fun refilled :: "(rat \<Rightarrow> rat) \<Rightarrow> instant list \<Rightarrow> bucket \<Rightarrow> nat" where
  "refilled fl [] b = 0"
| "refilled fl (t # ts) b = new_tokens fl t b + refilled fl ts (consume_step fl t b)"

lemma try_consume_spends:
  "try_consume fl t b = (ok, b') \<Longrightarrow> (if ok then 1 else 0) + tokens b' \<le> tokens b + new_tokens fl t b"
proof -
  assume a: "try_consume fl t b = (ok, b')"
  have "tokens (refill fl t b) \<le> tokens b + new_tokens fl t b"
    by (simp add: refill_def min.coboundedI1)
  with a show ?thesis by (auto simp: try_consume_def Let_def split: if_splits)
qed

lemma let_through_spends: "let_through fl ts b \<le> tokens b + refilled fl ts b"
proof (induction fl ts b rule: let_through.induct)
  case (2 fl t ts b)
  obtain ok b' where c: "try_consume fl t b = (ok, b')" by (cases "try_consume fl t b")
  show ?case using try_consume_spends [OF c] 2 [OF c [symmetric]] c
    by (simp add: consume_step_def)
qed simp

text \<open>
  A bucket never holds more than its maximum, and over any sequence of requests it lets through
  at most the tokens it began with and those refilled on the way.
\<close>
theorem bucket_limits:
  "tokens (runs (consume_step fl) ts (bucket_new fl m window now)) \<le> m
   \<and> let_through fl ts b \<le> tokens b + refilled fl ts b"
  using bucket.runs_bound [where fl = fl and m = m] let_through_spends by blast

text \<open>Exact arithmetic, one of the roundings.\<close>

definition exact :: "rat \<Rightarrow> rat" where
  "exact q = q"

text \<open>
  A refill throws away the fraction of a token that has not filled up, and the time it took: when
  requests come so fast that each refill is less than a token, nothing is ever refilled.
\<close>

fun under_a_second_apart :: "instant \<Rightarrow> instant list \<Rightarrow> bool" where
  "under_a_second_apart t0 [] = True"
| "under_a_second_apart t0 (t # ts) \<longleftrightarrow> 0 \<le> t - t0 \<and> t - t0 < nanos 1 \<and> under_a_second_apart t ts"

lemma new_tokens_too_soon:
  assumes "0 \<le> t - last_refill b" and "t - last_refill b < 1000000000" and "refill_rate b \<le> 1" and "0 \<le> refill_rate b"
  shows "new_tokens exact t b = 0"
proof -
  have "(t - last_refill b) div 1000000000 = 0" "(t - last_refill b) mod 1000000000 = t - last_refill b"
    using assms(1,2) by simp_all
  then have s: "secs_f64 exact (max (t - last_refill b) 0) = of_int (t - last_refill b) / 1000000000"
    using assms(1) by (simp add: secs_f64_def exact_def)
  have "(of_int (t - last_refill b) :: rat) / 1000000000 < 1" "0 \<le> (of_int (t - last_refill b) :: rat) / 1000000000"
    using assms(1,2) by (simp_all add: field_simps)
  then have "of_int (t - last_refill b) / 1000000000 * refill_rate b < 1"
    using assms(3,4) by (metis mult.right_neutral mult_left_mono order_le_less_trans)
  then have "\<lfloor>of_int (t - last_refill b) / 1000000000 * refill_rate b\<rfloor> \<le> 0"
    by (simp add: floor_le_iff)
  then show ?thesis by (simp add: new_tokens_def s to_u32_def Let_def exact_def)
qed

lemma no_refill_spends_all:
  "under_a_second_apart (last_refill b) ts \<Longrightarrow> refill_rate b = 1 \<Longrightarrow> bucket_ok b \<Longrightarrow> max_tokens b < 2 ^ 32 \<Longrightarrow>
     let_through exact ts b = min (tokens b) (length ts)"
proof (induction ts arbitrary: b)
  case (Cons t ts)
  have "new_tokens exact t b = 0" using Cons.prems(1,2) by (intro new_tokens_too_soon) (simp_all add: nanos_def)
  then have r: "refill exact t b = b\<lparr>last_refill := t\<rparr>"
    using Cons.prems(3,4) by (simp add: refill_def bucket_ok_def)
  show ?case
  proof (cases "tokens b > 0")
    case True
    then have "try_consume exact t b = (True, b\<lparr>last_refill := t, tokens := tokens b - 1\<rparr>)"
      by (simp add: try_consume_def r)
    with True Cons show ?thesis by (simp add: bucket_ok_def)
  next
    case False
    then have "try_consume exact t b = (False, b\<lparr>last_refill := t\<rparr>)" by (simp add: try_consume_def r)
    with False Cons show ?thesis by (simp add: bucket_ok_def)
  qed
qed simp

text \<open>
  A client that asks more than once a second is starved by the default limit of sixty requests
  a minute: the first sixty requests are let through and none after them, however long it goes on.
\<close>
theorem fast_client_starves:
  assumes "under_a_second_apart now ts"
  shows "let_through exact ts (bucket_new exact DEFAULT_RATE DEFAULT_WINDOW now) = min 60 (length ts)"
proof -
  have "refill_rate (bucket_new exact DEFAULT_RATE DEFAULT_WINDOW now) = 1"
    by (simp add: bucket_new_def secs_f64_def nanos_def DEFAULT_RATE_def DEFAULT_WINDOW_def exact_def)
  then show ?thesis
    using no_refill_spends_all [of "bucket_new exact DEFAULT_RATE DEFAULT_WINDOW now" ts] assms
    by (simp add: bucket_new_def bucket_ok_def DEFAULT_RATE_def)
qed

theorem fast_client_starves_witness:
  "let_through exact [1, 2, 3] (bucket_new exact DEFAULT_RATE DEFAULT_WINDOW 0) = min 60 (length [1 :: int, 2, 3])"
  by (rule fast_client_starves) (simp add: nanos_def)

text \<open>
  A request without a limiter among its extensions is never turned away: the middleware makes
  a full limiter for that one request and throws it away.
\<close>
theorem no_limiter_no_limit:
  assumes "0 \<le> now' - now" and "now' - now < nanos 1"
  shows "rate_limit exact now now' None pieces forwarded = (Pass, None)"
proof -
  let ?b = "bucket_new exact 60 (nanos 60) now"
  have b: "tokens ?b = 60" "max_tokens ?b = 60" "refill_rate ?b = 1" "last_refill ?b = now"
    by (simp_all add: bucket_new_def secs_f64_def nanos_def exact_def)
  have "new_tokens exact now' ?b = 0"
    using assms by (intro new_tokens_too_soon) (simp_all only: b, simp_all add: nanos_def)
  then have "fst (try_consume exact now' ?b)" by (simp add: try_consume_def refill_def b)
  then show ?thesis
    by (simp add: rate_limit_def limiter_new_def limiter_check_def DEFAULT_RATE_def hm_empty_def
      hm_get_def hm_len_def split_beta Let_def)
qed

theorem no_limiter_no_limit_witness: "rate_limit exact 5 7 None [] None = (Pass, None)"
  by (rule no_limiter_no_limit) (simp_all add: nanos_def)

end
