(* ===== verification/Harness.thy ===== *)
theory Harness
  imports Rust_Text Complex_Main "HOL-Library.List_Lexorder" "HOL-Library.Char_ord" "HOL-Library.Multiset"
begin

text \<open>
  The harness ledger of \<open>crates/oz-core/src/harness.rs\<close>: evidence-backed refinements with
  before and after snapshots, their rollback, and the rendering of entries into the context.

  Snapshots are JSON texts made and read by \<open>serde_json\<close> (parameters \<open>ser\<close> and \<open>de\<close>), identifiers
  come from \<open>uuid\<close> and time stamps from the clock, so both are inputs.  Time stamps are texts
  and compared as such.  Reading and writing the ledger file is left out.
\<close>

subsection \<open>The ledger\<close>

datatype harness_kind = Memory | SkillNote | SubagentSpec

record harness_entry =
  entry_id :: string
  entry_kind :: harness_kind
  content :: string
  evidence :: string
  created_at :: string
  updated_at :: string

record refinement_record =
  record_id :: string
  record_kind :: harness_kind
  record_entry :: "string option"
  before :: "string option"
  after :: "string option"
  reason :: string
  ts :: string

record harness_state =
  entries :: "harness_entry list"
  refinements :: "refinement_record list"

datatype refine_error = Empty_Content | Empty_Evidence | Content_Too_Long | No_Match_To_Delete

datatype rollback_error = No_Record string | Entry_Gone | Corrupt_Snapshot | Created_Not_Found | Malformed

definition MAX_ENTRY_CHARS :: nat where
  "MAX_ENTRY_CHARS = 2000"

definition MAX_ENTRIES_PER_KIND :: nat where
  "MAX_ENTRIES_PER_KIND = 200"

text \<open>\<open>iter().position(P)\<close> and \<open>Vec::remove\<close>\<close>

fun position :: "('a \<Rightarrow> bool) \<Rightarrow> 'a list \<Rightarrow> nat option" where
  "position P [] = None"
| "position P (x # xs) = (if P x then Some 0 else map_option Suc (position P xs))"

definition remove_nth :: "nat \<Rightarrow> 'a list \<Rightarrow> 'a list" where
  "remove_nth i xs = take i xs @ drop (Suc i) xs"

text \<open>
  The eviction beyond the cap: the indices of the entries of the kind, oldest update first, as
  many as there are too many; removed from the highest index down.
\<close>

definition evicted :: "harness_kind \<Rightarrow> harness_entry list \<Rightarrow> nat list" where
  "evicted kind es =
     (let same_kind = map (\<lambda>(i, e). (i, updated_at e))
            (filter (\<lambda>(i, e). entry_kind e = kind) (enumerate 0 es)) in
      if length same_kind > MAX_ENTRIES_PER_KIND
      then take (length same_kind - MAX_ENTRIES_PER_KIND) (map fst (sort_key snd same_kind))
      else [])"

definition evict_excess :: "harness_kind \<Rightarrow> harness_entry list \<Rightarrow> harness_entry list" where
  "evict_excess kind es = fold remove_nth (rev (sort (evicted kind es))) es"

definition apply_refine ::
  "(harness_entry \<Rightarrow> string) \<Rightarrow> string \<Rightarrow> string \<Rightarrow> string \<Rightarrow> harness_kind \<Rightarrow> string \<Rightarrow> string \<Rightarrow>
     string \<Rightarrow> string \<Rightarrow> harness_state \<Rightarrow> (refine_error, refinement_record) result \<times> harness_state" where
  "apply_refine ser now new_id rec_id kind content0 evidence0 why mode s =
     (let c = trim content0; ev = trim evidence0 in
      if c = [] then (Err Empty_Content, s)
      else if ev = [] then (Err Empty_Evidence, s)
      else if length c > MAX_ENTRY_CHARS then (Err Content_Too_Long, s)
      else if mode = ''delete''
      then (case position (\<lambda>e. content e = c) (entries s) of
              None \<Rightarrow> (Err No_Match_To_Delete, s)
            | Some pos \<Rightarrow>
                (let removed = entries s ! pos;
                     r = \<lparr>record_id = rec_id, record_kind = kind, record_entry = Some (entry_id removed),
                          before = Some (ser removed), after = None, reason = why, ts = now\<rparr> in
                 (Ok r, \<lparr>entries = remove_nth pos (entries s), refinements = refinements s @ [r]\<rparr>)))
      else (case position (\<lambda>e. content e = c) (entries s) of
              Some pos \<Rightarrow>
                (let e = entries s ! pos;
                     e' = e\<lparr>content := c, evidence := ev, updated_at := now\<rparr>;
                     r = \<lparr>record_id = rec_id, record_kind = kind, record_entry = Some (entry_id e'),
                          before = Some (ser e), after = Some (ser e'), reason = why, ts = now\<rparr> in
                 (Ok r, \<lparr>entries = (entries s)[pos := e'], refinements = refinements s @ [r]\<rparr>))
            | None \<Rightarrow>
                (let e = \<lparr>entry_id = new_id, entry_kind = kind, content = c, evidence = ev,
                          created_at = now, updated_at = now\<rparr>;
                     r = \<lparr>record_id = rec_id, record_kind = kind, record_entry = Some new_id,
                          before = None, after = Some (ser e), reason = why, ts = now\<rparr> in
                 (Ok r, \<lparr>entries = evict_excess kind (entries s @ [e]),
                         refinements = refinements s @ [r]\<rparr>))))"

definition harness_rollback ::
  "(string \<Rightarrow> harness_entry option) \<Rightarrow> string \<Rightarrow> harness_state \<Rightarrow> (rollback_error, unit) result \<times> harness_state" where
  "harness_rollback de rid s =
     (case position (\<lambda>r. record_id r = rid) (refinements s) of
        None \<Rightarrow> (Err (No_Record rid), s)
      | Some pos \<Rightarrow>
          (let r = refinements s ! pos; rest = remove_nth pos (refinements s) in
           case (before r, after r) of
             (Some b, Some a) \<Rightarrow>
               (case position (\<lambda>e. Some (entry_id e) = record_entry r) (entries s) of
                  None \<Rightarrow> (Err Entry_Gone, s)
                | Some i \<Rightarrow>
                    (case de b of
                       None \<Rightarrow> (Err Corrupt_Snapshot, s)
                     | Some e \<Rightarrow> (Ok (), \<lparr>entries = (entries s)[i := e], refinements = rest\<rparr>)))
           | (Some b, None) \<Rightarrow>
               (case de b of
                  None \<Rightarrow> (Err Corrupt_Snapshot, s)
                | Some e \<Rightarrow> (Ok (), \<lparr>entries = entries s @ [e], refinements = rest\<rparr>))
           | (None, Some a) \<Rightarrow>
               (let i = (case record_entry r of Some x \<Rightarrow> x | None \<Rightarrow> []);
                    kept = filter (\<lambda>e. entry_id e \<noteq> i) (entries s) in
                if length kept = length (entries s) then (Err Created_Not_Found, s)
                else (Ok (), \<lparr>entries = kept, refinements = rest\<rparr>))
           | (None, None) \<Rightarrow> (Err Malformed, s)))"

text \<open>\<open>sort_by(|a, b| k(b).cmp(&k(a)))\<close>: descending, and stable.\<close>

definition sort_desc :: "('a \<Rightarrow> 'k :: linorder) \<Rightarrow> 'a list \<Rightarrow> 'a list" where
  "sort_desc k xs = rev (sort_key k (rev xs))"

definition entries_of :: "harness_kind \<Rightarrow> harness_state \<Rightarrow> harness_entry list" where
  "entries_of kind s = sort_desc updated_at (filter (\<lambda>e. entry_kind e = kind) (entries s))"

subsection \<open>Rendering\<close>

definition is_alphanumeric :: "char \<Rightarrow> bool" where
  "is_alphanumeric c \<longleftrightarrow>
     (let n = (of_char c :: nat) in
      (48 \<le> n \<and> n \<le> 57) \<or> (65 \<le> n \<and> n \<le> 90) \<or> (97 \<le> n \<and> n \<le> 122)
      \<or> n \<in> {170, 178, 179, 181, 185, 186, 188, 189, 190}
      \<or> (192 \<le> n \<and> n \<noteq> 215 \<and> n \<noteq> 247))"

text \<open>The words of at least three characters; the CJK characters of the code lie outside \<open>char\<close>.\<close>

definition relevance_tokens :: "string \<Rightarrow> string set" where
  "relevance_tokens s =
     set (map to_lowercase (filter (\<lambda>w. length w \<ge> 3) (split_on (\<lambda>c. \<not> is_alphanumeric c) s)))"

definition jaccard :: "string set \<Rightarrow> string set \<Rightarrow> rat" where
  "jaccard a b =
     (if a = {} \<or> b = {} then 0
      else of_nat (card (a \<inter> b)) / of_nat (card a + card b - card (a \<inter> b)))"

fun kind_name :: "harness_kind \<Rightarrow> string" where
  "kind_name Memory = ''memory''"
| "kind_name SkillNote = ''skill_note''"
| "kind_name SubagentSpec = ''subagent_spec''"

definition kind_tag :: "harness_kind \<Rightarrow> string" where
  "kind_tag kind = ''<harness kind='' @ [CHR 0x22] @ kind_name kind @ [CHR 0x22] @ ''>'' @ [CHR 0x0A]"

definition render_lines :: "harness_kind \<Rightarrow> nat \<Rightarrow> harness_entry list \<Rightarrow> string" where
  "render_lines kind limit es =
     kind_tag kind @ concat (map (\<lambda>e. ''- '' @ content e @ [CHR 0x0A]) (take limit es)) @ ''</harness>''"

text \<open>The two comparisons of the ranking: first by relevance, equal ones by time of update.\<close>

definition render_entries :: "harness_entry list \<Rightarrow> harness_kind \<Rightarrow> nat \<Rightarrow> string \<Rightarrow> string" where
  "render_entries es kind limit query =
     (if es = [] then []
      else (let q = relevance_tokens query;
                ranked = (if q \<noteq> {}
                  then sort_desc (\<lambda>e. jaccard (relevance_tokens (content e)) q) (sort_desc updated_at es)
                  else es) in
        render_lines kind limit ranked))"

definition render_context_relevant :: "harness_state \<Rightarrow> harness_kind \<Rightarrow> nat \<Rightarrow> string \<Rightarrow> string" where
  "render_context_relevant s kind limit query = render_entries (entries_of kind s) kind limit query"

definition render_context :: "harness_state \<Rightarrow> harness_kind \<Rightarrow> nat \<Rightarrow> string" where
  "render_context s kind limit =
     (if entries_of kind s = [] then [] else render_lines kind limit (entries_of kind s))"

type_synonym ledger_cache = "(string, instant \<times> harness_entry list) hash_map"

definition render_context_relevant_cached ::
  "instant \<Rightarrow> instant \<Rightarrow> string \<Rightarrow> harness_state \<Rightarrow> harness_kind \<Rightarrow> nat \<Rightarrow> string \<Rightarrow> ledger_cache \<Rightarrow>
     string \<times> ledger_cache" where
  "render_context_relevant_cached now now' dir s kind limit query cache =
     (let fresh = (case hm_get dir cache of Some (t, _) \<Rightarrow> now - t < nanos 300 | None \<Rightarrow> False);
          cache' = (if \<not> fresh then hm_insert dir (now', entries_of kind s) cache else cache);
          owned = (case hm_get dir cache' of Some (_, es) \<Rightarrow> es | None \<Rightarrow> []) in
      (render_entries owned kind limit query, cache'))"

subsection \<open>Positions and removals\<close>

lemma position_some:
  "position P xs = Some i \<Longrightarrow> i < length xs \<and> P (xs ! i) \<and> (\<forall>j < i. \<not> P (xs ! j))"
proof (induction xs arbitrary: i)
  case (Cons x xs)
  show ?case
  proof (cases "P x")
    case False
    with Cons.prems obtain j where "i = Suc j" "position P xs = Some j" by auto
    with Cons.IH False show ?thesis by (auto simp: less_Suc_eq_0_disj)
  qed (use Cons.prems in simp)
qed simp

lemma position_none: "position P xs = None \<longleftrightarrow> (\<forall>x \<in> set xs. \<not> P x)"
  by (induction xs) auto

lemma position_last: "(\<forall>x \<in> set xs. \<not> P x) \<Longrightarrow> P y \<Longrightarrow> position P (xs @ [y]) = Some (length xs)"
  by (induction xs) auto

lemma position_unique:
  assumes "distinct (map f xs)" and "i < length xs" and "\<And>x. P x \<longleftrightarrow> f x = f (xs ! i)"
  shows "position P xs = Some i"
proof (cases "position P xs")
  case None
  with assms(2,3) show ?thesis by (auto simp: position_none)
next
  case (Some j)
  from position_some [OF this] assms have "j < length xs" "f (xs ! j) = f (xs ! i)" by auto
  with assms(1,2) have "j = i" by (metis distinct_conv_nth length_map nth_map)
  with Some show ?thesis by simp
qed

lemma remove_nth_last [simp]: "remove_nth (length xs) (xs @ [y]) = xs"
  by (simp add: remove_nth_def)

lemma mset_remove_nth: "i < length xs \<Longrightarrow> add_mset (xs ! i) (mset (remove_nth i xs)) = mset xs"
  by (metis add_mset_add_single append_take_drop_id id_take_nth_drop mset.simps(2) mset_append remove_nth_def
      union_mset_add_mset_right)

lemma remove_nth_step:
  assumes "j < length xs" and "P (xs ! j)"
  shows "filter (\<lambda>x. \<not> P x) (remove_nth j xs) = filter (\<lambda>x. \<not> P x) xs"
    and "Suc (length (filter P (remove_nth j xs))) = length (filter P xs)"
    and "i < j \<Longrightarrow> i < length (remove_nth j xs) \<and> remove_nth j xs ! i = xs ! i"
proof -
  have x: "xs = take j xs @ xs ! j # drop (Suc j) xs" by (rule id_take_nth_drop [OF assms(1)])
  show "filter (\<lambda>x. \<not> P x) (remove_nth j xs) = filter (\<lambda>x. \<not> P x) xs"
    by (subst (2) x) (simp add: remove_nth_def assms(2))
  show "Suc (length (filter P (remove_nth j xs))) = length (filter P xs)"
    by (subst (2) x) (simp add: remove_nth_def assms(2))
  show "i < j \<Longrightarrow> i < length (remove_nth j xs) \<and> remove_nth j xs ! i = xs ! i"
    using assms(1) by (simp add: remove_nth_def nth_append)
qed

lemma remove_descending:
  "sorted_wrt (>) js \<Longrightarrow> \<forall>j \<in> set js. j < length xs \<and> P (xs ! j) \<Longrightarrow>
     filter (\<lambda>x. \<not> P x) (fold remove_nth js xs) = filter (\<lambda>x. \<not> P x) xs
   \<and> length (filter P (fold remove_nth js xs)) + length js = length (filter P xs)"
proof (induction js arbitrary: xs)
  case (Cons j js)
  have j: "j < length xs" "P (xs ! j)" using Cons.prems(2) by auto
  have "\<forall>i \<in> set js. i < length (remove_nth j xs) \<and> P (remove_nth j xs ! i)"
    using Cons.prems remove_nth_step(3) [of j xs P, OF j] by auto
  with Cons.IH [of "remove_nth j xs"] Cons.prems(1) remove_nth_step(1,2) [of j xs P, OF j]
  show ?case by simp
qed simp

lemma enumerate_filter: "map snd (filter (\<lambda>(i, e). P e) (enumerate n es)) = filter P es"
  by (induction es arbitrary: n) auto

definition count_kind :: "harness_kind \<Rightarrow> harness_entry list \<Rightarrow> nat" where
  "count_kind kind es = length (filter (\<lambda>e. entry_kind e = kind) es)"

lemma evicted_indices:
  "distinct (evicted kind es)"
  "i \<in> set (evicted kind es) \<Longrightarrow> i < length es \<and> entry_kind (es ! i) = kind"
  "length (evicted kind es) = count_kind kind es - MAX_ENTRIES_PER_KIND"
proof -
  define pairs where "pairs = filter (\<lambda>(i, e). entry_kind e = kind) (enumerate 0 es)"
  define same where "same = map (\<lambda>(i, e). (i, updated_at e)) pairs"
  have ev: "evicted kind es = (if length same > MAX_ENTRIES_PER_KIND
      then take (length same - MAX_ENTRIES_PER_KIND) (map fst (sort_key snd same)) else [])"
    by (simp add: evicted_def same_def pairs_def)
  have fsts: "map fst same = map fst pairs" by (simp add: same_def comp_def split_beta)
  have "distinct (map fst pairs)"
    unfolding pairs_def by (rule distinct_map_filter) simp
  then have "distinct (map fst (sort_key snd same))"
    unfolding fsts [symmetric]
    using mset_eq_imp_distinct_iff [of "map fst (sort_key snd same)" "map fst same"] by simp
  then show "distinct (evicted kind es)" by (simp add: ev)
  have len: "length same = count_kind kind es"
    using arg_cong [OF enumerate_filter [of "\<lambda>e. entry_kind e = kind" 0 es], of length]
    by (simp add: same_def pairs_def count_kind_def)
  then show "length (evicted kind es) = count_kind kind es - MAX_ENTRIES_PER_KIND" by (simp add: ev)
  assume "i \<in> set (evicted kind es)"
  then have "i \<in> fst ` set same" by (auto simp: ev dest!: in_set_takeD split: if_splits)
  then have "i \<in> fst ` set pairs" by (metis fsts list.set_map)
  then show "i < length es \<and> entry_kind (es ! i) = kind"
    by (auto simp: pairs_def in_set_enumerate_eq)
qed

lemma evict_excess_kinds:
  "filter (\<lambda>e. entry_kind e \<noteq> kind) (evict_excess kind es) = filter (\<lambda>e. entry_kind e \<noteq> kind) es"
  "count_kind kind (evict_excess kind es) = min (count_kind kind es) MAX_ENTRIES_PER_KIND"
proof -
  have "sorted_wrt (<) (sort (evicted kind es))"
    using evicted_indices(1) by (simp add: strict_sorted_iff)
  then have "sorted_wrt (>) (rev (sort (evicted kind es)))" by (simp add: sorted_wrt_rev)
  moreover have "\<forall>j \<in> set (rev (sort (evicted kind es))). j < length es \<and> entry_kind (es ! j) = kind"
    using evicted_indices(2) by simp
  ultimately have
    e: "filter (\<lambda>e. \<not> entry_kind e = kind) (evict_excess kind es) = filter (\<lambda>e. \<not> entry_kind e = kind) es"
      "length (filter (\<lambda>e. entry_kind e = kind) (evict_excess kind es)) + length (evicted kind es) =
         length (filter (\<lambda>e. entry_kind e = kind) es)"
    using remove_descending [of "rev (sort (evicted kind es))" es "\<lambda>e. entry_kind e = kind"]
    unfolding evict_excess_def by simp_all
  show "filter (\<lambda>e. entry_kind e \<noteq> kind) (evict_excess kind es) = filter (\<lambda>e. entry_kind e \<noteq> kind) es"
    by (rule e(1))
  show "count_kind kind (evict_excess kind es) = min (count_kind kind es) MAX_ENTRIES_PER_KIND"
    using e(2) evicted_indices(3) [of kind es] by (simp add: count_kind_def)
qed

lemma evict_nothing: "count_kind kind es \<le> MAX_ENTRIES_PER_KIND \<Longrightarrow> evict_excess kind es = es"
  using evicted_indices(3) [of kind es] by (simp add: evict_excess_def)

subsection \<open>Refining and rolling back\<close>

lemma apply_refine_cases:
  assumes "apply_refine ser now new_id rec_id kind c0 e0 why mode s = (Ok r, s')"
  obtains
    (deleted) i where "i < length (entries s)" "before r = Some (ser (entries s ! i))" "after r = None"
      "record_id r = rec_id" "s' = \<lparr>entries = remove_nth i (entries s), refinements = refinements s @ [r]\<rparr>"
  | (updated) i e' where "i < length (entries s)" "entry_id e' = entry_id (entries s ! i)"
      "entry_kind e' = entry_kind (entries s ! i)"
      "before r = Some (ser (entries s ! i))" "after r = Some (ser e')" "record_entry r = Some (entry_id e')"
      "record_id r = rec_id" "s' = \<lparr>entries = (entries s)[i := e'], refinements = refinements s @ [r]\<rparr>"
  | (created) e where "entry_id e = new_id" "entry_kind e = kind" "before r = None" "after r = Some (ser e)"
      "record_entry r = Some new_id" "record_id r = rec_id"
      "s' = \<lparr>entries = evict_excess kind (entries s @ [e]), refinements = refinements s @ [r]\<rparr>"
proof -
  let ?pos = "position (\<lambda>e. content e = trim c0) (entries s)"
  note d = assms [unfolded apply_refine_def Let_def]
  show thesis
  proof (cases ?pos)
    case None
    define e where "e = \<lparr>entry_id = new_id, entry_kind = kind, content = trim c0, evidence = trim e0,
      created_at = now, updated_at = now\<rparr>"
    from d None show ?thesis
      by (intro created [of e]) (auto simp: e_def split: if_splits)
  next
    case (Some i)
    from position_some [OF this] have i: "i < length (entries s)" by blast
    show ?thesis
    proof (cases "mode = ''delete''")
      case True
      with d Some i show ?thesis by (auto split: if_splits intro: deleted)
    next
      case False
      with d Some i show ?thesis
        by (intro updated [of i "(entries s ! i)\<lparr>content := trim c0, evidence := trim e0, updated_at := now\<rparr>"])
          (auto split: if_splits)
    qed
  qed
qed

text \<open>
  A refinement that is accepted never leaves more than 200 entries of its kind where it created
  one, and never touches the entries of the other kinds then; a refinement without content or
  without evidence is rejected and changes nothing.
\<close>
theorem refinement_keeps_ledger_bounded:
  "(trim c0 = [] \<or> trim e0 = [] \<longrightarrow>
      (\<exists>e. apply_refine ser now new_id rec_id kind c0 e0 why mode s = (Err e, s)))
   \<and> (apply_refine ser now new_id rec_id kind c0 e0 why mode s = (Ok r, s') \<and> before r = None \<longrightarrow>
        count_kind kind (entries s') \<le> 200
      \<and> filter (\<lambda>e. entry_kind e \<noteq> kind) (entries s') = filter (\<lambda>e. entry_kind e \<noteq> kind) (entries s))"
proof (intro conjI impI)
  show "\<exists>e. apply_refine ser now new_id rec_id kind c0 e0 why mode s = (Err e, s)" if "trim c0 = [] \<or> trim e0 = []"
    using that by (auto simp: apply_refine_def Let_def)
next
  assume a: "apply_refine ser now new_id rec_id kind c0 e0 why mode s = (Ok r, s') \<and> before r = None"
  then show "count_kind kind (entries s') \<le> 200"
    by (auto elim!: apply_refine_cases simp: evict_excess_kinds(2) MAX_ENTRIES_PER_KIND_def)
  from a show "filter (\<lambda>e. entry_kind e \<noteq> kind) (entries s') = filter (\<lambda>e. entry_kind e \<noteq> kind) (entries s)"
    by (auto elim!: apply_refine_cases simp: evict_excess_kinds(1))
qed

text \<open>
  Rolling back the refinement just made restores the ledger: the entries are those from before
  (a deleted one comes back at the end), and so are the records.  This needs snapshots that can
  be read back, distinct identifiers, and, for a created entry, room for it: an entry that was
  evicted to make room is not restored.
\<close>
theorem rollback_undoes_refinement:
  assumes "\<And>e. e \<in> set (entries s) \<Longrightarrow> de (ser e) = Some e"
    and "distinct (map entry_id (entries s))" and "new_id \<notin> entry_id ` set (entries s)"
    and "rec_id \<notin> record_id ` set (refinements s)"
    and "count_kind kind (entries s) < 200"
    and "apply_refine ser now new_id rec_id kind c0 e0 why mode s = (Ok r, s')"
  shows "\<exists>s''. harness_rollback de rec_id s' = (Ok (), s'') \<and> refinements s'' = refinements s
           \<and> mset (entries s'') = mset (entries s)"
proof -
  have pos: "position (\<lambda>r. record_id r = rec_id) (refinements s @ [r]) = Some (length (refinements s))"
    if "record_id r = rec_id" for r
    using that assms(4) by (intro position_last) (metis imageI, simp)
  from assms(6) show ?thesis
  proof (cases rule: apply_refine_cases)
    case (deleted i)
    then show ?thesis
      using pos [OF deleted(4)] assms(1) mset_remove_nth [of i "entries s"]
      by (simp add: harness_rollback_def Let_def)
  next
    case (updated i e')
    let ?es = "(entries s)[i := e']"
    have "map entry_id ?es = map entry_id (entries s)"
      using updated(1,2) by (metis list_update_id map_update nth_map)
    then have "distinct (map entry_id ?es)" using assms(2) by simp
    then have "position (\<lambda>e. Some (entry_id e) = record_entry r) ?es = Some i"
      using updated(1,6) by (intro position_unique [where f = entry_id]) auto
    then show ?thesis
      using updated pos [OF updated(7)] assms(1) by (simp add: harness_rollback_def Let_def)
  next
    case (created e)
    have "count_kind kind (entries s @ [e]) \<le> MAX_ENTRIES_PER_KIND"
      using assms(5) created(2) by (simp add: count_kind_def MAX_ENTRIES_PER_KIND_def)
    then have es: "entries s' = entries s @ [e]" using created(7) by (simp add: evict_nothing)
    have "filter (\<lambda>x. entry_id x \<noteq> new_id) (entries s) = entries s"
      using assms(3) by (auto simp: filter_id_conv)
    then show ?thesis
      using es created pos [OF created(6)] by (simp add: harness_rollback_def Let_def)
  qed
qed

definition demo_entry :: harness_entry where
  "demo_entry = \<lparr>entry_id = ''i'', entry_kind = Memory, content = ''c'', evidence = ''e'',
     created_at = ''t'', updated_at = ''t''\<rparr>"

definition demo_ledger :: harness_state where
  "demo_ledger = \<lparr>entries = [demo_entry], refinements = []\<rparr>"

lemma demo_refines:
  "\<exists>r s'. apply_refine content ''u'' ''n'' ''r'' Memory ''new'' ''seen'' [] ''upsert'' demo_ledger = (Ok r, s')
     \<and> before r = None"
proof -
  have "trim ''new'' = ''new''" "trim ''seen'' = ''seen''" by code_simp+
  then show ?thesis
    by (simp add: apply_refine_def demo_ledger_def demo_entry_def Let_def MAX_ENTRY_CHARS_def)
qed

theorem refinement_keeps_ledger_bounded_witness:
  "\<exists>r s'. apply_refine content ''u'' ''n'' ''r'' Memory ''new'' ''seen'' [] ''upsert'' demo_ledger = (Ok r, s')
     \<and> count_kind Memory (entries s') \<le> 200"
  using demo_refines refinement_keeps_ledger_bounded by blast

theorem rollback_undoes_refinement_witness:
  "\<exists>s' s''. apply_refine content ''u'' ''n'' ''r'' Memory ''c'' ''seen'' [] ''delete'' demo_ledger =
        (Ok \<lparr>record_id = ''r'', record_kind = Memory, record_entry = Some ''i'', before = Some ''c'', after = None,
             reason = [], ts = ''u''\<rparr>, s')
     \<and> harness_rollback (\<lambda>_. Some demo_entry) ''r'' s' = (Ok (), s'') \<and> mset (entries s'') = mset [demo_entry]"
proof -
  obtain s' where a: "apply_refine content ''u'' ''n'' ''r'' Memory ''c'' ''seen'' [] ''delete'' demo_ledger =
        (Ok \<lparr>record_id = ''r'', record_kind = Memory, record_entry = Some ''i'', before = Some ''c'', after = None,
             reason = [], ts = ''u''\<rparr>, s')"
  proof -
    have "trim ''c'' = ''c''" "trim ''seen'' = ''seen''" by code_simp+
    then show ?thesis
      by (intro that) (simp add: apply_refine_def demo_ledger_def demo_entry_def Let_def MAX_ENTRY_CHARS_def)
  qed
  have "\<exists>s''. harness_rollback (\<lambda>_. Some demo_entry) ''r'' s' = (Ok (), s'') \<and> refinements s'' = refinements demo_ledger
           \<and> mset (entries s'') = mset (entries demo_ledger)"
    by (rule rollback_undoes_refinement [OF _ _ _ _ _ a]) (simp_all add: demo_ledger_def count_kind_def demo_entry_def)
  with a show ?thesis by (auto simp: demo_ledger_def)
qed

subsection \<open>The cached rendering\<close>

text \<open>
  The cached rendering agrees with the plain one when the cache has no fresh entry for the
  directory.  Within five minutes of such a call, a call for any other kind of entry does not
  see that kind at all: the cache remembers the entries of the first kind under the directory
  alone, so they are rendered again, under the heading of the kind that was asked for.
\<close>
theorem cached_rendering_mixes_kinds:
  assumes "hm_get dir cache = None"
    and "render_context_relevant_cached now now' dir s kind limit query cache = (out, cache')"
    and "later - now' < nanos 300"
  shows "out = render_context_relevant s kind limit query
       \<and> fst (render_context_relevant_cached later t dir s' kind' limit' query' cache') =
           render_entries (entries_of kind s) kind' limit' query'"
  using assms by (auto simp: render_context_relevant_cached_def render_context_relevant_def Let_def)

theorem cached_rendering_mixes_kinds_witness:
  "fst (render_context_relevant_cached 1 1 ''d'' demo_ledger SkillNote 5 []
      (snd (render_context_relevant_cached 0 0 ''d'' demo_ledger Memory 5 [] hm_empty))) =
     kind_tag SkillNote @ ''- c'' @ [CHR 0x0A] @ ''</harness>''
   \<and> entries_of SkillNote demo_ledger = []"
proof -
  have "fst (render_context_relevant_cached 1 1 ''d'' demo_ledger SkillNote 5 []
      (snd (render_context_relevant_cached 0 0 ''d'' demo_ledger Memory 5 [] hm_empty))) =
    render_entries (entries_of Memory demo_ledger) SkillNote 5 []"
    using cached_rendering_mixes_kinds [of "''d''" hm_empty 0 0 demo_ledger Memory 5 "[]"
        "fst (render_context_relevant_cached 0 0 ''d'' demo_ledger Memory 5 [] hm_empty)"
        "snd (render_context_relevant_cached 0 0 ''d'' demo_ledger Memory 5 [] hm_empty)" 1 1]
    by (simp add: nanos_def)
  moreover have "entries_of Memory demo_ledger = [demo_entry]" "entries_of SkillNote demo_ledger = []"
    by (simp_all add: entries_of_def sort_desc_def demo_ledger_def demo_entry_def)
  moreover have "relevance_tokens [] = {}" by code_simp
  ultimately show ?thesis by (simp add: render_entries_def render_lines_def demo_entry_def)
qed

end
