(* ===== verification/Feishu_Frame.thy ===== *)
theory Feishu_Frame
  imports Prelude "HOL-Library.Word"
begin

unbundle bit_operations_syntax

text \<open>
  The wire format of the Feishu long connection of \<open>crates/oz-platform-feishu/src/frame.rs\<close>:
  variable-length integers, the frames received and the acknowledgements sent.

  Positions are 64-bit and the release build does not check additions for overflow, so that
  \<open>pos += n + len\<close> wraps around; the decoding loops therefore run on fuel, one unit for each
  field, and \<open>None\<close> means that the fuel was used up.  Turning bytes into text
  (\<open>String::from_utf8_lossy\<close>) is the parameter \<open>lossy\<close>.
\<close>

type_synonym octet = "8 word"
type_synonym u64 = "64 word"
type_synonym i32 = "32 word"

subsection \<open>Variable-length integers\<close>

fun read_varint_from :: "u64 \<Rightarrow> nat \<Rightarrow> nat \<Rightarrow> octet list \<Rightarrow> (u64 \<times> nat) option" where
  "read_varint_from val shift i [] = None"
| "read_varint_from val shift i (b # bs) =
     (let v = val OR push_bit shift (ucast (b AND 0x7F)) in
      if b AND 0x80 = 0 then Some (v, i + 1)
      else if shift + 7 \<ge> 64 then None
      else read_varint_from v (shift + 7) (i + 1) bs)"

definition read_varint :: "octet list \<Rightarrow> (u64 \<times> nat) option" where
  "read_varint data = read_varint_from 0 0 0 data"

lemma drop_seven_smaller: "0x80 \<le> v \<Longrightarrow> unat (drop_bit 7 v) < unat v" for v :: u64
proof -
  assume "0x80 \<le> v"
  then have "128 \<le> unat v" by (simp add: word_le_nat_alt)
  then show ?thesis by (simp add: drop_bit_eq_div unat_div_distrib unat_drop_bit_eq)
qed

function write_varint :: "u64 \<Rightarrow> octet list" where
  "write_varint v =
     (if v \<ge> 0x80 then (ucast v AND 0x7F OR 0x80) # write_varint (drop_bit 7 v) else [ucast v])"
  by pat_completeness auto
termination
  by (relation "measure unat") (simp_all add: drop_seven_smaller)

declare write_varint.simps [simp del]

definition write_field_varint :: "32 word \<Rightarrow> i32 \<Rightarrow> octet list" where
  "write_field_varint field_num val =
     write_varint (ucast (push_bit 3 field_num)) @ write_varint (scast val)"

definition encode_ack_frame :: "i32 \<Rightarrow> octet list" where
  "encode_ack_frame m = write_field_varint 4 m"

fun read_i32_loop :: "u64 \<Rightarrow> nat \<Rightarrow> octet list \<Rightarrow> u64" where
  "read_i32_loop val shift [] = val"
| "read_i32_loop val shift (b # bs) =
     read_i32_loop (val OR push_bit shift (ucast (b AND 0x7F))) (shift + 7) bs"

definition read_i32_from_bytes :: "octet list \<Rightarrow> i32" where
  "read_i32_from_bytes data = ucast (read_i32_loop 0 0 (take 10 data))"

subsection \<open>Frames\<close>

record ws_frame =
  headers :: "(string, string) hash_map"
  payload_type :: string
  payload :: "octet list option"
  frame_method :: i32

definition empty_frame :: ws_frame where
  "empty_frame = \<lparr>headers = hm_empty, payload_type = [], payload = None, frame_method = 0\<rparr>"

text \<open>\<open>data.get(pos..pos.saturating_add(len))\<close>, and an addition that wraps around.\<close>

definition get_range :: "octet list \<Rightarrow> nat \<Rightarrow> u64 \<Rightarrow> octet list option" where
  "get_range data pos len =
     (if min (pos + unat len) (2 ^ 64 - 1) \<le> length data
      then Some (take (unat len) (drop pos data)) else None)"

definition wrap :: "nat \<Rightarrow> nat" where
  "wrap n = n mod 2 ^ 64"

text \<open>One field of a header: \<open>None\<close> for a broken one, else the next position, the key and the value.\<close>

definition header_field ::
  "(octet list \<Rightarrow> string) \<Rightarrow> octet list \<Rightarrow> nat \<Rightarrow> string \<Rightarrow> string \<Rightarrow> (nat \<times> string \<times> string) option" where
  "header_field lossy data pos0 key val =
     (case read_varint (drop pos0 data) of
        None \<Rightarrow> None
      | Some (tag, n0) \<Rightarrow>
          (let pos = pos0 + n0; field_num = drop_bit 3 tag; wire_type = tag AND 7 in
           case read_varint (drop pos data) of
             None \<Rightarrow> None
           | Some (len, n) \<Rightarrow>
               if field_num = 1 \<and> wire_type = 2
               then map_option (\<lambda>bs. (pos + n + unat len, lossy bs, val)) (get_range data (pos + n) len)
               else if field_num = 2 \<and> wire_type = 2
               then map_option (\<lambda>bs. (pos + n + unat len, key, lossy bs)) (get_range data (pos + n) len)
               else if wire_type = 0 then Some (pos + n, key, val)
               else if wire_type = 2 then Some (wrap (pos + wrap (n + unat len)), key, val)
               else None))"

fun decode_header_loop ::
  "nat \<Rightarrow> (octet list \<Rightarrow> string) \<Rightarrow> octet list \<Rightarrow> nat \<Rightarrow> string \<Rightarrow> string \<Rightarrow> (string \<times> string) option option" where
  "decode_header_loop 0 lossy data pos key val = None"
| "decode_header_loop (Suc fuel) lossy data pos key val =
     (if pos \<ge> length data then Some (Some (key, val))
      else (case header_field lossy data pos key val of
          None \<Rightarrow> Some None
        | Some (pos', key', val') \<Rightarrow> decode_header_loop fuel lossy data pos' key' val'))"

definition decode_header ::
  "nat \<Rightarrow> (octet list \<Rightarrow> string) \<Rightarrow> octet list \<Rightarrow> (string \<times> string) option option" where
  "decode_header fuel lossy data = decode_header_loop fuel lossy data 0 [] []"

text \<open>The ways a frame can be broken, after the messages of the code.\<close>

datatype frame_error =
    Eof_Tag | Eof_Varint | Eof_Length string | Eof_Body string | Unknown_Wire_Type u64

text \<open>
  One round of the loop of \<open>decode_frame\<close> at a position inside the data; the outer option is \<open>None\<close>
  when decoding a header does not end.
\<close>

definition decode_field ::
  "nat \<Rightarrow> (octet list \<Rightarrow> string) \<Rightarrow> octet list \<Rightarrow> nat \<Rightarrow> ws_frame \<Rightarrow>
     (frame_error, nat \<times> ws_frame) result option" where
  "decode_field fuel lossy data pos0 f =
     (case read_varint (drop pos0 data) of
        None \<Rightarrow> Some (Err Eof_Tag)
      | Some (tag, n0) \<Rightarrow>
          (let pos = pos0 + n0;
               field_num = (ucast (drop_bit 3 tag) :: 32 word);
               wire_type = tag AND 7;
               num = read_varint (drop pos data) in
           if field_num \<in> {1, 2, 3} \<and> wire_type = 0 then
             (case num of None \<Rightarrow> Some (Err Eof_Varint)
              | Some (v, n) \<Rightarrow>
                  Some (Ok (pos + n,
                    if field_num = 4
                    then f\<lparr>frame_method := read_i32_from_bytes (take n (drop pos data))\<rparr> else f)))
           else if field_num = 4 \<and> wire_type = 0 then
             (case num of None \<Rightarrow> Some (Err Eof_Varint)
              | Some (v, n) \<Rightarrow> Some (Ok (pos + n, f\<lparr>frame_method := ucast v\<rparr>)))
           else if field_num = 5 \<and> wire_type = 2 then
             (case num of None \<Rightarrow> Some (Err (Eof_Length ''header''))
              | Some (len, n) \<Rightarrow>
                  (case get_range data (pos + n) len of
                     None \<Rightarrow> Some (Err (Eof_Body ''header''))
                   | Some bs \<Rightarrow>
                       (case decode_header fuel lossy bs of
                          None \<Rightarrow> None
                        | Some kv \<Rightarrow>
                            Some (Ok (pos + n + unat len,
                              (case kv of Some (k, v) \<Rightarrow> f\<lparr>headers := hm_insert k v (headers f)\<rparr> | None \<Rightarrow> f))))))
           else if field_num = 6 \<and> wire_type = 2 then
             (case num of None \<Rightarrow> Some (Err (Eof_Length ''payload_encoding''))
              | Some (len, n) \<Rightarrow> Some (Ok (wrap (pos + wrap (n + unat len)), f)))
           else if field_num = 7 \<and> wire_type = 2 then
             (case num of None \<Rightarrow> Some (Err (Eof_Length ''payload_type''))
              | Some (len, n) \<Rightarrow>
                  (case get_range data (pos + n) len of
                     None \<Rightarrow> Some (Err (Eof_Body ''payload_type''))
                   | Some bs \<Rightarrow> Some (Ok (pos + n + unat len, f\<lparr>payload_type := lossy bs\<rparr>))))
           else if field_num = 8 \<and> wire_type = 2 then
             (case num of None \<Rightarrow> Some (Err (Eof_Length ''payload''))
              | Some (len, n) \<Rightarrow>
                  (case get_range data (pos + n) len of
                     None \<Rightarrow> Some (Err (Eof_Body ''payload''))
                   | Some bs \<Rightarrow> Some (Ok (pos + n + unat len, f\<lparr>payload := Some bs\<rparr>))))
           else if field_num = 9 \<and> wire_type = 2 then
             (case num of None \<Rightarrow> Some (Err (Eof_Length ''log_id_new''))
              | Some (len, n) \<Rightarrow> Some (Ok (wrap (pos + wrap (n + unat len)), f)))
           else if wire_type = 0 then
             (case num of None \<Rightarrow> Some (Err Eof_Varint) | Some (v, n) \<Rightarrow> Some (Ok (pos + n, f)))
           else if wire_type = 2 then
             (case num of None \<Rightarrow> Some (Err (Eof_Length ''unknown''))
              | Some (len, n) \<Rightarrow> Some (Ok (wrap (pos + wrap (n + unat len)), f)))
           else if wire_type = 1 then Some (Ok (pos + 8, f))
           else if wire_type = 5 then Some (Ok (pos + 4, f))
           else Some (Err (Unknown_Wire_Type wire_type))))"

fun decode_loop ::
  "nat \<Rightarrow> (octet list \<Rightarrow> string) \<Rightarrow> octet list \<Rightarrow> nat \<Rightarrow> ws_frame \<Rightarrow> (frame_error, ws_frame) result option" where
  "decode_loop 0 lossy data pos f = None"
| "decode_loop (Suc fuel) lossy data pos f =
     (if pos \<ge> length data then Some (Ok f)
      else (case decode_field fuel lossy data pos f of
          None \<Rightarrow> None
        | Some (Inl e) \<Rightarrow> Some (Err e)
        | Some (Inr (pos', f')) \<Rightarrow> decode_loop fuel lossy data pos' f'))"

definition decode_frame ::
  "nat \<Rightarrow> (octet list \<Rightarrow> string) \<Rightarrow> octet list \<Rightarrow> (frame_error, ws_frame) result option" where
  "decode_frame fuel lossy data = decode_loop fuel lossy data 0 empty_frame"

subsection \<open>Reading back what was written\<close>

lemma seven_bits: "(0x7F :: 'a :: len word) = mask 7"
  by (simp add: mask_eq_exp_minus_1)

lemma bit_0x80_octet: "bit (0x80 :: octet) n \<longleftrightarrow> n = 7"
proof -
  have "bit (push_bit 7 1 :: octet) n \<longleftrightarrow> n = 7" by (auto simp only: bit_push_bit_iff) (auto simp: bit_1_iff)
  then show ?thesis by (simp add: push_bit_eq_mult)
qed

lemma bit_0x80_int: "bit (0x80 :: int) n \<longleftrightarrow> n = 7"
proof -
  have "bit (push_bit 7 1 :: int) n \<longleftrightarrow> n = 7" by (auto simp only: bit_push_bit_iff) (auto simp: bit_1_iff)
  then show ?thesis by (simp add: push_bit_eq_mult)
qed

lemmas bit_0x80 = bit_0x80_octet bit_0x80_int

lemma more_bit_set: "(x AND 0x7F OR 0x80) AND 0x80 \<noteq> (0 :: octet)"
proof
  assume "(x AND 0x7F OR 0x80) AND 0x80 = (0 :: octet)"
  then have "bit ((x AND 0x7F OR 0x80) AND 0x80 :: octet) 7 = bit (0 :: octet) 7" by simp
  then show False by (simp add: bit_and_iff bit_or_iff bit_0x80)
qed

lemma payload_of_more: "(x AND 0x7F OR 0x80) AND 0x7F = (x AND 0x7F :: octet)"
  unfolding seven_bits by (rule bit_word_eqI) (auto simp: bit_and_iff bit_or_iff bit_0x80_int bit_mask_iff)

lemma payload_widens: "(ucast ((ucast v :: octet) AND 0x7F) :: u64) = v AND 0x7F"
  unfolding seven_bits by (rule bit_word_eqI) (auto simp: bit_simps)

lemma join_seven: "push_bit s (v AND 0x7F) OR push_bit (s + 7) (drop_bit 7 v) = push_bit s v" for v :: u64
proof (rule bit_word_eqI)
  fix n assume n: "n < LENGTH(64)"
  show "bit (push_bit s (v AND 0x7F) OR push_bit (s + 7) (drop_bit 7 v)) n = bit (push_bit s v) n"
  proof (cases "n - s < 7")
    case True
    with n show ?thesis unfolding seven_bits by (auto simp: bit_simps)
  next
    case False
    then have "7 + (n - (s + 7)) = n - s" by simp
    with False n show ?thesis unfolding seven_bits by (auto simp: bit_simps)
  qed
qed

lemma take_seven_small: "v < 0x80 \<Longrightarrow> take_bit 7 v = v" for v :: u64
proof -
  assume "v < 0x80"
  then have "unat v < 2 ^ 7" by (simp add: word_less_nat_alt)
  then show ?thesis by (simp add: word_eq_iff_unsigned [where 'a = nat] unsigned_take_bit_eq take_bit_nat_eq_self)
qed

lemma last_group:
  fixes v :: u64
  assumes "v < 0x80"
  shows "(ucast v :: octet) AND 0x80 = 0" and "v AND 0x7F = v"
proof -
  have "\<not> bit v 7" by (metis take_seven_small [OF assms] bit_take_bit_iff less_irrefl)
  then show "(ucast v :: octet) AND 0x80 = 0"
    by (intro bit_word_eqI) (auto simp: bit_and_iff bit_0x80 bit_ucast_iff)
  show "v AND 0x7F = v"
    using take_seven_small [OF assms] unfolding seven_bits by (simp add: take_bit_eq_mask)
qed

lemma read_write_from:
  "unat v < 2 ^ (64 - s) \<Longrightarrow> s < 64 \<Longrightarrow>
     read_varint_from acc s i (write_varint v @ rest) = Some (acc OR push_bit s v, i + length (write_varint v))"
proof (induction v arbitrary: acc s i rule: write_varint.induct)
  case (1 v)
  show ?case
  proof (cases "v \<ge> 0x80")
    case False
    then have small: "v < 0x80" by simp
    have "(ucast ((ucast v :: octet) AND 0x7F) :: u64) = v"
      by (simp only: payload_widens last_group(2) [OF small])
    with False show ?thesis
      by (simp add: write_varint.simps [of v] last_group(1) [OF small] Let_def)
  next
    case True
    then have big: "128 \<le> unat v" by (simp add: word_le_nat_alt)
    have s: "s + 7 < 64"
    proof (rule ccontr)
      assume "\<not> s + 7 < 64"
      then have "(2 :: nat) ^ (64 - s) \<le> 2 ^ 7" by (intro power_increasing) simp_all
      with 1(2) big show False by simp
    qed
    have "unat (drop_bit 7 v) = unat v div 2 ^ 7" 
      by (simp add: unat_drop_bit_eq drop_bit_eq_div [where 'a = nat])
    moreover have "(2 :: nat) ^ (64 - s) = 2 ^ (64 - (s + 7)) * 2 ^ 7"
      using s by (simp only: power_add [symmetric]) simp
    ultimately have fits: "unat (drop_bit 7 v) < 2 ^ (64 - (s + 7))"
      using 1(2) by (simp add: less_mult_imp_div_less)
    have "(ucast ((ucast v AND 0x7F OR 0x80 :: octet) AND 0x7F) :: u64) = v AND 0x7F"
      by (simp only: payload_of_more payload_widens)
    with 1(1) [OF True fits s, of "acc OR push_bit s (v AND 0x7F)" "i + 1"] True s more_bit_set [of "ucast v"]
    show ?thesis
      by (simp add: write_varint.simps [of v] Let_def or.assoc join_seven del: push_bit_and)
  qed
qed

lemma read_back: "read_varint (write_varint v @ rest) = Some (v, length (write_varint v))"
  using read_write_from [of v 0 0 0 rest] unsigned_less [of v, where 'a = nat] by (simp add: read_varint_def)

lemma read_consumes:
  "read_varint_from acc s i data = Some (v, n) \<Longrightarrow> s < 64 \<Longrightarrow>
     i < n \<and> n \<le> i + length data \<and> 7 * n + s < 71 + 7 * i"
  by (induction acc s i data rule: read_varint_from.induct) (fastforce simp: Let_def split: if_splits)+

lemma read_varint_consumes:
  assumes "read_varint data = Some (v, n)"
  shows "0 < n" "n \<le> length data" "n \<le> 10"
  using read_consumes [of 0 0 0 data v n] assms by (auto simp: read_varint_def)

text \<open>
  A 64-bit number is read back from its variable-length form, whatever follows, and exactly
  its bytes, at most ten, are consumed; and every reading of any data consumes between one and
  ten bytes that are there.
\<close>
theorem varint_roundtrip:
  "read_varint (write_varint v @ rest) = Some (v, length (write_varint v)) \<and> length (write_varint v) \<le> 10 \<and>
   (case read_varint data of None \<Rightarrow> True | Some (w, n) \<Rightarrow> 0 < n \<and> n \<le> length data \<and> n \<le> 10)"
  using read_back [of v rest] read_varint_consumes [OF read_back [of v rest]] read_varint_consumes [of data]
  by (auto split: option.splits)

lemma write_varint_nonempty: "write_varint v \<noteq> []"
  by (subst write_varint.simps) simp

lemma scast_ucast_i32: "(ucast (scast m :: u64) :: i32) = m"
  by (rule bit_word_eqI) (auto simp: bit_simps)

text \<open>
  The acknowledgement sent for a method is a frame the receiver decodes to that very method,
  negative ones included, without headers and payload.
\<close>
theorem ack_frame_roundtrip:
  "decode_frame (Suc (Suc fuel)) lossy (encode_ack_frame m) = Some (Ok (empty_frame\<lparr>frame_method := m\<rparr>))"
proof -
  let ?v = "write_varint (scast m)"
  have tag: "write_varint (ucast (push_bit 3 (4 :: 32 word))) = [0x20]"
    by (simp add: write_varint.simps push_bit_eq_mult)
  then have data: "encode_ack_frame m = 0x20 # ?v" by (simp add: encode_ack_frame_def write_field_varint_def)
  have "read_varint (0x20 # ?v) = Some (0x20, 1)"
    using read_back [of "ucast (push_bit 3 (4 :: 32 word))" ?v] tag by (simp add: push_bit_eq_mult)
  moreover have "read_varint ?v = Some (scast m, length ?v)" using read_back [of "scast m" "[]"] by simp
  moreover have "(ucast (drop_bit 3 (0x20 :: u64)) :: 32 word) = 4" "(0x20 :: u64) AND 7 = 0"
    by (simp_all add: drop_bit_eq_div)
  ultimately have "decode_field (Suc fuel) lossy (0x20 # ?v) 0 empty_frame =
      Some (Ok (1 + length ?v, empty_frame\<lparr>frame_method := ucast (scast m :: u64)\<rparr>))"
    by (simp add: decode_field_def Let_def)
  then show ?thesis
    by (simp add: decode_frame_def data scast_ucast_i32)
qed

subsection \<open>Ending and not ending\<close>












definition endless :: "octet list" where
  "endless = [0x32, 0xF5, 0xFF, 0xFF, 0xFF, 0xFF, 0xFF, 0xFF, 0xFF, 0xFF, 0x01]"

lemma endless_reads:
  "read_varint endless = Some (0x32, 1)" "read_varint (drop 1 endless) = Some (0xFFFFFFFFFFFFFFF5, 10)"
  by code_simp+

lemma endless_field: "decode_field fuel lossy endless 0 f = Some (Ok (0, f))"
  by (simp add: decode_field_def endless_reads endless_reads(2) [unfolded One_nat_def] Let_def drop_bit_eq_div wrap_def)

lemma endless_loop: "decode_loop fuel lossy endless 0 f = None"
  by (induction fuel) (simp_all add: endless_field, simp add: endless_def)




text \<open>
  Eleven bytes are enough to stop the receiver for good: a payload-encoding field whose length
  is eleven less than 2 to the 64 sends the position back to 0, so that no fuel is enough.
\<close>
theorem endless_frame: "\<forall>fuel. decode_frame fuel lossy endless = None"
  by (simp add: decode_frame_def endless_loop)

end
