(* ===== verification/Assertions.thy ===== *)
theory Assertions
  imports Tool_Outcomes
begin

text \<open>
  The acceptance assertions of \<open>crates/oz-core/src/quality.rs\<close>: the \<open>[verify]\<close> lines of a task
  specification, the policy that decides which of them may run without asking, the gate that runs
  them, and the specification the program writes itself.  A command is text, the shell that runs
  one is a parameter.  The texts of the code have characters beyond those of the model in three
  places: the dash of a refusal, the mark of a cut text and the title of a specification are
  parameters.
\<close>

subsection \<open>Reading a specification\<close>

definition MAX_ASSERTIONS :: nat where
  "MAX_ASSERTIONS = 8"

definition verify_command :: "string \<Rightarrow> string option" where
  "verify_command line =
     (let t = trim line in
      case (case strip_prefix ''[verify]'' t of None \<Rightarrow> strip_prefix ''[VERIFY]'' t | Some c \<Rightarrow> Some c) of
        None \<Rightarrow> None
      | Some c \<Rightarrow> if trim c \<noteq> [] then Some (trim c) else None)"

definition load_assertions :: "string \<Rightarrow> string list" where
  "load_assertions spec = take MAX_ASSERTIONS (List.map_filter verify_command (rust_lines spec))"

text \<open>The lines taken out of a model's reply, and the specification made of them.\<close>

definition extract_verify_lines :: "string \<Rightarrow> string list" where
  "extract_verify_lines raw =
     take MAX_ASSERTIONS (filter (\<lambda>c. c \<noteq> [])
       (List.map_filter (\<lambda>l. map_option trim (strip_prefix ''[verify]'' (trim l))) (rust_lines raw)))"

definition auto_spec_body :: "string \<Rightarrow> string list \<Rightarrow> string" where
  "auto_spec_body title ls =
     concat (map (\<lambda>l. l @ [CHR 0x0A])
       ([''<!-- auto-synthesized by quality gate (QA-1); edit freely -->'', [], ''# '' @ title, []]
        @ map (\<lambda>l. ''- [verify] '' @ l) ls))"

definition write_auto_spec :: "string \<Rightarrow> string list \<Rightarrow> string option" where
  "write_auto_spec title ls = (if ls = [] then None else Some (auto_spec_body title ls))"

subsection \<open>The policy\<close>

definition ASSERTION_ALLOWED :: "string list" where
  "ASSERTION_ALLOWED =
    [''test '', ''test -'', ''[ '', ''python3 -m py_compile'', ''python -m py_compile'', ''python3 -m pytest'',
     ''cargo check'', ''cargo test'', ''cargo clippy'', ''cargo build'', ''npm test'', ''npm run test'',
     ''npm run build'', ''npm run lint'', ''node --check'', ''npx tsc --noEmit'', ''tsc --noEmit'', ''pytest'',
     ''go build'', ''go test'', ''go vet'', ''ruff check'', ''mypy'', ''grep '', ''ls '', ''wc '', ''jq '', ''file '',
     ''git status'', ''git diff'', ''git log'']"

definition ASSERTION_FORBIDDEN_SEQUENCES :: "string list" where
  "ASSERTION_FORBIDDEN_SEQUENCES =
    [''|'', '';'', ''&&'', ''||'', ''$('', [CHR 0x60], ''>'', ''<'', [CHR 0x0A], ''&'', ''${'', ''$['']"

definition ASSERTION_FORBIDDEN_WORDS :: "string list" where
  "ASSERTION_FORBIDDEN_WORDS =
    [''curl'', ''wget'', ''nc '', ''ncat'', ''netcat'', ''socat'', ''rm -rf'', ''rm -f'', ''rm -r'', ''sudo'', ''doas'',
     ''chmod'', ''chown'', ''git push'', ''sh -c'', ''bash -c'', ''zsh -c'', ''eval '', ''mkfs'', ''dd if='', ''kill '',
     ''pkill'', ''killall'', ''osascript'', ''python3 -c'', ''python -c'', ''node -e'', ''perl -e'', ''ruby -e'', ''open '',
     ''launchctl'', ''crontab'', ''ssh '', ''scp '', ''rsync '', ''/etc/'', ''~/.ssh'', ''.ssh/'']"

definition ALLOWED_ABS_PREFIXES :: "string list" where
  "ALLOWED_ABS_PREFIXES =
    [''/tmp'', ''/private/tmp'', ''/var/tmp'', ''/var/folders'', ''/private/var/folders'', ''/dev/null'']"

datatype refusal =
  Empty_Assertion | Metacharacter string | Forbidden_Token string | Outside_Path string | Not_Listed string

fun refusal_text :: "string \<Rightarrow> refusal \<Rightarrow> string" where
  "refusal_text dash Empty_Assertion = ''empty assertion''"
| "refusal_text dash (Metacharacter s) =
     ''contains shell metacharacter `'' @ s @ ''` '' @ dash @ '' assertions must be a single command''"
| "refusal_text dash (Forbidden_Token w) = ''contains forbidden token `'' @ w @ ''`''"
| "refusal_text dash (Outside_Path t) = ''references an absolute path outside the project: `'' @ t @ ''`''"
| "refusal_text dash (Not_Listed t) =
     ''`'' @ t @ ''` is not on the read-only/build allow-list '' @ dash @ '' needs approval''"

definition outside_token :: "string \<Rightarrow> string option" where
  "outside_token token =
     (let t = trim_matches (\<lambda>c. c = CHR 0x22 \<or> c = CHR 0x27) token in
      if prefix ''/'' t \<and> \<not> prefix ''./'' t \<and> \<not> list_ex (\<lambda>p. prefix p t) ALLOWED_ABS_PREFIXES
      then Some t else None)"

definition matches_entry :: "string \<Rightarrow> string \<Rightarrow> bool" where
  "matches_entry lower entry =
     (let p = to_lowercase entry in
      case strip_prefix p lower of
        None \<Rightarrow> False
      | Some rest \<Rightarrow> (p \<noteq> [] \<and> is_ws (last p)) \<or> rest = [] \<or> is_ws (hd rest))"

definition assertion_is_allowed :: "string \<Rightarrow> string \<Rightarrow> (refusal, unit) result" where
  "assertion_is_allowed cut_mark cmd =
     (let t = trim cmd; lower = to_lowercase t in
      if t = [] then Err Empty_Assertion
      else case find (\<lambda>s. contains_str s t) ASSERTION_FORBIDDEN_SEQUENCES of
        Some s \<Rightarrow> Err (Metacharacter s)
      | None \<Rightarrow>
        (case find (\<lambda>w. contains_str w lower) ASSERTION_FORBIDDEN_WORDS of
          Some w \<Rightarrow> Err (Forbidden_Token w)
        | None \<Rightarrow>
          (case List.map_filter outside_token (drop 1 (split_whitespace t)) of
            p # ps \<Rightarrow> Err (Outside_Path p)
          | [] \<Rightarrow>
              if list_ex (matches_entry lower) ASSERTION_ALLOWED then Ok ()
              else Err (Not_Listed (truncate_text cut_mark t 80)))))"

subsection \<open>The gate\<close>

text \<open>\<open>run\<close> is the shell: success and output, or \<open>None\<close> when the time is over.\<close>

record assertion_outcome =
  ao_total :: nat
  ao_failures :: "(string \<times> string) list"
  ao_blocked :: "(string \<times> refusal) list"
  ao_needs_approval :: "string list"

definition no_outcome :: "nat \<Rightarrow> assertion_outcome" where
  "no_outcome n = \<lparr>ao_total = n, ao_failures = [], ao_blocked = [], ao_needs_approval = []\<rparr>"

definition ao_passed :: "assertion_outcome \<Rightarrow> nat" where
  "ao_passed o1 =
     ao_total o1 - length (ao_failures o1) - length (ao_blocked o1) - length (ao_needs_approval o1)"

datatype assertion_status =
  A_Passed | A_Failed | A_Blocked | A_Needs_Approval | A_Synthesis_Failed | A_No_Spec | A_Not_Run

definition ao_status :: "assertion_outcome \<Rightarrow> assertion_status" where
  "ao_status o1 =
     (if ao_total o1 = 0 then A_No_Spec
      else if ao_blocked o1 \<noteq> [] then A_Blocked
      else if ao_needs_approval o1 \<noteq> [] then A_Needs_Approval
      else if ao_failures o1 = [] then A_Passed else A_Failed)"

definition TIMED_OUT_TEXT :: string where
  "TIMED_OUT_TEXT = ''<verify timed out after 60s>''"

definition check_assertion ::
  "string \<Rightarrow> string \<Rightarrow> (string \<Rightarrow> (bool \<times> string) option) \<Rightarrow> string \<Rightarrow> assertion_outcome \<Rightarrow> assertion_outcome" where
  "check_assertion dash cut_mark run cmd o1 =
     (case assertion_is_allowed cut_mark cmd of
        Inl why \<Rightarrow>
          if contains_str ''allow-list'' (refusal_text dash why)
          then o1\<lparr>ao_needs_approval := ao_needs_approval o1 @ [cmd]\<rparr>
          else o1\<lparr>ao_blocked := ao_blocked o1 @ [(cmd, why)]\<rparr>
      | Inr _ \<Rightarrow>
          (let (passed, output) = (case run cmd of Some r \<Rightarrow> r | None \<Rightarrow> (False, TIMED_OUT_TEXT)) in
           if passed then o1 else o1\<lparr>ao_failures := ao_failures o1 @ [(cmd, output)]\<rparr>))"

definition run_assertion_gate_checked ::
  "string \<Rightarrow> string \<Rightarrow> (string \<Rightarrow> (bool \<times> string) option) \<Rightarrow> string \<Rightarrow> assertion_outcome" where
  "run_assertion_gate_checked dash cut_mark run spec =
     (let cs = load_assertions spec in fold (check_assertion dash cut_mark run) cs (no_outcome (length cs)))"

subsection \<open>The program's own specification is not read back\<close>

lemma verify_command_other: "c \<noteq> CHR ''['' \<Longrightarrow> \<not> is_ws c \<Longrightarrow> verify_command (c # l) = None"
  using trim_fixed_hd [of c l] by (cases "trim (c # l)") (auto simp: verify_command_def strip_prefix_def)

lemma verify_command_other_cr:
  assumes "c \<noteq> CHR ''[''" and "\<not> is_ws c"
  shows "verify_command (strip_cr (c # l)) = None"
proof (cases "strip_cr (c # l)")
  case Nil
  then show ?thesis by (simp add: verify_command_def trim_def strip_prefix_def)
next
  case (Cons d l')
  then have "d = c" by (auto simp: strip_cr_def split: if_splits)
  with Cons verify_command_other [OF assms] show ?thesis by simp
qed

lemma extracted_line:
  assumes "c \<in> set (extract_verify_lines raw)"
  shows "CHR 0x0A \<notin> set c"
proof -
  obtain l r where l: "l \<in> set (rust_lines raw)" "strip_prefix ''[verify]'' (trim l) = Some r" "c = trim r"
    using assms by (auto simp: extract_verify_lines_def map_filter_def dest!: in_set_takeD)
  have "set c \<subseteq> set l"
    using l set_trim [of r] set_trim [of l] by (auto simp: strip_prefix_def split: if_splits dest!: in_set_dropD)
  then show ?thesis using rust_lines_pieces [OF l(1)] by blast
qed

text \<open>
  When the agent has written no specification, the program asks a model for assertions and
  writes them to a specification of its own.  The reader of specifications finds none in it,
  because every line of the list starts with a dash: the gate that follows has nothing to run, and
  reports that there is no specification.
\<close>
theorem auto_spec_is_not_read:
  assumes "CHR 0x0A \<notin> set title"
  shows "case write_auto_spec title (extract_verify_lines raw) of
      None \<Rightarrow> extract_verify_lines raw = []
    | Some spec \<Rightarrow> load_assertions spec = []
        \<and> ao_status (run_assertion_gate_checked dash cut_mark run spec) = A_No_Spec"
proof -
  let ?ls = "extract_verify_lines raw"
  let ?all = "[''<!-- auto-synthesized by quality gate (QA-1); edit freely -->'', [], ''# '' @ title, []]
        @ map (\<lambda>l. ''- [verify] '' @ l) ?ls"
  have "\<forall>l \<in> set ?all. CHR 0x0A \<notin> set l" using assms extracted_line by auto
  then have lines: "rust_lines (auto_spec_body title ?ls) = map strip_cr ?all"
    unfolding auto_spec_body_def by (rule rust_lines_concat)
  have empty: "verify_command (strip_cr []) = None"
    by (simp add: verify_command_def strip_cr_def trim_def strip_prefix_def)
  have other: "verify_command (strip_cr (c # l)) = None" if "c \<in> {CHR ''<'', CHR ''#'', CHR ''-''}" for c l
    using that by (intro verify_command_other_cr) (auto simp: is_ws_def)
  have "List.map_filter verify_command (map strip_cr ?all) = []"
    using empty other by (auto simp: map_filter_def filter_empty_conv)
  then have "load_assertions (auto_spec_body title ?ls) = []"
    by (simp add: load_assertions_def lines)
  then show ?thesis
    by (simp add: write_auto_spec_def run_assertion_gate_checked_def no_outcome_def ao_status_def)
qed

theorem auto_spec_is_not_read_witness:
  "extract_verify_lines ''[verify] cargo check'' = [''cargo check'']
   \<and> load_assertions (auto_spec_body ''Acceptance'' [''cargo check'']) = []"
proof -
  have e: "extract_verify_lines ''[verify] cargo check'' = [''cargo check'']" by code_simp
  with auto_spec_is_not_read [of "''Acceptance''" "''[verify] cargo check''"] show ?thesis
    by (simp add: write_auto_spec_def)
qed

subsection \<open>What the policy lets through\<close>









text \<open>Arguments that climb out with \<open>..\<close> are not absolute, and the listed prefixes are compared as text.\<close>

definition climbing :: "nat \<Rightarrow> string" where
  "climbing n = ''grep -r key '' @ concat (replicate n ''../'')"

lemma climbing_chars: "set (climbing n) \<subseteq> set ''grep -r key ./''"
  by (auto simp: climbing_def)

lemma climbing_lower: "to_lowercase (climbing n) = climbing n"
  by (induction n) (simp_all add: climbing_def to_lowercase_def lower_char_def)

lemma climbing_words: "split_whitespace (climbing n) = [''grep'', ''-r'', ''key''] @ split_whitespace (concat (replicate n ''../''))"
  using split_whitespace_first [of "''grep''" "CHR '' ''" "''-r'' @ CHR '' '' # ''key'' @ CHR '' '' # concat (replicate n ''../'')"]
    split_whitespace_first [of "''-r''" "CHR '' ''" "''key'' @ CHR '' '' # concat (replicate n ''../'')"]
    split_whitespace_first [of "''key''" "CHR '' ''" "concat (replicate n ''../'')"]
  by (simp add: is_ws_def climbing_def)

lemma climbing_path: "split_whitespace (concat (replicate (Suc n) ''../'')) = [concat (replicate (Suc n) ''../'')]"
  by (rule split_whitespace_word) (auto simp: is_ws_def)

lemma climbing_trim: "n > 0 \<Longrightarrow> trim (climbing n) = climbing n"
proof -
  assume "n > 0"
  then obtain m where n: "n = Suc m" by (cases n) auto
  have "climbing n = ''grep -r key '' @ concat (replicate m ''../'') @ ''../''"
    by (simp add: n climbing_def replicate_append_same [symmetric])
  then have "rev (climbing n) = ''/..'' @ rev (''grep -r key '' @ concat (replicate m ''../''))" by simp
  then have "dropWhile is_ws (rev (climbing n)) = rev (climbing n)" by (simp add: is_ws_def)
  moreover have "dropWhile is_ws (climbing n) = climbing n" by (simp add: climbing_def is_ws_def)
  ultimately show ?thesis by (simp add: trim_def)
qed

text \<open>
  The policy is meant to keep assertions inside the project, but only arguments that begin
  with a slash are looked at: a search may climb any number of directories, an allowed prefix may
  be followed by \<open>..\<close>, and \<open>git diff\<close> may write its output to a file.
\<close>
theorem policy_lets_paths_escape:
  "assertion_is_allowed cut_mark (climbing (Suc n)) = Ok ()
   \<and> assertion_is_allowed cut_mark ''ls /tmp/../home'' = Ok ()
   \<and> assertion_is_allowed cut_mark ''git diff --output=../run.sh'' = Ok ()"
proof -
  let ?c = "climbing (Suc n)"
  have seqs: "find (\<lambda>s. contains_str s ?c) ASSERTION_FORBIDDEN_SEQUENCES = None"
    using climbing_chars [of "Suc n"]
    by (auto simp: find_None_iff ASSERTION_FORBIDDEN_SEQUENCES_def dest!: contains_str_chars)
  have words: "find (\<lambda>w. contains_str w ?c) ASSERTION_FORBIDDEN_WORDS = None"
    using climbing_chars [of "Suc n"]
    by (auto simp: find_None_iff ASSERTION_FORBIDDEN_WORDS_def dest!: contains_str_chars)
  have paths: "List.map_filter outside_token (drop 1 (split_whitespace ?c)) = []"
  proof -
    have "trim_matches (\<lambda>c. c = CHR 0x22 \<or> c = CHR 0x27) (concat (replicate (Suc n) ''../'')) = concat (replicate (Suc n) ''../'')"
      by (rule trim_matches_none) auto
    then have "outside_token (concat (replicate (Suc n) ''../'')) = None"
      by (simp add: outside_token_def)
    moreover have "outside_token ''-r'' = None" "outside_token ''key'' = None" by code_simp+
    ultimately show ?thesis by (simp only: climbing_words climbing_path) (simp add: map_filter_simps)
  qed
  have "matches_entry ?c ''grep ''" by (simp add: matches_entry_def strip_prefix_def to_lowercase_def lower_char_def climbing_def is_ws_def)
  then have listed: "list_ex (matches_entry ?c) ASSERTION_ALLOWED"
    by (auto simp: list_ex_iff ASSERTION_ALLOWED_def)
  have "?c \<noteq> []" by (simp add: climbing_def)
  then have "assertion_is_allowed cut_mark ?c = Ok ()"
    using seqs words paths listed
    by (simp only: assertion_is_allowed_def climbing_trim [of "Suc n", simplified] climbing_lower Let_def) simp
  moreover have "assertion_is_allowed cut_mark ''ls /tmp/../home'' = Ok ()" by code_simp
  moreover have "assertion_is_allowed cut_mark ''git diff --output=../run.sh'' = Ok ()" by code_simp
  ultimately show ?thesis by simp
qed

subsection \<open>What the gate runs and reports\<close>

lemma gate_fold:
  assumes "\<forall>c. assertion_is_allowed cut_mark c = Ok () \<longrightarrow> run c = run' c"
  shows "fold (check_assertion dash cut_mark run) cs o1 = fold (check_assertion dash cut_mark run') cs o1"
proof -
  have "check_assertion dash cut_mark run c o1 = check_assertion dash cut_mark run' c o1" for c o1
    using assms by (auto simp: check_assertion_def split: sum.split)
  then show ?thesis by (induction cs arbitrary: o1) simp_all
qed

lemma check_counts:
  "ao_total (check_assertion dash cut_mark run c o1) = ao_total o1"
  "length (ao_failures (check_assertion dash cut_mark run c o1)) + length (ao_blocked (check_assertion dash cut_mark run c o1))
     + length (ao_needs_approval (check_assertion dash cut_mark run c o1))
   = length (ao_failures o1) + length (ao_blocked o1) + length (ao_needs_approval o1)
     + (if assertion_is_allowed cut_mark c = Ok () \<and> (\<exists>out. run c = Some (True, out)) then 0 else 1)"
  by (auto simp: check_assertion_def Let_def split: sum.split option.split prod.split)

lemma gate_counts:
  "ao_total (fold (check_assertion dash cut_mark run) cs o1) = ao_total o1
   \<and> length (ao_failures (fold (check_assertion dash cut_mark run) cs o1))
     + length (ao_blocked (fold (check_assertion dash cut_mark run) cs o1))
     + length (ao_needs_approval (fold (check_assertion dash cut_mark run) cs o1))
   = length (ao_failures o1) + length (ao_blocked o1) + length (ao_needs_approval o1)
     + length (filter (\<lambda>c. \<not> (assertion_is_allowed cut_mark c = Ok () \<and> (\<exists>out. run c = Some (True, out)))) cs)"
  by (induction cs arbitrary: o1) (simp_all add: check_counts)

lemma filter_length_split: "length (filter P cs) + length (filter (\<lambda>c. \<not> P c) cs) = length cs"
  by (induction cs) auto

text \<open>
  A command the policy refuses is never run: what the shell would do with it has no influence
  on the outcome.  The outcome counts as passed exactly the assertions that were allowed and
  succeeded, and its status is a pass only if that is every assertion and there is at least one.
\<close>
theorem assertion_gate_contract:
  assumes "\<forall>c. assertion_is_allowed cut_mark c = Ok () \<longrightarrow> run c = run' c"
  shows "run_assertion_gate_checked dash cut_mark run spec = run_assertion_gate_checked dash cut_mark run' spec
    \<and> ao_passed (run_assertion_gate_checked dash cut_mark run spec) =
        length (filter (\<lambda>c. assertion_is_allowed cut_mark c = Ok () \<and> (\<exists>out. run c = Some (True, out))) (load_assertions spec))
    \<and> (ao_status (run_assertion_gate_checked dash cut_mark run spec) = A_Passed \<longleftrightarrow>
        load_assertions spec \<noteq> [] \<and> ao_passed (run_assertion_gate_checked dash cut_mark run spec) = length (load_assertions spec))"
proof -
  let ?good = "\<lambda>c. assertion_is_allowed cut_mark c = Ok () \<and> (\<exists>out. run c = Some (True, out))"
  let ?cs = "load_assertions spec" and ?o = "run_assertion_gate_checked dash cut_mark run spec"
  have same: "run_assertion_gate_checked dash cut_mark run spec = run_assertion_gate_checked dash cut_mark run' spec"
    using gate_fold [OF assms] by (simp add: run_assertion_gate_checked_def Let_def)
  have total: "ao_total ?o = length ?cs"
    and counts: "length (ao_failures ?o) + length (ao_blocked ?o) + length (ao_needs_approval ?o) = length (filter (\<lambda>c. \<not> ?good c) ?cs)"
    using gate_counts [of dash cut_mark run ?cs "no_outcome (length ?cs)"]
    by (simp_all add: run_assertion_gate_checked_def no_outcome_def Let_def)
  have passed: "ao_passed ?o = length (filter ?good ?cs)"
    using counts filter_length_split [of ?good ?cs] unfolding ao_passed_def total by linarith
  have "ao_passed ?o = length ?cs \<longleftrightarrow> ao_failures ?o = [] \<and> ao_blocked ?o = [] \<and> ao_needs_approval ?o = []"
    using counts filter_length_split [of ?good ?cs] unfolding passed
    by (metis (no_types, lifting) add_cancel_left_right add_eq_0_iff_both_eq_0 length_0_conv)
  then show ?thesis using same passed total by (auto simp: ao_status_def)
qed

theorem assertion_gate_contract_witness:
  "ao_passed (run_assertion_gate_checked [] [] (\<lambda>_. Some (True, [])) (''[verify] cargo check'' @ [CHR 0x0A] @ ''[verify] curl x'')) = 1"
proof -
  have f: "length (filter (\<lambda>c. assertion_is_allowed [] c = Ok () \<and> (\<exists>out. Some (True, []) = Some (True, out)))
      (load_assertions (''[verify] cargo check'' @ [CHR 0x0A] @ ''[verify] curl x''))) = 1"
  proof -
    have l: "load_assertions (''[verify] cargo check'' @ [CHR 0x0A] @ ''[verify] curl x'') = [''cargo check'', ''curl x'']"
      by code_simp
    have "assertion_is_allowed [] ''cargo check'' = Ok ()" "assertion_is_allowed [] ''curl x'' = Err (Forbidden_Token ''curl'')"
      by code_simp+
    then show ?thesis unfolding l by simp
  qed
  show ?thesis
    using assertion_gate_contract [of "[]" "\<lambda>_. Some (True, [])" "\<lambda>_. Some (True, [])" "[]"] f by simp
qed

text \<open>
  The class of a refusal is taken from its text, so that a command outside the project whose path
  contains the words the code looks for counts as one that only needs approval.
\<close>

lemma refusal_class_by_text:
  "ao_blocked (run_assertion_gate_checked dash cut_mark run ''[verify] ls /x/allow-list'') = []
   \<and> ao_needs_approval (run_assertion_gate_checked dash cut_mark run ''[verify] ls /x/allow-list'') = [''ls /x/allow-list'']"
proof -
  have l: "load_assertions ''[verify] ls /x/allow-list'' = [''ls /x/allow-list'']" by code_simp
  have a: "assertion_is_allowed cut_mark ''ls /x/allow-list'' = Err (Outside_Path ''/x/allow-list'')" by code_simp
  show ?thesis by (simp add: run_assertion_gate_checked_def l check_assertion_def a no_outcome_def)
qed

subsection \<open>Feedback to the agent\<close>

datatype feedback =
    Policy_Feedback "(string \<times> refusal) list" "string list"
  | Assertion_Feedback nat nat "(string \<times> string) list"

definition format_assertion_policy_feedback :: "(feedback \<Rightarrow> string) \<Rightarrow> assertion_outcome \<Rightarrow> string option" where
  "format_assertion_policy_feedback word o1 =
     (if ao_blocked o1 = [] \<and> ao_needs_approval o1 = [] then None
      else Some (word (Policy_Feedback (ao_blocked o1) (ao_needs_approval o1))))"

definition format_assertion_feedback :: "(feedback \<Rightarrow> string) \<Rightarrow> string \<Rightarrow> (string \<times> string) list \<Rightarrow> nat \<Rightarrow> string" where
  "format_assertion_feedback word cut_mark failures n =
     word (Assertion_Feedback (length failures) n (map (\<lambda>(c, t). (c, truncate_text cut_mark t 1500)) failures))"

subsection \<open>Whose specification it is\<close>

text \<open>The file: its text, and the time of its last change in nanoseconds where the system tells it.\<close>

record spec_file =
  spec_text :: string
  spec_mtime :: "int option"

definition SPEC_META_PREFIX :: string where
  "SPEC_META_PREFIX = ''<!-- openzen-spec:''"

definition spec_front_matter :: "(json \<Rightarrow> string) \<Rightarrow> string \<Rightarrow> string \<Rightarrow> string \<Rightarrow> string \<Rightarrow> string" where
  "spec_front_matter json_text cut_mark session task now =
     SPEC_META_PREFIX @ '' '' @ json_text (JObj [(''session_id'', JStr session),
       (''task'', JStr (truncate_text cut_mark (trim task) 120)), (''written_at'', JStr now)]) @ '' -->'' @ [CHR 0x0A]"

definition spec_meta :: "(string \<Rightarrow> json option) \<Rightarrow> string \<Rightarrow> json option" where
  "spec_meta parse t =
     (case rust_lines t of
        [] \<Rightarrow> None
      | l # ls \<Rightarrow>
          (case strip_prefix SPEC_META_PREFIX (trim l) of
             None \<Rightarrow> None
           | Some b \<Rightarrow> (case strip_suffix ''-->'' b of None \<Rightarrow> None | Some b \<Rightarrow> parse (trim b))))"

definition same_session :: "(string \<Rightarrow> json option) \<Rightarrow> string \<Rightarrow> string \<Rightarrow> bool" where
  "same_session parse session t =
     (case spec_meta parse t of
        None \<Rightarrow> False
      | Some m \<Rightarrow> (case str_arg m ''session_id'' of Some s \<Rightarrow> session \<noteq> [] \<and> s = session | None \<Rightarrow> False))"

definition is_fresh :: "int \<Rightarrow> spec_file \<Rightarrow> bool" where
  "is_fresh started f =
     (case spec_mtime f of None \<Rightarrow> False | Some m \<Rightarrow> m \<ge> started \<or> started - m < 2 * 10 ^ 9)"

text \<open>The specification of the run, and whether the file was moved away.\<close>

definition read_spec_for_run ::
  "(string \<Rightarrow> json option) \<Rightarrow> string \<Rightarrow> int \<Rightarrow> spec_file option \<Rightarrow> string option \<times> bool" where
  "read_spec_for_run parse session started sf =
     (case sf of
        None \<Rightarrow> (None, False)
      | Some f \<Rightarrow>
          if same_session parse session (spec_text f) \<or> is_fresh started f then (Some (spec_text f), False)
          else (None, True))"

lemma trim_core:
  assumes "s \<noteq> []" and "\<not> is_ws (hd s)" and "\<not> is_ws (last s)"
    and "\<forall>c \<in> set u. is_ws c" and "\<forall>c \<in> set v. is_ws c"
  shows "trim (u @ s @ v) = s"
proof -
  have front: "dropWhile is_ws (u @ s @ v) = s @ v"
    using assms(1,2,4) by (cases s) simp_all
  have "dropWhile is_ws (rev v @ rev s) = rev s"
    using assms(1,3,5) dropWhile_append2 [of "rev v" is_ws "rev s"] by (cases s rule: rev_cases) simp_all
  then show ?thesis by (simp add: trim_def front)
qed

text \<open>
  The front matter is read back as it was written, and makes the specification the one of its
  session in every later run, however old the file is.
\<close>
lemma front_matter_roundtrip:
  assumes "\<And>j. parse (json_text j) = Some j"
    and "\<And>m. json_text (JObj m) \<noteq> [] \<and> hd (json_text (JObj m)) = CHR ''{'' \<and> last (json_text (JObj m)) = CHR ''}'' \<and> CHR 0x0A \<notin> set (json_text (JObj m))"
    and "session \<noteq> []"
  shows "read_spec_for_run parse session started
      (Some \<lparr>spec_text = spec_front_matter json_text cut_mark session task now @ rest, spec_mtime = mt\<rparr>)
    = (Some (spec_front_matter json_text cut_mark session task now @ rest), False)"
proof -
  define m where "m = [(''session_id'', JStr session), (''task'', JStr (truncate_text cut_mark (trim task) 120)), (''written_at'', JStr now)]"
  let ?j = "json_text (JObj m)"
  let ?l = "SPEC_META_PREFIX @ '' '' @ ?j @ '' -->''"
  note law = assms(2) [of m]
  have no_lf: "\<forall>c \<in> set ?l. c \<noteq> CHR 0x0A" using law by (auto simp: SPEC_META_PREFIX_def)
  have t: "spec_front_matter json_text cut_mark session task now @ rest = ?l @ CHR 0x0A # rest"
    by (simp add: spec_front_matter_def m_def)
  have cr: "strip_cr ?l = ?l" by (simp add: strip_cr_def)
  have tl: "trim ?l = ?l" using trim_core [of ?l "[]" "[]"] by (simp add: SPEC_META_PREFIX_def is_ws_def)
  have tj: "trim ('' '' @ ?j @ '' '') = ?j" using law by (intro trim_core) (auto simp: is_ws_def)
  have b: "strip_prefix SPEC_META_PREFIX ?l = Some ('' '' @ ?j @ '' -->'')" by (simp add: strip_prefix_def)
  have e: "strip_suffix ''-->'' ('' '' @ ?j @ '' -->'') = Some ('' '' @ ?j @ '' '')"
    by (simp add: strip_suffix_def suffix_def)
  have "spec_meta parse (?l @ CHR 0x0A # rest) = Some (JObj m)"
    unfolding spec_meta_def split_on_snoc_line [OF no_lf] cr
    by (simp only: list.case tl b option.case e tj assms(1))
  then have "same_session parse session (?l @ CHR 0x0A # rest)"
    using assms(3) by (simp add: same_session_def m_def str_arg_def)
  then show ?thesis by (simp add: read_spec_for_run_def t)
qed

text \<open>
  A specification is taken as the run's own whenever the file changed since the run began, also
  when its front matter names another session; the comment reserves this for specifications
  without front matter.
\<close>
lemma foreign_spec_is_taken:
  assumes "spec_mtime f = Some m" and "m \<ge> started"
  shows "read_spec_for_run parse session started (Some f) = (Some (spec_text f), False)"
  using assms by (simp add: read_spec_for_run_def is_fresh_def)

lemma stale_spec_is_moved:
  assumes "spec_mtime f = Some m" and "started - m \<ge> 2 * 10 ^ 9" and "spec_meta parse (spec_text f) = None"
  shows "read_spec_for_run parse session started (Some f) = (None, True)"
  using assms by (simp add: read_spec_for_run_def is_fresh_def same_session_def)

end
