(* ===== verification/Review.thy ===== *)
theory Review
  imports Assertions
begin

text \<open>
  The independent review of \<open>crates/oz-core/src/quality.rs\<close>: the verdict read from the reviewer's
  answer, the evidence the reviewer is given, and the outcome a run reports about its quality.
  The JSON parser is a parameter; texts the program writes in the user's language are named by
  constructors and worded by a parameter.
\<close>

subsection \<open>Verdicts\<close>

datatype review_status = R_Passed | R_Failed | R_Insufficient | R_Unavailable | R_Not_Run

fun review_status_text :: "review_status \<Rightarrow> string" where
  "review_status_text R_Passed = ''passed''"
| "review_status_text R_Failed = ''failed''"
| "review_status_text R_Insufficient = ''insufficient_evidence''"
| "review_status_text R_Unavailable = ''unavailable''"
| "review_status_text R_Not_Run = ''not_run''"

definition review_is_verified :: "review_status \<Rightarrow> bool" where
  "review_is_verified r \<longleftrightarrow> r = R_Passed"

record review_issue =
  issue_severity :: string
  issue_item :: string

record review_verdict =
  rv_pass :: bool
  rv_issues :: "review_issue list"
  rv_status :: review_status
  rv_derived :: bool

definition is_high :: "review_issue \<Rightarrow> bool" where
  "is_high i \<longleftrightarrow> issue_severity i = ''high''"

definition review_requires_fix :: "review_verdict \<Rightarrow> bool" where
  "review_requires_fix v \<longleftrightarrow> rv_status v = R_Failed \<or> list_ex is_high (rv_issues v)"

definition strip_or :: "(string \<Rightarrow> string option) \<Rightarrow> string \<Rightarrow> string \<Rightarrow> string" where
  "strip_or f d s = (case f s of Some t \<Rightarrow> t | None \<Rightarrow> d)"

text \<open>Every step of the chain falls back to the whole text, not to the result of the step before.\<close>

definition strip_markdown_fence :: "string \<Rightarrow> string" where
  "strip_markdown_fence s0 =
     (let s = trim s0 in
      trim (strip_or (strip_suffix ''```'') s
        (strip_or (strip_prefix ''```'') s
          (strip_or (strip_prefix ''```JSON'') s
            (strip_or (strip_prefix ''```json'') s s)))))"

definition find_char :: "char \<Rightarrow> string \<Rightarrow> nat option" where
  "find_char c s = (if c \<in> set s then Some (length (takeWhile (\<lambda>d. d \<noteq> c) s)) else None)"

definition rfind_char :: "char \<Rightarrow> string \<Rightarrow> nat option" where
  "rfind_char c s = (if c \<in> set s then Some (length s - 1 - length (takeWhile (\<lambda>d. d \<noteq> c) (rev s))) else None)"

definition json_slice :: "string \<Rightarrow> string option" where
  "json_slice body =
     (case (find_char CHR ''{'' body, rfind_char CHR ''}'' body) of
        (Some s, Some e) \<Rightarrow> if e > s then Some (take (e + 1 - s) (drop s body)) else None
      | _ \<Rightarrow> None)"

definition issue_of :: "json \<Rightarrow> review_issue option" where
  "issue_of j =
     (let item = str_arg_or_empty j ''item'' in
      if item = [] then None
      else Some \<lparr>issue_severity = (case str_arg j ''severity'' of Some s \<Rightarrow> s | None \<Rightarrow> ''low''), issue_item = item\<rparr>)"

definition issues_of :: "json \<Rightarrow> review_issue list" where
  "issues_of j = List.map_filter issue_of (arr_arg j ''issues'')"

text \<open>\<open>nameless\<close> words the issue that stands for a failure without a list.\<close>

definition failed_verdict :: "string \<Rightarrow> review_issue list \<Rightarrow> review_verdict" where
  "failed_verdict nameless is =
     \<lparr>rv_pass = False, rv_issues = (if is = [] then [\<lparr>issue_severity = ''high'', issue_item = nameless\<rparr>] else is),
      rv_status = R_Failed, rv_derived = False\<rparr>"

definition verdict_of :: "string \<Rightarrow> json \<Rightarrow> review_verdict" where
  "verdict_of nameless j =
     (let is = issues_of j; word = map_option (\<lambda>s. to_lowercase (trim s)) (str_arg j ''verdict'') in
      if word \<in> {Some ''insufficient_evidence'', Some ''insufficient-evidence''}
      then \<lparr>rv_pass = False, rv_issues = is, rv_status = R_Insufficient, rv_derived = False\<rparr>
      else if word \<in> {Some ''fail'', Some ''failed''} then failed_verdict nameless is
      else if word \<in> {Some ''pass'', Some ''passed''}
      then \<lparr>rv_pass = True, rv_issues = is, rv_status = R_Passed, rv_derived = False\<rparr>
      else case Option.bind (jget j ''pass'') as_bool of
        Some b \<Rightarrow>
          if \<not> b \<and> is = [] then failed_verdict nameless is
          else \<lparr>rv_pass = b, rv_issues = is, rv_status = (if b then R_Passed else R_Failed), rv_derived = False\<rparr>
      | None \<Rightarrow>
          (let b = \<not> list_ex is_high is in
           \<lparr>rv_pass = b, rv_issues = is, rv_status = (if b then R_Passed else R_Failed), rv_derived = True\<rparr>))"

definition parse_review_response :: "(string \<Rightarrow> json option) \<Rightarrow> string \<Rightarrow> string \<Rightarrow> review_verdict option" where
  "parse_review_response parse nameless raw =
     (case json_slice (strip_markdown_fence (trim raw)) of
        None \<Rightarrow> None
      | Some t \<Rightarrow> map_option (verdict_of nameless) (parse t))"

definition review_verdict_from_raw :: "(string \<Rightarrow> json option) \<Rightarrow> string \<Rightarrow> string \<Rightarrow> review_verdict option" where
  "review_verdict_from_raw parse nameless raw =
     (if trim raw = [] then None else parse_review_response parse nameless raw)"

text \<open>Feedback lists the high-severity issues only.\<close>

definition review_feedback_items :: "string \<Rightarrow> review_issue list \<Rightarrow> (string \<times> string) list" where
  "review_feedback_items cut_mark is =
     map (\<lambda>i. (issue_severity i, truncate_text cut_mark (issue_item i) 500)) (filter is_high is)"

definition format_review_feedback :: "((string \<times> string) list \<Rightarrow> string) \<Rightarrow> string \<Rightarrow> review_issue list \<Rightarrow> string" where
  "format_review_feedback word cut_mark is = word (review_feedback_items cut_mark is)"

lemma verdict_simps [simp]:
  "rv_pass (failed_verdict nameless is) = False" "rv_status (failed_verdict nameless is) = R_Failed"
  "rv_derived (failed_verdict nameless is) = False" "rv_issues (failed_verdict nameless is) \<noteq> []"
  by (simp_all add: failed_verdict_def)

text \<open>
  An answer of the reviewer that can be read is a pass, a failure or the statement that the
  evidence is not enough, and nothing but a pass has the status of one.  A failure always names an
  issue, and a pass that the reviewer did not state himself lists none of high severity.
\<close>
theorem verdict_is_conclusive:
  "case parse_review_response parse nameless raw of
     None \<Rightarrow> True
   | Some v \<Rightarrow>
       (rv_status v, rv_pass v) \<in> {(R_Passed, True), (R_Failed, False), (R_Insufficient, False)}
       \<and> \<not> (rv_status v = R_Failed \<and> rv_issues v = [])
       \<and> \<not> (rv_derived v \<and> rv_pass v \<and> review_requires_fix v)"
proof -
  let ?P = "\<lambda>v. (rv_status v, rv_pass v) \<in> {(R_Passed, True), (R_Failed, False), (R_Insufficient, False)}
       \<and> \<not> (rv_status v = R_Failed \<and> rv_issues v = [])
       \<and> \<not> (rv_derived v \<and> rv_pass v \<and> review_requires_fix v)"
  have "?P (verdict_of nameless j)" for j
    unfolding verdict_of_def review_requires_fix_def Let_def by (auto split: option.split)
  then show ?thesis unfolding parse_review_response_def by (cases "json_slice (strip_markdown_fence (trim raw))") (simp_all split: option.split)
qed

lemma failed_review_without_feedback:
  "let v = verdict_of nameless (JObj [(''pass'', JBool False),
         (''issues'', JArr [JObj [(''severity'', JStr ''medium''), (''item'', JStr ''slow'')]])])
   in review_requires_fix v \<and> review_feedback_items cut_mark (rv_issues v) = []"
  by (simp add: verdict_of_def review_requires_fix_def review_feedback_items_def issues_of_def issue_of_def
      arr_arg_def str_arg_def str_arg_or_empty_def is_high_def map_filter_simps)

subsection \<open>The evidence\<close>

definition REVIEW_EVIDENCE_MAX_CHARS :: nat where "REVIEW_EVIDENCE_MAX_CHARS = 24000"
definition REVIEW_FILE_SNIPPET_CHARS :: nat where "REVIEW_FILE_SNIPPET_CHARS = 8000"
definition REVIEW_MAX_FILE_SNIPPETS :: nat where "REVIEW_MAX_FILE_SNIPPETS = 6"

record review_evidence =
  ev_diff :: "string option"
  ev_snippets :: "(string \<times> string) list"
  ev_outcomes :: "string list"
  ev_assertions :: "string list"

definition evidence_is_empty :: "review_evidence \<Rightarrow> bool" where
  "evidence_is_empty e \<longleftrightarrow> ev_diff e = None \<and> ev_snippets e = [] \<and> ev_outcomes e = [] \<and> ev_assertions e = []"

text \<open>\<open>content path\<close> is the file, \<open>Inl\<close> the error of reading it; \<open>note\<close> words the mark of a cut file.\<close>

definition snippet_of :: "(nat \<Rightarrow> string) \<Rightarrow> string \<Rightarrow> (string \<Rightarrow> (string, string) result) \<Rightarrow> string \<Rightarrow> string \<times> string" where
  "snippet_of note cut_mark content path =
     (path, case content path of
        Inr body \<Rightarrow>
          if byte_len body > REVIEW_FILE_SNIPPET_CHARS
          then truncate_text cut_mark body REVIEW_FILE_SNIPPET_CHARS @ note (byte_len body) else body
      | Inl e \<Rightarrow> ''<unreadable: '' @ e @ ''>'')"

definition collect_file_snippets ::
  "(nat \<Rightarrow> string) \<Rightarrow> string \<Rightarrow> (string \<Rightarrow> (string, string) result) \<Rightarrow> string list \<Rightarrow> (string \<times> string) list" where
  "collect_file_snippets note cut_mark content ds = map (snippet_of note cut_mark content) (take REVIEW_MAX_FILE_SNIPPETS ds)"

text \<open>
  The calls with what became of them.  Only the calls of a shell take the next entry of the log,
  which has an entry for every call.  \<open>arrow\<close> is the sign between the two.
\<close>

definition first_line :: "string \<Rightarrow> string" where
  "first_line s = trim (case rust_lines s of [] \<Rightarrow> [] | l # ls \<Rightarrow> l)"

definition shown_call :: "string \<Rightarrow> json \<Rightarrow> string" where
  "shown_call tool args =
     (if tool = ''code_run'' then first_line (str_arg_or_empty args ''code'') else str_arg_or_empty args ''file_path'')"

definition shown_outcome :: "string \<Rightarrow> (string \<times> bool \<times> string) option \<Rightarrow> string" where
  "shown_outcome cut_mark r =
     (case r of
        None \<Rightarrow> ''unknown''
      | Some (_, ok, msg) \<Rightarrow> if ok then ''ok'' else ''FAILED: '' @ truncate_text cut_mark (first_line msg) 120)"

fun summarize_tool_outcomes ::
  "string \<Rightarrow> string \<Rightarrow> (string \<times> json) list \<Rightarrow> (string \<times> bool \<times> string) list \<Rightarrow> string list" where
  "summarize_tool_outcomes arrow cut_mark [] rs = []"
| "summarize_tool_outcomes arrow cut_mark ((tool, args) # cs) rs =
     (if tool \<notin> {''code_run'', ''write'', ''edit'', ''patch''} \<or> shown_call tool args = []
      then summarize_tool_outcomes arrow cut_mark cs rs
      else (let shell = tool = ''code_run'' in
        (tool @ '': `'' @ truncate_text cut_mark (shown_call tool args) 160 @ ''` '' @ arrow @ '' '' @
          (if shell then shown_outcome cut_mark (case rs of [] \<Rightarrow> None | r # _ \<Rightarrow> Some r) else ''written''))
        # summarize_tool_outcomes arrow cut_mark cs (if shell then tl rs else rs)))"

text \<open>
  The budget of a rendered bundle: the space of one file, and the files that are quoted before it
  is used up.  \<open>used\<close> starts with the length of what stands before the files.
\<close>

definition per_file_chars :: "nat \<Rightarrow> nat" where
  "per_file_chars n = max 512 (min REVIEW_FILE_SNIPPET_CHARS (REVIEW_EVIDENCE_MAX_CHARS div max n 1))"

fun quote_files :: "string \<Rightarrow> nat \<Rightarrow> nat \<Rightarrow> (string \<times> string) list \<Rightarrow> (string \<times> string) list \<times> bool" where
  "quote_files cut_mark limit used [] = ([], False)"
| "quote_files cut_mark limit used ((path, body) # fs) =
     (if used \<ge> REVIEW_EVIDENCE_MAX_CHARS then ([], True)
      else (let t = truncate_text cut_mark body limit;
                (qs, over) = quote_files cut_mark limit (used + byte_len t + byte_len path + 16) fs in
            ((path, t) # qs, over)))"

record rendered_evidence =
  re_diff :: "string option"
  re_assertions :: "string list"
  re_outcomes :: "string list"
  re_files :: "(string \<times> string) list"
  re_files_over :: bool

definition render_evidence :: "string \<Rightarrow> (rendered_evidence \<Rightarrow> string) \<Rightarrow> review_evidence \<Rightarrow> rendered_evidence" where
  "render_evidence cut_mark heads e =
     (let before = \<lparr>re_diff = map_option (\<lambda>d. truncate_text cut_mark d 2000) (ev_diff e),
            re_assertions = ev_assertions e, re_outcomes = take 40 (ev_outcomes e), re_files = [], re_files_over = False\<rparr>;
          (qs, over) = quote_files cut_mark (per_file_chars (length (ev_snippets e))) (byte_len (heads before))
            (take REVIEW_MAX_FILE_SNIPPETS (ev_snippets e))
      in before\<lparr>re_files := qs, re_files_over := over\<rparr>)"

lemma truncate_text_length: "length (truncate_text m s n) \<le> n + length m"
  by (simp add: truncate_text_def)

lemma quote_files_bound:
  "length (fst (quote_files cut_mark limit used fs)) \<le> length fs
   \<and> (\<forall>q \<in> set (fst (quote_files cut_mark limit used fs)). length (snd q) \<le> limit + length cut_mark)"
  by (induction cut_mark limit used fs rule: quote_files.induct)
    (auto simp: Let_def truncate_text_length split: prod.split if_splits)

lemma evidence_is_bounded:
  "length (re_files (render_evidence cut_mark heads e)) \<le> 6
   \<and> list_all (\<lambda>q. length (snd q) \<le> 8000 + length cut_mark) (re_files (render_evidence cut_mark heads e))
   \<and> length (re_outcomes (render_evidence cut_mark heads e)) \<le> 40"
proof -
  let ?l = "per_file_chars (length (ev_snippets e))"
  have l: "?l \<le> 8000" by (simp add: per_file_chars_def REVIEW_FILE_SNIPPET_CHARS_def)
  let ?u = "byte_len (heads \<lparr>re_diff = map_option (\<lambda>d. truncate_text cut_mark d 2000) (ev_diff e),
            re_assertions = ev_assertions e, re_outcomes = take 40 (ev_outcomes e), re_files = [], re_files_over = False\<rparr>)"
  obtain qs over where q: "quote_files cut_mark ?l ?u (take 6 (ev_snippets e)) = (qs, over)" by fastforce
  have "length qs \<le> 6" "\<forall>x \<in> set qs. length (snd x) \<le> 8000 + length cut_mark"
    using quote_files_bound [of cut_mark ?l ?u "take 6 (ev_snippets e)"] l by (force simp: q)+
  then show ?thesis
    by (simp add: render_evidence_def Let_def REVIEW_MAX_FILE_SNIPPETS_def list_all_iff q)
qed

subsection \<open>What a run reports\<close>

fun assertion_status_text :: "assertion_status \<Rightarrow> string" where
  "assertion_status_text A_Passed = ''passed''"
| "assertion_status_text A_Failed = ''failed''"
| "assertion_status_text A_Blocked = ''blocked_by_policy''"
| "assertion_status_text A_Needs_Approval = ''needs_approval''"
| "assertion_status_text A_Synthesis_Failed = ''synthesis_failed''"
| "assertion_status_text A_No_Spec = ''no_spec''"
| "assertion_status_text A_Not_Run = ''not_run''"

record quality_outcome =
  qo_exit_reason :: string
  qo_reviewed :: bool
  qo_review :: review_status
  qo_high :: nat
  qo_derived :: bool
  qo_model :: string
  qo_expected :: "string option"
  qo_assertions :: assertion_status
  qo_assertions_total :: nat
  qo_assertions_failed :: nat
  qo_assertions_blocked :: nat
  qo_gate_skipped :: "string option"
  qo_deliverables :: nat
  qo_shell_only :: bool

definition default_outcome :: quality_outcome where
  "default_outcome =
     \<lparr>qo_exit_reason = [], qo_reviewed = False, qo_review = R_Not_Run, qo_high = 0, qo_derived = False,
      qo_model = ''unavailable'', qo_expected = None, qo_assertions = A_Not_Run, qo_assertions_total = 0, qo_assertions_failed = 0,
      qo_assertions_blocked = 0, qo_gate_skipped = None, qo_deliverables = 0, qo_shell_only = False\<rparr>"

definition contract_review_status :: "quality_outcome \<Rightarrow> string" where
  "contract_review_status q =
     (case qo_review q of R_Passed \<Rightarrow> ''passed'' | R_Failed \<Rightarrow> ''issues_but_released''
      | R_Insufficient \<Rightarrow> ''unavailable'' | R_Unavailable \<Rightarrow> ''unavailable'' | R_Not_Run \<Rightarrow> ''not_run'')"

definition contract_assertion_status :: "quality_outcome \<Rightarrow> string" where
  "contract_assertion_status q =
     (case qo_assertions q of A_Passed \<Rightarrow> ''passed'' | A_Failed \<Rightarrow> ''failed''
      | A_Synthesis_Failed \<Rightarrow> ''synthesis_failed'' | A_Blocked \<Rightarrow> ''blocked_by_policy''
      | A_Needs_Approval \<Rightarrow> ''blocked_by_policy'' | A_No_Spec \<Rightarrow> ''not_run'' | A_Not_Run \<Rightarrow> ''not_run'')"

datatype quality_part =
    Assertions_All nat | Assertions_Some nat nat | Assertions_Refused nat | Assertions_Unapproved
  | Synthesis_Failed_Part | No_Spec_Part | Assertions_Not_Run
  | Review_Passed_Part | Review_High_Part nat | Review_Insufficient_Part | Review_Unavailable_Part | Review_Not_Run_Part
  | Derived_Part | Shell_Part

definition assertion_part :: "quality_outcome \<Rightarrow> quality_part" where
  "assertion_part q =
     (case qo_assertions q of
        A_Passed \<Rightarrow> Assertions_All (qo_assertions_total q)
      | A_Failed \<Rightarrow> Assertions_Some (qo_assertions_failed q) (qo_assertions_total q)
      | A_Blocked \<Rightarrow> Assertions_Refused (qo_assertions_blocked q)
      | A_Needs_Approval \<Rightarrow> Assertions_Unapproved
      | A_Synthesis_Failed \<Rightarrow> Synthesis_Failed_Part
      | A_No_Spec \<Rightarrow> No_Spec_Part
      | A_Not_Run \<Rightarrow> Assertions_Not_Run)"

definition review_part :: "quality_outcome \<Rightarrow> quality_part" where
  "review_part q =
     (case qo_review q of
        R_Passed \<Rightarrow> Review_Passed_Part
      | R_Failed \<Rightarrow> Review_High_Part (qo_high q)
      | R_Insufficient \<Rightarrow> Review_Insufficient_Part
      | R_Unavailable \<Rightarrow> Review_Unavailable_Part
      | R_Not_Run \<Rightarrow> Review_Not_Run_Part)"

definition verification_parts :: "quality_outcome \<Rightarrow> quality_part list" where
  "verification_parts q =
     [assertion_part q, review_part q] @ (if qo_derived q then [Derived_Part] else []) @ (if qo_shell_only q then [Shell_Part] else [])"

definition verification_line :: "(quality_part \<Rightarrow> string) \<Rightarrow> string \<Rightarrow> quality_outcome \<Rightarrow> string" where
  "verification_line word sep q = join_with sep (map word (verification_parts q))"

definition assertion_summary_lines :: "(quality_part \<Rightarrow> string) \<Rightarrow> quality_outcome \<Rightarrow> string list" where
  "assertion_summary_lines word q = [word (assertion_part q)]"

definition to_contract_json :: "(quality_part \<Rightarrow> string) \<Rightarrow> string \<Rightarrow> quality_outcome \<Rightarrow> json" where
  "to_contract_json word sep q =
     JObj [(''review_status'', JStr (contract_review_status q)), (''assertion_status'', JStr (contract_assertion_status q)),
       (''review_model'', JStr (qo_model q)), (''note'', JStr (verification_line word sep q))]"

text \<open>The notes appended to the reply: a section without text is left out, but for the middle one.\<close>

datatype contract_label = Delivery_Title | Done_Label | Verified_Label | Left_Label

definition present :: "string option \<Rightarrow> string option" where
  "present s = (case s of Some t \<Rightarrow> if trim t \<noteq> [] then Some t else None | None \<Rightarrow> None)"

definition contract_row :: "(contract_label \<Rightarrow> string) \<Rightarrow> string \<Rightarrow> contract_label \<Rightarrow> string \<Rightarrow> string" where
  "contract_row label colon l t = ''> '' @ label l @ colon @ t @ [CHR 0x0A]"

definition format_delivery_contract ::
  "(contract_label \<Rightarrow> string) \<Rightarrow> string \<Rightarrow> string \<Rightarrow> string option \<Rightarrow> string option \<Rightarrow> string option \<Rightarrow> string" where
  "format_delivery_contract label colon dash completed verification leftover =
     [CHR 0x0A, CHR 0x0A] @ ''---'' @ [CHR 0x0A] @ ''> **'' @ label Delivery_Title @ ''**'' @ [CHR 0x0A] @
     (case present completed of Some c \<Rightarrow> contract_row label colon Done_Label c | None \<Rightarrow> []) @
     contract_row label colon Verified_Label (case present verification of Some v \<Rightarrow> v | None \<Rightarrow> dash) @
     (case present leftover of Some l \<Rightarrow> contract_row label colon Left_Label l | None \<Rightarrow> [])"

definition log_gate_skipped_row :: "string \<Rightarrow> nat \<Rightarrow> quality_outcome" where
  "log_gate_skipped_row reason n =
     default_outcome\<lparr>qo_exit_reason := reason, qo_gate_skipped := Some reason, qo_deliverables := n\<rparr>"

end
