(* ===== verification/Deliverables.thy ===== *)
theory Deliverables
  imports Tool_Outcomes
begin

text \<open>
  What a run has delivered, \<open>crates/oz-core/src/quality.rs\<close>: the files written by file tools, the
  files a shell command seems to write, the quick check after a write, the search for doubts the
  agent voiced, and the names of procedures kept for later.  A command is looked at as text;
  offsets are counted in characters, which is exact for commands in ASCII.
\<close>

subsection \<open>Files written by tools\<close>

definition WRITE_TOOLS :: "string list" where
  "WRITE_TOOLS = [''write'', ''file_write'', ''edit'', ''file_edit'', ''patch'', ''file_patch'']"

definition push_new :: "string \<Rightarrow> string list \<Rightarrow> string list" where
  "push_new p ps = (if p \<in> set ps then ps else ps @ [p])"

definition collect_step :: "string \<times> json \<Rightarrow> string list \<Rightarrow> string list" where
  "collect_step call ps =
     (if fst call \<in> set WRITE_TOOLS
      then (case str_arg (snd call) ''file_path'' of Some p \<Rightarrow> if p \<noteq> [] then push_new p ps else ps | None \<Rightarrow> ps)
      else ps)"

definition collect_deliverables :: "(string \<times> json) list \<Rightarrow> string list" where
  "collect_deliverables calls = fold collect_step calls []"

subsection \<open>What the shell itself reads of a command\<close>

definition quote_char :: "char \<Rightarrow> bool" where
  "quote_char c \<longleftrightarrow> c = CHR 0x27 \<or> c = CHR 0x22"

definition line_of :: "string \<Rightarrow> string" where
  "line_of s = takeWhile (\<lambda>c. c \<noteq> CHR 0x0A) s"

text \<open>The tag is read from the second of the two signs on, to the end of the line.\<close>

definition code_peek_tag :: "string \<Rightarrow> string" where
  "code_peek_tag s = trim (line_of s)"

function strip_loop :: "char option \<Rightarrow> string option \<Rightarrow> string \<Rightarrow> string" where
  "strip_loop q h [] = []"
| "strip_loop q (Some tag) (c # s) =
     (if c \<noteq> CHR 0x0A then strip_loop q (Some tag) s
      else if trim (line_of s) = tag then strip_loop q None (drop (Suc (length (line_of s))) s)
      else line_of s @ CHR 0x0A # strip_loop q (Some tag) (drop (Suc (length (line_of s))) s))"
| "strip_loop (Some q) None (c # s) = strip_loop (if c = q then None else Some q) None s"
| "strip_loop None None (c # s) =
     (if quote_char c then strip_loop (Some c) None s
      else if c = CHR ''<'' \<and> s \<noteq> [] \<and> hd s = CHR ''<''
      then (let tag = code_peek_tag s; rest = dropWhile (\<lambda>c. c \<noteq> CHR 0x0A) s in
        if tag \<noteq> [] then CHR '' '' # strip_loop None (Some (trim_matches quote_char tag)) rest
        else strip_loop None None rest)
      else c # strip_loop None None s)"
  by pat_completeness auto
termination
  by (relation "measure (\<lambda>(q, h, s). length s)")
    (auto simp: le_imp_less_Suc length_dropWhile_le)

definition strip_quoted_and_heredocs :: "string \<Rightarrow> string" where
  "strip_quoted_and_heredocs code = strip_loop None None code"

subsection \<open>Files a command writes\<close>

definition ignored_target :: "string \<Rightarrow> bool" where
  "ignored_target p \<longleftrightarrow>
     p = [] \<or> prefix ''/'' p \<or> prefix ''~'' p \<or> prefix ''&'' p \<or> prefix ''$'' p \<or> p = ''/dev/null''
     \<or> contains_str ''$('' p \<or> prefix ''-'' p"

definition push_target :: "string \<Rightarrow> string list \<Rightarrow> string list" where
  "push_target raw ps =
     (let p = trim_matches (\<lambda>c. c = CHR 0x22 \<or> c = CHR 0x27 \<or> c = CHR 0x60) (trim raw) in
      if ignored_target p then ps else push_new p ps)"

definition trim_start :: "string \<Rightarrow> string" where
  "trim_start s = dropWhile is_ws s"

definition head_word :: "string \<Rightarrow> string" where
  "head_word s = (case split_whitespace s of [] \<Rightarrow> [] | w # ws \<Rightarrow> w)"

text \<open>The redirections of a line: \<open>prev\<close> is the character before the part that is still to be read.\<close>

definition redirect_token :: "char option \<Rightarrow> string \<Rightarrow> string option" where
  "redirect_token before after =
     (let t = trim_start after; token = head_word t in
      if (case before of None \<Rightarrow> True | Some c \<Rightarrow> is_ws c \<or> is_ascii_digit c)
         \<and> \<not> prefix ''&'' t \<and> \<not> prefix ''|'' t \<and> \<not> prefix ''('' t
         \<and> CHR ''|'' \<notin> set token \<and> CHR '')'' \<notin> set token \<and> CHR '';'' \<notin> set token
      then Some token else None)"

function redirects :: "string \<Rightarrow> char option \<Rightarrow> string \<Rightarrow> string list" where
  "redirects marker prev s =
     (case find_str marker s of
        None \<Rightarrow> []
      | Some i \<Rightarrow>
          if marker = [] then []
          else (case redirect_token (if i = 0 then prev else Some (s ! (i - 1))) (drop (i + length marker) s) of
                  Some t \<Rightarrow> [t] | None \<Rightarrow> [])
               @ redirects marker (Some (last marker)) (drop (i + length marker) s))"
  by pat_completeness auto

lemma find_str_bound: "find_str p s = Some i \<Longrightarrow> i + length p \<le> length s"
proof (induction s arbitrary: i)
  case (Cons c s)
  then show ?case by (auto split: if_splits dest: prefix_length_le)
qed (auto split: if_splits)

lemma find_str_rest: "find_str p s = Some i \<Longrightarrow> p \<noteq> [] \<Longrightarrow> length s - (i + length p) < length s"
  using find_str_bound [of p s i] by (cases p) auto

termination redirects
  by (relation "measure (\<lambda>(m, p, s). length s)") (auto simp: find_str_rest)

declare redirects.simps [simp del]

definition segments :: "string \<Rightarrow> string list" where
  "segments line = split_on (\<lambda>c. c = CHR '';'' \<or> c = CHR ''|'' \<or> c = CHR ''&'') line"

definition in_command_position :: "string \<Rightarrow> string \<Rightarrow> bool" where
  "in_command_position verb line \<longleftrightarrow> list_ex (\<lambda>seg. prefix (verb @ '' '') (trim_start seg)) (segments line)"

text \<open>\<open>tee\<close>: the place after the word is computed as if one blank followed each word.\<close>

fun tee_place :: "string \<Rightarrow> nat \<Rightarrow> string list \<Rightarrow> nat option" where
  "tee_place line pos [] = None"
| "tee_place line pos (w # ws) =
     (if w = ''tee'' \<and> (pos = 0 \<or> in_command_position ''tee'' line) then Some pos
      else tee_place line (Suc pos) ws)"

definition tee_target :: "string \<Rightarrow> string option" where
  "tee_target line =
     (case tee_place line 0 (split_whitespace line) of
        None \<Rightarrow> None
      | Some pos \<Rightarrow>
          Some (head_word (drop (sum_list (map (\<lambda>w. length w + 1) (take (Suc pos) (split_whitespace line)))) line)))"

definition copy_target :: "string \<Rightarrow> string \<Rightarrow> string option" where
  "copy_target verb line =
     (let ws = split_whitespace line in
      if ((ws \<noteq> [] \<and> hd ws = verb) \<or> in_command_position verb line) \<and> verb \<in> set ws
      then (let args = filter (\<lambda>w. \<not> prefix ''-'' w) (tl (dropWhile (\<lambda>w. w \<noteq> verb) ws)) in
        if length args \<ge> 2 then Some (last args) else None)
      else None)"

definition open_target :: "string \<Rightarrow> string option" where
  "open_target line =
     (if contains_str ''open('' line
         \<and> (contains_str [CHR 0x27, CHR ''w'', CHR 0x27] line \<or> contains_str [CHR 0x22, CHR ''w'', CHR 0x22] line)
      then (case find_str ''open('' line of
          None \<Rightarrow> None
        | Some i \<Rightarrow>
            (case drop (i + 5) line of
               [] \<Rightarrow> None
             | q # rest \<Rightarrow>
                 if quote_char q \<and> q \<in> set rest then Some (takeWhile (\<lambda>c. c \<noteq> q) rest) else None))
      else None)"

definition option_list :: "'a option \<Rightarrow> 'a list" where
  "option_list x = (case x of Some y \<Rightarrow> [y] | None \<Rightarrow> [])"

definition line_targets :: "string \<Rightarrow> string list" where
  "line_targets raw =
     (let line = trim raw in
      if line = [] \<or> prefix ''#'' line then []
      else redirects ''>>'' None line @ redirects ''>'' None line @ option_list (tee_target line)
        @ option_list (copy_target ''cp'' line) @ option_list (copy_target ''mv'' line) @ option_list (open_target line))"

definition shell_write_targets :: "string \<Rightarrow> string list" where
  "shell_write_targets code =
     fold push_target (concat (map line_targets (rust_lines (strip_quoted_and_heredocs code)))) []"

subsection \<open>The probe\<close>

record deliverable_probe =
  dp_files :: "string list"
  dp_shell :: "string list"
  dp_has_any :: bool

definition shell_targets_of :: "string \<times> json \<Rightarrow> string list" where
  "shell_targets_of call =
     (if fst call = ''code_run'' \<and> trim (str_arg_or_empty (snd call) ''code'') \<noteq> []
      then shell_write_targets (str_arg_or_empty (snd call) ''code'') else [])"

definition probe_of :: "(string \<times> json) list \<Rightarrow> deliverable_probe" where
  "probe_of calls =
     (let files = collect_deliverables calls; shell = fold push_new (concat (map shell_targets_of calls)) [] in
      \<lparr>dp_files = files, dp_shell = shell, dp_has_any = files \<noteq> [] \<or> shell \<noteq> []\<rparr>)"

definition all_files :: "deliverable_probe \<Rightarrow> string list" where
  "all_files p = fold push_new (dp_shell p) (dp_files p)"

definition has_write_operations :: "(string \<times> json) list \<Rightarrow> bool" where
  "has_write_operations calls = dp_has_any (probe_of calls)"

subsection \<open>High risk\<close>

definition DANGER_TOKENS :: "string list" where
  "DANGER_TOKENS = [''rm '', ''rm -'', ''rmdir'', ''del '', ''curl'', ''wget'', ''.ssh'', ''.aws'', ''credential'', ''secret'']"

definition dangerous_call :: "string \<times> json \<Rightarrow> bool" where
  "dangerous_call call \<longleftrightarrow> fst call \<in> {''code_run'', ''run_command'', ''shell''}
     \<and> list_ex (\<lambda>t. contains_str t (to_lowercase (str_arg_or_empty (snd call) ''command''))) DANGER_TOKENS"

definition is_high_risk_write :: "(string \<times> json) list \<Rightarrow> bool" where
  "is_high_risk_write calls \<longleftrightarrow>
     list_ex dangerous_call calls \<or> length (filter (\<lambda>c. fst c \<in> set WRITE_TOOLS) calls) \<ge> 6"

subsection \<open>What the probe promises\<close>

lemma push_new_set [simp]: "set (push_new p ps) = insert p (set ps)"
  by (auto simp: push_new_def)

lemma push_new_distinct [simp]: "distinct ps \<Longrightarrow> distinct (push_new p ps)"
  by (simp add: push_new_def)

lemma fold_push_new: "set (fold push_new xs ps) = set xs \<union> set ps" "distinct ps \<Longrightarrow> distinct (fold push_new xs ps)"
  by (induction xs arbitrary: ps) auto

lemma fold_push_target:
  "distinct ps \<Longrightarrow> \<forall>p \<in> set ps. \<not> ignored_target p
   \<Longrightarrow> distinct (fold push_target xs ps) \<and> (\<forall>p \<in> set (fold push_target xs ps). \<not> ignored_target p)"
proof (induction xs arbitrary: ps)
  case (Cons x xs)
  have "distinct (push_target x ps)" "\<forall>p \<in> set (push_target x ps). \<not> ignored_target p"
    using Cons.prems by (simp_all add: push_target_def Let_def)
  then show ?case using Cons.IH [of "push_target x ps"] by simp
qed simp

lemma shell_targets_shape: "p \<in> set (shell_write_targets code) \<Longrightarrow> \<not> ignored_target p"
  using fold_push_target [of "[]"] by (auto simp: shell_write_targets_def)

lemma collect_fold:
  "set (fold collect_step calls ps) =
     set ps \<union> {p. p \<noteq> [] \<and> (\<exists>c \<in> set calls. fst c \<in> set WRITE_TOOLS \<and> str_arg (snd c) ''file_path'' = Some p)}
   \<and> (distinct ps \<longrightarrow> distinct (fold collect_step calls ps))"
proof (induction calls arbitrary: ps)
  case (Cons c calls)
  show ?case using Cons [of "collect_step c ps"] by (auto simp: collect_step_def split: option.split)
qed simp

text \<open>
  The deliveries of a run are listed once each, every file a file tool was told to write is
  among them, and a name that comes from a command is a relative name that is neither an option nor
  a variable.  The run has delivered something exactly if the list is not empty.
\<close>
theorem probe_contract:
  "distinct (all_files (probe_of calls))
   \<and> {p. p \<noteq> [] \<and> (\<exists>c \<in> set calls. fst c \<in> set WRITE_TOOLS \<and> str_arg (snd c) ''file_path'' = Some p)} = set (dp_files (probe_of calls))
   \<and> set (all_files (probe_of calls)) = set (dp_files (probe_of calls)) \<union> set (dp_shell (probe_of calls))
   \<and> list_all (\<lambda>p. \<not> ignored_target p) (dp_shell (probe_of calls))
   \<and> (has_write_operations calls \<longleftrightarrow> all_files (probe_of calls) \<noteq> [])"
proof -
  let ?p = "probe_of calls"
  have files: "set (dp_files ?p) = {p. p \<noteq> [] \<and> (\<exists>c \<in> set calls. fst c \<in> set WRITE_TOOLS \<and> str_arg (snd c) ''file_path'' = Some p)}"
    "distinct (dp_files ?p)"
    using collect_fold [of calls "[]"] by (simp_all add: probe_of_def Let_def collect_deliverables_def)
  have all: "set (all_files ?p) = set (dp_files ?p) \<union> set (dp_shell ?p)" "distinct (all_files ?p)"
    using fold_push_new files(2) by (auto simp: all_files_def)
  have shell: "list_all (\<lambda>p. \<not> ignored_target p) (dp_shell ?p)"
    using shell_targets_shape
    by (auto simp: probe_of_def Let_def fold_push_new list_all_iff shell_targets_of_def split: if_splits)
  have "has_write_operations calls \<longleftrightarrow> set (all_files ?p) \<noteq> {}"
    unfolding all(1) by (simp add: has_write_operations_def probe_of_def Let_def)
  then have "has_write_operations calls \<longleftrightarrow> all_files ?p \<noteq> []" by simp
  then show ?thesis using files(1) all shell by blast
qed

subsection \<open>Where the probe goes wrong\<close>

lemma strip_plain:
  assumes "\<forall>c \<in> set w. \<not> quote_char c \<and> c \<noteq> CHR ''<''"
  shows "strip_loop None None (w @ s) = w @ strip_loop None None s"
  using assms by (induction w) auto

lemma line_of_line: "CHR 0x0A \<notin> set l \<Longrightarrow> line_of (l @ CHR 0x0A # s) = l"
  unfolding line_of_def by (induction l) auto

lemma strip_heredoc_opens:
  assumes "CHR 0x0A \<notin> set tag" and "tag \<noteq> []" and "\<not> is_ws (last tag)"
  shows "strip_loop None None (''<<'' @ tag @ CHR 0x0A # s)
    = CHR '' '' # strip_loop None (Some (trim_matches quote_char (CHR ''<'' # tag))) (CHR 0x0A # s)"
proof -
  have peek: "code_peek_tag (CHR ''<'' # tag @ CHR 0x0A # s) = CHR ''<'' # tag"
  proof -
    have l: "line_of (CHR ''<'' # tag @ CHR 0x0A # s) = CHR ''<'' # tag"
      using line_of_line [of "CHR ''<'' # tag" s] assms(1) by simp
    have "dropWhile is_ws (rev tag @ [CHR ''<'']) = rev tag @ [CHR ''<'']"
      using assms(2,3) by (cases tag rule: rev_cases) simp_all
    then show ?thesis by (simp add: code_peek_tag_def l trim_def is_ws_def)
  qed
  have drop: "dropWhile (\<lambda>c. c \<noteq> CHR 0x0A) (CHR ''<'' # tag @ CHR 0x0A # s) = CHR 0x0A # s"
    using assms(1) by (induction tag) auto
  have "strip_loop None None (CHR ''<'' # CHR ''<'' # tag @ CHR 0x0A # s)
    = CHR '' '' # strip_loop None (Some (trim_matches quote_char (CHR ''<'' # tag))) (CHR 0x0A # s)"
    unfolding strip_loop.simps(4) [of "CHR ''<''"] Let_def peek drop by (simp add: quote_char_def)
  then show ?thesis by simp
qed

lemma strip_in_heredoc:
  assumes "CHR 0x0A \<notin> set x" and "CHR 0x0A \<notin> set y" and "trim x \<noteq> tag"
  shows "strip_loop None (Some tag) (CHR 0x0A # x @ CHR 0x0A # y @ CHR 0x0A # s)
    = x @ CHR 0x0A # strip_loop None (Some tag) (CHR 0x0A # s)"
proof -
  have skip: "strip_loop None (Some tag) (y @ t) = strip_loop None (Some tag) t" for t
    using assms(2) by (induction y) auto
  show ?thesis using assms(1,3) by (simp add: line_of_line skip)
qed

text \<open>
  The sign that opens a here-document is read from its second character on, so that the tag
  begins with that character and no line closes the document; and inside of one every second line
  is skipped.  Whatever stands on such a line, a redirection that writes a file for instance, is
  not seen.
\<close>
theorem heredoc_hides_every_second_line:
  assumes "CHR 0x0A \<notin> set tag" and "tag \<noteq> []" and "\<not> is_ws (last tag)" and "\<not> quote_char (last tag)"
    and "CHR 0x0A \<notin> set body" and "trim body \<noteq> CHR ''<'' # tag"
    and "CHR 0x0A \<notin> set y" and "CHR 0x0A \<notin> set z"
  shows "shell_write_targets (''cat <<'' @ tag @ CHR 0x0A # body @ CHR 0x0A # y @ CHR 0x0A # rest)
       = shell_write_targets (''cat <<'' @ tag @ CHR 0x0A # body @ CHR 0x0A # z @ CHR 0x0A # rest)"
proof -
  let ?t = "CHR ''<'' # tag"
  have t: "trim_matches quote_char ?t = ?t"
  proof -
    have "dropWhile quote_char (rev tag @ [CHR ''<'']) = rev tag @ [CHR ''<'']"
      using assms(2,4) by (cases tag rule: rev_cases) simp_all
    then show ?thesis by (simp add: trim_matches_def quote_char_def)
  qed
  have "strip_quoted_and_heredocs (''cat <<'' @ tag @ CHR 0x0A # body @ CHR 0x0A # w @ CHR 0x0A # rest)
      = ''cat '' @ CHR '' '' # body @ CHR 0x0A # strip_loop None (Some ?t) (CHR 0x0A # rest)"
    if "CHR 0x0A \<notin> set w" for w
  proof -
    have "strip_loop None None (''cat '' @ ''<<'' @ tag @ CHR 0x0A # body @ CHR 0x0A # w @ CHR 0x0A # rest)
        = ''cat '' @ strip_loop None None (''<<'' @ tag @ CHR 0x0A # body @ CHR 0x0A # w @ CHR 0x0A # rest)"
      by (rule strip_plain) (auto simp: quote_char_def)
    then show ?thesis
      using strip_heredoc_opens [OF assms(1-3)] strip_in_heredoc [OF assms(5) that assms(6)]
      by (simp add: strip_quoted_and_heredocs_def t)
  qed
  from this [OF assms(7)] this [OF assms(8)] show ?thesis
    by (simp only: shell_write_targets_def)
qed

theorem heredoc_hides_every_second_line_witness:
  "shell_write_targets (''cat <<'' @ ''EOF'' @ CHR 0x0A # ''EOF'' @ CHR 0x0A # ''make > log'' @ CHR 0x0A # [])
   = shell_write_targets (''cat <<'' @ ''EOF'' @ CHR 0x0A # ''EOF'' @ CHR 0x0A # ''make'' @ CHR 0x0A # [])"
  by (rule heredoc_hides_every_second_line) (simp_all add: is_ws_def quote_char_def trim_def)

text \<open>
  An appending redirection counts twice, the second time for a file named by the sign itself, and
  a file a later command of the line removes counts as the target of the copy before it.
\<close>
lemma phantom_deliveries:
  "shell_write_targets ''echo x >> log.txt'' = [''log.txt'', ''>'']"
  "shell_write_targets ''cp a b && rm c'' = [''c'']"
  by code_simp+

text \<open>The check for dangerous commands reads an argument the shell tool does not have.\<close>

lemma shell_calls_are_never_high_risk:
  assumes "\<forall>c \<in> set calls. fst c = ''code_run'' \<and> jget (snd c) ''command'' = None"
  shows "\<not> is_high_risk_write calls"
proof -
  have "\<not> dangerous_call c" if "c \<in> set calls" for c
  proof -
    have "str_arg_or_empty (snd c) ''command'' = []"
      using assms that by (simp add: str_arg_or_empty_def str_arg_def)
    then show ?thesis by (simp add: dangerous_call_def DANGER_TOKENS_def to_lowercase_def)
  qed
  moreover have "filter (\<lambda>c. fst c \<in> set WRITE_TOOLS) calls = []"
    using assms by (auto simp: filter_empty_conv WRITE_TOOLS_def)
  ultimately show ?thesis unfolding is_high_risk_write_def list_ex_iff by (metis list.size(3) not_numeral_le_zero)
qed

end
