(* ===== verification/Run_Checks.thy ===== *)
theory Run_Checks
  imports Deliverables
begin

text \<open>
  Three smaller checks of \<open>crates/oz-core/src/quality.rs\<close>: the quick check after a write with its
  quoting of file names, the search for doubts the agent voiced and did not follow up, and the
  names under which procedures are kept.  Which marker files a project has, and the shell, are
  parameters.
\<close>

subsection \<open>Quoting for the shell\<close>

fun replace_quote :: "string \<Rightarrow> string" where
  "replace_quote [] = []"
| "replace_quote (c # s) = (if c = CHR 0x27 then [CHR 0x27, CHR 0x5C, CHR 0x27, CHR 0x27] else [c]) @ replace_quote s"

definition shell_quote :: "string \<Rightarrow> string" where
  "shell_quote path = CHR 0x27 # replace_quote path @ [CHR 0x27]"

text \<open>
  How a POSIX shell reads one word made of single-quoted parts and escaped characters; \<open>None\<close> when
  the word ends before its quote or at a character that is not quoted.
\<close>

fun sh_word :: "bool \<Rightarrow> string \<Rightarrow> string option" where
  "sh_word True [] = None"
| "sh_word True (c # s) = (if c = CHR 0x27 then sh_word False s else map_option ((#) c) (sh_word True s))"
| "sh_word False [] = Some []"
| "sh_word False (c # s) =
     (if c = CHR 0x27 then sh_word True s
      else if c = CHR 0x5C then (case s of [] \<Rightarrow> None | d # t \<Rightarrow> map_option ((#) d) (sh_word False t))
      else None)"

lemma sh_word_replace: "sh_word True (replace_quote p @ [CHR 0x27]) = Some p"
  by (induction p) simp_all

text \<open>
  A file name put into the command of the quick check reaches the program unchanged, whatever
  characters it has: the shell reads the quoted name as one word, and that word is the name.
\<close>
theorem shell_quote_roundtrip: "sh_word False (shell_quote path) = Some path"
  by (simp add: shell_quote_def sh_word_replace)

subsection \<open>The quick check\<close>

definition ends_with_any :: "string list \<Rightarrow> string \<Rightarrow> bool" where
  "ends_with_any exts f \<longleftrightarrow> list_ex (\<lambda>e. suffix e f) exts"

text \<open>The command to run, its time limit in seconds, and the name it has in the feedback.\<close>

definition quick_command :: "(string \<Rightarrow> bool) \<Rightarrow> string list \<Rightarrow> (string \<times> nat \<times> string) option" where
  "quick_command is_file written =
     (if is_file ''Cargo.toml'' then Some (''cargo check --quiet'', 45, ''cargo check --quiet'')
      else if is_file ''package.json'' \<and> is_file ''tsconfig.json'' then
        (if list_ex (ends_with_any [''.ts'', ''.tsx'']) written
         then Some (''npx tsc --noEmit --pretty false'', 30, ''tsc --noEmit'') else None)
      else if is_file ''pyproject.toml'' \<or> is_file ''setup.py'' \<or> is_file ''requirements.txt'' then
        (let py = take 20 (filter (ends_with_any [''.py'']) written);
             cmd = ''python3 -m py_compile '' @ join_with '' '' (map shell_quote py) in
         if py \<noteq> [] then Some (cmd, 30, cmd) else None)
      else if is_file ''go.mod'' \<and> list_ex (ends_with_any [''.go'']) written
      then Some (''go vet ./...'', 30, ''go vet ./...'') else None)"

text \<open>\<open>run\<close> gives success and output, or \<open>None\<close> when the command could not run in time.\<close>

definition run_quick_cmd ::
  "string \<Rightarrow> (string \<Rightarrow> nat \<Rightarrow> (bool \<times> string) option) \<Rightarrow> string \<Rightarrow> nat \<Rightarrow> bool \<times> string" where
  "run_quick_cmd cut_mark run cmd secs =
     (case run cmd (max secs 1) of
        Some (ok, output) \<Rightarrow> (ok, truncate_text cut_mark (trim output) 2000)
      | None \<Rightarrow> (False, ''<quick check timed out after '' @ nat_text secs @ ''s>''))"

definition quick_verify_after_write ::
  "(string \<times> string \<Rightarrow> string) \<Rightarrow> string \<Rightarrow> (string \<Rightarrow> bool) \<Rightarrow> (string \<Rightarrow> nat \<Rightarrow> (bool \<times> string) option)
     \<Rightarrow> string list \<Rightarrow> string list \<Rightarrow> string option" where
  "quick_verify_after_write word cut_mark is_file run tools written =
     (if \<not> list_ex (\<lambda>t. t \<in> set WRITE_TOOLS) tools then None
      else case quick_command is_file written of
        None \<Rightarrow> None
      | Some (cmd, secs, name) \<Rightarrow>
          (let (ok, output) = run_quick_cmd cut_mark run cmd secs in
           if ok then None else Some (word (name, output))))"

subsection \<open>Doubts\<close>

definition FIX_TOOLS :: "string list" where
  "FIX_TOOLS = [''write'', ''file_write'', ''edit'', ''file_edit'', ''patch'', ''file_patch'', ''code_run'']"

definition SUSPICION_EN :: "string list" where
  "SUSPICION_EN = [''maybe'', ''might'', ''possibly'', ''seems'', ''appears'', ''suspect'', ''uncertain'',
     ''not sure'', ''looks off'', ''check later'']"

fun text_of :: "content_block \<Rightarrow> string option" where
  "text_of (TextBlock t cc) = Some t"
| "text_of _ = None"

definition split_sentences :: "string \<Rightarrow> string list" where
  "split_sentences t =
     filter (\<lambda>s. s \<noteq> [] \<and> length s > 3)
       (map trim (split_on (\<lambda>c. c \<in> {CHR 0x0A, CHR ''.'', CHR ''!'', CHR ''?'', CHR '';''}) t))"

definition spoken :: "message \<Rightarrow> string option" where
  "spoken m =
     (let ts = List.map_filter text_of (msg_content m) in
      if msg_role m = AssistantRole \<and> ts \<noteq> [] then Some (join_with '' '' ts) else None)"

text \<open>\<open>keys\<close> are the words of the user's language, \<open>SUSPICION_EN\<close> in English.\<close>

definition find_unresolved_suspicion ::
  "(string \<Rightarrow> string) \<Rightarrow> string \<Rightarrow> string list \<Rightarrow> message list \<Rightarrow> (string \<times> json) list \<Rightarrow> string option" where
  "find_unresolved_suspicion word cut_mark keys ms calls =
     (if list_ex (\<lambda>c. fst c \<in> set FIX_TOOLS) (take 5 (rev calls)) then None
      else map_option (\<lambda>s. word (truncate_text cut_mark s 200))
        (find (\<lambda>s. list_ex (\<lambda>k. contains_str (to_lowercase k) (to_lowercase s)) keys)
          (concat (map split_sentences (take 3 (rev (List.map_filter spoken ms)))))))"

subsection \<open>Names of procedures\<close>

definition alphanumeric :: "char \<Rightarrow> bool" where
  "alphanumeric c \<longleftrightarrow> (let n = (of_char c :: nat) in
     (48 \<le> n \<and> n \<le> 57) \<or> (65 \<le> n \<and> n \<le> 90) \<or> (97 \<le> n \<and> n \<le> 122) \<or> n \<in> {170, 178, 179, 181, 185, 186, 188, 189, 190}
     \<or> (192 \<le> n \<and> n \<noteq> 215 \<and> n \<noteq> 247))"

definition is_crystallisable_input :: "string \<Rightarrow> bool" where
  "is_crystallisable_input input =
     (let t = trim_start input; lower = to_lowercase t in
      t \<noteq> [] \<and> \<not> prefix ''<system-reminder>'' t \<and> \<not> contains_str ''system-reminder'' lower
      \<and> \<not> contains_str (''today'' @ CHR 0x27 # ''s date'') lower
      \<and> \<not> prefix ''<system'' lower \<and> \<not> prefix ''[system'' lower \<and> length t \<ge> 12)"

definition NAME_BLACKLIST :: "string list" where
  "NAME_BLACKLIST = [''system_reminder'', ''system-reminder'', ''today_s_date'', ''todays_date'', ''system_prompt'']"

definition slug_char :: "char \<Rightarrow> char" where
  "slug_char c = (if alphanumeric c \<or> c = CHR ''_'' \<or> c = CHR ''-'' then c else CHR ''_'')"

fun collapse :: "bool \<Rightarrow> string \<Rightarrow> string" where
  "collapse prev [] = []"
| "collapse prev (c # s) =
     (if c = CHR ''_'' then (if prev then collapse True s else c # collapse True s) else c # collapse False s)"

definition slug_sop_name :: "string \<Rightarrow> string option" where
  "slug_sop_name input =
     (if \<not> is_crystallisable_input input then None
      else (let slug = map slug_char (take 40 (trim_start input)) in
        if list_ex (\<lambda>b. contains_str b (to_lowercase slug)) NAME_BLACKLIST then None
        else (let name = trim_matches (\<lambda>c. c = CHR ''_'') (collapse False slug) in
          if byte_len name < 3 then None else Some name)))"

lemma collapse_subset: "set (collapse b s) \<subseteq> set s" "length (collapse b s) \<le> length s"
  by (induction b s rule: collapse.induct) (auto split: if_splits)

lemma collapse_head: "collapse True s \<noteq> [] \<Longrightarrow> hd (collapse True s) \<noteq> CHR ''_''"
  by (induction s) auto

lemma collapse_no_double: "\<not> sublist ''__'' (collapse b s)"
proof (induction b s rule: collapse.induct)
  case (2 prev c s)
  have "\<not> prefix ''_'' (collapse True s)" using collapse_head [of s] by (cases "collapse True s") auto
  with 2 show ?case by (auto simp: sublist_Cons_right)
qed simp

lemma trim_matches_sublist: "sublist (trim_matches P s) s"
proof -
  have "suffix (dropWhile P s) s" by (rule suffix_dropWhile)
  moreover have "suffix (dropWhile P (rev (dropWhile P s))) (rev (dropWhile P s))" by (rule suffix_dropWhile)
  then have "prefix (trim_matches P s) (dropWhile P s)"
    by (simp add: trim_matches_def suffix_to_prefix)
  ultimately show ?thesis by (meson prefix_imp_sublist suffix_imp_sublist sublist_order.order.trans)
qed

lemma slug_char_shape: "alphanumeric (slug_char c) \<or> slug_char c \<in> {CHR ''_'', CHR ''-''}"
  by (simp add: slug_char_def)

text \<open>
  The name of a procedure has at most forty characters, all of them letters, digits, dashes and
  underscores, never two underscores in a row, and at least three bytes.
\<close>
theorem kept_name_shape:
  "case slug_sop_name input of
     None \<Rightarrow> True
   | Some n \<Rightarrow> length n \<le> 40 \<and> byte_len n \<ge> 3 \<and> \<not> contains_str ''__'' n
       \<and> list_all (\<lambda>c. alphanumeric c \<or> c \<in> {CHR ''_'', CHR ''-''}) n"
proof (cases "slug_sop_name input")
  case (Some n)
  let ?slug = "map slug_char (take 40 (trim_start input))"
  have n: "n = trim_matches (\<lambda>c. c = CHR ''_'') (collapse False ?slug)" "byte_len n \<ge> 3"
    using Some by (auto simp: slug_sop_name_def Let_def split: if_splits)
  have sub: "sublist n (collapse False ?slug)" unfolding n(1) by (rule trim_matches_sublist)
  have "length n \<le> 40"
    using sublist_length_le [OF sub] collapse_subset(2) [of False ?slug] by simp
  moreover have "\<not> contains_str ''__'' n"
    using sub collapse_no_double sublist_order.order.trans unfolding contains_str_sublist by metis
  moreover have "set n \<subseteq> slug_char ` UNIV"
    using set_mono_sublist [OF sub] collapse_subset(1) [of False ?slug] by auto
  then have "list_all (\<lambda>c. alphanumeric c \<or> c \<in> {CHR ''_'', CHR ''-''}) n"
    using slug_char_shape unfolding list_all_iff by blast
  ultimately show ?thesis using Some n(2) by simp
qed simp

text \<open>
  The names that must not be kept are looked for before runs of underscores are joined, so that two
  blanks are enough to get past the list.
\<close>
lemma blacklisted_name_is_kept:
  "slug_sop_name ''system  reminder for today'' = Some ''system_reminder_for_today''
   \<and> contains_str ''system_reminder'' ''system_reminder_for_today''"
  by code_simp

text \<open>A run whose last five calls include a write or a command is not asked about doubts.\<close>

lemma no_doubt_after_work:
  assumes "c \<in> set (take 5 (rev calls))" and "fst c \<in> set FIX_TOOLS"
  shows "find_unresolved_suspicion word cut_mark keys ms calls = None"
  using assms by (auto simp: find_unresolved_suspicion_def list_ex_iff)

end
