(* ===== verification/Finish_Gates.thy ===== *)
theory Finish_Gates
  imports Todo_Turn Review Run_Checks
begin

text \<open>
  The end of a turn in which the agent wants to finish, \<open>crates/oz-core/src/agent_loop.rs\<close>: the
  checklist gates, the reminders, and the delivery gates with their budgets.  A gate that is not
  satisfied takes back the reason to exit and gives the agent a prompt.  What the gates look at
  outside the loop (the shell, the reviewer, the diff, the specification file) is the environment of
  the attempt.
\<close>

subsection \<open>State, configuration, environment\<close>

record gate_state =
  gs_exit :: "string option"
  gs_prompts :: "string list"
  gs_continuations :: nat
  gs_spec_hint :: bool
  gs_plan_hint :: bool
  gs_tdd_nudged :: bool
  gs_soft_prompts :: nat
  gs_suspicion_checked :: bool
  gs_auto_spec :: bool
  gs_policy_feedback :: bool
  gs_rounds :: nat
  gs_exhausted_checked :: bool
  gs_review_rounds :: nat
  gs_diff_checked :: bool
  gs_entered :: bool
  gs_outcome :: quality_outcome
  gs_note :: "string option"
  gs_contract :: "(nat \<times> nat) option"
  gs_spec :: "spec_file option"

datatype gate_phrase =
    Checklist_Note nat nat "(string \<times> string \<times> string) list"
  | Protocol_Note nat nat
  | Spec_Anchor | Plan_Reminder | Tdd_Reminder | Budget_Note nat
  | Suspicion_Note string | Continue_Note nat "(string \<times> string) list" | Gate_Feedback feedback
  | Review_Feedback "(string \<times> string) list" | Diff_Note string
  | Exhausted_Note nat | Review_Failed_Note nat | No_Verdict_Note | Loop_Note loop_guard | Auto_Title | Nameless_Issue | Arrow_Sign
  | Quick_Note string string | Refusal_Dash | Cut_Mark | Snippet_Note nat | Evidence_Part quality_part

record review_request =
  rq_spec :: string
  rq_deliverables :: "string list"
  rq_reply :: string
  rq_evidence :: review_evidence
  rq_red_team :: bool

record finish_config =
  fc_say :: "gate_phrase \<Rightarrow> string"
  fc_parse :: "string \<Rightarrow> json option"
  fc_json_text :: "json \<Rightarrow> string"
  fc_doubt_words :: "string list"
  fc_session :: string
  fc_started :: int
  fc_user_input :: string
  fc_quality_gates :: bool
  fc_review_enabled :: bool
  fc_review_min_tools :: nat
  fc_assertion_max_rounds :: nat
  fc_tdd_gate :: bool
  fc_summary_configured :: bool

text \<open>One attempt to finish: what the turn left, and what the gates find.\<close>

record finish_env =
  fe_exit :: "string option"
  fe_prompts :: "string list"
  fe_turn :: nat
  fe_todos :: "todo_item list"
  fe_plan_mode :: "string option"
  fe_calls :: "(string \<times> json) list"
  fe_log :: "(string \<times> bool \<times> string) list"
  fe_messages :: "message list"
  fe_sensorium :: sensorium
  fe_reply :: string
  fe_synthesis :: string
  fe_spec :: "spec_file option"
  fe_mtime :: int
  fe_tools :: "string list"
  fe_marker :: "string \<Rightarrow> bool"
  fe_quick_run :: "string \<Rightarrow> nat \<Rightarrow> (bool \<times> string) option"
  fe_run :: "string \<Rightarrow> (bool \<times> string) option"
  fe_content :: "string \<Rightarrow> (string, string) result"
  fe_review :: "review_request \<Rightarrow> string option"
  fe_diff :: "(nat \<times> nat \<times> string) option"

definition MAX_GATE_CONTINUATIONS :: nat where "MAX_GATE_CONTINUATIONS = 4"
definition SOFT_BUDGET_TURNS :: nat where "SOFT_BUDGET_TURNS = 60"
definition SOFT_BUDGET_MAX_PROMPTS :: nat where "SOFT_BUDGET_MAX_PROMPTS = 3"
definition DIFF_FILES_MAX :: nat where "DIFF_FILES_MAX = 7"
definition DIFF_CHURN_MAX :: nat where "DIFF_CHURN_MAX = 300"

definition send_back :: "string \<Rightarrow> gate_state \<Rightarrow> gate_state" where
  "send_back p st = st\<lparr>gs_prompts := gs_prompts st @ [p], gs_exit := None\<rparr>"

definition spend :: "gate_state \<Rightarrow> gate_state" where
  "spend st = st\<lparr>gs_continuations := gs_continuations st + 1\<rparr>"

definition prompt :: "string \<Rightarrow> gate_state \<Rightarrow> gate_state" where
  "prompt p st = st\<lparr>gs_prompts := gs_prompts st @ [p]\<rparr>"

text \<open>Reading the specification moves a stale one away.\<close>

definition read_spec :: "finish_config \<Rightarrow> gate_state \<Rightarrow> string option \<times> gate_state" where
  "read_spec cfg st =
     (let (t, moved) = read_spec_for_run (fc_parse cfg) (fc_session cfg) (fc_started cfg) (gs_spec st) in
      (t, if moved then st\<lparr>gs_spec := None\<rparr> else st))"

subsection \<open>The checklist\<close>

definition is_open :: "todo_item \<Rightarrow> bool" where
  "is_open t \<longleftrightarrow> todo_status t = ''pending'' \<or> todo_status t = ''in_progress''"

definition not_completed :: "todo_item list \<Rightarrow> todo_item list" where
  "not_completed ts = filter (\<lambda>t. todo_status t \<noteq> ''completed'') ts"

definition pending_gate :: "finish_config \<Rightarrow> finish_env \<Rightarrow> gate_state \<Rightarrow> gate_state" where
  "pending_gate cfg env st =
     (let n = length (filter is_open (fe_todos env)) in
      if n > 0
      then send_back (fc_say cfg (Checklist_Note n (length (fe_todos env))
             (map (\<lambda>t. (todo_id t, todo_content t, todo_status t)) (not_completed (fe_todos env))))) st
      else st)"

definition write_count :: "(string \<times> json) list \<Rightarrow> nat" where
  "write_count cs = length (filter (\<lambda>c. fst c \<in> set WRITE_TOOLS) cs)"

definition run_count :: "(string \<times> json) list \<Rightarrow> nat" where
  "run_count cs = length (filter (\<lambda>c. fst c = ''code_run'') cs)"

definition is_complex :: "(string \<times> json) list \<Rightarrow> bool" where
  "is_complex cs \<longleftrightarrow> write_count cs \<ge> 2 \<or> (write_count cs \<ge> 1 \<and> run_count cs \<ge> 1)"

definition protocol_gate :: "finish_config \<Rightarrow> finish_env \<Rightarrow> gate_state \<Rightarrow> gate_state" where
  "protocol_gate cfg env st =
     (if fe_todos env = [] \<and> gs_exit st \<noteq> None \<and> fe_turn env \<ge> 2 \<and> is_complex (fe_calls env)
      then send_back (fc_say cfg (Protocol_Note (write_count (fe_calls env)) (run_count (fe_calls env)))) st
      else st)"

subsection \<open>Hints\<close>

definition spec_anchor :: "finish_config \<Rightarrow> finish_env \<Rightarrow> gate_state \<Rightarrow> gate_state" where
  "spec_anchor cfg env st =
     (if \<not> gs_spec_hint st \<and> has_write_operations (fe_calls env)
      then (case read_spec cfg st of
          (None, st1) \<Rightarrow> send_back (fc_say cfg Spec_Anchor) (st1\<lparr>gs_spec_hint := True\<rparr>)
        | (Some _, st1) \<Rightarrow> st1)
      else st)"

definition plan_reminder :: "finish_config \<Rightarrow> finish_env \<Rightarrow> gate_state \<Rightarrow> gate_state" where
  "plan_reminder cfg env st =
     (if \<not> gs_plan_hint st \<and> fe_turn env \<ge> 2 \<and> has_write_operations (fe_calls env)
         \<and> fe_plan_mode env = None \<and> fe_todos env = []
      then prompt (fc_say cfg Plan_Reminder) (st\<lparr>gs_plan_hint := True\<rparr>) else st)"

definition tdd_nudge :: "finish_config \<Rightarrow> finish_env \<Rightarrow> gate_state \<Rightarrow> gate_state" where
  "tdd_nudge cfg env st =
     (if fc_tdd_gate cfg \<and> \<not> gs_tdd_nudged st \<and> fe_turn env \<ge> 2 \<and> has_write_operations (fe_calls env)
         \<and> \<not> list_ex (\<lambda>c. fst c = ''code_run'' \<and> contains_str ''test'' (to_lowercase (fc_json_text cfg (snd c)))) (fe_calls env)
      then prompt (fc_say cfg Tdd_Reminder) (st\<lparr>gs_tdd_nudged := True\<rparr>) else st)"

definition soft_budget :: "finish_config \<Rightarrow> finish_env \<Rightarrow> gate_state \<Rightarrow> gate_state" where
  "soft_budget cfg env st =
     (if fc_quality_gates cfg \<and> fe_turn env > 0 \<and> SOFT_BUDGET_TURNS dvd fe_turn env
         \<and> gs_soft_prompts st < SOFT_BUDGET_MAX_PROMPTS \<and> gs_exit st = None
      then prompt (fc_say cfg (Budget_Note (fe_turn env))) (st\<lparr>gs_soft_prompts := gs_soft_prompts st + 1\<rparr>) else st)"

definition suspicion_gate :: "finish_config \<Rightarrow> finish_env \<Rightarrow> gate_state \<Rightarrow> gate_state" where
  "suspicion_gate cfg env st =
     (if gs_exit st \<noteq> None \<and> fc_quality_gates cfg \<and> \<not> gs_suspicion_checked st
         \<and> gs_continuations st < MAX_GATE_CONTINUATIONS
      then (let st1 = st\<lparr>gs_suspicion_checked := True\<rparr> in
        case find_unresolved_suspicion (\<lambda>s. fc_say cfg (Suspicion_Note s)) (fc_say cfg Cut_Mark) (fc_doubt_words cfg)
          (fe_messages env) (fe_calls env) of
          Some hint \<Rightarrow> send_back hint (spend st1)
        | None \<Rightarrow> st1)
      else st)"

definition loop_warning :: "finish_config \<Rightarrow> finish_env \<Rightarrow> gate_state \<Rightarrow> gate_state" where
  "loop_warning cfg env st =
     (case detect_loop (fe_sensorium env) of Some m \<Rightarrow> prompt (fc_say cfg (Loop_Note m)) st | None \<Rightarrow> st)"

definition clean_finish :: "finish_config \<Rightarrow> finish_env \<Rightarrow> gate_state \<Rightarrow> gate_state" where
  "clean_finish cfg env st =
     (if gs_prompts st = [] \<and> gs_exit st = None
      then (let n = length (filter is_open (fe_todos env)) in
        if n > 0
        then prompt (fc_say cfg (Continue_Note n (map (\<lambda>t. (todo_id t, todo_content t)) (not_completed (fe_todos env))))) st
        else st\<lparr>gs_exit := Some ''CURRENT_TASK_DONE''\<rparr>)
      else st)"

subsection \<open>The delivery gates\<close>

definition set_outcome :: "(quality_outcome \<Rightarrow> quality_outcome) \<Rightarrow> gate_state \<Rightarrow> gate_state" where
  "set_outcome f st = st\<lparr>gs_outcome := f (gs_outcome st)\<rparr>"

definition enter_gates :: "finish_env \<Rightarrow> gate_state \<Rightarrow> gate_state" where
  "enter_gates env st =
     (let p = probe_of (fe_calls env); n = length (all_files p) in
      set_outcome (\<lambda>q. q\<lparr>qo_deliverables := n, qo_shell_only := dp_files p = [] \<and> dp_shell p \<noteq> []\<rparr>)
        (st\<lparr>gs_entered := n > 0\<rparr>))"

definition auto_spec :: "finish_config \<Rightarrow> finish_env \<Rightarrow> gate_state \<Rightarrow> gate_state" where
  "auto_spec cfg env st =
     (if all_files (probe_of (fe_calls env)) = [] then st
      else case read_spec cfg st of
        (Some _, st1) \<Rightarrow> st1
      | (None, st1) \<Rightarrow>
          if gs_auto_spec st1 then set_outcome (\<lambda>q. q\<lparr>qo_assertions := A_Synthesis_Failed\<rparr>) st1
          else (let st2 = st1\<lparr>gs_auto_spec := True\<rparr> in
            if \<not> fc_summary_configured cfg then set_outcome (\<lambda>q. q\<lparr>qo_assertions := A_Synthesis_Failed\<rparr>) st2
            else (case write_auto_spec (fc_say cfg Auto_Title) (extract_verify_lines (fe_synthesis env)) of
                Some body \<Rightarrow> st2\<lparr>gs_spec := Some \<lparr>spec_text = body, spec_mtime = Some (fe_mtime env)\<rparr>\<rparr>
              | None \<Rightarrow> set_outcome (\<lambda>q. q\<lparr>qo_assertions := A_Synthesis_Failed\<rparr>) st2)))"

definition take_outcome :: "assertion_outcome \<Rightarrow> quality_outcome \<Rightarrow> quality_outcome" where
  "take_outcome o1 q =
     q\<lparr>qo_assertions := ao_status o1, qo_assertions_total := ao_total o1,
       qo_assertions_failed := length (ao_failures o1), qo_assertions_blocked := length (ao_blocked o1)\<rparr>"

definition policy_step :: "finish_config \<Rightarrow> assertion_outcome \<Rightarrow> gate_state \<Rightarrow> gate_state" where
  "policy_step cfg o1 st =
     (if \<not> gs_policy_feedback st \<and> gs_continuations st < MAX_GATE_CONTINUATIONS
      then (case format_assertion_policy_feedback (\<lambda>f. fc_say cfg (Gate_Feedback f)) o1 of
          Some fb \<Rightarrow> send_back fb (spend (st\<lparr>gs_policy_feedback := True\<rparr>))
        | None \<Rightarrow> st)
      else st)"

definition failure_step :: "finish_config \<Rightarrow> string \<Rightarrow> assertion_outcome \<Rightarrow> gate_state \<Rightarrow> gate_state" where
  "failure_step cfg spec o1 st =
     (let st1 = st\<lparr>gs_contract := Some (length (load_assertions spec), length (ao_failures o1))\<rparr> in
      if ao_failures o1 \<noteq> []
      then send_back (format_assertion_feedback (\<lambda>f. fc_say cfg (Gate_Feedback f)) (fc_say cfg Cut_Mark) (ao_failures o1)
             (gs_rounds st1 + 1)) (spend (st1\<lparr>gs_rounds := gs_rounds st1 + 1\<rparr>))
      else st1)"

definition gate_a :: "finish_config \<Rightarrow> finish_env \<Rightarrow> gate_state \<Rightarrow> string option \<times> gate_state" where
  "gate_a cfg env st =
     (let (t, st1) = read_spec cfg st in
      (t, case t of
            None \<Rightarrow> st1
          | Some spec \<Rightarrow>
              (let o1 = run_assertion_gate_checked (fc_say cfg Refusal_Dash) (fc_say cfg Cut_Mark) (fe_run env) spec in
               if gs_rounds st1 < fc_assertion_max_rounds cfg \<and> gs_continuations st1 < MAX_GATE_CONTINUATIONS
               then failure_step cfg spec o1 (policy_step cfg o1 (set_outcome (take_outcome o1) st1))
               else if \<not> gs_exhausted_checked st1
               then (let st2 = set_outcome (take_outcome o1)
                       (st1\<lparr>gs_exhausted_checked := True,
                          gs_contract := Some (length (load_assertions spec), length (ao_failures o1))\<rparr>) in
                     if ao_failures o1 \<noteq> [] then st2\<lparr>gs_note := Some (fc_say cfg (Exhausted_Note (length (ao_failures o1))))\<rparr>
                     else st2)
               else st1)))"

definition review_request_of :: "finish_config \<Rightarrow> finish_env \<Rightarrow> string option \<Rightarrow> gate_state \<Rightarrow> review_request" where
  "review_request_of cfg env spec st =
     (let ds = all_files (probe_of (fe_calls env)) in
      \<lparr>rq_spec = (case spec of Some s \<Rightarrow> s | None \<Rightarrow> take 1500 (fc_user_input cfg)),
       rq_deliverables = ds, rq_reply = fe_reply env,
       rq_evidence =
         \<lparr>ev_diff = map_option (\<lambda>d. snd (snd d)) (fe_diff env),
          ev_snippets = collect_file_snippets (\<lambda>n. fc_say cfg (Snippet_Note n)) (fc_say cfg Cut_Mark) (fe_content env) ds,
          ev_outcomes = summarize_tool_outcomes (fc_say cfg Arrow_Sign) (fc_say cfg Cut_Mark) (fe_calls env) (fe_log env),
          ev_assertions = assertion_summary_lines (\<lambda>p. fc_say cfg (Evidence_Part p)) (gs_outcome st)\<rparr>,
       rq_red_team = is_high_risk_write (fe_calls env)\<rparr>)"

definition high_count :: "review_verdict \<Rightarrow> nat" where
  "high_count v = length (filter is_high (rv_issues v))"

definition take_verdict :: "review_verdict option \<Rightarrow> quality_outcome \<Rightarrow> quality_outcome" where
  "take_verdict vo q =
     (case vo of
        None \<Rightarrow> q\<lparr>qo_reviewed := True, qo_review := R_Unavailable\<rparr>
      | Some v \<Rightarrow> q\<lparr>qo_reviewed := True,
            qo_review := (if rv_pass v \<and> high_count v > 0 then R_Failed else rv_status v),
            qo_derived := rv_derived v, qo_high := high_count v\<rparr>)"

definition act_on_verdict :: "finish_config \<Rightarrow> review_verdict \<Rightarrow> gate_state \<Rightarrow> gate_state" where
  "act_on_verdict cfg v st =
     (if rv_pass v \<and> high_count v = 0 then st
      else if review_requires_fix v \<and> gs_continuations st < MAX_GATE_CONTINUATIONS \<and> gs_review_rounds st < 2
      then send_back (format_review_feedback (\<lambda>is. fc_say cfg (Review_Feedback is)) (fc_say cfg Cut_Mark) (rv_issues v)) (spend st)
      else if review_requires_fix v then st\<lparr>gs_note := Some (fc_say cfg (Review_Failed_Note (high_count v)))\<rparr>
      else st\<lparr>gs_note := Some (fc_say cfg No_Verdict_Note)\<rparr>)"

definition reviewer_verdict :: "finish_config \<Rightarrow> finish_env \<Rightarrow> string option \<Rightarrow> gate_state \<Rightarrow> review_verdict option" where
  "reviewer_verdict cfg env spec st =
     Option.bind (fe_review env (review_request_of cfg env spec st))
       (review_verdict_from_raw (fc_parse cfg) (fc_say cfg Nameless_Issue))"

definition gate_b :: "finish_config \<Rightarrow> finish_env \<Rightarrow> string option \<Rightarrow> gate_state \<Rightarrow> gate_state" where
  "gate_b cfg env spec st =
     (if gs_exit st \<noteq> None \<and> fc_review_enabled cfg
         \<and> length (all_files (probe_of (fe_calls env))) \<ge> fc_review_min_tools cfg \<and> gs_review_rounds st < 2
      then (let st1 = st\<lparr>gs_review_rounds := gs_review_rounds st + 1\<rparr>; vo = reviewer_verdict cfg env spec st1;
                st2 = set_outcome (take_verdict vo) st1 in
            case vo of None \<Rightarrow> st2 | Some v \<Rightarrow> act_on_verdict cfg v st2)
      else st)"

definition delivery_gates :: "finish_config \<Rightarrow> finish_env \<Rightarrow> gate_state \<Rightarrow> gate_state" where
  "delivery_gates cfg env st =
     (if gs_exit st \<noteq> None \<and> fc_quality_gates cfg
      then (let (spec, st1) = gate_a cfg env (auto_spec cfg env (enter_gates env st)) in gate_b cfg env spec st1)
      else st)"

definition diff_gate :: "finish_config \<Rightarrow> finish_env \<Rightarrow> gate_state \<Rightarrow> gate_state" where
  "diff_gate cfg env st =
     (if gs_exit st \<noteq> None \<and> fc_quality_gates cfg \<and> \<not> gs_diff_checked st
         \<and> gs_continuations st < MAX_GATE_CONTINUATIONS \<and> has_write_operations (fe_calls env)
      then (let st1 = st\<lparr>gs_diff_checked := True\<rparr> in
        case fe_diff env of
          None \<Rightarrow> st1
        | Some (n, churn, excerpt) \<Rightarrow>
            if n > DIFF_FILES_MAX \<or> churn > DIFF_CHURN_MAX then send_back (fc_say cfg (Diff_Note excerpt)) (spend st1) else st1)
      else st)"

subsection \<open>The end of a turn\<close>

definition before_delivery :: "finish_config \<Rightarrow> finish_env \<Rightarrow> gate_state \<Rightarrow> gate_state" where
  "before_delivery cfg env st =
     loop_warning cfg env (suspicion_gate cfg env (soft_budget cfg env (tdd_nudge cfg env (plan_reminder cfg env
       (spec_anchor cfg env (protocol_gate cfg env (pending_gate cfg env st)))))))"

definition finish_gates :: "finish_config \<Rightarrow> finish_env \<Rightarrow> gate_state \<Rightarrow> gate_state" where
  "finish_gates cfg env st =
     (if gs_exit st = None then st
      else diff_gate cfg env (delivery_gates cfg env (clean_finish cfg env (before_delivery cfg env st))))"

text \<open>
  Before them, after a turn that wrote, the quick check: it spends the same budget.
\<close>

definition quick_gate :: "finish_config \<Rightarrow> finish_env \<Rightarrow> gate_state \<Rightarrow> gate_state" where
  "quick_gate cfg env st =
     (if fc_quality_gates cfg \<and> gs_prompts st = [] \<and> gs_continuations st < MAX_GATE_CONTINUATIONS
      then (case quick_verify_after_write (\<lambda>(n, m). fc_say cfg (Quick_Note n m)) (fc_say cfg Cut_Mark) (fe_marker env)
          (fe_quick_run env) (fe_tools env) (collect_deliverables (fe_calls env)) of
          Some fb \<Rightarrow> send_back fb (spend st)
        | None \<Rightarrow> st)
      else st)"

text \<open>One turn: it may leave a reason to exit, prompts of its own and the specification file as it is then.\<close>

definition attempt :: "finish_config \<Rightarrow> finish_env \<Rightarrow> gate_state \<Rightarrow> gate_state" where
  "attempt cfg env st =
     finish_gates cfg env (quick_gate cfg env
       (st\<lparr>gs_exit := fe_exit env, gs_prompts := fe_prompts env, gs_spec := fe_spec env\<rparr>))"

text \<open>Attempts until the first after which the loop ends, with the number of those before it.\<close>

fun attempts_to_finish :: "finish_config \<Rightarrow> finish_env list \<Rightarrow> gate_state \<Rightarrow> (nat \<times> gate_state) option" where
  "attempts_to_finish cfg [] st = None"
| "attempts_to_finish cfg (env # envs) st =
     (let st' = attempt cfg env st in
      if gs_exit st' \<noteq> None then Some (0, st')
      else map_option (\<lambda>(n, s). (Suc n, s)) (attempts_to_finish cfg envs st'))"

subsection \<open>Who is sent back gets a prompt\<close>

lemmas gate_moves = send_back_def spend_def prompt_def set_outcome_def

lemma read_spec_keeps [simp]:
  "gs_exit (snd (read_spec cfg st)) = gs_exit st"
  "gs_prompts (snd (read_spec cfg st)) = gs_prompts st"
  "gs_continuations (snd (read_spec cfg st)) = gs_continuations st"
  "gs_spec_hint (snd (read_spec cfg st)) = gs_spec_hint st"
  "gs_outcome (snd (read_spec cfg st)) = gs_outcome st"
  by (simp_all add: read_spec_def Let_def split: prod.split)

definition prompted :: "gate_state \<Rightarrow> bool" where
  "prompted st \<longleftrightarrow> gs_exit st \<noteq> None \<or> gs_prompts st \<noteq> []"

lemma prompted_gates:
  "prompted st \<Longrightarrow> prompted (pending_gate cfg env st)"
  "prompted st \<Longrightarrow> prompted (protocol_gate cfg env st)"
  "prompted st \<Longrightarrow> prompted (plan_reminder cfg env st)"
  "prompted st \<Longrightarrow> prompted (tdd_nudge cfg env st)"
  "prompted st \<Longrightarrow> prompted (soft_budget cfg env st)"
  "prompted st \<Longrightarrow> prompted (suspicion_gate cfg env st)"
  "prompted st \<Longrightarrow> prompted (loop_warning cfg env st)"
  by (auto simp: prompted_def pending_gate_def protocol_gate_def plan_reminder_def tdd_nudge_def soft_budget_def
      suspicion_gate_def loop_warning_def gate_moves Let_def split: option.split)

lemma prompted_spec_anchor: "prompted st \<Longrightarrow> prompted (spec_anchor cfg env st)"
  using read_spec_keeps [of cfg st]
  by (cases "read_spec cfg st") (auto simp: prompted_def spec_anchor_def gate_moves split: option.split)

text \<open>
  The branch that is to end a run with nothing left to do is never taken: it asks for a turn
  without a reason to exit and without prompts, in a block that only turns with a reason enter, and
  every gate that takes the reason back has given a prompt.  For the same reason the warning about
  a loop and the budget of turns reach only a run that is trying to finish.
\<close>
lemma clean_finish_is_dead:
  assumes "gs_exit st \<noteq> None"
  shows "clean_finish cfg env (before_delivery cfg env st) = before_delivery cfg env st"
proof -
  have "prompted st" using assms by (simp add: prompted_def)
  then have "prompted (before_delivery cfg env st)"
    unfolding before_delivery_def by (intro prompted_gates prompted_spec_anchor)
  then show ?thesis by (auto simp: prompted_def clean_finish_def)
qed

lemma guards_sleep_while_running: "gs_exit st = None \<Longrightarrow> finish_gates cfg env st = st"
  by (simp add: finish_gates_def)

subsection \<open>The gates let go\<close>

definition sendbacks_left :: "gate_state \<Rightarrow> nat" where
  "sendbacks_left st = (if gs_spec_hint st then 0 else 1) + (MAX_GATE_CONTINUATIONS - gs_continuations st)"

definition fades :: "gate_state \<Rightarrow> gate_state \<Rightarrow> bool" where
  "fades st st' \<longleftrightarrow> sendbacks_left st' \<le> sendbacks_left st \<and> (gs_exit st \<noteq> None \<and> gs_exit st' = None \<longrightarrow> sendbacks_left st' < sendbacks_left st)"

lemma fades_trans: "fades st st1 \<Longrightarrow> fades st1 st2 \<Longrightarrow> fades st st2"
  unfolding fades_def by (cases "gs_exit st1 = None") auto

lemma fades_same:
  "gs_exit st' = gs_exit st \<Longrightarrow> gs_continuations st' = gs_continuations st \<Longrightarrow> gs_spec_hint st' = gs_spec_hint st \<Longrightarrow> fades st st'"
  by (auto simp: fades_def sendbacks_left_def)

lemma fades_spent:
  "gs_continuations st < MAX_GATE_CONTINUATIONS \<Longrightarrow> gs_continuations st < gs_continuations st' \<Longrightarrow> gs_spec_hint st' = gs_spec_hint st
   \<Longrightarrow> fades st st'"
  by (auto simp: fades_def sendbacks_left_def)

definition list_done :: "finish_env \<Rightarrow> bool" where
  "list_done env \<longleftrightarrow> fe_exit env \<noteq> None \<and> filter is_open (fe_todos env) = [] \<and> (fe_todos env \<noteq> [] \<or> \<not> is_complex (fe_calls env))"

lemma fades_first:
  assumes "list_done env"
  shows "fades st (pending_gate cfg env st)" "fades st (protocol_gate cfg env st)" "fades st (plan_reminder cfg env st)"
    "fades st (tdd_nudge cfg env st)" "fades st (soft_budget cfg env st)" "fades st (loop_warning cfg env st)"
    "fades st (clean_finish cfg env st)"
proof -
  show "fades st (pending_gate cfg env st)" using assms by (simp add: pending_gate_def list_done_def fades_same)
  show "fades st (protocol_gate cfg env st)" using assms by (auto simp: protocol_gate_def list_done_def fades_same)
  show "fades st (plan_reminder cfg env st)" by (simp add: plan_reminder_def gate_moves fades_same)
  show "fades st (tdd_nudge cfg env st)" by (simp add: tdd_nudge_def gate_moves fades_same)
  show "fades st (soft_budget cfg env st)" by (simp add: soft_budget_def gate_moves fades_same)
  show "fades st (loop_warning cfg env st)" by (simp add: loop_warning_def gate_moves fades_same split: option.split)
  show "fades st (clean_finish cfg env st)"
    by (auto simp: clean_finish_def gate_moves Let_def fades_def sendbacks_left_def)
qed

lemma fades_spec_anchor: "fades st (spec_anchor cfg env st)"
  using read_spec_keeps [of cfg st]
  by (cases "read_spec cfg st") (auto simp: spec_anchor_def gate_moves fades_def sendbacks_left_def split: option.split)

lemma fades_suspicion: "fades st (suspicion_gate cfg env st)"
  by (auto simp: suspicion_gate_def gate_moves Let_def fades_same fades_spent split: option.split)

lemma fades_auto_spec: "fades st (auto_spec cfg env st)"
  using read_spec_keeps [of cfg st]
  by (cases "read_spec cfg st")
    (auto simp: auto_spec_def gate_moves Let_def split: option.split intro!: fades_same)

lemma fades_failure:
  assumes "gs_continuations st < MAX_GATE_CONTINUATIONS"
  shows "fades st (failure_step cfg spec o1 (policy_step cfg o1 (set_outcome f st)))"
proof -
  have "fades st (policy_step cfg o1 (set_outcome f st))"
    using assms by (auto simp: policy_step_def gate_moves fades_same fades_spent split: option.split)
  moreover have "fades (policy_step cfg o1 (set_outcome f st)) (failure_step cfg spec o1 (policy_step cfg o1 (set_outcome f st)))"
    using assms by (auto simp: policy_step_def failure_step_def gate_moves Let_def fades_def sendbacks_left_def split: option.split)
  ultimately show ?thesis by (rule fades_trans)
qed

lemma fades_gate_a: "fades st (snd (gate_a cfg env st))"
proof -
  obtain t st1 where r: "read_spec cfg st = (t, st1)" by fastforce
  have same: "gs_exit st1 = gs_exit st" "gs_continuations st1 = gs_continuations st" "gs_spec_hint st1 = gs_spec_hint st"
    using read_spec_keeps [of cfg st] by (simp_all add: r)
  have "fades st st1" using same by (rule fades_same)
  moreover have "fades st1 (snd (gate_a cfg env st))"
    using fades_failure [of st1] by (auto simp: gate_a_def r Let_def gate_moves fades_same split: option.split)
  ultimately show ?thesis by (rule fades_trans)
qed

lemma fades_gate_b: "fades st (gate_b cfg env spec st)"
  by (auto simp: gate_b_def act_on_verdict_def gate_moves Let_def fades_same fades_spent split: option.split)

lemma fades_delivery: "fades st (delivery_gates cfg env st)"
proof -
  have "fades st (enter_gates env st)" by (simp add: enter_gates_def gate_moves Let_def fades_same)
  also note fades_auto_spec
  finally (fades_trans) have "fades st (auto_spec cfg env (enter_gates env st))" .
  then have "fades st (snd (gate_a cfg env (auto_spec cfg env (enter_gates env st))))"
    by (rule fades_trans [OF _ fades_gate_a])
  then have "fades st (gate_b cfg env spec (snd (gate_a cfg env (auto_spec cfg env (enter_gates env st)))))" for spec
    by (rule fades_trans [OF _ fades_gate_b])
  then show ?thesis by (auto simp: delivery_gates_def Let_def fades_same split: prod.split)
qed

lemma fades_diff: "fades st (diff_gate cfg env st)"
  by (auto simp: diff_gate_def gate_moves Let_def fades_same fades_spent split: option.split prod.split)

lemma fades_quick: "fades st (quick_gate cfg env st)"
  by (auto simp: quick_gate_def gate_moves fades_same fades_spent split: option.split)

lemma attempt_fades:
  assumes "list_done env" and "gs_exit (attempt cfg env st) = None"
  shows "sendbacks_left (attempt cfg env st) < sendbacks_left st"
proof -
  let ?entry = "st\<lparr>gs_exit := fe_exit env, gs_prompts := fe_prompts env, gs_spec := fe_spec env\<rparr>"
  let ?st = "quick_gate cfg env ?entry"
  have "fades ?st (before_delivery cfg env ?st)"
    unfolding before_delivery_def
    by (intro fades_trans [OF _ fades_first(6) [OF assms(1)]] fades_trans [OF _ fades_suspicion]
        fades_trans [OF _ fades_first(5) [OF assms(1)]] fades_trans [OF _ fades_first(4) [OF assms(1)]]
        fades_trans [OF _ fades_first(3) [OF assms(1)]] fades_trans [OF _ fades_spec_anchor]
        fades_trans [OF _ fades_first(2) [OF assms(1)]] fades_first(1) [OF assms(1)])
  then have "fades ?st (diff_gate cfg env (delivery_gates cfg env (clean_finish cfg env (before_delivery cfg env ?st))))"
    by (intro fades_trans [OF _ fades_diff] fades_trans [OF _ fades_delivery] fades_trans [OF _ fades_first(7) [OF assms(1)]])
  then have "fades ?st (attempt cfg env st)" by (auto simp: attempt_def finish_gates_def fades_same)
  then have "fades ?entry (attempt cfg env st)" by (rule fades_trans [OF fades_quick])
  moreover have "sendbacks_left ?entry = sendbacks_left st" "gs_exit ?entry \<noteq> None"
    using assms(1) by (simp_all add: sendbacks_left_def list_done_def)
  ultimately show ?thesis using assms(2) by (simp add: fades_def)
qed

text \<open>
  C13: the gates of the delivery cannot hold a run for ever.  Whatever the shell, the reviewer and the diff
  say, a run whose checklist is done ends at the latest with its sixth attempt to finish; five
  times, and only five times, a gate can send it back.
\<close>
theorem finish_gates_let_go:
  assumes "list_all list_done envs" and "length envs \<ge> 6"
  shows "\<exists>n s. attempts_to_finish cfg envs st = Some (n, s) \<and> n \<le> 5 \<and> gs_exit s \<noteq> None"
proof -
  have "\<exists>n s. attempts_to_finish cfg envs st = Some (n, s) \<and> n \<le> sendbacks_left st \<and> gs_exit s \<noteq> None"
    if "length envs > sendbacks_left st" using assms(1) that
  proof (induction envs arbitrary: st)
    case (Cons env envs)
    show ?case
    proof (cases "gs_exit (attempt cfg env st) = None")
      case True
      then have less: "sendbacks_left (attempt cfg env st) < sendbacks_left st"
        using Cons.prems(1) attempt_fades by simp
      then obtain n s where "attempts_to_finish cfg envs (attempt cfg env st) = Some (n, s)" "n \<le> sendbacks_left (attempt cfg env st)" "gs_exit s \<noteq> None"
        using Cons.IH [of "attempt cfg env st"] Cons.prems by auto
      with True less show ?thesis by (simp add: Let_def)
    qed (simp add: Let_def)
  qed simp
  moreover have "sendbacks_left st \<le> 5" by (auto simp: sendbacks_left_def MAX_GATE_CONTINUATIONS_def)
  ultimately show ?thesis using assms(2) by fastforce
qed


lemma budget_of_six: "MAX_GATE_CONTINUATIONS = 4" "6 = Suc (Suc (Suc (Suc (Suc (Suc 0)))))"
  by (simp_all add: MAX_GATE_CONTINUATIONS_def)

definition idle_env :: finish_env where
  "idle_env =
     \<lparr>fe_exit = Some ''EXITED'', fe_prompts = [], fe_turn = 1, fe_todos = [], fe_plan_mode = None, fe_calls = [], fe_log = [],
       fe_messages = [], fe_sensorium = sensorium_new 0, fe_reply = [], fe_synthesis = [], fe_spec = None, fe_mtime = 0,
       fe_tools = [], fe_marker = (\<lambda>_. False), fe_quick_run = (\<lambda>_ _. None),
       fe_run = (\<lambda>_. None), fe_content = (\<lambda>_. Err []), fe_review = (\<lambda>_. None), fe_diff = None\<rparr>"

theorem finish_gates_let_go_witness:
  "\<forall>cfg st. \<exists>n s. attempts_to_finish cfg (replicate 6 idle_env) st = Some (n, s) \<and> n \<le> 5 \<and> gs_exit s \<noteq> None"
proof -
  have "list_all list_done (replicate 6 idle_env)"
    by (simp add: list_all_iff list_done_def idle_env_def is_complex_def write_count_def run_count_def)
  then show ?thesis using finish_gates_let_go [of "replicate 6 idle_env"] by simp
qed

subsection \<open>What a run reports has been earned\<close>

definition gate_start :: gate_state where
  "gate_start =
     \<lparr>gs_exit = None, gs_prompts = [], gs_continuations = 0, gs_spec_hint = False, gs_plan_hint = False,
       gs_tdd_nudged = False, gs_soft_prompts = 0, gs_suspicion_checked = False, gs_auto_spec = False,
       gs_policy_feedback = False, gs_rounds = 0, gs_exhausted_checked = False, gs_review_rounds = 0,
       gs_diff_checked = False, gs_entered = False, gs_outcome = default_outcome, gs_note = None,
       gs_contract = None, gs_spec = None\<rparr>"

definition earned :: "quality_outcome \<Rightarrow> bool" where
  "earned q \<longleftrightarrow>
     \<not> (qo_review q = R_Passed \<and> \<not> (qo_reviewed q \<and> qo_high q = 0))
   \<and> \<not> (qo_assertions q = A_Passed
        \<and> \<not> (qo_assertions_total q > 0 \<and> qo_assertions_failed q = 0 \<and> qo_assertions_blocked q = 0))"

definition gates_ok :: "gate_state \<Rightarrow> bool" where
  "gates_ok st \<longleftrightarrow>
     earned (gs_outcome st) \<and> gs_continuations st \<le> MAX_GATE_CONTINUATIONS + 1
   \<and> gs_review_rounds st \<le> 2 \<and> gs_soft_prompts st \<le> SOFT_BUDGET_MAX_PROMPTS"

lemma earned_other:
  "earned q \<Longrightarrow> earned (q\<lparr>qo_deliverables := n, qo_shell_only := b\<rparr>)"
  "earned q \<Longrightarrow> earned (q\<lparr>qo_assertions := A_Synthesis_Failed\<rparr>)"
  by (auto simp: earned_def)

lemma earned_take_outcome: "earned q \<Longrightarrow> earned (take_outcome o1 q)"
  by (auto simp: earned_def take_outcome_def ao_status_def split: if_splits)

lemma earned_take_verdict:
  assumes "earned q" and "\<forall>v. vo = Some v \<longrightarrow> rv_status v = R_Passed \<longrightarrow> rv_pass v"
  shows "earned (take_verdict vo q)"
  using assms by (cases vo) (auto simp: earned_def take_verdict_def split: if_splits)

lemma verdict_passes: "rv_status (verdict_of nameless j) = R_Passed \<Longrightarrow> rv_pass (verdict_of nameless j)"
  unfolding verdict_of_def Let_def by (auto split: option.splits if_splits)

lemma reviewer_passes: "reviewer_verdict cfg env spec st = Some v \<Longrightarrow> rv_status v = R_Passed \<Longrightarrow> rv_pass v"
  using verdict_passes
  by (auto simp: reviewer_verdict_def review_verdict_from_raw_def parse_review_response_def bind_eq_Some_conv
      split: option.splits if_splits)

lemma ok_same:
  "gates_ok st \<Longrightarrow> gs_outcome st' = gs_outcome st \<Longrightarrow> gs_continuations st' = gs_continuations st
   \<Longrightarrow> gs_review_rounds st' = gs_review_rounds st \<Longrightarrow> gs_soft_prompts st' = gs_soft_prompts st \<Longrightarrow> gates_ok st'"
  by (simp add: gates_ok_def)

lemma read_spec_rounds [simp]:
  "gs_review_rounds (snd (read_spec cfg st)) = gs_review_rounds st"
  "gs_soft_prompts (snd (read_spec cfg st)) = gs_soft_prompts st"
  "gs_policy_feedback (snd (read_spec cfg st)) = gs_policy_feedback st"
  by (simp_all add: read_spec_def Let_def split: prod.split)

lemma ok_read_spec: "gates_ok st \<Longrightarrow> gates_ok (snd (read_spec cfg st))"
  by (erule ok_same) simp_all

lemma ok_before:
  assumes "gates_ok st"
  shows "gates_ok (pending_gate cfg env st)" "gates_ok (protocol_gate cfg env st)" "gates_ok (plan_reminder cfg env st)"
    "gates_ok (tdd_nudge cfg env st)" "gates_ok (soft_budget cfg env st)" "gates_ok (suspicion_gate cfg env st)"
    "gates_ok (loop_warning cfg env st)" "gates_ok (clean_finish cfg env st)" "gates_ok (diff_gate cfg env st)"
    "gates_ok (quick_gate cfg env st)"
  using assms
  by (simp_all add: gates_ok_def pending_gate_def protocol_gate_def plan_reminder_def tdd_nudge_def soft_budget_def
      suspicion_gate_def loop_warning_def clean_finish_def diff_gate_def quick_gate_def gate_moves Let_def split: option.split prod.split)

lemma ok_spec_anchor: "gates_ok st \<Longrightarrow> gates_ok (spec_anchor cfg env st)"
  using ok_read_spec [of st cfg]
  by (cases "read_spec cfg st") (auto simp: spec_anchor_def gate_moves gates_ok_def split: option.split)

lemma ok_auto_spec: "gates_ok st \<Longrightarrow> gates_ok (auto_spec cfg env st)"
  using ok_read_spec [of st cfg]
  by (cases "read_spec cfg st") (auto simp: auto_spec_def gate_moves gates_ok_def Let_def earned_other split: option.split)

lemma ok_gate_a:
  assumes "gates_ok st"
  shows "gates_ok (snd (gate_a cfg env st))"
proof -
  obtain t st1 where r: "read_spec cfg st = (t, st1)" by fastforce
  have "gates_ok st1" using ok_read_spec [OF assms, of cfg] by (simp add: r)
  then show ?thesis
    by (auto simp: gate_a_def r Let_def failure_step_def policy_step_def gate_moves gates_ok_def earned_take_outcome
        split: option.split)
qed

lemma ok_gate_b:
  assumes "gates_ok st"
  shows "gates_ok (gate_b cfg env spec st)"
proof -
  let ?st = "st\<lparr>gs_review_rounds := gs_review_rounds st + 1\<rparr>"
  have e: "earned (take_verdict (reviewer_verdict cfg env spec ?st) (gs_outcome st))"
    by (rule earned_take_verdict) (use assms reviewer_passes in \<open>auto simp: gates_ok_def\<close>)
  show ?thesis using assms e
    by (auto simp: gate_b_def act_on_verdict_def gate_moves gates_ok_def Let_def split: option.split)
qed

lemma ok_delivery: "gates_ok st \<Longrightarrow> gates_ok (delivery_gates cfg env st)"
proof -
  assume "gates_ok st"
  then have "gates_ok (enter_gates env st)" by (simp add: enter_gates_def gate_moves gates_ok_def Let_def earned_other)
  then have "gates_ok (gate_b cfg env spec (snd (gate_a cfg env (auto_spec cfg env (enter_gates env st)))))" for spec
    by (intro ok_gate_b ok_gate_a ok_auto_spec)
  with \<open>gates_ok st\<close> show ?thesis by (auto simp: delivery_gates_def Let_def split: prod.split)
qed

lemma attempt_ok: "gates_ok st \<Longrightarrow> gates_ok (attempt cfg env st)"
  unfolding attempt_def finish_gates_def before_delivery_def
  by (auto intro!: ok_before ok_spec_anchor ok_delivery) (simp_all add: gates_ok_def)

interpretation delivery: bounded_machine "\<lambda>st. st = gate_start" "attempt cfg" gates_ok gs_continuations "MAX_GATE_CONTINUATIONS + 1"
  by unfold_locales
    (simp_all add: attempt_ok, simp_all add: gates_ok_def gate_start_def default_outcome_def earned_def)

text \<open>
  C14: what a run reports has been earned.  After any number of attempts_to_finish, a review that is reported
  as passed took place and found no issue of high severity, and assertions reported as passed are
  at least one, of which none failed and none was blocked.  The gates send the agent back at most
  five times on the shared budget of four: a refused and a failed assertion of one attempt both
  spend it.
\<close>
theorem reported_outcome_is_earned:
  "let st = runs (attempt cfg) envs gate_start in
     earned (gs_outcome st) \<and> gs_continuations st \<le> 5 \<and> gs_review_rounds st \<le> 2"
  using delivery.reachable_invar [of gate_start cfg envs] delivery.runs_bound [of gate_start cfg envs]
  by (simp add: Let_def gates_ok_def MAX_GATE_CONTINUATIONS_def)

subsection \<open>A failed command is shown to the reviewer as a success\<close>

text \<open>
  The log of the run has an entry for every call, but the summary for the reviewer gives an
  entry to shell calls only.  After a successful read the command that failed is shown as one that
  succeeded, whatever its error.
\<close>
theorem failed_command_shown_as_ok:
  "summarize_tool_outcomes arrow cut_mark [(''read'', a), (''code_run'', JObj [(''code'', JStr ''cargo test'')])]
     (ts_log (process_tool_outcome say json_text digest (Inl e) ''code_run'' i2 j2 1 a2
       (process_tool_outcome say json_text digest
         (Inr \<lparr>oc_data = JStr ''text'', oc_next_prompt = None, should_exit = False, oc_images = []\<rparr>)
         ''read'' i1 j1 0 a (demo_turn))))
   = [''code_run: `cargo test` '' @ arrow @ '' ok'']"
proof -
  have c: "shown_call ''code_run'' (JObj [(''code'', JStr ''cargo test'')]) = ''cargo test''" by code_simp
  have t: "truncate_text cut_mark ''cargo test'' 160 = ''cargo test''" by (simp add: truncate_text_def)
  show ?thesis
    by (simp add: process_tool_outcome_def demo_turn_def is_interrupt_def outcome_ok_def Let_def c t shown_outcome_def
        str_arg_def)
qed

end
