(* ===== verification/Audit_Trail.thy ===== *)
theory Audit_Trail
  imports Tool_Outcomes
begin

text \<open>
  The audit trail, \<open>crates/oz-core/src/audit.rs\<close>: the digest of a call's arguments that is written to
  it, the masking of secrets and of the home directory, and the files of the trail with their
  retention.

  \<open>home\<close> is the variable \<open>HOME\<close> where it is set and readable.  The mark the code puts in place of a
  line break and the dots of a masked path are not characters of 8 bits; \<open>mark\<close> and \<open>dots\<close> stand for
  them.  Failures of the file system leave the trail as it is.
\<close>

subsection \<open>The digest\<close>

definition MAX_COMMAND_CHARS :: nat where "MAX_COMMAND_CHARS = 200"

definition split_once :: "char \<Rightarrow> string \<Rightarrow> (string \<times> string) option" where
  "split_once c s =
     (if c \<in> set s then Some (takeWhile (\<lambda>d. d \<noteq> c) s, tl (dropWhile (\<lambda>d. d \<noteq> c) s)) else None)"

definition mask_user :: "string \<Rightarrow> string \<Rightarrow> string" where
  "mask_user dots path =
     (case Option.bind (strip_prefix ''/Users/'' path) (split_once CHR ''/'') of
        Some (_, rest) \<Rightarrow> ''~/'' @ dots @ ''/'' @ rest
      | None \<Rightarrow> path)"

definition redact_home :: "string option \<Rightarrow> string \<Rightarrow> string \<Rightarrow> string" where
  "redact_home home dots path =
     (case home of
        Some h \<Rightarrow> if h \<noteq> [] \<and> prefix h path then ''~'' @ drop (length h) path else mask_user dots path
      | None \<Rightarrow> mask_user dots path)"

text \<open>\<open>split_inclusive\<close>: the pieces keep the separator that ends them.\<close>

fun split_inclusive :: "(char \<Rightarrow> bool) \<Rightarrow> string \<Rightarrow> string list" where
  "split_inclusive P [] = []"
| "split_inclusive P (c # cs) =
     (if P c then [c] # split_inclusive P cs
      else case split_inclusive P cs of [] \<Rightarrow> [[c]] | w # ws \<Rightarrow> (c # w) # ws)"

definition SECRET_MARKERS :: "string list" where
  "SECRET_MARKERS =
     [''token='', ''api_key='', ''apikey='', ''password='', ''secret='', ''bearer'', ''sk-'', ''authorization:'']"

definition opens_secret :: "string \<Rightarrow> bool" where
  "opens_secret piece = list_ex (\<lambda>m. contains_str m (to_lowercase piece)) SECRET_MARKERS"

definition closes_secret :: "string \<Rightarrow> bool" where
  "closes_secret piece \<longleftrightarrow>
     CHR 0x27 \<in> set piece \<or> CHR 0x22 \<in> set piece \<or> contains_str ''&&'' piece \<or> CHR '';'' \<in> set piece"

fun mask_pieces :: "bool \<Rightarrow> string list \<Rightarrow> string" where
  "mask_pieces masking [] = []"
| "mask_pieces masking (w # ws) =
     (if masking \<or> opens_secret w
      then ''<redacted> '' @ mask_pieces (\<not> closes_secret w) ws
      else w @ mask_pieces False ws)"

definition trim_end :: "string \<Rightarrow> string" where
  "trim_end s = rev (dropWhile is_ws (rev s))"

definition redact_secrets :: "char \<Rightarrow> string \<Rightarrow> string" where
  "redact_secrets mark s = trim_end (mask_pieces False (split_inclusive (\<lambda>c. c = CHR '' '' \<or> c = mark) s))"

definition folded_command :: "char \<Rightarrow> string \<Rightarrow> string" where
  "folded_command mark code =
     take MAX_COMMAND_CHARS (filter (\<lambda>c. c \<noteq> CHR 0x0D) (map (\<lambda>c. if c = CHR 0x0A then mark else c) code))"

definition redact_url :: "string \<Rightarrow> string" where
  "redact_url url =
     (let no_frag = (case split_once CHR ''#'' url of Some (h, _) \<Rightarrow> h @ ''#<redacted>'' | None \<Rightarrow> url) in
      case split_once CHR ''?'' no_frag of Some (h, _) \<Rightarrow> h @ ''?<redacted>'' | None \<Rightarrow> no_frag)"

text \<open>An object of \<open>serde_json\<close> lists its keys in order.\<close>

fun object_keys :: "json \<Rightarrow> string list" where
  "object_keys (JObj kvs) = sort (map fst kvs)"
| "object_keys _ = []"

definition digest_args :: "string option \<Rightarrow> string \<Rightarrow> char \<Rightarrow> string \<Rightarrow> json \<Rightarrow> string" where
  "digest_args home dots mark tool args =
     (case (if tool = ''code_run'' then str_arg args ''code'' else None) of
        Some code \<Rightarrow> redact_secrets mark (folded_command mark code)
      | None \<Rightarrow>
     (case str_arg args ''file_path'' of
        Some path \<Rightarrow> redact_home home dots path
      | None \<Rightarrow>
     (case str_arg args ''url'' of
        Some url \<Rightarrow> redact_url url
      | None \<Rightarrow>
     (case str_arg args ''pattern'' of
        Some pattern \<Rightarrow>
          (let path = str_arg_or_empty args ''path'' in
           if path = [] then pattern else pattern @ '' @ '' @ redact_home home dots path)
      | None \<Rightarrow>
          (let keys = object_keys args in
           if keys = [] then [] else ''keys: '' @ join_with '','' keys)))))"

subsection \<open>The files of the trail\<close>

record audit_row =
  row_ts :: string
  row_session :: string
  row_tool :: string
  row_args :: string
  row_decision :: string

record audit_state =
  audit_dir :: "string option"
  audit_files :: "(string, audit_row list) hash_map"

definition set_audit_dir :: "string \<Rightarrow> audit_state \<Rightarrow> audit_state" where
  "set_audit_dir d st = (case audit_dir st of None \<Rightarrow> st\<lparr>audit_dir := Some d\<rparr> | Some _ \<Rightarrow> st)"

definition audit_file :: "string \<Rightarrow> string" where
  "audit_file day = ''audit-'' @ day @ ''.jsonl''"

definition audit_stamp :: "string \<Rightarrow> string option" where
  "audit_stamp name = Option.bind (strip_prefix ''audit-'' name) (strip_suffix ''.jsonl'')"

definition prune_old :: "string \<Rightarrow> (string, audit_row list) hash_map \<Rightarrow> (string, audit_row list) hash_map" where
  "prune_old cutoff fs =
     hm_retain (\<lambda>name _. case audit_stamp name of Some stamp \<Rightarrow> \<not> stamp < cutoff | None \<Rightarrow> True) fs"

text \<open>\<open>writable\<close>: the directory and the file can be written.  A failed write also leaves out the pruning.\<close>

definition log_tool_call :: "bool \<Rightarrow> string \<Rightarrow> string \<Rightarrow> audit_row \<Rightarrow> audit_state \<Rightarrow> audit_state" where
  "log_tool_call writable today cutoff row st =
     (if audit_dir st = None \<or> \<not> writable then st
      else st\<lparr>audit_files := prune_old cutoff (hm_upsert (audit_file today) [] (\<lambda>rows. rows @ [row]) (audit_files st))\<rparr>)"

subsection \<open>What the digest shows\<close>







text \<open>
  A closing quote ends the masking, and so does an opening one: of a quoted header with a secret of
  its own word, the header is masked and the secret is not.
\<close>
lemma quoted_secret_is_shown:
  "digest_args None ''..'' CHR 0xB6 ''code_run''
       (JObj [(''code'', JStr (''curl -H '' @ [CHR 0x22] @ ''Authorization: Basic dXNlcjpwYXNz'' @ [CHR 0x22]))]) =
     ''curl -H <redacted> Basic dXNlcjpwYXNz'' @ [CHR 0x22]"
  by code_simp

text \<open>The home directory is compared as text, so the rest of a longer name stays.\<close>
lemma other_home_is_cut: "redact_home (Some ''/Users/al'') dots ''/Users/alice/x'' = ''~ice/x''"
  by (simp add: redact_home_def)

lemma audit_stamp_file [simp]: "audit_stamp (audit_file day) = Some day"
  by (simp add: audit_stamp_def audit_file_def strip_prefix_def strip_suffix_def suffix_def)

text \<open>
  The trail only grows within its time.  A row that is logged is the last one of the file of its
  day, every other file of a day that is not over the limit is as before, and the files of the
  days before the limit are gone; the directory of the trail is set once.
\<close>
theorem audit_trail_grows:
  assumes "hm_wf (audit_files st)" and "audit_dir st = Some d" and "\<not> today < cutoff"
  shows "let st' = log_tool_call True today cutoff row st in
      hm_get (audit_file today) (audit_files st') =
        Some ((case hm_get (audit_file today) (audit_files st) of None \<Rightarrow> [] | Some rows \<Rightarrow> rows) @ [row])
    \<and> (\<forall>day. day \<noteq> today \<longrightarrow> hm_get (audit_file day) (audit_files st') =
        (if day < cutoff then None else hm_get (audit_file day) (audit_files st)))
    \<and> audit_dir (set_audit_dir d' st') = Some d"
proof -
  have "audit_file day = audit_file today \<longleftrightarrow> day = today" for day by (simp add: audit_file_def)
  then show ?thesis using assms
    by (auto simp: log_tool_call_def prune_old_def hm_get_retain set_audit_dir_def Let_def split: option.split)
qed

theorem audit_trail_grows_witness:
  "hm_get (audit_file ''2026-01-02'')
     (audit_files (log_tool_call True ''2026-01-02'' ''2025-12-19'' r \<lparr>audit_dir = Some ''d'', audit_files = hm_empty\<rparr>)) = Some [r]"
  using audit_trail_grows [of "\<lparr>audit_dir = Some ''d'', audit_files = hm_empty\<rparr>" "''d''" "''2026-01-02''" "''2025-12-19''" r]
  by (simp add: Let_def)

end
