(* ===== verification/Tool_Gate.thy ===== *)
theory Tool_Gate
  imports Audit_Trail Path_Fence Guard Tool_Turn
begin

text \<open>
  The second phase of a turn, \<open>crates/oz-core/src/agent_loop.rs\<close>: its calls run at the same time, and
  each goes through the cache of the speculative executions, the permits of the process and of the
  run, the consent for paths outside the workspace, the safety guard with the question to the user,
  and the gate for calls that keep failing, before it is dispatched.

  A call stops at the points where the code awaits something; between two such points it runs to the
  next one.  What it waits for is an event: a permit, the end of a wait, an answer, the stop signal,
  the outcome of the tool.  An event that does not fit the state of its call changes nothing.  The
  counters of failures do not change in this phase and are part of the configuration.
\<close>

subsection \<open>Configuration and state\<close>

datatype gate_refusal =
    Cancelled | Global_Busy | Run_Busy nat | Denied_Before path | Denied_Just_Now path | Path_Error string
  | Guard_Blocked string | Stopped_Waiting | User_Denied | User_Blocked | Answer_Error approval_error
  | Failed_Before nat | Interrupted | Timed_Out_After nat

text \<open>\<open>gt_say\<close> words the refusals whose text names a path or is not of 8-bit characters.\<close>

record gate_config =
  gt_fs :: file_system
  gt_session :: string
  gt_working_dir :: string
  gt_guarded :: bool
  gt_asks :: bool
  gt_max_concurrent :: nat
  gt_tool_timeout :: nat
  gt_failures :: "(string, nat) hash_map"
  gt_json_text :: "json \<Rightarrow> string"
  gt_hash :: "string list \<Rightarrow> string"
  gt_seconds :: "string \<Rightarrow> nat option"
  gt_home :: "string option"
  gt_dots :: string
  gt_mark :: char
  gt_say :: "string \<Rightarrow> gate_refusal \<Rightarrow> string"

datatype call_phase =
    Unstarted | Awaits_Global | Awaits_Run | Asks_Path path | Asks_Guard | In_Flight nat | Over dispatch_result

record gate_world =
  gw_phases :: "call_phase list"
  gw_cancel :: bool
  gw_cache :: "(string, dispatch_result) hash_map"
  gw_others :: nat
  gw_paths :: path_registry
  gw_guard :: safety_guard
  gw_audit :: "(string \<times> string \<times> string) list"
  gw_dispatched :: "nat list"

definition GLOBAL_TOOL_PERMITS :: nat where "GLOBAL_TOOL_PERMITS = 16"
definition TOOL_TIMEOUT_HARD_CEILING_SECS :: nat where "TOOL_TIMEOUT_HARD_CEILING_SECS = 1830"
definition MAX_IDENTICAL_FAILURES :: nat where "MAX_IDENTICAL_FAILURES = 3"

fun refusal_words :: "gate_config \<Rightarrow> string \<Rightarrow> gate_refusal \<Rightarrow> string" where
  "refusal_words cfg tool Cancelled = ''cancelled''"
| "refusal_words cfg tool Global_Busy =
     ''tool queue busy: the process-wide tool slots are all taken by other sessions; retry in a moment''"
| "refusal_words cfg tool (Guard_Blocked msg) = ''blocked: '' @ msg"
| "refusal_words cfg tool (Path_Error e) = e"
| "refusal_words cfg tool Stopped_Waiting = ''stopped''"
| "refusal_words cfg tool User_Denied = ''user denied operation''"
| "refusal_words cfg tool User_Blocked = ''user permanently blocked operation''"
| "refusal_words cfg tool (Answer_Error e) = ''approval failed: '' @ approval_error_text e"
| "refusal_words cfg tool Interrupted = ''interrupted by user stop''"
| "refusal_words cfg tool r = gt_say cfg tool r"

definition refused :: "gate_config \<Rightarrow> call_meta \<Rightarrow> gate_refusal \<Rightarrow> call_phase" where
  "refused cfg c r = Over (Err (Tool_Custom (refusal_words cfg (meta_tool c) r)))"

definition control_tool :: "call_meta \<Rightarrow> bool" where
  "control_tool c \<longleftrightarrow> meta_tool c \<in> {''ask_user'', ''submit_plan''}"

text \<open>The permits are held by the calls that wait behind them or run.\<close>

definition behind_run :: "call_phase \<Rightarrow> bool" where
  "behind_run p \<longleftrightarrow> (case p of Asks_Path _ \<Rightarrow> True | Asks_Guard \<Rightarrow> True | In_Flight _ \<Rightarrow> True | _ \<Rightarrow> False)"

definition holds_global :: "call_meta \<Rightarrow> call_phase \<Rightarrow> bool" where
  "holds_global c p \<longleftrightarrow> \<not> control_tool c \<and> (p = Awaits_Run \<or> behind_run p)"

definition holds_run :: "gate_config \<Rightarrow> call_meta \<Rightarrow> call_phase \<Rightarrow> bool" where
  "holds_run cfg c p \<longleftrightarrow> gt_max_concurrent cfg > 0 \<and> \<not> control_tool c \<and> behind_run p"

definition global_held :: "call_meta list \<Rightarrow> gate_world \<Rightarrow> nat" where
  "global_held cs w = length (filter (\<lambda>i. holds_global (cs ! i) (gw_phases w ! i)) [0..<length cs])"

definition run_held :: "gate_config \<Rightarrow> call_meta list \<Rightarrow> gate_world \<Rightarrow> nat" where
  "run_held cfg cs w = length (filter (\<lambda>i. holds_run cfg (cs ! i) (gw_phases w ! i)) [0..<length cs])"

subsection \<open>From one wait to the next\<close>

definition set_phase :: "nat \<Rightarrow> call_phase \<Rightarrow> gate_world \<Rightarrow> gate_world" where
  "set_phase i p w = w\<lparr>gw_phases := (gw_phases w)[i := p]\<rparr>"

definition audit :: "gate_config \<Rightarrow> call_meta \<Rightarrow> string \<Rightarrow> gate_world \<Rightarrow> gate_world" where
  "audit cfg c decision w =
     w\<lparr>gw_audit := gw_audit w @
        [(meta_tool c, digest_args (gt_home cfg) (gt_dots cfg) (gt_mark cfg) (meta_tool c) (meta_args c), decision)]\<rparr>"

text \<open>\<open>gt_seconds\<close> reads a number that is no 64-bit integer, negative ones as zero.\<close>

definition declared_timeout :: "gate_config \<Rightarrow> json \<Rightarrow> nat option" where
  "declared_timeout cfg args =
     (case jget args ''timeout'' of
        Some (JNum s) \<Rightarrow> (case as_i64 (JNum s) of Some n \<Rightarrow> Some (nat n) | None \<Rightarrow> gt_seconds cfg s)
      | _ \<Rightarrow> None)"

definition tool_timeout :: "gate_config \<Rightarrow> json \<Rightarrow> nat" where
  "tool_timeout cfg args =
     min (max (case declared_timeout cfg args of Some t \<Rightarrow> t + 30 | None \<Rightarrow> gt_tool_timeout cfg) (gt_tool_timeout cfg))
       TOOL_TIMEOUT_HARD_CEILING_SECS"

definition prior_failures :: "gate_config \<Rightarrow> call_meta \<Rightarrow> nat" where
  "prior_failures cfg c =
     (case hm_get (failure_key (gt_json_text cfg) (gt_hash cfg) (meta_tool c) (meta_args c)) (gt_failures cfg) of
        Some n \<Rightarrow> n | None \<Rightarrow> 0)"

text \<open>The gate for repeated failures, and the dispatch.\<close>

definition to_dispatch :: "gate_config \<Rightarrow> call_meta \<Rightarrow> nat \<Rightarrow> gate_world \<Rightarrow> gate_world" where
  "to_dispatch cfg c i w =
     (if prior_failures cfg c \<ge> MAX_IDENTICAL_FAILURES
      then set_phase i (refused cfg c (Failed_Before (prior_failures cfg c))) (audit cfg c ''blocked_repeated_failure'' w)
      else set_phase i (In_Flight (tool_timeout cfg (meta_args c))) (w\<lparr>gw_dispatched := gw_dispatched w @ [i]\<rparr>))"

definition to_guard :: "gate_config \<Rightarrow> call_meta \<Rightarrow> nat \<Rightarrow> gate_world \<Rightarrow> gate_world" where
  "to_guard cfg c i w =
     (if \<not> (gt_guarded cfg \<and> gt_asks cfg) then to_dispatch cfg c i w
      else case guard_check (gt_json_text cfg) (gw_guard w) (meta_tool c) (meta_args c) of
          Blocked msg \<Rightarrow> set_phase i (refused cfg c (Guard_Blocked msg)) (audit cfg c ''blocked'' w)
        | NeedsApproval info \<Rightarrow> set_phase i Asks_Guard w
        | Allowed \<Rightarrow> to_dispatch cfg c i (audit cfg c ''auto_allowed'' w))"

definition outside_target :: "gate_config \<Rightarrow> call_meta \<Rightarrow> path option" where
  "outside_target cfg c = outside_workspace_target (gt_fs cfg) (meta_tool c) (meta_args c) (gt_working_dir cfg)"

definition to_checks :: "gate_config \<Rightarrow> call_meta \<Rightarrow> nat \<Rightarrow> gate_world \<Rightarrow> gate_world" where
  "to_checks cfg c i w =
     (if gw_cancel w then set_phase i (refused cfg c Cancelled) w
      else (let w1 = (if gt_guarded cfg \<and> gt_asks cfg then w else audit cfg c ''full_access'' w) in
        case (if gt_asks cfg then outside_target cfg c else None) of
          None \<Rightarrow> to_guard cfg c i w1
        | Some target \<Rightarrow>
            if is_path_approved (gt_fs cfg) (gw_paths w1) (gt_session cfg) target then to_guard cfg c i w1
            else if is_path_denied (gt_fs cfg) (gw_paths w1) (gt_session cfg) target
            then set_phase i (refused cfg c (Denied_Before target)) w1
            else set_phase i (Asks_Path target) w1))"

definition start_call :: "gate_config \<Rightarrow> call_meta \<Rightarrow> nat \<Rightarrow> gate_world \<Rightarrow> gate_world" where
  "start_call cfg c i w =
     (case (if meta_tid c = [] then None else hm_get (meta_tid c) (gw_cache w)) of
        Some r \<Rightarrow> set_phase i (Over r)
          (w\<lparr>gw_cache := hm_remove (meta_tid c) (gw_cache w),
             gw_cancel := gw_cancel w \<or> (case r of Inr oc \<Rightarrow> should_exit oc | Inl _ \<Rightarrow> False)\<rparr>)
      | None \<Rightarrow>
          if gw_cancel w then set_phase i (refused cfg c Cancelled) w
          else if control_tool c then to_checks cfg c i w
          else set_phase i Awaits_Global w)"

text \<open>\<open>n\<close> and \<open>m\<close> choose what a full registry of paths forgets.\<close>

definition path_answered :: "gate_config \<Rightarrow> call_meta \<Rightarrow> nat \<Rightarrow> path \<Rightarrow> approval_outcome \<Rightarrow> nat \<Rightarrow> nat \<Rightarrow> gate_world \<Rightarrow> gate_world" where
  "path_answered cfg c i target ans n m w =
     (let (r, reg) = approve_outside_write (gt_fs cfg) n m ans (gt_session cfg) target (gw_paths w) in
      case r of
        Inr True \<Rightarrow> to_guard cfg c i (audit cfg c ''approved(outside-workspace)'' (w\<lparr>gw_paths := reg\<rparr>))
      | Inr False \<Rightarrow> set_phase i (refused cfg c (Denied_Just_Now target))
          (audit cfg c ''denied(outside-workspace)''
            (w\<lparr>gw_paths := deny_path (gt_fs cfg) m (gt_session cfg) target reg\<rparr>))
      | Inl e \<Rightarrow> set_phase i (refused cfg c (Path_Error e)) (w\<lparr>gw_paths := reg\<rparr>))"

definition guard_answered ::
  "gate_config \<Rightarrow> call_meta \<Rightarrow> nat \<Rightarrow> (approval_error, approval_decision) result \<Rightarrow> instant \<Rightarrow> instant \<Rightarrow> instant \<Rightarrow>
     gate_world \<Rightarrow> gate_world" where
  "guard_answered cfg c i ans t0 t1 t2 w =
     (let trusted = w\<lparr>gw_guard := guard_record_approval (meta_tool c) (meta_args c) t0 t1 t2 (gw_guard w)\<rparr> in
      case ans of
        Inr Answer_Allow \<Rightarrow> to_dispatch cfg c i (audit cfg c ''approved'' w)
      | Inr TrustSession \<Rightarrow> to_dispatch cfg c i (audit cfg c ''approved'' trusted)
      | Inr TrustWorkspace \<Rightarrow> to_dispatch cfg c i (audit cfg c ''approved'' trusted)
      | Inr Answer_Denied \<Rightarrow> set_phase i (refused cfg c User_Denied) (audit cfg c ''denied'' w)
      | Inr BlockForever \<Rightarrow> set_phase i (refused cfg c User_Blocked)
          (audit cfg c ''blocked'' (w\<lparr>gw_guard := guard_block (meta_tool c) (meta_args c) t0 (gw_guard w)\<rparr>))
      | Inl e \<Rightarrow> set_phase i (refused cfg c (Answer_Error e)) (audit cfg c ''error'' w))"

subsection \<open>The events\<close>

datatype gate_event =
    Start nat | Global_Granted nat | Global_Wait_Over nat | Run_Granted nat | Run_Wait_Over nat
  | Path_Answered nat approval_outcome nat nat
  | Guard_Answered nat "(approval_error, approval_decision) result" instant instant instant
  | Stopped nat | Tool_Done nat dispatch_result | Time_Up nat | Others nat

definition phase_of :: "gate_world \<Rightarrow> nat \<Rightarrow> call_phase" where
  "phase_of w i = (if i < length (gw_phases w) then gw_phases w ! i else Over (Err (Tool_Custom [])))"

fun gate_step :: "gate_config \<Rightarrow> call_meta list \<Rightarrow> gate_event \<Rightarrow> gate_world \<Rightarrow> gate_world" where
  "gate_step cfg cs (Start i) w = (if phase_of w i = Unstarted then start_call cfg (cs ! i) i w else w)"
| "gate_step cfg cs (Global_Granted i) w =
     (if phase_of w i = Awaits_Global \<and> global_held cs w + gw_others w < GLOBAL_TOOL_PERMITS
      then (if gt_max_concurrent cfg > 0 then set_phase i Awaits_Run w else to_checks cfg (cs ! i) i w) else w)"
| "gate_step cfg cs (Global_Wait_Over i) w =
     (if phase_of w i = Awaits_Global then set_phase i (refused cfg (cs ! i) Global_Busy) w else w)"
| "gate_step cfg cs (Run_Granted i) w =
     (if phase_of w i = Awaits_Run \<and> run_held cfg cs w < gt_max_concurrent cfg
      then to_checks cfg (cs ! i) i w else w)"
| "gate_step cfg cs (Run_Wait_Over i) w =
     (if phase_of w i = Awaits_Run then set_phase i (refused cfg (cs ! i) (Run_Busy (gt_max_concurrent cfg))) w else w)"
| "gate_step cfg cs (Path_Answered i ans n m) w =
     (case phase_of w i of Asks_Path target \<Rightarrow> path_answered cfg (cs ! i) i target ans n m w | _ \<Rightarrow> w)"
| "gate_step cfg cs (Guard_Answered i ans t0 t1 t2) w =
     (if phase_of w i = Asks_Guard then guard_answered cfg (cs ! i) i ans t0 t1 t2 w else w)"
| "gate_step cfg cs (Stopped i) w =
     (case phase_of w i of
        Asks_Guard \<Rightarrow> set_phase i (refused cfg (cs ! i) Stopped_Waiting) w
      | In_Flight _ \<Rightarrow> set_phase i (refused cfg (cs ! i) Interrupted) w
      | _ \<Rightarrow> w)"
| "gate_step cfg cs (Tool_Done i r) w =
     (case phase_of w i of
        In_Flight _ \<Rightarrow> set_phase i (Over r)
          (w\<lparr>gw_cancel := gw_cancel w \<or> (case r of Inr oc \<Rightarrow> should_exit oc | Inl _ \<Rightarrow> False)\<rparr>)
      | _ \<Rightarrow> w)"
| "gate_step cfg cs (Time_Up i) w =
     (case phase_of w i of In_Flight t \<Rightarrow> set_phase i (refused cfg (cs ! i) (Timed_Out_After t)) w | _ \<Rightarrow> w)"
| "gate_step cfg cs (Others n) w = (if global_held cs w + n \<le> GLOBAL_TOOL_PERMITS then w\<lparr>gw_others := n\<rparr> else w)"


subsection \<open>How a step moves its call\<close>

fun steps_left :: "call_phase \<Rightarrow> nat" where
  "steps_left Unstarted = 6"
| "steps_left Awaits_Global = 5"
| "steps_left Awaits_Run = 4"
| "steps_left (Asks_Path _) = 3"
| "steps_left Asks_Guard = 2"
| "steps_left (In_Flight _) = 1"
| "steps_left (Over _) = 0"

text \<open>A call goes to a phase with \<open>P\<close>; it may have been dispatched, and then it runs.\<close>

definition moved :: "nat \<Rightarrow> (call_phase \<Rightarrow> bool) \<Rightarrow> gate_world \<Rightarrow> gate_world \<Rightarrow> bool" where
  "moved i P w w' \<longleftrightarrow> gw_others w' = gw_others w \<and>
     (\<exists>p. P p \<and> gw_phases w' = (gw_phases w)[i := p] \<and>
       (gw_dispatched w' = gw_dispatched w \<or> gw_dispatched w' = gw_dispatched w @ [i] \<and> steps_left p = 1))"

lemma refused_rank [simp]: "steps_left (refused cfg c r) = 0"
  by (simp add: refused_def)

lemma moved_audit [simp]: "moved i P (audit cfg c d w) w' = moved i P w w'"
  by (simp add: moved_def audit_def)

lemma moved_fields [simp]:
  "moved i P (w\<lparr>gw_paths := reg\<rparr>) w' = moved i P w w'"
  "moved i P (w\<lparr>gw_guard := g\<rparr>) w' = moved i P w w'"
  "moved i P (w\<lparr>gw_cache := ca\<rparr>) w' = moved i P w w'"
  "moved i P (w\<lparr>gw_cancel := b\<rparr>) w' = moved i P w w'"
  by (simp_all add: moved_def)

lemma moved_set_phase: "P p \<Longrightarrow> moved i P w (set_phase i p w)"
  by (auto simp: moved_def set_phase_def)

lemma moved_set_audit: "P p \<Longrightarrow> moved i P w (set_phase i p (audit cfg c d w))"
  using moved_set_phase [of P p i "audit cfg c d w"] by simp

lemma moved_mono: "moved i P w w' \<Longrightarrow> (\<And>p. P p \<Longrightarrow> Q p) \<Longrightarrow> moved i Q w w'"
  by (auto simp: moved_def)

lemma to_dispatch_moved: "moved i (\<lambda>p. steps_left p \<le> 1) w (to_dispatch cfg c i w)"
proof (cases "prior_failures cfg c \<ge> MAX_IDENTICAL_FAILURES")
  case True
  then show ?thesis by (simp add: to_dispatch_def moved_set_audit)
next
  case False
  then show ?thesis
    by (auto simp: to_dispatch_def moved_def set_phase_def intro!: exI [of _ "In_Flight (tool_timeout cfg (meta_args c))"])
qed

lemma to_guard_moved: "moved i (\<lambda>p. steps_left p \<le> 2) w (to_guard cfg c i w)"
proof -
  have "moved i (\<lambda>p. steps_left p \<le> 2) w (to_dispatch cfg c i w)" for w
    by (rule moved_mono [OF to_dispatch_moved]) simp
  from this [of w] this [of "audit cfg c ''auto_allowed'' w"] show ?thesis
    by (auto simp: to_guard_def intro!: moved_set_phase moved_set_audit split: trust_decision.split)
qed

lemma to_checks_moved: "moved i (\<lambda>p. steps_left p \<le> 3) w (to_checks cfg c i w)"
proof -
  have "moved i (\<lambda>p. steps_left p \<le> 3) w (to_guard cfg c i w)" for w
    by (rule moved_mono [OF to_guard_moved]) simp
  from this [of w] this [of "audit cfg c ''full_access'' w"] show ?thesis
    by (auto simp: to_checks_def Let_def intro!: moved_set_phase moved_set_audit split: option.split)
qed

lemma start_call_moved: "moved i (\<lambda>p. steps_left p \<le> 3 \<or> p = Awaits_Global) w (start_call cfg c i w)"
proof -
  have "moved i (\<lambda>p. steps_left p \<le> 3 \<or> p = Awaits_Global) w (to_checks cfg c i w)"
    by (rule moved_mono [OF to_checks_moved]) simp
  moreover have "moved i (\<lambda>p. steps_left p \<le> 3 \<or> p = Awaits_Global) w (set_phase i (Over r) (w\<lparr>gw_cache := ca, gw_cancel := b\<rparr>))" for r ca b
    using moved_set_phase [of "\<lambda>p. steps_left p \<le> 3 \<or> p = Awaits_Global" "Over r" i "w\<lparr>gw_cache := ca, gw_cancel := b\<rparr>"]
    by (simp add: moved_def set_phase_def)
  ultimately show ?thesis
    by (auto simp: start_call_def intro!: moved_set_phase split: option.split)
qed

lemma path_answered_moved: "moved i (\<lambda>p. steps_left p \<le> 2) w (path_answered cfg c i target ans n m w)"
proof -
  have "moved i (\<lambda>p. steps_left p \<le> 2) w (to_guard cfg c i (audit cfg c d (w\<lparr>gw_paths := reg\<rparr>)))" for d reg
    using to_guard_moved [of i "audit cfg c d (w\<lparr>gw_paths := reg\<rparr>)"] by simp
  moreover have "moved i (\<lambda>p. steps_left p \<le> 2) w (set_phase i (refused cfg c r) (audit cfg c d (w\<lparr>gw_paths := reg\<rparr>)))" for r d reg
    using moved_set_audit [of "\<lambda>p. steps_left p \<le> 2" "refused cfg c r" i "w\<lparr>gw_paths := reg\<rparr>"] by simp
  moreover have "moved i (\<lambda>p. steps_left p \<le> 2) w (set_phase i (refused cfg c r) (w\<lparr>gw_paths := reg\<rparr>))" for r reg
    using moved_set_phase [of "\<lambda>p. steps_left p \<le> 2" "refused cfg c r" i "w\<lparr>gw_paths := reg\<rparr>"] by simp
  ultimately show ?thesis
    by (auto simp: path_answered_def split: prod.split sum.split bool.split)
qed

lemma guard_answered_moved: "moved i (\<lambda>p. steps_left p \<le> 1) w (guard_answered cfg c i ans t0 t1 t2 w)"
proof -
  have "moved i (\<lambda>p. steps_left p \<le> 1) w (to_dispatch cfg c i (audit cfg c d (w\<lparr>gw_guard := g\<rparr>)))" for d g
    using to_dispatch_moved [of i "audit cfg c d (w\<lparr>gw_guard := g\<rparr>)"] by simp
  moreover have "moved i (\<lambda>p. steps_left p \<le> 1) w (to_dispatch cfg c i (audit cfg c d w))" for d
    using to_dispatch_moved [of i "audit cfg c d w"] by simp
  moreover have "moved i (\<lambda>p. steps_left p \<le> 1) w (set_phase i (refused cfg c r) (audit cfg c d (w\<lparr>gw_guard := g\<rparr>)))" for r d g
    using moved_set_audit [of "\<lambda>p. steps_left p \<le> 1" "refused cfg c r" i "w\<lparr>gw_guard := g\<rparr>"] by simp
  ultimately show ?thesis
    by (auto simp: guard_answered_def Let_def intro!: moved_set_audit split: sum.split approval_decision.split)
qed

lemma phase_of_some: "phase_of w i = p \<Longrightarrow> steps_left p > 0 \<Longrightarrow> i < length (gw_phases w) \<and> gw_phases w ! i = p"
  by (auto simp: phase_of_def split: if_splits)

text \<open>Every step that is not one of the other sessions leaves the world as it is or moves its call on.\<close>

definition progresses :: "gate_world \<Rightarrow> gate_world \<Rightarrow> bool" where
  "progresses w w' \<longleftrightarrow>
     (\<exists>i < length (gw_phases w). moved i (\<lambda>p. steps_left p < steps_left (gw_phases w ! i)) w w')"

lemma progressesI:
  "phase_of w i = q \<Longrightarrow> moved i P w w' \<Longrightarrow> (\<And>p. P p \<Longrightarrow> steps_left p < steps_left q) \<Longrightarrow> progresses w w'"
proof -
  assume a: "phase_of w i = q" "moved i P w w'" "\<And>p. P p \<Longrightarrow> steps_left p < steps_left q"
  then obtain p where "P p" by (auto simp: moved_def)
  with a(3) have "steps_left q > 0" by (metis gr_implies_not0 not_gr0)
  with a phase_of_some [of w i q] have "i < length (gw_phases w)" "gw_phases w ! i = q" by simp_all
  with moved_mono [OF a(2), of "\<lambda>p. steps_left p < steps_left q"] a(3) show ?thesis
    unfolding progresses_def by blast
qed

lemma progresses_set: "phase_of w i = q \<Longrightarrow> steps_left p < steps_left q \<Longrightarrow> progresses w (set_phase i p w)"
  by (rule progressesI [OF _ moved_set_phase [of "\<lambda>r. r = p"]]) auto

lemma step_moves:
  "gate_step cfg cs e w = w \<or> (\<exists>n. e = Others n \<and> gate_step cfg cs e w = w\<lparr>gw_others := n\<rparr>)
   \<or> progresses w (gate_step cfg cs e w)"
proof (cases e)
  case (Start i)
  have "progresses w (start_call cfg (cs ! i) i w)" if "phase_of w i = Unstarted"
    using that by (rule progressesI [OF _ start_call_moved]) auto
  with Start show ?thesis by simp
next
  case (Global_Granted i)
  then show ?thesis using progressesI [OF _ to_checks_moved, of w i Awaits_Global cfg "cs ! i"]
    progresses_set [of w i Awaits_Global Awaits_Run] by auto
next
  case (Global_Wait_Over i)
  then show ?thesis by (auto intro: progresses_set)
next
  case (Run_Granted i)
  then show ?thesis using progressesI [OF _ to_checks_moved, of w i Awaits_Run cfg "cs ! i"] by auto
next
  case (Run_Wait_Over i)
  then show ?thesis by (auto intro: progresses_set)
next
  case (Path_Answered i ans n m)
  then show ?thesis using progressesI [OF _ path_answered_moved, of w i _ cfg "cs ! i" _ ans n m]
    by (cases "phase_of w i") auto
next
  case (Guard_Answered i ans t0 t1 t2)
  then show ?thesis using progressesI [OF _ guard_answered_moved, of w i Asks_Guard cfg "cs ! i" ans t0 t1 t2] by auto
next
  case (Stopped i)
  then show ?thesis by (cases "phase_of w i") (auto intro: progresses_set)
next
  case (Tool_Done i r)
  have "progresses w (set_phase i (Over r) (w\<lparr>gw_cancel := b\<rparr>))" if "phase_of w i = In_Flight t" for b t
    using moved_set_phase [of "\<lambda>p. steps_left p = 0" "Over r" i "w\<lparr>gw_cancel := b\<rparr>"]
    by (intro progressesI [OF that]) auto
  with Tool_Done show ?thesis by (cases "phase_of w i") auto
next
  case (Time_Up i)
  then show ?thesis by (cases "phase_of w i") (auto intro: progresses_set)
qed auto

subsection \<open>A turn comes to its end\<close>

definition total_left :: "gate_world \<Rightarrow> nat" where
  "total_left w = sum_list (map steps_left (gw_phases w))"

lemma progress_uses_steps:
  assumes "progresses w w'"
  shows "total_left w' < total_left w" and "gw_phases w' \<noteq> gw_phases w" and "length (gw_phases w') = length (gw_phases w)"
proof -
  obtain i p where i: "i < length (gw_phases w)" and p: "steps_left p < steps_left (gw_phases w ! i)"
    and w': "gw_phases w' = (gw_phases w)[i := p]"
    using assms by (auto simp: progresses_def moved_def)
  have "sum_list (map steps_left (gw_phases w)) \<ge> steps_left (gw_phases w ! i)"
    using i by (simp add: elem_le_sum_list [of i "map steps_left (gw_phases w)", simplified])
  with i p show less: "total_left w' < total_left w"
    by (simp add: total_left_def w' map_update sum_list_update)
  then show "gw_phases w' \<noteq> gw_phases w" by (auto simp: total_left_def)
  show "length (gw_phases w') = length (gw_phases w)" by (simp add: w')
qed

lemma step_length [simp]: "length (gw_phases (gate_step cfg cs e w)) = length (gw_phases w)"
  using step_moves [of cfg cs e w] progress_uses_steps(3) by auto

lemma runs_length [simp]: "length (gw_phases (runs (gate_step cfg cs) es w)) = length (gw_phases w)"
  by (induction es arbitrary: w) simp_all







subsection \<open>The permits\<close>

definition held :: "(call_meta \<Rightarrow> call_phase \<Rightarrow> bool) \<Rightarrow> call_meta list \<Rightarrow> gate_world \<Rightarrow> nat" where
  "held h cs w = length (filter (\<lambda>i. h (cs ! i) (gw_phases w ! i)) [0..<length cs])"




lemma held_others [simp]: "held h cs (w\<lparr>gw_others := n\<rparr>) = held h cs w"
  by (simp add: held_def)

lemma holds_over [simp]: "\<not> holds_global c (Over r)" "\<not> holds_run cfg c (Over r)" "\<not> holds_global c (refused cfg' c' r')"
  "\<not> holds_run cfg c (refused cfg' c' r')"
  by (simp_all add: holds_global_def holds_run_def behind_run_def refused_def)
















subsection \<open>Nothing is dispatched without clearance\<close>

definition guard_free :: "gate_config \<Rightarrow> call_meta \<Rightarrow> gate_world \<Rightarrow> bool" where
  "guard_free cfg c w \<longleftrightarrow> \<not> (gt_guarded cfg \<and> gt_asks cfg)
     \<or> guard_check (gt_json_text cfg) (gw_guard w) (meta_tool c) (meta_args c) = Allowed"


definition said_yes :: "nat \<Rightarrow> gate_event \<Rightarrow> bool" where
  "said_yes i e \<longleftrightarrow> (\<exists>d t0 t1 t2. e = Guard_Answered i (Ok d) t0 t1 t2 \<and> d \<noteq> Answer_Denied \<and> d \<noteq> BlockForever)"



lemma gate_frame [simp]:
  "gw_dispatched (audit cfg c d w) = gw_dispatched w" "gw_dispatched (set_phase i p w) = gw_dispatched w"
  "gw_guard (audit cfg c d w) = gw_guard w" "gw_paths (audit cfg c d w) = gw_paths w"
  "gw_phases (audit cfg c d w) = gw_phases w" "gw_phases (set_phase i p w) = (gw_phases w)[i := p]"
  "gw_audit (set_phase i p w) = gw_audit w"
  by (simp_all add: audit_def set_phase_def)

lemma dispatch_adds:
  "gw_dispatched (to_dispatch cfg c i w) =
     gw_dispatched w @ (if prior_failures cfg c < MAX_IDENTICAL_FAILURES then [i] else [])"
  "gw_dispatched (to_guard cfg c i w) =
     gw_dispatched w @ (if guard_free cfg c w \<and> prior_failures cfg c < MAX_IDENTICAL_FAILURES then [i] else [])"
  by (auto simp: to_dispatch_def to_guard_def guard_free_def split: trust_decision.split)


lemma answers_add:
  "gw_dispatched (path_answered cfg c i t ans n m w) =
     gw_dispatched w @ (if positive_answer ans \<and> guard_free cfg c w
                            \<and> prior_failures cfg c < MAX_IDENTICAL_FAILURES then [i] else [])"
  "gw_dispatched (guard_answered cfg c i r t0 t1 t2 w) =
     gw_dispatched w @ (if said_yes i (Guard_Answered i r t0 t1 t2)
                            \<and> prior_failures cfg c < MAX_IDENTICAL_FAILURES then [i] else [])"
  by (auto simp: path_answered_def guard_answered_def approve_outside_write_cases positive_answer_def said_yes_def Let_def dispatch_adds
      guard_free_def split: approval_outcome.split sum.split approval_decision.split prod.split)
















subsection \<open>Nothing runs unrecorded\<close>

definition GRANTS :: "string list" where
  "GRANTS = [''full_access'', ''auto_allowed'', ''approved'']"

definition has_row :: "gate_config \<Rightarrow> call_meta \<Rightarrow> gate_world \<Rightarrow> bool" where
  "has_row cfg c w \<longleftrightarrow> list_ex (\<lambda>d.
     (meta_tool c, digest_args (gt_home cfg) (gt_dots cfg) (gt_mark cfg) (meta_tool c) (meta_args c), d) \<in> set (gw_audit w)) GRANTS"




lemma has_row_frame [simp]:
  "has_row cfg c (set_phase i p w) = has_row cfg c w"
  "has_row cfg c (w\<lparr>gw_dispatched := ds\<rparr>) = has_row cfg c w"
  "has_row cfg c (w\<lparr>gw_paths := reg\<rparr>) = has_row cfg c w"
  "has_row cfg c (w\<lparr>gw_guard := g\<rparr>) = has_row cfg c w"
  "has_row cfg c (w\<lparr>gw_cancel := b\<rparr>) = has_row cfg c w"
  "has_row cfg c (w\<lparr>gw_cache := ca\<rparr>) = has_row cfg c w"
  "has_row cfg c (w\<lparr>gw_others := n\<rparr>) = has_row cfg c w"
  "has_row cfg c (w\<lparr>gw_cache := ca, gw_cancel := b\<rparr>) = has_row cfg c w"
  by (simp_all add: has_row_def)

















subsection \<open>What counts as a failure\<close>

definition note_error :: "(phrase \<Rightarrow> string) \<Rightarrow> gate_config \<Rightarrow> call_meta \<Rightarrow> gate_refusal \<Rightarrow> turn_state \<Rightarrow> turn_state" where
  "note_error say cfg c r st =
     process_tool_outcome say (gt_json_text cfg) (gt_hash cfg) (Err (Tool_Custom (refusal_words cfg (meta_tool c) r)))
       (meta_tool c) (meta_tid c) (meta_tc_id c) (meta_ii c) (meta_args c) st"

lemma note_error_counts:
  "ts_failures (note_error say cfg c r st) =
     hm_upsert (failure_key (gt_json_text cfg) (gt_hash cfg) (meta_tool c) (meta_args c)) 0 (\<lambda>n. n + 1) (ts_failures st)"
  by (simp add: note_error_def process_tool_outcome_def Let_def)

lemma prior_after_error:
  "prior_failures (cfg\<lparr>gt_failures := ts_failures (note_error say cfg c r st)\<rparr>) c =
     prior_failures (cfg\<lparr>gt_failures := ts_failures st\<rparr>) c + 1"
  by (simp add: prior_failures_def note_error_counts split: option.split)

text \<open>
  A call that never ran is refused for having failed.  A call that found no free permit in three
  turns has three failures on its account, and the fourth time it is refused without being
  dispatched, even with a free permit; from then on every refusal adds to the account, so the same
  call is never dispatched again.
\<close>
theorem waiting_thrice_is_failing:
  "let st = note_error say cfg c Global_Busy (note_error say cfg c Global_Busy
        (note_error say cfg c Global_Busy (st0\<lparr>ts_failures := hm_empty\<rparr>)));
       cfg' = cfg\<lparr>gt_failures := ts_failures ((note_error say cfg c r ^^ n) st)\<rparr>
   in prior_failures cfg' c = n + 3
      \<and> to_dispatch cfg' c i w = set_phase i (refused cfg' c (Failed_Before (n + 3))) (audit cfg' c ''blocked_repeated_failure'' w)"
proof -
  let ?st = "note_error say cfg c Global_Busy (note_error say cfg c Global_Busy
        (note_error say cfg c Global_Busy (st0\<lparr>ts_failures := hm_empty\<rparr>)))"
  have base: "prior_failures (cfg\<lparr>gt_failures := hm_empty\<rparr>) c = 0" by (simp add: prior_failures_def)
  have "prior_failures (cfg\<lparr>gt_failures := ts_failures ((note_error say cfg c r ^^ n) ?st)\<rparr>) c = n + 3"
    by (induction n) (simp_all add: base prior_after_error)
  then show ?thesis by (simp add: to_dispatch_def MAX_IDENTICAL_FAILURES_def)
qed

text \<open>
  A call that waits for the user's answer is not told that another call of its turn has ended the
  run: it is dispatched on a yes.
\<close>
lemma exit_does_not_reach_the_question:
  assumes "phase_of w i = Asks_Guard" and "prior_failures cfg (cs ! i) < MAX_IDENTICAL_FAILURES" and "gw_cancel w"
  shows "gw_dispatched (gate_step cfg cs (Guard_Answered i (Ok Answer_Allow) t0 t1 t2) w) = gw_dispatched w @ [i]"
  using assms by (simp add: answers_add said_yes_def)

text \<open>A no of the user leaves the guard as it was, so the same call asks again.\<close>
lemma denial_is_not_remembered:
  "gw_guard (gate_step cfg cs (Guard_Answered i (Ok Answer_Denied) t0 t1 t2) w) = gw_guard w"
  by (simp add: guard_answered_def Let_def set_phase_def audit_def)

text \<open>The time a call is given is at most thirty and a half minutes, and at least what the run gives by default up to that.\<close>
lemma tool_timeout_bounds:
  "min (gt_tool_timeout cfg) 1830 \<le> tool_timeout cfg args \<and> tool_timeout cfg args \<le> 1830"
  by (simp add: tool_timeout_def TOOL_TIMEOUT_HARD_CEILING_SECS_def min_le_iff_disj)

end
