(* ===== verification/Loop_Llm.thy ===== *)
theory Loop_Llm
  imports Tool_Gate Llm_Retry
begin

text \<open>
  The call of the model in one turn, \<open>crates/oz-core/src/agent_loop.rs\<close>: the attempts with their
  budget, the read-only calls that are executed as soon as the stream has ended, and what the turn
  keeps of the answer.

  An attempt is what the transport does: the calls that became ready while it streamed, and how it
  ended.  The list of attempts is as long as needed; where it runs out before the loop has come to an
  end, the result is \<open>None\<close>.
\<close>

subsection \<open>Attempts\<close>

record mock_response =
  rsp_content :: string
  rsp_thinking :: string
  rsp_calls :: "tool_call list"
  rsp_usage :: "(nat \<times> nat) option"

text \<open>A call that is ready, with its arguments as text and the two readings of the breaker's clock.\<close>

record ready_call =
  rc_id :: string
  rc_name :: string
  rc_args :: string
  rc_clock :: "instant \<times> instant"

datatype attempt_end = Stop_Seen | Hung | Ended "(llm_error, mock_response) result"

text \<open>\<open>la_window\<close>: the seconds since the first attempt, read when the attempt has failed.\<close>

record llm_attempt =
  la_ready :: "ready_call list"
  la_end :: attempt_end
  la_window :: nat

datatype llm_note =
    Input_Start string string
  | Input_Available string string string
  | Retry_Told nat nat llm_error nat
  | Checkpoint string
  | Gate_Skipped string

record llm_state =
  ls_errors :: nat
  ls_breaker :: breaker
  ls_pending :: "(string \<times> string \<times> json) list"
  ls_notes :: "llm_note list"

datatype llm_exit = Answered_With mock_response | Left_With string

record llm_config =
  lc_max_retries :: nat
  lc_retry_budget :: nat
  lc_stream_timeout :: nat
  lc_parse :: "string \<Rightarrow> json option"
  lc_normalize :: "string \<Rightarrow> json \<Rightarrow> json"
  lc_json_text :: "json \<Rightarrow> string"
  lc_guard :: "safety_guard option"

definition SPECULATIVE_READ_ONLY_TOOLS :: "string list" where
  "SPECULATIVE_READ_ONLY_TOOLS =
     [''read'', ''grep'', ''glob'', ''ls'', ''web_search'', ''web_fetch'', ''skill_mcp_search'', ''skill_mcp_list'']"

definition hang_timeout :: "llm_config \<Rightarrow> nat" where
  "hang_timeout cfg = max ((if lc_stream_timeout cfg > 0 then lc_stream_timeout cfg else 300) * 4) 3600"

definition outage_retry_delay :: "nat \<Rightarrow> rat" where
  "outage_retry_delay consecutive = outage_backoff_delay (consecutive - 1)"

definition llm_retry_budget_exhausted :: "nat \<Rightarrow> nat \<Rightarrow> bool" where
  "llm_retry_budget_exhausted elapsed budget \<longleftrightarrow> elapsed \<ge> budget"

definition jot :: "llm_note \<Rightarrow> llm_state \<Rightarrow> llm_state" where
  "jot n st = st\<lparr>ls_notes := ls_notes st @ [n]\<rparr>"

subsection \<open>Calls that become ready\<close>

definition allowed_ahead :: "llm_config \<Rightarrow> string \<Rightarrow> json \<Rightarrow> bool" where
  "allowed_ahead cfg tool args =
     (case lc_guard cfg of
        Some g \<Rightarrow> guard_check (lc_json_text cfg) g tool args = Allowed
      | None \<Rightarrow> True)"

definition ready_step :: "llm_config \<Rightarrow> ready_call \<Rightarrow> llm_state \<Rightarrow> llm_state" where
  "ready_step cfg c st =
     (if rc_id c = [] \<or> rc_name c \<notin> set SPECULATIVE_READ_ONLY_TOOLS \<or> rc_name c = ''respond'' then st
      else (let st1 = jot (Input_Available (rc_id c) (rc_name c) (rc_args c)) (jot (Input_Start (rc_id c) (rc_name c)) st) in
        case lc_parse cfg (rc_args c) of
          None \<Rightarrow> st1
        | Some raw \<Rightarrow>
            (let parsed = lc_normalize cfg (rc_name c) raw in
             if \<not> allowed_ahead cfg (rc_name c) parsed then st1
             else (let (ok, br) = breaker_check (fst (rc_clock c)) (snd (rc_clock c)) (rc_name c) (ls_breaker st1);
                       st2 = st1\<lparr>ls_breaker := br\<rparr> in
               if ok then st2\<lparr>ls_pending := ls_pending st2 @ [(rc_id c, rc_name c, parsed)]\<rparr> else st2))))"

subsection \<open>The loop over attempts\<close>

definition is_timed_out :: "llm_error \<Rightarrow> bool" where
  "is_timed_out e = (case e of StreamError m \<Rightarrow> contains_str ''timed out'' m | _ \<Rightarrow> False)"

definition leave :: "string \<Rightarrow> llm_state \<Rightarrow> (llm_exit \<times> llm_state) option" where
  "leave reason st = Some (Left_With reason, jot (Gate_Skipped reason) st)"

text \<open>A failed attempt of the streaming path: \<open>Inl\<close> the end of the loop, \<open>Inr\<close> the state for the next attempt.\<close>

definition stream_failure :: "llm_config \<Rightarrow> llm_error \<Rightarrow> nat \<Rightarrow> llm_state \<Rightarrow> (llm_exit \<times> llm_state, llm_state) result" where
  "stream_failure cfg e elapsed st =
     (let st1 = st\<lparr>ls_errors := ls_errors st + 1\<rparr>;
          reason = (if is_timed_out e then ''llm_timeout'' else ''llm_error'') in
      if is_permanent e then Inl (Left_With ''llm_error'', jot (Gate_Skipped ''llm_error'') st1)
      else if ls_errors st1 > lc_max_retries cfg then Inl (Left_With reason, jot (Gate_Skipped reason) st1)
      else (let st2 = jot (Retry_Told (ls_errors st1) (lc_max_retries cfg) e (nat \<lceil>outage_retry_delay (ls_errors st1)\<rceil>))
                        (st1\<lparr>ls_pending := []\<rparr>) in
        if ls_errors st2 > 1 \<and> llm_retry_budget_exhausted elapsed (lc_retry_budget cfg)
        then Inl (Left_With reason, jot (Gate_Skipped reason) st2)
        else Inr st2))"

definition hang_error :: "llm_config \<Rightarrow> llm_error" where
  "hang_error cfg = StreamError (''stream timed out after '' @ nat_text (hang_timeout cfg) @ ''s'')"

fun stream_loop :: "llm_config \<Rightarrow> llm_attempt list \<Rightarrow> llm_state \<Rightarrow> (llm_exit \<times> llm_state) option" where
  "stream_loop cfg [] st = None"
| "stream_loop cfg (a # as) st =
     (let st1 = fold (ready_step cfg) (la_ready a) st in
      case la_end a of
        Stop_Seen \<Rightarrow> leave ''stopped_by_user'' (jot (Checkpoint ''stopped_by_user'') st1)
      | Hung \<Rightarrow>
          (case stream_failure cfg (hang_error cfg) (la_window a) (jot (Checkpoint ''llm_timeout'') st1) of
             Inl r \<Rightarrow> Some r | Inr st2 \<Rightarrow> stream_loop cfg as st2)
      | Ended (Inr resp) \<Rightarrow> Some (Answered_With resp, st1\<lparr>ls_errors := 0\<rparr>)
      | Ended (Inl e) \<Rightarrow>
          (case stream_failure cfg e (la_window a) st1 of Inl r \<Rightarrow> Some r | Inr st2 \<Rightarrow> stream_loop cfg as st2))"

text \<open>
  The path without a stream: the result of each call with the seconds since the first.  It tells
  nobody about a retry, and the exit for the spent budget leaves no row.
\<close>

fun chat_loop :: "llm_config \<Rightarrow> ((llm_error, mock_response) result \<times> nat) list \<Rightarrow> llm_state \<Rightarrow> (llm_exit \<times> llm_state) option" where
  "chat_loop cfg [] st = None"
| "chat_loop cfg ((Inr resp, elapsed) # as) st = Some (Answered_With resp, st\<lparr>ls_errors := 0\<rparr>)"
| "chat_loop cfg ((Inl e, elapsed) # as) st =
     (let st1 = st\<lparr>ls_errors := ls_errors st + 1\<rparr> in
      if is_permanent e then leave ''llm_error'' st1
      else if ls_errors st1 > lc_max_retries cfg then leave ''llm_error'' st1
      else if ls_errors st1 > 1 \<and> llm_retry_budget_exhausted elapsed (lc_retry_budget cfg)
      then Some (Left_With ''llm_error'', st1)
      else chat_loop cfg as st1)"

subsection \<open>Executing ahead\<close>

text \<open>\<open>dispatch\<close> gives \<open>None\<close> for a tool that is not done after five seconds.\<close>

definition speculate ::
  "(string \<Rightarrow> json \<Rightarrow> dispatch_result option) \<Rightarrow> (string \<times> string \<times> json) list
     \<Rightarrow> (string, dispatch_result) hash_map" where
  "speculate dispatch pending =
     fold (\<lambda>(i, tool, args) cache. hm_insert i (case dispatch tool args of
         Some r \<Rightarrow> r | None \<Rightarrow> Err (Tool_Custom ''speculative execution timed out; skipped'')) cache) pending hm_empty"

subsection \<open>What the turn keeps\<close>

definition MAX_FULL_THINKING_CHARS :: nat where "MAX_FULL_THINKING_CHARS = 64 * 1024"

definition TRIMMED_NOTE :: string where
  "TRIMMED_NOTE = ''[earlier reasoning from this run trimmed to bound its size]'' @ [CHR 0x0A]"

definition last_bytes :: "nat \<Rightarrow> string \<Rightarrow> string" where
  "last_bytes n s = rev (take_bytes n (rev s))"

definition add_thinking :: "string \<Rightarrow> string \<Rightarrow> string" where
  "add_thinking full thinking =
     (if thinking = [] then full
      else (let t = (if full = [] then [] else full @ [CHR 0x0A]) @ thinking in
        if byte_len t > MAX_FULL_THINKING_CHARS then TRIMMED_NOTE @ last_bytes MAX_FULL_THINKING_CHARS t else t))"

record token_counts =
  tk_total_in :: nat
  tk_total_out :: nat
  tk_last_in :: nat
  tk_last_out :: nat
  tk_last_chars :: nat

text \<open>The counters are 64-bit words in the code, which no run fills.\<close>

definition count_tokens :: "nat \<Rightarrow> mock_response \<Rightarrow> token_counts \<Rightarrow> token_counts" where
  "count_tokens input_chars resp tk =
     (case rsp_usage resp of
        Some (i, out) \<Rightarrow> \<lparr>tk_total_in = tk_total_in tk + i, tk_total_out = tk_total_out tk + out,
          tk_last_in = min i (max (input_chars * 4) 2048), tk_last_out = out, tk_last_chars = input_chars\<rparr>
      | None \<Rightarrow>
          (let i = input_chars div 4; out = (byte_len (rsp_content resp) + byte_len (rsp_thinking resp)) div 4 in
           \<lparr>tk_total_in = tk_total_in tk + i, tk_total_out = tk_total_out tk + out,
             tk_last_in = i, tk_last_out = out, tk_last_chars = input_chars\<rparr>))"

subsection \<open>The loop comes to an end\<close>

lemma ready_keeps [simp]:
  "ls_errors (ready_step cfg c st) = ls_errors st"
  "ls_errors (fold (ready_step cfg) cs st) = ls_errors st"
proof -
  show one: "ls_errors (ready_step cfg c st) = ls_errors st" for c st
    by (auto simp: ready_step_def jot_def Let_def split: option.split prod.split)
  show "ls_errors (fold (ready_step cfg) cs st) = ls_errors st"
    by (induction cs arbitrary: st) (simp_all add: one)
qed

lemma jot_keeps [simp]:
  "ls_errors (jot n st) = ls_errors st" "ls_pending (jot n st) = ls_pending st" "ls_breaker (jot n st) = ls_breaker st"
  "ls_notes (jot n st) = ls_notes st @ [n]"
  by (simp_all add: jot_def)

lemma failure_goes_on:
  "stream_failure cfg e w st = Inr st' \<Longrightarrow>
     ls_errors st' = ls_errors st + 1 \<and> ls_errors st' \<le> lc_max_retries cfg \<and> ls_pending st' = [] \<and> \<not> is_permanent e"
  by (auto simp: stream_failure_def Let_def split: if_splits)

lemma failure_leaves:
  "stream_failure cfg e w st = Inl (x, st') \<Longrightarrow> \<exists>r. x = Left_With r \<and> r \<in> {''llm_error'', ''llm_timeout''} \<and> last (ls_notes st') = Gate_Skipped r"
  by (auto simp: stream_failure_def Let_def split: if_splits)







subsection \<open>Only harmless calls run ahead\<close>

definition may_run_ahead :: "llm_config \<Rightarrow> string \<times> string \<times> json \<Rightarrow> bool" where
  "may_run_ahead cfg p \<longleftrightarrow> (case p of (i, tool, args) \<Rightarrow>
     i \<noteq> [] \<and> tool \<in> set SPECULATIVE_READ_ONLY_TOOLS \<and> allowed_ahead cfg tool args)"

lemma ready_pending:
  "set (ls_pending (ready_step cfg c st)) \<subseteq> set (ls_pending st) \<union> {p. may_run_ahead cfg p \<and> fst p = rc_id c \<and> fst (snd p) = rc_name c}"
  by (auto simp: ready_step_def may_run_ahead_def Let_def jot_def split: option.splits prod.splits if_splits)

lemma fold_pending:
  "set (ls_pending (fold (ready_step cfg) cs st)) \<subseteq> set (ls_pending st) \<union>
     {p. may_run_ahead cfg p \<and> (\<exists>c \<in> set cs. fst p = rc_id c \<and> fst (snd p) = rc_name c)}"
proof (induction cs arbitrary: st)
  case (Cons c cs)
  show ?case using Cons.IH [of "ready_step cfg c st"] ready_pending [of cfg c st] by fastforce
qed simp

lemma answered_pending:
  assumes "stream_loop cfg as st = Some (Answered_With resp, st')" and "ls_pending st = []"
  shows "\<exists>a \<in> set as. la_end a = Ended (Ok resp) \<and> set (ls_pending st') \<subseteq>
     {p. may_run_ahead cfg p \<and> (\<exists>c \<in> set (la_ready a). fst p = rc_id c \<and> fst (snd p) = rc_name c)}"
  using assms
proof (induction as arbitrary: st)
  case (Cons a as)
  have later: "\<exists>b \<in> set (a # as). la_end b = Ended (Ok resp) \<and> set (ls_pending st') \<subseteq>
     {p. may_run_ahead cfg p \<and> (\<exists>c \<in> set (la_ready b). fst p = rc_id c \<and> fst (snd p) = rc_name c)}"
    if "(case stream_failure cfg e w s of Inl r \<Rightarrow> Some r | Inr st2 \<Rightarrow> stream_loop cfg as st2) = Some (Answered_With resp, st')" for e w s
  proof (cases "stream_failure cfg e w s")
    case (Inl r)
    with that failure_leaves [of cfg e w s "Answered_With resp" st'] show ?thesis by simp
  next
    case (Inr st2)
    with that Cons.IH [of st2] failure_goes_on [OF Inr] show ?thesis by simp
  qed
  show ?case
  proof (cases "la_end a")
    case (Ended r)
    show ?thesis
    proof (cases r)
      case (Inr resp')
      with Cons.prems(1) Ended have "resp' = resp" "ls_pending st' = ls_pending (fold (ready_step cfg) (la_ready a) st)"
        by (auto simp: Let_def)
      with fold_pending [of cfg "la_ready a" st] Cons.prems(2) Ended Inr show ?thesis by (intro bexI [of _ a]) auto
    qed (use Cons.prems(1) Ended later in \<open>auto simp: Let_def\<close>)
  qed (use Cons.prems(1) later in \<open>auto simp: Let_def leave_def\<close>)
qed simp


lemma speculate_keys: "hm_get i (speculate dispatch ps) = Some r \<Longrightarrow> \<exists>p \<in> set ps. fst p = i"
proof -
  have "hm_get i (fold (\<lambda>(i, tool, args) cache. hm_insert i (f tool args) cache) ps c) = Some r
      \<Longrightarrow> (\<exists>p \<in> set ps. fst p = i) \<or> hm_get i c = Some r" for f c
    by (induction ps arbitrary: c) (force split: if_splits)+
  from this [of "\<lambda>tool args. case dispatch tool args of Some r \<Rightarrow> r
        | None \<Rightarrow> Err (Tool_Custom ''speculative execution timed out; skipped'')" hm_empty]
  show "hm_get i (speculate dispatch ps) = Some r \<Longrightarrow> \<exists>p \<in> set ps. fst p = i"
    by (simp add: speculate_def)
qed

text \<open>
  C5: only harmless calls run ahead of the user's word.  When the model has answered, every call
  waiting to be executed ahead has an id, is a call of a read-only tool which the guard allows, and
  became ready in the attempt that gave the answer, not in one that failed before it; and the cache
  holds results for the ids of those calls alone.
\<close>
theorem only_harmless_calls_run_ahead:
  "case stream_loop cfg as (st\<lparr>ls_pending := []\<rparr>) of
     Some (Answered_With resp, st') \<Rightarrow>
       (\<exists>a. a \<in> set as \<and> la_end a = Ended (Ok resp)
          \<and> set (ls_pending st') \<subseteq> {p. may_run_ahead cfg p} \<inter> {p. fst p \<in> rc_id ` set (la_ready a)}
          \<and> {i. hm_get i (speculate dispatch (ls_pending st')) \<noteq> None} \<subseteq> rc_id ` set (la_ready a) - {[]})
   | _ \<Rightarrow> True"
proof (cases "stream_loop cfg as (st\<lparr>ls_pending := []\<rparr>)")
  case (Some r)
  obtain x st' where r: "r = (x, st')" by (cases r)
  show ?thesis
  proof (cases x)
    case (Answered_With resp)
    from answered_pending [of cfg as "st\<lparr>ls_pending := []\<rparr>" resp st'] Some r Answered_With
    obtain a where a: "a \<in> set as" "la_end a = Ended (Ok resp)" and
      p: "set (ls_pending st') \<subseteq> {p. may_run_ahead cfg p \<and> (\<exists>c \<in> set (la_ready a). fst p = rc_id c \<and> fst (snd p) = rc_name c)}"
      by auto
    have "{i. hm_get i (speculate dispatch (ls_pending st')) \<noteq> None} \<subseteq> rc_id ` set (la_ready a) - {[]}"
    proof
      fix i
      assume "i \<in> {i. hm_get i (speculate dispatch (ls_pending st')) \<noteq> None}"
      then obtain r where "hm_get i (speculate dispatch (ls_pending st')) = Some r" by auto
      from speculate_keys [OF this] obtain q where q: "q \<in> set (ls_pending st')" "fst q = i" by auto
      with p have "may_run_ahead cfg q" "i \<in> rc_id ` set (la_ready a)" by auto
      with q(2) show "i \<in> rc_id ` set (la_ready a) - {[]}" by (auto simp: may_run_ahead_def)
    qed
    with a p have "\<exists>a. a \<in> set as \<and> la_end a = Ended (Ok resp)
          \<and> set (ls_pending st') \<subseteq> {p. may_run_ahead cfg p} \<inter> {p. fst p \<in> rc_id ` set (la_ready a)}
          \<and> {i. hm_get i (speculate dispatch (ls_pending st')) \<noteq> None} \<subseteq> rc_id ` set (la_ready a) - {[]}"
      by (intro exI [of _ a]) auto
    with Some r Answered_With show ?thesis by simp
  qed (use Some r in simp)
qed simp

text \<open>A call whose result is in the cache is over at once: no row of the audit trail, no permit, no question.\<close>

lemma run_ahead_leaves_no_row:
  "meta_tid c \<noteq> [] \<Longrightarrow> hm_get (meta_tid c) (gw_cache w) = Some r \<Longrightarrow>
     gw_audit (start_call cfg c i w) = gw_audit w \<and> gw_dispatched (start_call cfg c i w) = gw_dispatched w
   \<and> gw_phases (start_call cfg c i w) = (gw_phases w)[i := Over r]
   \<and> hm_get (meta_tid c) (gw_cache (start_call cfg c i w)) = None"
  by (simp add: start_call_def set_phase_def)

text \<open>The result is found by the id alone: another tool or other arguments under that id get it all the same.\<close>

lemma run_ahead_is_found_by_id:
  "meta_tid c = meta_tid d \<Longrightarrow> meta_tid c \<noteq> [] \<Longrightarrow> hm_get (meta_tid c) (gw_cache w) = Some r \<Longrightarrow>
     gw_phases (start_call cfg c i w) = gw_phases (start_call cfg d i w)"
  by (simp add: start_call_def set_phase_def)

subsection \<open>The account of errors\<close>

text \<open>Without a stream, a spent budget ends the run and leaves no row of the quality log.\<close>

lemma budget_exit_leaves_no_row:
  assumes "\<not> is_permanent e" and "ls_errors st \<ge> 1" and "ls_errors st < lc_max_retries cfg" and "w \<ge> lc_retry_budget cfg"
  shows "chat_loop cfg ((Err e, w) # as) st = Some (Left_With ''llm_error'', st\<lparr>ls_errors := ls_errors st + 1\<rparr>)"
  using assms by (simp add: llm_retry_budget_exhausted_def)

text \<open>With one, it has told the user of another attempt before it gives up.\<close>

lemma retry_told_before_giving_up:
  assumes "\<not> is_permanent e" and "ls_errors st \<ge> 1" and "ls_errors st < lc_max_retries cfg" and "w \<ge> lc_retry_budget cfg"
  shows "\<exists>reason st'. stream_failure cfg e w st = Inl (Left_With reason, st') \<and>
     ls_notes st' = ls_notes st @ [Retry_Told (ls_errors st + 1) (lc_max_retries cfg) e
        (nat \<lceil>outage_retry_delay (ls_errors st + 1)\<rceil>), Gate_Skipped reason]"
  using assms by (simp add: stream_failure_def llm_retry_budget_exhausted_def Let_def)

lemma first_failure_is_retried:
  "\<not> is_permanent e \<Longrightarrow> ls_errors st = 0 \<Longrightarrow> lc_max_retries cfg \<ge> 1 \<Longrightarrow> \<exists>st'. stream_failure cfg e w st = Inr st'"
  by (simp add: stream_failure_def Let_def)

subsection \<open>Bounds of what is kept\<close>

lemma byte_len_rev [simp]: "byte_len (rev s) = byte_len s"
  by (simp add: byte_len_def rev_map [symmetric])

lemma last_bytes_len: "byte_len (last_bytes n s) \<le> n"
  by (simp add: last_bytes_def take_bytes_len)

lemma last_bytes_suffix: "suffix (last_bytes n s) s"
  unfolding last_bytes_def by (simp add: suffix_to_prefix take_bytes_prefix)

lemma thinking_bounded:
  "byte_len full \<le> MAX_FULL_THINKING_CHARS + byte_len TRIMMED_NOTE \<Longrightarrow>
     byte_len (add_thinking full thinking) \<le> MAX_FULL_THINKING_CHARS + byte_len TRIMMED_NOTE"
  using last_bytes_len by (auto simp: add_thinking_def Let_def byte_len_append)

lemma last_input_bounded:
  "tk_last_in (count_tokens n resp tk) \<le> max (4 * n) 2048"
  by (auto simp: count_tokens_def Let_def split: option.split prod.split)

end
