(* ===== verification/Tool_Args.thy ===== *)
theory Tool_Args
  imports Guard "HOL-Library.List_Lexorder" "HOL-Library.Char_ord"
begin

text \<open>
  The names of a tool's arguments, \<open>crates/oz-core-types/src/tool_args.rs\<close>: models write \<open>cmd\<close> for
  \<open>code\<close> and \<open>path\<close> for \<open>file_path\<close>; a known alias is moved onto the canonical name before the tool
  reads its arguments.  And the dispatch of the tool registry, \<open>crates/oz-tools/src/registry.rs\<close>,
  which applies it, refuses a call marked as corrupted and finds the tool.

  A JSON object is iterated in the order of its keys.
\<close>

subsection \<open>Keys\<close>

definition ascii_alnum :: "char \<Rightarrow> bool" where
  "ascii_alnum c \<longleftrightarrow> (let n = (of_char c :: nat) in
     (48 \<le> n \<and> n \<le> 57) \<or> (65 \<le> n \<and> n \<le> 90) \<or> (97 \<le> n \<and> n \<le> 122))"

definition ascii_lower :: "char \<Rightarrow> char" where
  "ascii_lower c = (let n = (of_char c :: nat) in if 65 \<le> n \<and> n \<le> 90 then char_of (n + 32) else c)"

definition norm_key :: "string \<Rightarrow> string" where
  "norm_key k = map ascii_lower (filter ascii_alnum k)"

definition norm_list :: "string list \<Rightarrow> string list" where
  "norm_list items = map norm_key items"

type_synonym arg_group = "string \<times> string list"

definition CODE :: arg_group where
  "CODE = (''code'', [''cmd'', ''command'', ''commandline'', ''shell'', ''script'', ''bash'', ''sh'', ''code_run'',
     ''coderun'', ''source'', ''content'', ''input'', ''snippet'', ''program'', ''python'', ''text''])"

definition CODE_TYPE :: arg_group where
  "CODE_TYPE = (''type'', [''mode'', ''lang'', ''language'', ''interpreter'', ''kind'', ''runtime'', ''codelang''])"

definition CODE_TIMEOUT :: arg_group where
  "CODE_TIMEOUT = (''timeout'', [''timeoutsecs'', ''timeoutseconds'', ''maxtime'', ''maxseconds'', ''timeoutvalue''])"

definition CODE_LANGUAGES :: "string list" where
  "CODE_LANGUAGES = [''bash'', ''sh'', ''shell'', ''zsh'', ''python'', ''python3'', ''py'', ''node'', ''javascript'', ''js'',
     ''powershell'']"

definition CODE_MODE :: arg_group where
  "CODE_MODE = (''mode'', [])"

definition G_CODE_RUN :: "arg_group list" where
  "G_CODE_RUN = [CODE, CODE_TYPE, CODE_TIMEOUT, CODE_MODE]"

definition FILE :: arg_group where
  "FILE = (''file_path'', [''path'', ''file'', ''filename'', ''filepath'', ''filepaths'', ''target'', ''source'', ''src'',
     ''dest'', ''destination'', ''absolutepath'', ''fullpath'', ''inputfile'', ''fileordir'', ''readpath'', ''writepath''])"

definition CONTENT :: arg_group where
  "CONTENT = (''content'', [''text'', ''data'', ''body'', ''contents'', ''filecontent'', ''newcontent'', ''payload'',
     ''output'', ''value'', ''code'', ''script''])"

definition OLD :: arg_group where
  "OLD = (''old_string'', [''old'', ''oldtext'', ''oldstr'', ''oldcontent'', ''find'', ''search'', ''before'', ''from'',
     ''original'', ''targettext'', ''oldvalue''])"

definition NEW :: arg_group where
  "NEW = (''new_string'', [''new'', ''newtext'', ''newstr'', ''newcontent'', ''replace'', ''replacement'',
     ''replacementtext'', ''with'', ''after'', ''to'', ''newvalue''])"

definition START :: arg_group where
  "START = (''start'', [''startline'', ''offset'', ''from'', ''begin'', ''firstline'', ''linestart''])"

definition COUNT :: arg_group where
  "COUNT = (''count'', [''lines'', ''limit'', ''numlines'', ''linecount'', ''maxlines'', ''length''])"

definition PATTERN :: arg_group where
  "PATTERN = (''pattern'', [''regex'', ''regexp'', ''query'', ''match'', ''globpattern'', ''filepattern''])"

definition DIR :: arg_group where
  "DIR = (''path'', [''directory'', ''dir'', ''base'', ''basepath'', ''root'', ''folder'', ''searchpath'', ''cwd''])"

definition INCLUDE :: arg_group where
  "INCLUDE = (''include'', [''glob'', ''filter'', ''fileglob'', ''includepattern'', ''include_pattern''])"

definition QUESTION :: arg_group where
  "QUESTION = (''question'', [''q'', ''prompt'', ''query'', ''text'', ''message'', ''ask''])"

definition CANDIDATES :: arg_group where
  "CANDIDATES = (''candidates'', [''options'', ''choices'', ''suggestions'', ''answers''])"

definition G_READ :: "arg_group list" where "G_READ = [FILE, START, COUNT]"
definition G_WRITE :: "arg_group list" where "G_WRITE = [FILE, CONTENT]"
definition G_EDIT :: "arg_group list" where "G_EDIT = [FILE, OLD, NEW]"
definition G_GLOB :: "arg_group list" where "G_GLOB = [PATTERN, DIR]"
definition G_GREP :: "arg_group list" where "G_GREP = [PATTERN, DIR, INCLUDE]"
definition G_LS :: "arg_group list" where "G_LS = [DIR, FILE]"
definition G_ASK_USER :: "arg_group list" where "G_ASK_USER = [QUESTION, CANDIDATES]"

definition groups_for :: "string \<Rightarrow> arg_group list option" where
  "groups_for tool =
     (let n = norm_key tool in
      if n \<in> set [''coderun'', ''bash'', ''shell'', ''run'', ''execute'', ''exec'', ''terminal''] then Some G_CODE_RUN
      else if n \<in> set [''read'', ''fileread'', ''readfile'', ''cat'', ''view''] then Some G_READ
      else if n \<in> set [''write'', ''filewrite'', ''writefile'', ''create'', ''save'', ''writefilecontent''] then Some G_WRITE
      else if n \<in> set [''edit'', ''patch'', ''fileedit'', ''editfile'', ''replace'', ''strreplace'', ''applypatch'']
      then Some G_EDIT
      else if n \<in> set [''glob'', ''listfiles'', ''find''] then Some G_GLOB
      else if n \<in> set [''grep'', ''search'', ''rg'', ''searchfiles''] then Some G_GREP
      else if n \<in> set [''ls'', ''list'', ''listdir'', ''dir''] then Some G_LS
      else if n = ''askuser'' then Some G_ASK_USER
      else None)"

definition primary_key :: "arg_group list \<Rightarrow> string" where
  "primary_key groups = fst (hd groups)"

definition canonical_param_names :: "string \<Rightarrow> string list option" where
  "canonical_param_names tool = map_option (map fst) (groups_for tool)"

definition has_alias_table :: "string \<Rightarrow> bool" where
  "has_alias_table tool \<longleftrightarrow> groups_for tool \<noteq> None"

definition CORRUPT_CALL_KEY :: string where
  "CORRUPT_CALL_KEY = ''__oz_corrupted_call''"

subsection \<open>Moving aliases\<close>

text \<open>An object while it is re-keyed: its members, and the keys whose value was moved.\<close>

type_synonym rekeyed = "(string, json) hash_map \<times> string list"

definition move_to :: "string \<Rightarrow> (string \<times> json) option \<Rightarrow> rekeyed \<Rightarrow> rekeyed" where
  "move_to canon hit s =
     (case hit of Some (orig, v) \<Rightarrow> (hm_insert canon v (fst s), snd s @ [orig]) | None \<Rightarrow> s)"

definition absent :: "string \<Rightarrow> rekeyed \<Rightarrow> bool" where
  "absent k s \<longleftrightarrow> hm_get k (fst s) = None"

text \<open>A kind of language under a key like \<open>mode\<close> is the \<open>type\<close>.\<close>

definition names_language :: "json \<Rightarrow> bool" where
  "names_language v = (case as_str v of Some s \<Rightarrow> map ascii_lower (trim s) \<in> set CODE_LANGUAGES | None \<Rightarrow> False)"

definition pass_type :: "arg_group list \<Rightarrow> (string \<times> json) list \<Rightarrow> rekeyed \<Rightarrow> rekeyed" where
  "pass_type groups members s =
     (case map_of groups ''type'' of
        None \<Rightarrow> s
      | Some aliases \<Rightarrow>
          if \<not> absent ''type'' s then s
          else (case find (\<lambda>(k, v). k \<notin> set (snd s) \<and> norm_key k \<in> set (norm_list aliases @ [''type'']) \<and> names_language v) members of
              None \<Rightarrow> s
            | Some (k, v) \<Rightarrow>
                (hm_insert ''type'' v (fst s), if norm_key k \<noteq> ''type'' then snd s @ [k] else snd s)))"

definition alias_hit :: "string list \<Rightarrow> (string \<times> json) list \<Rightarrow> string list \<Rightarrow> string list \<Rightarrow> (string \<times> json) option" where
  "alias_hit canonical members aliases consumed =
     find (\<lambda>(k, v). k \<notin> set consumed \<and> k \<notin> set canonical \<and> norm_key k \<in> set (norm_list aliases)) members"

definition pass_alias :: "string list \<Rightarrow> (string \<times> json) list \<Rightarrow> arg_group \<Rightarrow> rekeyed \<Rightarrow> rekeyed" where
  "pass_alias canonical members g s =
     (if \<not> absent (fst g) s then s
      else move_to (fst g) (alias_hit canonical members (snd g) (snd s)) s)"

definition pass_tool :: "string \<Rightarrow> string \<Rightarrow> (string \<times> json) list \<Rightarrow> rekeyed \<Rightarrow> rekeyed" where
  "pass_tool tool_norm primary members s =
     (if \<not> absent primary s then s
      else move_to primary (find (\<lambda>(k, v). norm_key k = tool_norm \<and> k \<notin> set (snd s)) members) s)"

definition known_keys :: "arg_group list \<Rightarrow> string list" where
  "known_keys groups = concat (map (\<lambda>(c, a). norm_list a @ [norm_key c]) groups)"

definition unknown_members :: "arg_group list \<Rightarrow> string list \<Rightarrow> (string \<times> json) list \<Rightarrow> (string \<times> json) list" where
  "unknown_members groups consumed members =
     filter (\<lambda>(k, v). k \<notin> set consumed \<and> norm_key k \<notin> set (known_keys groups) \<and> as_str v \<noteq> None \<and> norm_key k \<noteq> []) members"

definition pass_lone :: "arg_group list \<Rightarrow> string \<Rightarrow> (string \<times> json) list \<Rightarrow> rekeyed \<Rightarrow> rekeyed" where
  "pass_lone groups primary members s =
     (if \<not> absent primary s then s
      else move_to primary (case unknown_members groups (snd s) members of [m] \<Rightarrow> Some m | _ \<Rightarrow> None) s)"

definition other_path :: "string \<Rightarrow> string" where
  "other_path primary = (if primary = ''path'' then ''file_path'' else ''path'')"

definition pass_path :: "string \<Rightarrow> rekeyed \<Rightarrow> rekeyed" where
  "pass_path primary s =
     (if absent primary s \<and> primary \<in> {''path'', ''file_path''}
      then (case hm_get (other_path primary) (fst s) of Some v \<Rightarrow> (hm_insert primary v (fst s), snd s) | None \<Rightarrow> s)
      else s)"

definition drop_norms :: "string \<Rightarrow> arg_group list \<Rightarrow> (string, json) hash_map \<Rightarrow> string list" where
  "drop_norms tool_norm groups m =
     concat (map (\<lambda>(c, a). if hm_get c m \<noteq> None then norm_list a else []) groups)
     @ (if hm_get (primary_key groups) m \<noteq> None then [tool_norm] else [])"

definition drop_moved :: "string \<Rightarrow> arg_group list \<Rightarrow> rekeyed \<Rightarrow> (string, json) hash_map" where
  "drop_moved tool_norm groups s =
     hm_retain (\<lambda>k v. k \<notin> set (snd s) \<and> (k \<in> fst ` set groups \<or> norm_key k \<notin> set (drop_norms tool_norm groups (fst s)))) (fst s)"

definition passes :: "string \<Rightarrow> arg_group list \<Rightarrow> (string \<times> json) list \<Rightarrow> rekeyed \<Rightarrow> rekeyed" where
  "passes tool_norm groups members s =
     (let primary = primary_key groups in
      pass_path primary (pass_lone groups primary members (pass_tool tool_norm primary members
        (fold (pass_alias (map fst groups) members) groups (pass_type groups members s)))))"

definition rekey :: "string \<Rightarrow> arg_group list \<Rightarrow> (string, json) hash_map \<Rightarrow> (string, json) hash_map" where
  "rekey tool_norm groups m = drop_moved tool_norm groups (passes tool_norm groups (sort_key fst m) (m, []))"

definition canonicalize_tool_args :: "string \<Rightarrow> json \<Rightarrow> json" where
  "canonicalize_tool_args tool args =
     (case args of
        JObj m \<Rightarrow>
          if hm_get CORRUPT_CALL_KEY m \<noteq> None then JObj m
          else (case groups_for tool of None \<Rightarrow> JObj m | Some groups \<Rightarrow> JObj (rekey (norm_key tool) groups m))
      | _ \<Rightarrow> args)"

subsection \<open>Tools without a table\<close>

definition repair_with_primary :: "string \<Rightarrow> json \<Rightarrow> string option \<Rightarrow> string list option \<Rightarrow> json" where
  "repair_with_primary tool args primary known =
     (case (args, primary) of
        (JObj m, Some p) \<Rightarrow>
          (let tool_norm = norm_key tool; members = sort_key fst m in
           case (if hm_get p m = None then find (\<lambda>(k, v). norm_key k = tool_norm) members else None) of
             Some (k, v) \<Rightarrow> JObj (hm_remove k (hm_insert p v m))
           | None \<Rightarrow>
               if hm_get p m \<noteq> None then JObj m
               else (case filter (\<lambda>(k, v). \<not> ((case known of Some ks \<Rightarrow> norm_key k \<in> set ks | None \<Rightarrow> False)
                              \<or> norm_key k = norm_key p \<or> norm_key k = tool_norm) \<and> as_str v \<noteq> None \<and> norm_key k \<noteq> []) members of
                   [(k, v)] \<Rightarrow> JObj (hm_remove k (hm_insert p v m))
                 | _ \<Rightarrow> JObj m))
      | _ \<Rightarrow> args)"

definition repair_args_against_schema :: "string \<Rightarrow> json \<Rightarrow> json \<Rightarrow> json" where
  "repair_args_against_schema tool args schema =
     (let props = (case jget schema ''properties'' of Some (JObj ps) \<Rightarrow> Some (map fst (sort_key fst ps)) | _ \<Rightarrow> None);
          primary = (case Option.bind (jget schema ''required'') as_array of
              Some (JStr s # _) \<Rightarrow> Some s
            | _ \<Rightarrow> (case props of Some (k # _) \<Rightarrow> Some k | _ \<Rightarrow> None)) in
      if primary = None then args else repair_with_primary tool args primary (map_option norm_list props))"

definition arg_keys :: "json \<Rightarrow> string list" where
  "arg_keys args = (case args of JObj m \<Rightarrow> map fst (sort_key fst m) | _ \<Rightarrow> [])"

text \<open>\<open>dash\<close> is the dash of the message, a character outside the alphabet of these strings.\<close>

definition missing_arg_error :: "string \<Rightarrow> string \<Rightarrow> string list \<Rightarrow> json \<Rightarrow> string" where
  "missing_arg_error dash tool missing args =
     (let sent = (if arg_keys args = [] then ''(no arguments)'' else join_with '', '' (arg_keys args));
          names = join_with '' and '' (map (\<lambda>m. ''`'' @ m @ ''`'') missing) in
      tool @ '': missing '' @ names @ '' argument(s) '' @ dash @ '' this call sent keys ['' @ sent
        @ '']. The parameter name(s) are fixed by the tool schema: re-issue the call with '' @ names @ ''.'')"

definition corrupt_call_reason :: "json \<Rightarrow> string option" where
  "corrupt_call_reason args = str_arg args CORRUPT_CALL_KEY"

definition corrupt_call_marker :: "string \<Rightarrow> json" where
  "corrupt_call_marker reason = JObj [(CORRUPT_CALL_KEY, JStr reason)]"

subsection \<open>The registry\<close>

text \<open>A tool has the schema of its parameters and what it does with its arguments.\<close>

record 'r registered_tool =
  tool_parameters :: json
  tool_execute :: "json \<Rightarrow> 'r"

definition canonicalize_dispatch_args :: "string \<Rightarrow> json \<Rightarrow> json \<Rightarrow> json" where
  "canonicalize_dispatch_args tool args schema =
     (if \<not> is_object args then args
      else (let repaired = canonicalize_tool_args tool args in
        if has_alias_table tool then repaired else repair_args_against_schema tool repaired schema))"

datatype 'r dispatched = Unknown_Tool string | Refused_Corrupted string string | Executed 'r

definition registry_dispatch :: "(string, 'r registered_tool) hash_map \<Rightarrow> string \<Rightarrow> json \<Rightarrow> 'r dispatched" where
  "registry_dispatch handlers tool args =
     (case hm_get tool handlers of
        None \<Rightarrow> Unknown_Tool tool
      | Some t \<Rightarrow>
          (case corrupt_call_reason args of
             Some reason \<Rightarrow> Refused_Corrupted tool reason
           | None \<Rightarrow> Executed (tool_execute t (canonicalize_dispatch_args tool args (tool_parameters t)))))"

definition registry_names :: "(string, 'r registered_tool) hash_map \<Rightarrow> string list" where
  "registry_names handlers = hm_keys handlers"

text \<open>The schema sent to the model, in the order of the names; a description is chosen by the language elsewhere.\<close>

definition to_schema :: "(string \<Rightarrow> string) \<Rightarrow> (string, 'r registered_tool) hash_map \<Rightarrow> (string \<times> string \<times> json) list" where
  "to_schema describe handlers =
     map (\<lambda>(n, t). (n, describe n, tool_parameters t)) (sort_key fst handlers)"

subsection \<open>The tables\<close>

definition type_norms :: "arg_group list \<Rightarrow> string list" where
  "type_norms groups = (case map_of groups ''type'' of None \<Rightarrow> [] | Some aliases \<Rightarrow> norm_list aliases @ [''type''])"

text \<open>What the passes rely on: no canonical name looks like the tool's name, or, but for \<open>mode\<close>, like a language key.\<close>

definition table_ok :: "string \<Rightarrow> arg_group list \<Rightarrow> bool" where
  "table_ok tool_norm groups \<longleftrightarrow> groups \<noteq> [] \<and> primary_key groups \<noteq> ''mode'' \<and>
     list_all (\<lambda>(c, a). c \<noteq> CORRUPT_CALL_KEY \<and> norm_key c \<noteq> tool_norm \<and> (if c = ''mode'' then a = [] else
       norm_key c \<notin> set (type_norms groups) \<or> c = ''type'')) groups"

lemmas table_defs = G_CODE_RUN_def G_READ_def G_WRITE_def G_EDIT_def G_GLOB_def G_GREP_def G_LS_def G_ASK_USER_def
  CODE_def CODE_TYPE_def CODE_TIMEOUT_def CODE_MODE_def FILE_def CONTENT_def OLD_def NEW_def START_def COUNT_def
  PATTERN_def DIR_def INCLUDE_def QUESTION_def CANDIDATES_def

lemma canonical_norms:
  "norm_key ''code'' = ''code''"
  "norm_key ''type'' = ''type''"
  "norm_key ''timeout'' = ''timeout''"
  "norm_key ''mode'' = ''mode''"
  "norm_key ''file_path'' = ''filepath''"
  "norm_key ''content'' = ''content''"
  "norm_key ''old_string'' = ''oldstring''"
  "norm_key ''new_string'' = ''newstring''"
  "norm_key ''start'' = ''start''"
  "norm_key ''count'' = ''count''"
  "norm_key ''pattern'' = ''pattern''"
  "norm_key ''path'' = ''path''"
  "norm_key ''include'' = ''include''"
  "norm_key ''question'' = ''question''"
  "norm_key ''candidates'' = ''candidates''"
  by code_simp+

lemma language_norms:
  "norm_list [''mode'', ''lang'', ''language'', ''interpreter'', ''kind'', ''runtime'', ''codelang''] =
     [''mode'', ''lang'', ''language'', ''interpreter'', ''kind'', ''runtime'', ''codelang'']"
  by code_simp

lemma tables_ok:
  "list_all (\<lambda>n. table_ok n G_CODE_RUN) [''coderun'', ''bash'', ''shell'', ''run'', ''execute'', ''exec'', ''terminal'']"
  "list_all (\<lambda>n. table_ok n G_READ) [''read'', ''fileread'', ''readfile'', ''cat'', ''view'']"
  "list_all (\<lambda>n. table_ok n G_WRITE) [''write'', ''filewrite'', ''writefile'', ''create'', ''save'', ''writefilecontent'']"
  "list_all (\<lambda>n. table_ok n G_EDIT) [''edit'', ''patch'', ''fileedit'', ''editfile'', ''replace'', ''strreplace'', ''applypatch'']"
  "list_all (\<lambda>n. table_ok n G_GLOB) [''glob'', ''listfiles'', ''find'']"
  "list_all (\<lambda>n. table_ok n G_GREP) [''grep'', ''search'', ''rg'', ''searchfiles'']"
  "list_all (\<lambda>n. table_ok n G_LS) [''ls'', ''list'', ''listdir'', ''dir'']"
  "table_ok ''askuser'' G_ASK_USER"
  by (simp_all add: table_ok_def table_defs type_norms_def primary_key_def canonical_norms language_norms
    CORRUPT_CALL_KEY_def)

lemma groups_for_ok: "groups_for tool = Some groups \<Longrightarrow> table_ok (norm_key tool) groups"
  using tables_ok unfolding groups_for_def Let_def list_all_iff
  by (auto simp only: option.inject option.distinct split: if_splits)

subsection \<open>What a pass may do\<close>

text \<open>The keys whose value a pass may move.\<close>

definition movable :: "string \<Rightarrow> arg_group list \<Rightarrow> (string \<times> json) list \<Rightarrow> string set" where
  "movable tn groups members =
     {k. (k \<notin> fst ` set groups \<or> k = ''mode'' \<and> (\<exists>v. (k, v) \<in> set members \<and> names_language v))
       \<and> (norm_key k \<in> set (known_keys groups) \<or> norm_key k = tn \<or> (\<exists>v. (k, v) \<in> set members \<and> as_str v \<noteq> None))}"

definition hm_values :: "('k, 'v) hash_map \<Rightarrow> 'v set" where
  "hm_values m = {v. \<exists>k. hm_get k m = Some v}"

lemma hm_values_insert: "hm_values (hm_insert k v m) \<subseteq> insert v (hm_values m)"
  by (auto simp: hm_values_def)

lemma filter_other_update: "c \<in> C \<Longrightarrow> filter (\<lambda>(k, v). k \<notin> C) (hm_insert c v m) = filter (\<lambda>(k, v). k \<notin> C) m"
  by (induction m) (auto simp: hm_insert_def)

lemma get_filter_other: "k \<notin> C \<Longrightarrow> hm_get k (filter (\<lambda>(k, v). k \<notin> C) m) = hm_get k m"
  by (induction m) (auto simp: hm_get_def)

text \<open>The members no pass touches.\<close>

definition rest_of :: "arg_group list \<Rightarrow> (string, json) hash_map \<Rightarrow> (string, json) hash_map" where
  "rest_of groups m = filter (\<lambda>(k, v). k \<notin> fst ` set groups - {''mode''}) m"

lemma rest_of_insert: "c \<in> fst ` set groups - {''mode''} \<Longrightarrow> rest_of groups (hm_insert c v m) = rest_of groups m"
  unfolding rest_of_def by (rule filter_other_update)

lemma get_rest_of: "k \<notin> fst ` set groups - {''mode''} \<Longrightarrow> hm_get k (rest_of groups m) = hm_get k m"
  unfolding rest_of_def by (rule get_filter_other)

definition advances :: "string \<Rightarrow> arg_group list \<Rightarrow> (string \<times> json) list \<Rightarrow> rekeyed \<Rightarrow> rekeyed \<Rightarrow> bool" where
  "advances tn groups members s s' \<longleftrightarrow>
     rest_of groups (fst s') = rest_of groups (fst s) \<and>
     (\<forall>k v. hm_get k (fst s) = Some v \<longrightarrow> hm_get k (fst s') = Some v) \<and>
     hm_values (fst s') \<subseteq> snd ` set members \<union> hm_values (fst s) \<and>
     set (snd s) \<subseteq> set (snd s') \<and> set (snd s') \<subseteq> set (snd s) \<union> movable tn groups members"

lemma advances_refl [intro, simp]: "advances tn groups members s s"
  by (auto simp: advances_def)

lemma advances_trans:
  assumes "advances tn groups members s t" and "advances tn groups members t u"
  shows "advances tn groups members s u"
proof -
  from assms have "hm_values (fst u) \<subseteq> snd ` set members \<union> hm_values (fst s)"
    and "set (snd s) \<subseteq> set (snd u)" and "set (snd u) \<subseteq> set (snd s) \<union> movable tn groups members"
    unfolding advances_def by blast+
  moreover from assms have "rest_of groups (fst u) = rest_of groups (fst s)" unfolding advances_def by simp
  moreover from assms have "\<forall>k v. hm_get k (fst s) = Some v \<longrightarrow> hm_get k (fst u) = Some v"
    unfolding advances_def by simp
  ultimately show ?thesis unfolding advances_def by blast
qed

lemma advances_insert:
  assumes "absent c s" and "c \<in> fst ` set groups - {''mode''}" and "v \<in> snd ` set members \<union> hm_values (fst s)"
    and "set (snd s) \<subseteq> set con" and "set con \<subseteq> set (snd s) \<union> movable tn groups members"
  shows "advances tn groups members s (hm_insert c v (fst s), con)"
proof -
  have "hm_values (hm_insert c v (fst s)) \<subseteq> snd ` set members \<union> hm_values (fst s)"
    using hm_values_insert [of c v "fst s"] assms(3) by blast
  moreover note rest_of_insert [OF assms(2)]
  ultimately show ?thesis using assms(1,4,5) unfolding advances_def by (simp add: absent_def)
qed

lemma advances_move:
  assumes "absent c s" and "c \<in> fst ` set groups - {''mode''}"
    and "\<And>k v. hit = Some (k, v) \<Longrightarrow> (k, v) \<in> set members \<and> k \<in> movable tn groups members"
  shows "advances tn groups members s (move_to c hit s)"
proof (cases hit)
  case (Some kv)
  obtain k v where kv: "kv = (k, v)" by (cases kv)
  with assms(3) Some have "(k, v) \<in> set members" "k \<in> movable tn groups members" by auto
  then have "advances tn groups members s (hm_insert c v (fst s), snd s @ [k])"
    by (intro advances_insert assms) force+
  with Some kv show ?thesis by (simp add: move_to_def)
qed (simp add: move_to_def)

lemma find_in: "find P xs = Some x \<Longrightarrow> x \<in> set xs \<and> P x"
  by (induction xs) (auto split: if_splits)

lemma find_none: "find P xs = None \<longleftrightarrow> (\<forall>x \<in> set xs. \<not> P x)"
  by (induction xs) auto

lemma known_key: "(c, a) \<in> set groups \<Longrightarrow> n \<in> set (norm_list a) \<or> n = norm_key c \<Longrightarrow> n \<in> set (known_keys groups)"
  by (force simp: known_keys_def)

lemma table_ok_member:
  assumes "table_ok tn groups" and "(c, a) \<in> set groups"
  shows "c \<noteq> CORRUPT_CALL_KEY" and "norm_key c \<noteq> tn" and "c = ''mode'' \<Longrightarrow> a = []"
    and "c \<noteq> ''mode'' \<Longrightarrow> norm_key c \<in> set (type_norms groups) \<Longrightarrow> c = ''type''"
  using assms by (auto simp: table_ok_def list_all_iff split: if_splits)

lemma table_ok_primary:
  "table_ok tn groups \<Longrightarrow> primary_key groups \<in> fst ` set groups - {''mode''}"
  by (cases groups) (auto simp: table_ok_def primary_key_def)

lemma type_norms_known: "set (type_norms groups) \<subseteq> set (known_keys groups)"
proof (cases "map_of groups ''type''")
  case (Some a)
  from map_of_SomeD [OF this] have "(''type'', a) \<in> set groups" .
  moreover have "norm_key ''type'' = ''type''" by (rule canonical_norms)
  ultimately show ?thesis using Some known_key [of "''type''" a groups] by (auto simp: type_norms_def)
qed (simp add: type_norms_def)

lemma pass_type_advances:
  assumes "table_ok tn groups"
  shows "advances tn groups members s (pass_type groups members s)"
proof (cases "map_of groups ''type''")
  case None
  then show ?thesis by (simp add: pass_type_def)
next
  case (Some aliases)
  let ?hit = "find (\<lambda>(k, v). k \<notin> set (snd s) \<and> norm_key k \<in> set (norm_list aliases @ [''type'']) \<and> names_language v) members"
  from map_of_SomeD [OF Some] have type: "''type'' \<in> fst ` set groups - {''mode''}" by force
  show ?thesis
  proof (cases "absent ''type'' s \<and> ?hit \<noteq> None")
    case True
    then obtain k v where hit: "?hit = Some (k, v)" by auto
    from find_in [OF hit] have kv: "(k, v) \<in> set members" "names_language v" and n: "norm_key k \<in> set (type_norms groups)"
      using Some by (auto simp: type_norms_def)
    have mov: "k \<in> movable tn groups members" if "norm_key k \<noteq> ''type''"
    proof (cases "k \<in> fst ` set groups")
      case True
      then obtain a where "(k, a) \<in> set groups" by auto
      from table_ok_member(4) [OF assms this] n that canonical_norms(2) have "k = ''mode''" by auto
      with kv n type_norms_known show ?thesis unfolding movable_def by blast
    next
      case False
      with n type_norms_known show ?thesis unfolding movable_def by blast
    qed
    have eq: "pass_type groups members s =
        (hm_insert ''type'' v (fst s), if norm_key k \<noteq> ''type'' then snd s @ [k] else snd s)"
      using True Some hit by (simp add: pass_type_def)
    have "v \<in> snd ` set members" using kv(1) by force
    with True type mov show ?thesis unfolding eq by (intro advances_insert) auto
  qed (use Some in \<open>auto simp: pass_type_def split: option.split\<close>)
qed

lemma pass_alias_advances:
  assumes "table_ok tn groups" and "g \<in> set groups"
  shows "advances tn groups members s (pass_alias (map fst groups) members g s)"
proof (cases "absent (fst g) s \<and> fst g \<noteq> ''mode''")
  case True
  have "advances tn groups members s (move_to (fst g) (alias_hit (map fst groups) members (snd g) (snd s)) s)"
  proof (rule advances_move)
    fix k v assume "alias_hit (map fst groups) members (snd g) (snd s) = Some (k, v)"
    from find_in [OF this [unfolded alias_hit_def]]
    show "(k, v) \<in> set members \<and> k \<in> movable tn groups members"
      using known_key [of "fst g" "snd g" groups] assms(2) by (auto simp: movable_def)
  qed (use True assms in auto)
  with True show ?thesis by (simp add: pass_alias_def)
next
  case False
  obtain c a where g: "g = (c, a)" by (cases g)
  from table_ok_member(3) [OF assms(1), of c a] assms(2) False g
  have "snd g = [] \<or> \<not> absent (fst g) s" by auto
  then show ?thesis by (auto simp: pass_alias_def alias_hit_def norm_list_def move_to_def split: option.split dest: find_in)
qed

lemma pass_aliases_advance:
  assumes "table_ok tn groups" and "set gs \<subseteq> set groups"
  shows "advances tn groups members s (fold (pass_alias (map fst groups) members) gs s)"
  using assms(2)
proof (induction gs arbitrary: s)
  case (Cons g gs)
  then have "advances tn groups members s (pass_alias (map fst groups) members g s)"
    by (intro pass_alias_advances [OF assms(1)]) simp
  moreover from Cons have "advances tn groups members (pass_alias (map fst groups) members g s)
      (fold (pass_alias (map fst groups) members) gs (pass_alias (map fst groups) members g s))" by simp
  ultimately show ?case using advances_trans by simp
qed simp

lemma pass_tool_advances:
  assumes "table_ok tn groups"
  shows "advances tn groups members s (pass_tool tn (primary_key groups) members s)"
proof (cases "absent (primary_key groups) s")
  case True
  have "advances tn groups members s
      (move_to (primary_key groups) (find (\<lambda>(k, v). norm_key k = tn \<and> k \<notin> set (snd s)) members) s)"
  proof (rule advances_move)
    fix k v assume "find (\<lambda>(k, v). norm_key k = tn \<and> k \<notin> set (snd s)) members = Some (k, v)"
    from find_in [OF this] have "(k, v) \<in> set members" "norm_key k = tn" by auto
    moreover from this(2) table_ok_member(2) [OF assms, of k] have "k \<notin> fst ` set groups" by force
    ultimately show "(k, v) \<in> set members \<and> k \<in> movable tn groups members" by (simp add: movable_def)
  qed (use True table_ok_primary [OF assms] in auto)
  with True show ?thesis by (simp add: pass_tool_def)
qed (simp add: pass_tool_def)

lemma unknown_movable: "(k, v) \<in> set (unknown_members groups consumed members) \<Longrightarrow> (k, v) \<in> set members \<and> k \<in> movable tn groups members"
  using known_key by (fastforce simp: unknown_members_def movable_def)

lemma pass_lone_advances:
  assumes "table_ok tn groups"
  shows "advances tn groups members s (pass_lone groups (primary_key groups) members s)"
proof (cases "absent (primary_key groups) s")
  case True
  let ?hit = "case unknown_members groups (snd s) members of [m] \<Rightarrow> Some m | _ \<Rightarrow> None"
  have "advances tn groups members s (move_to (primary_key groups) ?hit s)"
  proof (rule advances_move)
    fix k v assume "?hit = Some (k, v)"
    then have "(k, v) \<in> set (unknown_members groups (snd s) members)" by (auto split: list.splits)
    then show "(k, v) \<in> set members \<and> k \<in> movable tn groups members" by (rule unknown_movable)
  qed (use True table_ok_primary [OF assms] in auto)
  with True show ?thesis by (simp add: pass_lone_def)
qed (simp add: pass_lone_def)

lemma pass_path_advances:
  assumes "table_ok tn groups"
  shows "advances tn groups members s (pass_path (primary_key groups) s)"
proof (cases "absent (primary_key groups) s \<and> hm_get (other_path (primary_key groups)) (fst s) \<noteq> None")
  case True
  then obtain v where "hm_get (other_path (primary_key groups)) (fst s) = Some v" by auto
  moreover from this have "v \<in> hm_values (fst s)" by (auto simp: hm_values_def)
  moreover from calculation True have "advances tn groups members s (hm_insert (primary_key groups) v (fst s), snd s)"
    by (intro advances_insert table_ok_primary [OF assms]) auto
  ultimately show ?thesis using True by (simp add: pass_path_def)
qed (auto simp: pass_path_def split: option.split)

lemma passes_advance:
  assumes "table_ok tn groups"
  shows "advances tn groups members s (passes tn groups members s)"
  unfolding passes_def Let_def
  by (intro advances_trans [OF _ pass_path_advances] advances_trans [OF _ pass_lone_advances]
      advances_trans [OF _ pass_tool_advances] advances_trans [OF _ pass_aliases_advance] pass_type_advances assms subset_refl)

subsection \<open>What re-keying keeps\<close>

lemma map_of_sort_values: "snd ` set (sort_key fst m) = snd ` set m"
  by simp

lemma hm_get_retain_key: "hm_get k (hm_retain (\<lambda>k v. P k) m) = (if P k then hm_get k m else None)"
  by (induction m) (auto simp: hm_get_def hm_retain_def)

lemma rekey_get:
  "hm_get k (rekey tn groups m) =
     (let s = passes tn groups (sort_key fst m) (m, []) in
      if k \<notin> set (snd s) \<and> (k \<in> fst ` set groups \<or> norm_key k \<notin> set (drop_norms tn groups (fst s))) then hm_get k (fst s) else None)"
  by (simp add: rekey_def drop_moved_def hm_get_retain_key Let_def)

lemma rekey_advances:
  assumes "table_ok tn groups"
  shows "advances tn groups m (m, []) (passes tn groups (sort_key fst m) (m, []))"
proof -
  have "movable tn groups (sort_key fst m) = movable tn groups m" by (simp add: movable_def)
  with passes_advance [OF assms, of "sort_key fst m" "(m, [])"] show ?thesis by (simp add: advances_def)
qed

lemma advances_get:
  "advances tn groups members s s' \<Longrightarrow> k \<notin> fst ` set groups - {''mode''} \<Longrightarrow> hm_get k (fst s') = hm_get k (fst s)"
  unfolding advances_def using get_rest_of by metis

lemma hm_get_in: "hm_get k m = Some v \<Longrightarrow> (k, v) \<in> set m"
  by (simp add: hm_get_def map_of_SomeD)

lemma rekey_contract:
  assumes "table_ok tn groups"
  shows "c \<in> fst ` set groups \<Longrightarrow> hm_get c m = Some v \<Longrightarrow>
      c \<noteq> ''mode'' \<or> (\<forall>u. (c, u) \<in> set m \<longrightarrow> \<not> names_language u) \<Longrightarrow> hm_get c (rekey tn groups m) = Some v"
    and "hm_get k (rekey tn groups m) = Some v \<Longrightarrow> v \<in> snd ` set m \<and> (hm_get k m = None \<longrightarrow> k \<in> fst ` set groups)"
    and "norm_key k \<notin> set (known_keys groups) \<union> {tn} \<Longrightarrow> \<forall>u. (k, u) \<in> set m \<longrightarrow> as_str u = None \<Longrightarrow>
      hm_get k (rekey tn groups m) = hm_get k m"
proof -
  let ?s = "passes tn groups (sort_key fst m) (m, [])"
  note adv = rekey_advances [OF assms, of m, unfolded advances_def]
  show "hm_get c (rekey tn groups m) = Some v" if "c \<in> fst ` set groups" "hm_get c m = Some v"
    "c \<noteq> ''mode'' \<or> (\<forall>u. (c, u) \<in> set m \<longrightarrow> \<not> names_language u)"
  proof -
    from that have "c \<notin> movable tn groups m" by (auto simp: movable_def)
    with adv have "c \<notin> set (snd ?s)" by auto
    moreover from adv that(2) have "hm_get c (fst ?s) = Some v" by simp
    ultimately show ?thesis using that(1) by (simp add: rekey_get Let_def)
  qed
  show "v \<in> snd ` set m \<and> (hm_get k m = None \<longrightarrow> k \<in> fst ` set groups)" if "hm_get k (rekey tn groups m) = Some v"
  proof -
    from that have got: "hm_get k (fst ?s) = Some v" by (simp add: rekey_get Let_def split: if_splits)
    then have "v \<in> hm_values (fst ?s)" by (auto simp: hm_values_def)
    with adv have "v \<in> snd ` set m \<union> hm_values m" by auto
    moreover have "hm_values m \<subseteq> snd ` set m" by (force simp: hm_values_def dest: hm_get_in)
    moreover from advances_get [OF rekey_advances [OF assms]] got have "k \<in> fst ` set groups" if "hm_get k m = None"
      using that by (cases "k \<in> fst ` set groups - {''mode''}") auto
    ultimately show ?thesis by blast
  qed
  show "hm_get k (rekey tn groups m) = hm_get k m"
    if n: "norm_key k \<notin> set (known_keys groups) \<union> {tn}" and v: "\<forall>u. (k, u) \<in> set m \<longrightarrow> as_str u = None"
  proof -
    have "k \<notin> fst ` set groups" using n known_key by fastforce
    moreover from n v have "k \<notin> movable tn groups m" by (auto simp: movable_def)
    with adv have "k \<notin> set (snd ?s)" by auto
    moreover have "hm_get k (fst ?s) = hm_get k m"
      using advances_get [OF rekey_advances [OF assms]] calculation(1) by simp
    moreover have "set (drop_norms tn groups (fst ?s)) \<subseteq> set (known_keys groups) \<union> {tn}"
      using known_key by (fastforce simp: drop_norms_def split: if_splits)
    ultimately show ?thesis using n by (auto simp: rekey_get Let_def)
  qed
qed

subsection \<open>Once is enough\<close>

text \<open>An object in which no pass finds anything to do.\<close>

definition quiet :: "string \<Rightarrow> arg_group list \<Rightarrow> (string, json) hash_map \<Rightarrow> bool" where
  "quiet tn groups m \<longleftrightarrow>
     (hm_get ''type'' m = None \<longrightarrow> (\<forall>(k, v) \<in> set m. \<not> (norm_key k \<in> set (type_norms groups) \<and> names_language v))) \<and>
     (\<forall>(c, a) \<in> set groups. hm_get c m = None \<longrightarrow>
        (\<forall>(k, v) \<in> set m. k \<in> fst ` set groups \<or> norm_key k \<notin> set (norm_list a))) \<and>
     (hm_get (primary_key groups) m = None \<longrightarrow>
        (\<forall>(k, v) \<in> set m. norm_key k \<noteq> tn) \<and> length (unknown_members groups [] m) \<noteq> 1 \<and>
        (primary_key groups \<in> {''path'', ''file_path''} \<longrightarrow> hm_get (other_path (primary_key groups)) m = None)) \<and>
     (\<forall>(k, v) \<in> set m. k \<in> fst ` set groups \<or> norm_key k \<notin> set (drop_norms tn groups m))"

lemma pass_type_quiet:
  assumes "quiet tn groups m"
  shows "pass_type groups (sort_key fst m) (m, []) = (m, [])"
proof (cases "map_of groups ''type''")
  case (Some a)
  then have "set (type_norms groups) = set (norm_list a @ [''type''])" by (simp add: type_norms_def)
  with assms have "find (\<lambda>(k, v). k \<notin> set [] \<and> norm_key k \<in> set (norm_list a @ [''type'']) \<and> names_language v) (sort_key fst m) = None"
    if "hm_get ''type'' m = None"
    using that unfolding quiet_def find_none by auto
  with Some show ?thesis by (simp add: pass_type_def absent_def)
qed (simp add: pass_type_def)

lemma pass_alias_quiet:
  assumes "quiet tn groups m" and "g \<in> set groups"
  shows "pass_alias (map fst groups) (sort_key fst m) g (m, []) = (m, [])"
proof -
  obtain c a where g: "g = (c, a)" by (cases g)
  have "alias_hit (map fst groups) (sort_key fst m) a [] = None" if "hm_get c m = None"
    using assms that g unfolding quiet_def alias_hit_def find_none by fastforce
  with g show ?thesis by (simp add: pass_alias_def absent_def move_to_def)
qed

lemma fold_fixed: "(\<And>x. x \<in> set xs \<Longrightarrow> f x s = s) \<Longrightarrow> fold f xs s = s"
  by (induction xs) auto

lemma unknown_members_sorted: "length (unknown_members groups con (sort_key fst m)) = length (unknown_members groups con m)"
  by (simp add: unknown_members_def filter_sort)

lemma quiet_passes:
  assumes "quiet tn groups m"
  shows "passes tn groups (sort_key fst m) (m, []) = (m, [])"
proof -
  let ?p = "primary_key groups"
  have "fold (pass_alias (map fst groups) (sort_key fst m)) groups (m, []) = (m, [])"
    by (rule fold_fixed) (rule pass_alias_quiet [OF assms])
  moreover have "pass_tool tn ?p (sort_key fst m) (m, []) = (m, [])"
  proof -
    have "find (\<lambda>(k, v). norm_key k = tn \<and> k \<notin> set []) (sort_key fst m) = None" if "hm_get ?p m = None"
      using assms that unfolding quiet_def find_none by fastforce
    then show ?thesis by (simp add: pass_tool_def absent_def move_to_def)
  qed
  moreover have "pass_lone groups ?p (sort_key fst m) (m, []) = (m, [])"
  proof -
    have "length (unknown_members groups [] (sort_key fst m)) \<noteq> 1" if "hm_get ?p m = None"
      using assms that unfolding quiet_def unknown_members_sorted by blast
    then have "(case unknown_members groups [] (sort_key fst m) of [x] \<Rightarrow> Some x | _ \<Rightarrow> None) = None" if "hm_get ?p m = None"
      using that by (auto split: list.split)
    then show ?thesis by (simp add: pass_lone_def absent_def move_to_def)
  qed
  moreover have "pass_path ?p (m, []) = (m, [])"
    using assms by (auto simp: pass_path_def absent_def quiet_def split: option.split)
  ultimately show ?thesis by (simp add: passes_def Let_def pass_type_quiet [OF assms])
qed

lemma quiet_rekey: "quiet tn groups m \<Longrightarrow> rekey tn groups m = m"
  unfolding rekey_def quiet_passes drop_moved_def hm_retain_def
  by (auto simp: quiet_def intro!: filter_True)

text \<open>What the passes leave is such an object.\<close>

lemma advances_keep: "advances tn groups members s s' \<Longrightarrow> hm_get k (fst s') = None \<Longrightarrow> hm_get k (fst s) = None"
  unfolding advances_def by (metis not_None_eq)

lemma advances_consumed: "advances tn groups members s s' \<Longrightarrow> k \<in> set (snd s) \<Longrightarrow> k \<in> set (snd s')"
  unfolding advances_def by blast

lemma move_to_present: "hm_get c (fst (move_to c hit s)) = None \<Longrightarrow> hit = None"
  by (cases hit) (auto simp: move_to_def)

lemma pass_type_absent:
  assumes "hm_get ''type'' (fst (pass_type groups members (m, []))) = None" and "(k, v) \<in> set members"
  shows "\<not> (norm_key k \<in> set (type_norms groups) \<and> names_language v)"
proof (cases "map_of groups ''type''")
  case (Some a)
  have absent: "absent ''type'' (m, [])"
    using assms(1) by (auto simp: absent_def pass_type_def Some split: if_splits option.splits prod.splits)
  have "find (\<lambda>(k, v). k \<notin> set [] \<and> norm_key k \<in> set (norm_list a @ [''type'']) \<and> names_language v) members = None"
    using assms(1) absent by (auto simp: pass_type_def Some split: option.splits prod.splits)
  with assms(2) Some show ?thesis unfolding find_none by (auto simp: type_norms_def)
qed (simp add: type_norms_def)

lemma pass_alias_absent:
  assumes "table_ok tn groups" and "(c, a) \<in> set gs" and "set gs \<subseteq> set groups" and "(k, v) \<in> set members"
    and "hm_get c (fst (fold (pass_alias (map fst groups) members) gs s)) = None"
  shows "k \<in> set (snd (fold (pass_alias (map fst groups) members) gs s)) \<or> k \<in> fst ` set groups \<or> norm_key k \<notin> set (norm_list a)"
proof -
  let ?f = "pass_alias (map fst groups) members"
  from split_list [OF assms(2)] obtain xs ys where gs: "gs = xs @ (c, a) # ys" by blast
  let ?t = "fold ?f xs s"
  have later: "advances tn groups members (?f (c, a) ?t) (fold ?f gs s)"
    using pass_aliases_advance [OF assms(1), of ys members "?f (c, a) ?t"] assms(3) gs by simp
  have now: "advances tn groups members ?t (?f (c, a) ?t)"
    using pass_alias_advances [OF assms(1)] assms(3) gs by simp
  from advances_keep [OF later assms(5)] have none: "hm_get c (fst (?f (c, a) ?t)) = None" .
  with advances_keep [OF now] have "absent c ?t" by (simp add: absent_def)
  with none move_to_present have "alias_hit (map fst groups) members a (snd ?t) = None"
    by (simp add: pass_alias_def)
  with assms(4) have "k \<in> set (snd ?t) \<or> k \<in> fst ` set groups \<or> norm_key k \<notin> set (norm_list a)"
    unfolding alias_hit_def find_none by auto
  with advances_consumed [OF advances_trans [OF now later]] show ?thesis by blast
qed

lemma pass_path_absent:
  "hm_get p (fst (pass_path p s)) = None \<Longrightarrow>
     pass_path p s = s \<and> (p \<in> {''path'', ''file_path''} \<longrightarrow> hm_get (other_path p) (fst s) = None)"
  unfolding pass_path_def absent_def by (auto split: if_splits option.splits)

text \<open>What is known of the result when the primary key is still missing.\<close>

lemma passes_primary_absent:
  assumes "table_ok tn groups" and "hm_get (primary_key groups) (fst (passes tn groups members s)) = None"
  shows "\<forall>(k, v) \<in> set members. norm_key k = tn \<longrightarrow> k \<in> set (snd (passes tn groups members s))"
    and "length (unknown_members groups (snd (passes tn groups members s)) members) \<noteq> 1"
    and "primary_key groups \<in> {''path'', ''file_path''} \<Longrightarrow>
      hm_get (other_path (primary_key groups)) (fst (passes tn groups members s)) = None"
proof -
  let ?p = "primary_key groups"
  let ?s2 = "fold (pass_alias (map fst groups) members) groups (pass_type groups members s)"
  let ?s3 = "pass_tool tn ?p members ?s2"
  let ?s4 = "pass_lone groups ?p members ?s3"
  have end5: "passes tn groups members s = pass_path ?p ?s4" by (simp add: passes_def Let_def)
  have n4: "hm_get ?p (fst ?s4) = None" using advances_keep [OF pass_path_advances [OF assms(1)]] assms(2) end5 by simp
  have n3: "hm_get ?p (fst ?s3) = None" using advances_keep [OF pass_lone_advances [OF assms(1)] n4] .
  have n2: "hm_get ?p (fst ?s2) = None" using advances_keep [OF pass_tool_advances [OF assms(1)] n3] .
  have f3: "find (\<lambda>(k, v). norm_key k = tn \<and> k \<notin> set (snd ?s2)) members = None"
    using n3 n2 move_to_present by (simp add: pass_tool_def absent_def)
  then have s3: "?s3 = ?s2" using n2 by (simp add: pass_tool_def absent_def move_to_def)
  have f4: "(case unknown_members groups (snd ?s3) members of [x] \<Rightarrow> Some x | _ \<Rightarrow> None) = None"
    using n4 n3 move_to_present by (simp add: pass_lone_def absent_def)
  then have s4: "?s4 = ?s3" using n3 by (simp add: pass_lone_def absent_def move_to_def)
  have s5: "passes tn groups members s = ?s2" and other: "?p \<in> {''path'', ''file_path''} \<Longrightarrow> hm_get (other_path ?p) (fst ?s2) = None"
    using pass_path_absent [of ?p ?s2] assms(2) end5 [unfolded s4, unfolded s3] by simp_all
  show "\<forall>(k, v) \<in> set members. norm_key k = tn \<longrightarrow> k \<in> set (snd (passes tn groups members s))"
    using f3 unfolding s5 find_none by auto
  show "length (unknown_members groups (snd (passes tn groups members s)) members) \<noteq> 1"
    using f4 unfolding s5 s3 by (auto simp: length_Suc_conv split: list.splits)
  show "?p \<in> {''path'', ''file_path''} \<Longrightarrow> hm_get (other_path ?p) (fst (passes tn groups members s)) = None"
    using other unfolding s5 .
qed

lemma passes_later:
  assumes "table_ok tn groups"
  shows "advances tn groups members (pass_type groups members s) (passes tn groups members s)"
    and "advances tn groups members (fold (pass_alias (map fst groups) members) groups (pass_type groups members s))
      (passes tn groups members s)"
proof -
  show two: "advances tn groups members (fold (pass_alias (map fst groups) members) groups (pass_type groups members s))
      (passes tn groups members s)"
    unfolding passes_def Let_def
    by (intro advances_trans [OF _ pass_path_advances] advances_trans [OF _ pass_lone_advances]
        pass_tool_advances assms)
  show "advances tn groups members (pass_type groups members s) (passes tn groups members s)"
    by (rule advances_trans [OF pass_aliases_advance two]) (use assms in auto)
qed

lemma passes_alias_absent:
  assumes "table_ok tn groups" and "(c, a) \<in> set groups" and "hm_get c (fst (passes tn groups members s)) = None"
    and "(k, v) \<in> set members"
  shows "k \<in> set (snd (passes tn groups members s)) \<or> k \<in> fst ` set groups \<or> norm_key k \<notin> set (norm_list a)"
  using pass_alias_absent [OF assms(1,2) subset_refl assms(4) advances_keep [OF passes_later(2) [OF assms(1)] assms(3)]]
    advances_consumed [OF passes_later(2) [OF assms(1)]] by blast

lemma unknown_members_rest: "unknown_members groups con (rest_of groups m) = unknown_members groups con m"
  using known_key by (fastforce simp: unknown_members_def rest_of_def intro: filter_cong)

lemma rekey_members:
  "(k, v) \<in> set (rekey tn groups m) \<longleftrightarrow>
     (let s = passes tn groups (sort_key fst m) (m, []) in (k, v) \<in> set (fst s) \<and>
      k \<notin> set (snd s) \<and> (k \<in> fst ` set groups \<or> norm_key k \<notin> set (drop_norms tn groups (fst s))))"
  by (auto simp: rekey_def drop_moved_def hm_retain_def Let_def)

lemma member_get: "(k, v) \<in> set m \<Longrightarrow> hm_get k m \<noteq> None"
  using image_eqI [of k fst "(k, v)" "set m"] by (auto simp: hm_get_def map_of_eq_None_iff)

lemma rest_of_member: "(k, v) \<in> set (rest_of groups m) \<longleftrightarrow> (k, v) \<in> set m \<and> k \<notin> fst ` set groups - {''mode''}"
  by (auto simp: rest_of_def)

lemma rekey_quiet:
  assumes ok: "table_ok tn groups"
  shows "quiet tn groups (rekey tn groups m)"
proof -
  define M where "M = sort_key fst m"
  define s where "s = passes tn groups M (m, [])"
  let ?p = "primary_key groups"
  let ?F = "rekey tn groups m"
  have M [simp]: "set M = set m" by (simp add: M_def)
  have adv: "advances tn groups m (m, []) s" unfolding s_def M_def by (rule rekey_advances [OF ok])
  have con: "k \<in> set (snd s) \<Longrightarrow> k \<in> fst ` set groups \<Longrightarrow> k = ''mode''" for k
    using adv by (auto simp: advances_def movable_def)
  have get: "hm_get k ?F = (if k \<notin> set (snd s) \<and> (k \<in> fst ` set groups \<or> norm_key k \<notin> set (drop_norms tn groups (fst s)))
      then hm_get k (fst s) else None)" for k
    by (simp add: rekey_get s_def M_def Let_def)
  have mem: "(k, v) \<in> set ?F \<longleftrightarrow> (k, v) \<in> set (fst s) \<and> k \<notin> set (snd s) \<and>
      (k \<in> fst ` set groups \<or> norm_key k \<notin> set (drop_norms tn groups (fst s)))" for k v
    by (simp add: rekey_members s_def M_def Let_def)
  have rest: "rest_of groups (fst s) = rest_of groups m" using adv by (simp add: advances_def)
  have old: "(k, v) \<in> set (fst s) \<Longrightarrow> k \<in> fst ` set groups - {''mode''} \<or> (k, v) \<in> set m" for k v
    using rest_of_member [of k v groups "fst s"] rest_of_member [of k v groups m] unfolding rest by argo
  have other: "k \<in> fst ` set groups \<or> (k, v) \<in> set m \<and> k \<notin> set (snd s)" if "(k, v) \<in> set ?F" for k v
    using that [unfolded mem] old [of k v] by auto
  have primary: "hm_get ?p ?F = None \<longleftrightarrow> hm_get ?p (fst s) = None"
    using get [of ?p] con [of ?p] table_ok_primary [OF ok] by auto
  note missing = passes_primary_absent [OF ok, of M "(m, [])", folded s_def]
  have type: "\<forall>(k, v) \<in> set ?F. \<not> (norm_key k \<in> set (type_norms groups) \<and> names_language v)" if "hm_get ''type'' ?F = None"
  proof (cases "''type'' \<in> fst ` set groups")
    case True
    have "''type'' \<notin> set (snd s)"
    proof
      assume "''type'' \<in> set (snd s)"
      from con [OF this True] show False by simp
    qed
    with that get [of "''type''"] True have "hm_get ''type'' (fst s) = None" by simp
    with advances_keep [OF passes_later(1)] have "hm_get ''type'' (fst (pass_type groups M (m, []))) = None"
      using ok unfolding s_def by blast
    from pass_type_absent [OF this] have none: "(k, v) \<in> set m \<Longrightarrow> \<not> (norm_key k \<in> set (type_norms groups) \<and> names_language v)" for k v
      by simp
    have "\<not> (norm_key k \<in> set (type_norms groups) \<and> names_language v)" if kv: "(k, v) \<in> set ?F" for k v
    proof (cases "(k, v) \<in> set m")
      case False
      with old mem kv have "k \<in> fst ` set groups" "k \<noteq> ''mode''" by auto
      then obtain a where "(k, a) \<in> set groups" by auto
      moreover have "k \<noteq> ''type''" using member_get [OF kv] \<open>hm_get ''type'' ?F = None\<close> by auto
      ultimately show ?thesis using table_ok_member(4) [OF ok] \<open>k \<noteq> ''mode''\<close> by blast
    qed (use none in blast)
    then show ?thesis by blast
  next
    case False
    then have "map_of groups ''type'' = None" by (simp add: map_of_eq_None_iff)
    then show ?thesis by (simp add: type_norms_def)
  qed
  moreover have "\<forall>(k, v) \<in> set ?F. k \<in> fst ` set groups \<or> norm_key k \<notin> set (norm_list a)"
    if g: "(c, a) \<in> set groups" and none: "hm_get c ?F = None" for c a
  proof (cases "c \<in> set (snd s)")
    case True
    with con [of c] g table_ok_member(3) [OF ok g] have "a = []" by force
    then show ?thesis by (simp add: norm_list_def)
  next
    case False
    moreover from g have "c \<in> fst ` set groups" by force
    ultimately have "hm_get c (fst s) = None" using get [of c] none by simp
    from passes_alias_absent [OF ok g this [unfolded s_def]]
    have "(k, v) \<in> set m \<Longrightarrow> k \<in> set (snd s) \<or> k \<in> fst ` set groups \<or> norm_key k \<notin> set (norm_list a)" for k v
      unfolding s_def M .
    with other show ?thesis by blast
  qed
  moreover have "\<forall>(k, v) \<in> set ?F. norm_key k \<noteq> tn" if "hm_get ?p ?F = None"
  proof -
    from that primary missing(1) have "\<forall>(k, v) \<in> set m. norm_key k = tn \<longrightarrow> k \<in> set (snd s)" by simp
    moreover have "k \<in> fst ` set groups \<Longrightarrow> norm_key k \<noteq> tn" for k using table_ok_member(2) [OF ok] by force
    ultimately show ?thesis using other by blast
  qed
  moreover have "length (unknown_members groups [] ?F) \<noteq> 1" if none: "hm_get ?p ?F = None"
  proof -
    from none primary have drop: "set (drop_norms tn groups (fst s)) \<subseteq> set (known_keys groups)"
      using known_key by (fastforce simp: drop_norms_def split: if_splits)
    have "unknown_members groups [] ?F = unknown_members groups (snd s) (fst s)"
      using drop unfolding rekey_def drop_moved_def hm_retain_def unknown_members_def filter_filter M_def [symmetric] s_def [symmetric]
      by (intro filter_cong) auto
    also have "\<dots> = unknown_members groups (snd s) m" using rest unknown_members_rest by metis
    finally show ?thesis using missing(2) none primary unknown_members_sorted unfolding M_def by metis
  qed
  moreover have "hm_get (other_path ?p) ?F = None" if "hm_get ?p ?F = None" "?p \<in> {''path'', ''file_path''}"
    using missing(3) primary that get [of "other_path ?p"] by simp
  moreover have "\<forall>(k, v) \<in> set ?F. k \<in> fst ` set groups \<or> norm_key k \<notin> set (drop_norms tn groups ?F)"
  proof -
    have "hm_get c ?F \<noteq> None \<Longrightarrow> hm_get c (fst s) \<noteq> None" for c using get [of c] by (auto split: if_splits)
    then have "set (drop_norms tn groups ?F) \<subseteq> set (drop_norms tn groups (fst s))"
      by (auto simp: drop_norms_def split: if_splits)
    moreover have "k \<in> fst ` set groups \<or> norm_key k \<notin> set (drop_norms tn groups (fst s))" if "(k, v) \<in> set ?F" for k v
      using that [unfolded mem] by blast
    ultimately show ?thesis by blast
  qed
  ultimately show ?thesis unfolding quiet_def by blast
qed

lemma rekey_idempotent: "table_ok tn groups \<Longrightarrow> rekey tn groups (rekey tn groups m) = rekey tn groups m"
  by (rule quiet_rekey [OF rekey_quiet])

definition tool_groups :: "string \<Rightarrow> arg_group list" where
  "tool_groups tool = (case groups_for tool of None \<Rightarrow> [] | Some groups \<Rightarrow> groups)"

text \<open>
  What may become of an object: every value is one of the old ones, and every new name a canonical
  one; a canonical argument keeps its value, but for \<open>mode\<close>, which may name a language; a name that
  is neither an alias nor the tool's keeps a value that is no text; a corrupted call is left alone.
\<close>

definition only_moved :: "string \<Rightarrow> (string, json) hash_map \<Rightarrow> (string, json) hash_map \<Rightarrow> bool" where
  "only_moved tool m m' \<longleftrightarrow>
     (\<forall>k v. hm_get k m' = Some v \<longrightarrow> v \<in> snd ` set m \<and> (hm_get k m = None \<longrightarrow> k \<in> fst ` set (tool_groups tool))) \<and>
     (\<forall>c \<in> fst ` set (tool_groups tool) - {''mode''}. hm_get c m \<noteq> None \<longrightarrow> hm_get c m' = hm_get c m) \<and>
     (\<forall>k. norm_key k \<notin> set (known_keys (tool_groups tool)) \<union> {norm_key tool} \<longrightarrow>
        (\<forall>u. (k, u) \<in> set m \<longrightarrow> as_str u = None) \<longrightarrow> hm_get k m' = hm_get k m) \<and>
     (hm_get CORRUPT_CALL_KEY m \<noteq> None \<longrightarrow> m' = m)"

lemma only_moved_refl: "only_moved tool m m"
  by (force simp: only_moved_def dest: hm_get_in)

lemma only_moved_rekey:
  assumes "groups_for tool = Some groups" and "hm_get CORRUPT_CALL_KEY m = None"
  shows "only_moved tool m (rekey (norm_key tool) groups m)"
proof -
  have g: "tool_groups tool = groups" using assms(1) by (simp add: tool_groups_def)
  note c = rekey_contract [OF groups_for_ok [OF assms(1)], of _ m]
  have "hm_get c (rekey (norm_key tool) groups m) = hm_get c m"
    if "c \<in> fst ` set groups - {''mode''}" "hm_get c m \<noteq> None" for c
    using that c(1) [of c] by (cases "hm_get c m") auto
  then show ?thesis unfolding only_moved_def g using c(2,3) assms(2) by blast
qed

text \<open>
  C7: putting the arguments of a call in order does no harm.  Doing it a second time, as the
  dispatch does after the stream has done it, changes nothing; and the first time values are only
  moved onto canonical names, never invented and never written over an argument that was right.
\<close>
theorem arguments_are_only_moved:
  "canonicalize_tool_args tool (canonicalize_tool_args tool args) = canonicalize_tool_args tool args
   \<and> (case args of
        JObj m \<Rightarrow> (\<exists>m'. canonicalize_tool_args tool args = JObj m' \<and> only_moved tool m m')
      | _ \<Rightarrow> canonicalize_tool_args tool args = args)"
proof (cases args)
  case (JObj m)
  show ?thesis
  proof (cases "hm_get CORRUPT_CALL_KEY m = None \<and> groups_for tool \<noteq> None")
    case False
    then have "canonicalize_tool_args tool (JObj m) = JObj m" by (auto simp: canonicalize_tool_args_def split: option.split)
    then show ?thesis using JObj only_moved_refl by simp
  next
    case True
    then obtain groups where g: "groups_for tool = Some groups" by auto
    note ok = groups_for_ok [OF g]
    have "CORRUPT_CALL_KEY \<notin> fst ` set groups" using table_ok_member(1) [OF ok] by force
    with True rekey_contract(2) [OF ok, of CORRUPT_CALL_KEY m] have "hm_get CORRUPT_CALL_KEY (rekey (norm_key tool) groups m) = None"
      by (cases "hm_get CORRUPT_CALL_KEY (rekey (norm_key tool) groups m)") auto
    then show ?thesis using g True JObj rekey_idempotent [OF ok] only_moved_rekey [OF g]
      by (simp add: canonicalize_tool_args_def)
  qed
qed (simp_all add: canonicalize_tool_args_def)

subsection \<open>What re-keying gets wrong\<close>

text \<open>Two normal forms with different first letters differ; the few others the examples compare.\<close>

lemma norm_key_neq:
  "ascii_alnum c \<Longrightarrow> ascii_lower c = c \<Longrightarrow> c \<noteq> d \<Longrightarrow> (norm_key (c # cs) = d # ds) = False"
  "ascii_alnum c \<Longrightarrow> ascii_lower c = c \<Longrightarrow> c \<noteq> d \<Longrightarrow> (d # ds = norm_key (c # cs)) = False"
  by (auto simp: norm_key_def)

lemma some_norms:
  "norm_key ''log'' = ''log''" "norm_key ''write'' = ''write''" "norm_key ''cmd'' = ''cmd''" "norm_key ''Cmd'' = ''cmd''"
  "norm_key ''Code'' = ''code''" "norm_key ''code_run'' = ''coderun''" "norm_key ''command'' = ''command''"
  "norm_key ''commandline'' = ''commandline''" "norm_key ''coderun'' = ''coderun''"
  "norm_key ''lang'' = ''lang''" "norm_key ''language'' = ''language''" "norm_key ''interpreter'' = ''interpreter''"
  "norm_key ''kind'' = ''kind''" "norm_key ''runtime'' = ''runtime''" "norm_key ''codelang'' = ''codelang''"
  by code_simp+

lemma char_kinds:
  "list_all (\<lambda>c. ascii_alnum c \<and> ascii_lower c = c) ''abcdefghijklmnopqrstuvwxyz''"
  by code_simp

lemmas pass_eval = pass_type_def pass_alias_def alias_hit_def pass_tool_def absent_def move_to_def norm_list_def hm_get_def
  norm_key_neq some_norms canonical_norms

text \<open>A lone unknown text becomes the path: a \<open>write\<close> that names no file writes to the file its note names.\<close>

lemma note_becomes_the_path:
  "canonicalize_tool_args ''write'' (JObj [(''content'', JStr c), (''log'', JStr ''done'')]) =
     JObj [(''content'', JStr c), (''file_path'', JStr ''done'')]"
proof -
  let ?M = "[(''content'', JStr c), (''log'', JStr ''done'')]"
  let ?N = "[(''content'', JStr c), (''log'', JStr ''done''), (''file_path'', JStr ''done'')]"
  note [simp] = char_kinds [unfolded list.pred_inject, simplified]
  have g: "groups_for ''write'' = Some G_WRITE" by (simp add: groups_for_def some_norms)
  have p: "primary_key G_WRITE = ''file_path''" by (simp add: G_WRITE_def FILE_def primary_key_def)
  have "pass_type G_WRITE ?M (?M, []) = (?M, [])" by (simp add: pass_eval G_WRITE_def FILE_def CONTENT_def)
  moreover have "pass_alias [''file_path'', ''content''] ?M FILE (?M, []) = (?M, [])" by (simp add: pass_eval FILE_def)
  moreover have "pass_alias [''file_path'', ''content''] ?M CONTENT (?M, []) = (?M, [])" by (simp add: pass_eval CONTENT_def)
  moreover have "map fst G_WRITE = [''file_path'', ''content'']" by (simp add: G_WRITE_def FILE_def CONTENT_def)
  moreover have "pass_tool ''write'' ''file_path'' ?M (?M, []) = (?M, [])" by (simp add: pass_eval)
  moreover have "unknown_members G_WRITE [] ?M = [(''log'', JStr ''done'')]"
    by (simp add: pass_eval unknown_members_def known_keys_def G_WRITE_def FILE_def CONTENT_def)
  moreover from this have "pass_lone G_WRITE ''file_path'' ?M (?M, []) = (?N, [''log''])"
    by (simp add: pass_lone_def absent_def move_to_def hm_get_def hm_insert_def)
  ultimately have "passes ''write'' G_WRITE ?M (?M, []) = (?N, [''log''])"
    unfolding passes_def Let_def p by (simp add: pass_path_def absent_def hm_get_def) (simp add: G_WRITE_def)
  moreover have "sort_key fst ?M = ?M" by simp
  ultimately have "rekey ''write'' G_WRITE ?M = [(''content'', JStr c), (''file_path'', JStr ''done'')]"
    by (simp add: rekey_def drop_moved_def hm_retain_def G_WRITE_def FILE_def CONTENT_def)
  with g show ?thesis by (simp add: canonicalize_tool_args_def hm_get_def CORRUPT_CALL_KEY_def some_norms)
qed

text \<open>A canonical name in other letters is not found.\<close>

lemma capital_is_lost:
  "canonicalize_tool_args ''code_run'' (JObj [(''Code'', JStr c)]) = JObj [(''Code'', JStr c)]"
proof -
  let ?M = "[(''Code'', JStr c)]"
  let ?names = "[''code'', ''type'', ''timeout'', ''mode'']"
  note [simp] = char_kinds [unfolded list.pred_inject, simplified]
  have g: "groups_for ''code_run'' = Some G_CODE_RUN" by (simp add: groups_for_def some_norms)
  have p: "primary_key G_CODE_RUN = ''code''" by (simp add: G_CODE_RUN_def CODE_def primary_key_def)
  have "pass_type G_CODE_RUN ?M (?M, []) = (?M, [])"
    by (simp add: pass_eval G_CODE_RUN_def CODE_def CODE_TYPE_def)
  moreover have "pass_alias ?names ?M CODE (?M, []) = (?M, [])" by (simp add: pass_eval CODE_def)
  moreover have "pass_alias ?names ?M CODE_TYPE (?M, []) = (?M, [])"
    by (simp add: pass_eval CODE_TYPE_def)
  moreover have "pass_alias ?names ?M CODE_TIMEOUT (?M, []) = (?M, [])" by (simp add: pass_eval CODE_TIMEOUT_def)
  moreover have "pass_alias ?names ?M CODE_MODE (?M, []) = (?M, [])" by (simp add: pass_eval CODE_MODE_def)
  moreover have "map fst G_CODE_RUN = ?names"
    by (simp add: G_CODE_RUN_def CODE_def CODE_TYPE_def CODE_TIMEOUT_def CODE_MODE_def)
  moreover have "pass_tool ''coderun'' ''code'' ?M (?M, []) = (?M, [])" by (simp add: pass_eval)
  moreover have "unknown_members G_CODE_RUN [] ?M = []"
    by (simp add: pass_eval unknown_members_def known_keys_def G_CODE_RUN_def CODE_def)
  moreover from this have "pass_lone G_CODE_RUN ''code'' ?M (?M, []) = (?M, [])"
    by (simp add: pass_lone_def move_to_def)
  ultimately have "passes ''coderun'' G_CODE_RUN ?M (?M, []) = (?M, [])"
    unfolding passes_def Let_def p by (simp add: pass_path_def) (simp add: G_CODE_RUN_def)
  moreover have "drop_norms ''coderun'' G_CODE_RUN ?M = []"
    by (simp add: drop_norms_def p hm_get_def) (simp add: G_CODE_RUN_def CODE_def CODE_TYPE_def CODE_TIMEOUT_def CODE_MODE_def)
  ultimately have "rekey ''coderun'' G_CODE_RUN ?M = ?M"
    by (simp add: rekey_def drop_moved_def hm_retain_def)
  with g show ?thesis by (simp add: canonicalize_tool_args_def hm_get_def CORRUPT_CALL_KEY_def some_norms)
qed








end
