(* ===== verification/Sse_Tags.thy ===== *)
theory Sse_Tags
  imports Stream_Events Tool_Args
begin

text \<open>
  The separation of a reply from the reasoning some models wrap into tags of their own,
  \<open>crates/oz-llm/src/stream.rs\<close>: the search for tags, and the loop that sends each piece of a delta
  to the visible or to the reasoning channel.
\<close>

subsection \<open>Tags\<close>

definition INTERNAL_TAGS :: "string list" where
  "INTERNAL_TAGS =
     [''antThinking'', ''think'', ''thinking'', ''reasoning'', ''summary'', ''answer'', ''final'', ''response'', ''output'',
      ''result'', ''reply'', ''conclusion'', ''tool_code'', ''tool_call'', ''respond'']"

definition to_ascii_lowercase :: "string \<Rightarrow> string" where
  "to_ascii_lowercase s = map ascii_lower s"

definition open_needle :: "string \<Rightarrow> string" where
  "open_needle tag = CHR ''<'' # to_ascii_lowercase tag"

definition close_needle :: "string \<Rightarrow> string" where
  "close_needle tag = ''</'' @ to_ascii_lowercase tag @ ''>''"

definition tag_blank :: "char \<Rightarrow> bool" where
  "tag_blank c \<longleftrightarrow> c = CHR '' '' \<or> c = CHR 0x09 \<or> c = CHR 0x0A \<or> c = CHR 0x0D"

text \<open>An opening tag at the beginning of a text: its length, and whether it closes itself.\<close>

definition tag_here :: "string \<Rightarrow> string \<Rightarrow> (nat \<times> bool) option" where
  "tag_here needle s =
     (if prefix needle (to_ascii_lowercase s) \<and> length needle < length s
         \<and> (s ! length needle = CHR ''>'' \<or> s ! length needle = CHR ''/'' \<or> tag_blank (s ! length needle))
      then (case find_str ''>'' (drop (length needle) s) of
          Some r \<Rightarrow> Some (length needle + r + 1, s ! (length needle + r - 1) = CHR ''/'')
        | None \<Rightarrow> None)
      else None)"

fun scan_tag :: "string \<Rightarrow> string \<Rightarrow> (nat \<times> nat \<times> bool) option" where
  "scan_tag needle [] = None"
| "scan_tag needle (c # cs) =
     (case tag_here needle (c # cs) of
        Some (n, selfc) \<Rightarrow> Some (0, n, selfc)
      | None \<Rightarrow> map_option (\<lambda>(start, r). (Suc start, r)) (scan_tag needle cs))"

definition better_tag :: "string \<Rightarrow> string \<Rightarrow> (nat \<times> nat \<times> string \<times> bool) option \<Rightarrow> (nat \<times> nat \<times> string \<times> bool) option" where
  "better_tag s tag best =
     (case scan_tag (open_needle tag) s of
        None \<Rightarrow> best
      | Some (start, n, selfc) \<Rightarrow>
          if (case best of None \<Rightarrow> True | Some (b, _) \<Rightarrow> start < b) then Some (start, n, tag, selfc) else best)"

definition find_next_internal_tag :: "string \<Rightarrow> (nat option \<times> nat \<times> string) option" where
  "find_next_internal_tag s =
     map_option (\<lambda>(start, n, tag, selfc). (if selfc then Some (start + n) else None, start, tag))
       (fold (better_tag s) INTERNAL_TAGS None)"

fun open_tag_len_among :: "string list \<Rightarrow> string \<Rightarrow> nat" where
  "open_tag_len_among [] s = 0"
| "open_tag_len_among (tag # tags) s =
     (if prefix (CHR ''<'' # tag) (to_ascii_lowercase s) \<and> Suc (length tag) < length s
         \<and> (s ! Suc (length tag) = CHR ''>'' \<or> tag_blank (s ! Suc (length tag))) \<and> find_str ''>'' (to_ascii_lowercase s) \<noteq> None
      then the (find_str ''>'' (to_ascii_lowercase s)) + 1
      else open_tag_len_among tags s)"

definition find_open_tag_len :: "string \<Rightarrow> nat" where
  "find_open_tag_len s = open_tag_len_among INTERNAL_TAGS s"

definition find_close_tag :: "string \<Rightarrow> string \<Rightarrow> nat option" where
  "find_close_tag s tag = map_option (\<lambda>p. p + length (close_needle tag)) (find_str (close_needle tag) (to_ascii_lowercase s))"

text \<open>The position is where the closing tag begins, not where it ends.\<close>

definition better_close :: "string \<Rightarrow> string \<Rightarrow> (nat \<times> string) option \<Rightarrow> (nat \<times> string) option" where
  "better_close s tag best =
     (case find_str (close_needle tag) (to_ascii_lowercase s) of
        None \<Rightarrow> best
      | Some p \<Rightarrow> if (case best of None \<Rightarrow> True | Some (b, _) \<Rightarrow> p < b) then Some (p, tag) else best)"

definition find_any_close_tag :: "string \<Rightarrow> (nat \<times> string) option" where
  "find_any_close_tag s = fold (better_close s) INTERNAL_TAGS None"

subsection \<open>The two channels\<close>

record sse_text =
  sx_text :: string
  sx_thinking :: string
  sx_in_tag :: bool
  sx_text_id :: "string option"
  sx_reasoning_id :: "string option"
  sx_events :: "stream_event list"
  sx_next :: nat

definition emit_event :: "stream_event \<Rightarrow> 'a sse_text_scheme \<Rightarrow> 'a sse_text_scheme" where
  "emit_event ev s = s\<lparr>sx_events := sx_events s @ [ev]\<rparr>"

definition next_block_id :: "string \<Rightarrow> 'a sse_text_scheme \<Rightarrow> string" where
  "next_block_id pre s = pre @ nat_text (sx_next s)"

definition bump :: "'a sse_text_scheme \<Rightarrow> 'a sse_text_scheme" where
  "bump s = s\<lparr>sx_next := Suc (sx_next s)\<rparr>"

definition show_text :: "string \<Rightarrow> 'a sse_text_scheme \<Rightarrow> 'a sse_text_scheme" where
  "show_text t s =
     (let s1 = s\<lparr>sx_text := sx_text s @ t\<rparr> in
      case sx_text_id s1 of
        Some i \<Rightarrow> emit_event (TextDelta i t) s1
      | None \<Rightarrow>
          (let i = next_block_id ''t'' s1 in
           emit_event (TextDelta i t) (emit_event (TextStart i) ((bump s1)\<lparr>sx_text_id := Some i\<rparr>))))"

definition end_text :: "'a sse_text_scheme \<Rightarrow> 'a sse_text_scheme" where
  "end_text s = (case sx_text_id s of Some i \<Rightarrow> emit_event (TextEnd i) (s\<lparr>sx_text_id := None\<rparr>) | None \<Rightarrow> s)"

definition open_reasoning :: "'a sse_text_scheme \<Rightarrow> 'a sse_text_scheme" where
  "open_reasoning s =
     (if sx_reasoning_id s = None
      then (let i = next_block_id ''r'' s in emit_event (ReasoningStart i) ((bump s)\<lparr>sx_reasoning_id := Some i\<rparr>))
      else s)"

definition show_thinking :: "string \<Rightarrow> 'a sse_text_scheme \<Rightarrow> 'a sse_text_scheme" where
  "show_thinking t s =
     (let s1 = s\<lparr>sx_thinking := sx_thinking s @ t\<rparr> in
      case sx_reasoning_id s1 of Some i \<Rightarrow> emit_event (ReasoningDelta i t) s1 | None \<Rightarrow> s1)"

definition end_reasoning :: "'a sse_text_scheme \<Rightarrow> 'a sse_text_scheme" where
  "end_reasoning s = (case sx_reasoning_id s of Some i \<Rightarrow> emit_event (ReasoningEnd i) (s\<lparr>sx_reasoning_id := None\<rparr>) | None \<Rightarrow> s)"

lemmas channel_defs = emit_event_def bump_def next_block_id_def show_text_def end_text_def open_reasoning_def show_thinking_def end_reasoning_def

lemma channels_keep_place [simp]:
  "sx_in_tag (emit_event ev s) = sx_in_tag s" "sx_in_tag (show_text t s) = sx_in_tag s" "sx_in_tag (end_text s) = sx_in_tag s"
  "sx_in_tag (open_reasoning s) = sx_in_tag s" "sx_in_tag (show_thinking t s) = sx_in_tag s"
  "sx_in_tag (end_reasoning s) = sx_in_tag s"
  by (simp_all add: channel_defs Let_def split: option.split)

subsection \<open>What the search finds\<close>

lemma ascii_lower_low:
  assumes "(of_char d :: nat) < 65"
  shows "ascii_lower c = d \<longleftrightarrow> c = d"
proof (cases "65 \<le> (of_char c :: nat) \<and> (of_char c :: nat) \<le> 90")
  case True
  then have "(of_char (ascii_lower c) :: nat) = of_char c + 32" by (simp add: ascii_lower_def Let_def)
  with True assms show ?thesis by auto
qed (auto simp: ascii_lower_def Let_def)

lemma lower_low [simp]:
  "ascii_lower c = CHR ''/'' \<longleftrightarrow> c = CHR ''/''" "ascii_lower c = CHR ''<'' \<longleftrightarrow> c = CHR ''<''"
  "ascii_lower c = CHR ''>'' \<longleftrightarrow> c = CHR ''>''"
  "CHR ''/'' = ascii_lower c \<longleftrightarrow> c = CHR ''/''" "CHR ''<'' = ascii_lower c \<longleftrightarrow> c = CHR ''<''"
  "CHR ''>'' = ascii_lower c \<longleftrightarrow> c = CHR ''>''"
  using ascii_lower_low [of "CHR ''/''" c] ascii_lower_low [of "CHR ''<''" c] ascii_lower_low [of "CHR ''>''" c] by auto

lemma lower_consts [simp]:
  "ascii_lower CHR ''/'' = CHR ''/''" "ascii_lower CHR ''<'' = CHR ''<''" "ascii_lower CHR ''>'' = CHR ''>''"
  by simp_all

lemma scan_tag_here:
  "scan_tag needle s = Some (start, r) \<Longrightarrow> tag_here needle (drop start s) = Some r \<and> start < length s"
proof (induction needle s arbitrary: start rule: scan_tag.induct)
  case (2 needle c cs)
  show ?case
  proof (cases "tag_here needle (c # cs)")
    case None
    with 2 show ?thesis by (cases start) (auto split: option.splits)
  qed (use 2(2) in \<open>auto split: prod.splits\<close>)
qed simp

lemma tag_here_len:
  "tag_here needle s = Some (n, selfc) \<Longrightarrow> prefix needle (to_ascii_lowercase s) \<and> length needle < n \<and> n \<le> length s"
  by (auto simp: tag_here_def split: if_splits option.splits dest: find_str_prefix)

definition tag_found :: "string \<Rightarrow> (nat \<times> nat \<times> string \<times> bool) option \<Rightarrow> bool" where
  "tag_found s best \<longleftrightarrow> (case best of None \<Rightarrow> True | Some (start, n, tag, selfc) \<Rightarrow>
     start < length s \<and> tag \<in> set INTERNAL_TAGS \<and> tag_here (open_needle tag) (drop start s) = Some (n, selfc))"

lemma fold_tag_found: "set tags \<subseteq> set INTERNAL_TAGS \<Longrightarrow> tag_found s best \<Longrightarrow> tag_found s (fold (better_tag s) tags best)"
proof (induction tags arbitrary: best)
  case (Cons tag tags)
  have "tag_found s (better_tag s tag best)"
    using Cons.prems scan_tag_here [of "open_needle tag" s]
    by (auto simp: better_tag_def tag_found_def split: option.split prod.split)
  with Cons show ?case by simp
qed simp

lemma next_tag_found:
  assumes "find_next_internal_tag s = Some (e, start, tag)"
  shows "start < length s" and "tag \<in> set INTERNAL_TAGS" and "prefix (open_needle tag) (to_ascii_lowercase (drop start s))"
    and "e = Some k \<Longrightarrow> start < k \<and> k \<le> length s"
proof -
  obtain n selfc where f: "fold (better_tag s) INTERNAL_TAGS None = Some (start, n, tag, selfc)"
    and e: "e = (if selfc then Some (start + n) else None)"
    using assms by (auto simp: find_next_internal_tag_def)
  from fold_tag_found [of INTERNAL_TAGS s None] f
  have h: "start < length s" "tag \<in> set INTERNAL_TAGS" "tag_here (open_needle tag) (drop start s) = Some (n, selfc)"
    by (auto simp: tag_found_def)
  from tag_here_len [OF h(3)] show "start < length s" "tag \<in> set INTERNAL_TAGS"
    "prefix (open_needle tag) (to_ascii_lowercase (drop start s))" using h by auto
  show "e = Some k \<Longrightarrow> start < k \<and> k \<le> length s" using e tag_here_len [OF h(3)] by (auto split: if_splits)
qed

definition close_found :: "string \<Rightarrow> (nat \<times> string) option \<Rightarrow> bool" where
  "close_found s best \<longleftrightarrow> (case best of None \<Rightarrow> True | Some (p, tag) \<Rightarrow>
     tag \<in> set INTERNAL_TAGS \<and> find_str (close_needle tag) (to_ascii_lowercase s) = Some p)"

lemma fold_close_found: "set tags \<subseteq> set INTERNAL_TAGS \<Longrightarrow> close_found s best \<Longrightarrow> close_found s (fold (better_close s) tags best)"
proof (induction tags arbitrary: best)
  case (Cons tag tags)
  have "close_found s (better_close s tag best)"
    using Cons.prems by (auto simp: better_close_def close_found_def split: option.split)
  with Cons show ?case by simp
qed simp

lemma close_needle_prefix: "prefix (close_needle tag) (to_ascii_lowercase s) \<Longrightarrow> prefix ''</'' s"
  by (cases s; cases "tl s") (auto simp: close_needle_def to_ascii_lowercase_def)

lemma any_close_found:
  assumes "find_any_close_tag s = Some (p, tag)"
  shows "prefix ''</'' (drop p s)"
proof -
  from fold_close_found [of INTERNAL_TAGS s None] assms have "find_str (close_needle tag) (to_ascii_lowercase s) = Some p"
    by (simp add: find_any_close_tag_def close_found_def)
  from find_str_prefix [OF this] show ?thesis
    by (intro close_needle_prefix [of tag]) (simp add: to_ascii_lowercase_def drop_map)
qed

subsection \<open>The loop over a delta\<close>

definition where_closed :: "string \<Rightarrow> string \<Rightarrow> nat option" where
  "where_closed rest tag =
     (case find_close_tag rest tag of Some e \<Rightarrow> Some e | None \<Rightarrow> map_option fst (find_any_close_tag rest))"

definition think_before :: "nat \<Rightarrow> string \<Rightarrow> 'a sse_text_scheme \<Rightarrow> 'a sse_text_scheme" where
  "think_before e rest s = (if take e rest = [] then s else show_thinking (take e rest) s)\<lparr>sx_in_tag := False\<rparr>"

definition text_before :: "nat \<Rightarrow> string \<Rightarrow> 'a sse_text_scheme \<Rightarrow> 'a sse_text_scheme" where
  "text_before start rest s = (if take start rest = [] then s else show_text (take start rest) s)"

definition enter_tag :: "nat \<Rightarrow> string \<Rightarrow> 'a sse_text_scheme \<Rightarrow> 'a sse_text_scheme" where
  "enter_tag start rest s = open_reasoning ((end_text (text_before start rest s))\<lparr>sx_in_tag := True\<rparr>)"

text \<open>
  Each turn of the loop makes the rest shorter, or leaves it and changes the channel; it changes to
  the visible channel in front of a closing tag and to the other in front of an opening one, so it
  never does the two in turn.
\<close>

definition split_weight :: "string \<Rightarrow> bool \<Rightarrow> nat" where
  "split_weight rest in_tag = 2 * length rest + (if in_tag = prefix ''</'' rest then 1 else 0)"

lemma weight_shorter: "length rest' < length rest \<Longrightarrow> split_weight rest' b < split_weight rest c"
  by (simp add: split_weight_def)

lemma tags_are_words: "tag \<in> set INTERNAL_TAGS \<Longrightarrow> tag \<noteq> [] \<and> ascii_lower (hd tag) \<noteq> CHR ''/''"
  by (auto simp: INTERNAL_TAGS_def)

lemma weight_enter:
  assumes "find_next_internal_tag rest = Some (None, start, tag)" and "rest \<noteq> []"
  shows "split_weight (drop (start + n) rest) True < split_weight rest False"
proof (cases "start + n = 0")
  case True
  with next_tag_found(2,3) [OF assms(1)] have t: "tag \<in> set INTERNAL_TAGS" "prefix (open_needle tag) (to_ascii_lowercase rest)"
    by simp_all
  have "\<not> prefix ''</'' rest"
    using t(2) tags_are_words [OF t(1)]
    by (cases tag; cases rest; cases "tl rest") (auto simp: open_needle_def to_ascii_lowercase_def)
  with True show ?thesis by (simp add: split_weight_def)
qed (use assms in \<open>auto intro!: weight_shorter\<close>)

lemma weight_leave:
  assumes "where_closed rest tag = Some e" and "rest \<noteq> []"
  shows "split_weight (drop e rest) False < split_weight rest True"
proof (cases "e = 0")
  case True
  then have "find_close_tag rest tag = None"
    using assms(1) by (auto simp: where_closed_def find_close_tag_def close_needle_def split: option.splits)
  with assms(1) True obtain tag' where "find_any_close_tag rest = Some (0, tag')" by (auto simp: where_closed_def)
  from any_close_found [OF this] True show ?thesis by (simp add: split_weight_def)
qed (use assms in \<open>auto intro!: weight_shorter\<close>)

lemma weight_leave_any:
  assumes "find_any_close_tag rest = Some (e, tag)" and "rest \<noteq> []"
  shows "split_weight (drop e rest) False < split_weight rest True"
proof (cases "e = 0")
  case True
  with any_close_found [OF assms(1)] show ?thesis by (simp add: split_weight_def)
qed (use assms in \<open>auto intro!: weight_shorter\<close>)

lemma weight_skip:
  assumes "find_next_internal_tag rest = Some (Some e, start, tag)" and "rest \<noteq> []"
  shows "split_weight (drop e rest) False < split_weight rest False"
  using next_tag_found(4) [OF assms(1), of e] assms(2) by (auto intro!: weight_shorter)

lemma entered [simp]: "sx_in_tag (enter_tag start rest s)" "\<not> sx_in_tag (think_before e rest s)"
  by (simp_all add: enter_tag_def think_before_def)

function split_content :: "string \<Rightarrow> 'a sse_text_scheme \<Rightarrow> 'a sse_text_scheme" where
  "split_content rest s =
     (if rest = [] then s
      else if \<not> sx_in_tag s then
        (case find_next_internal_tag rest of
           Some (Some e, start, _) \<Rightarrow> split_content (drop e rest) ((text_before start rest s)\<lparr>sx_in_tag := False\<rparr>)
         | Some (None, start, _) \<Rightarrow>
             split_content (drop (start + find_open_tag_len (drop start rest)) rest) (enter_tag start rest s)
         | None \<Rightarrow> show_text rest s)
      else
        (case find_next_internal_tag rest of
           Some (_, _, tag) \<Rightarrow>
             (case where_closed rest tag of
                Some e \<Rightarrow> split_content (drop e rest) (think_before e rest s)
              | None \<Rightarrow> show_thinking rest s)
         | None \<Rightarrow>
             (case find_any_close_tag rest of
                Some (e, _) \<Rightarrow> split_content (drop e rest) (think_before e rest s)
              | None \<Rightarrow> show_thinking rest s)))"
  by pat_completeness auto
termination
  by (relation "measure (\<lambda>(rest, s). split_weight rest (sx_in_tag s))")
    (auto intro: weight_enter weight_leave weight_leave_any weight_skip)

declare split_content.simps [simp del]

subsection \<open>What a client sees\<close>

text \<open>
  A client keeps the visible text, the reasoning and the calls that are complete; a piece belongs to the block that is open, and
  a new block has an identifier of its own.  \<open>None\<close> is an event that fits no block.
\<close>

record ui =
  ui_text :: string
  ui_thinking :: string
  ui_text_block :: "string option"
  ui_reasoning_block :: "string option"
  ui_calls :: "(string \<times> string \<times> string) list"
  ui_seen :: "string set"

fun ui_step :: "stream_event \<Rightarrow> ui \<Rightarrow> ui option" where
  "ui_step (TextStart i) u =
     (if ui_text_block u = None \<and> i \<notin> ui_seen u then Some (u\<lparr>ui_text_block := Some i, ui_seen := insert i (ui_seen u)\<rparr>) else None)"
| "ui_step (TextDelta i t) u = (if ui_text_block u = Some i then Some (u\<lparr>ui_text := ui_text u @ t\<rparr>) else None)"
| "ui_step (TextEnd i) u = (if ui_text_block u = Some i then Some (u\<lparr>ui_text_block := None\<rparr>) else None)"
| "ui_step (ReasoningStart i) u =
     (if ui_reasoning_block u = None \<and> i \<notin> ui_seen u
      then Some (u\<lparr>ui_reasoning_block := Some i, ui_seen := insert i (ui_seen u)\<rparr>) else None)"
| "ui_step (ReasoningDelta i t) u =
     (if ui_reasoning_block u = Some i then Some (u\<lparr>ui_thinking := ui_thinking u @ t\<rparr>) else None)"
| "ui_step (ReasoningEnd i) u = (if ui_reasoning_block u = Some i then Some (u\<lparr>ui_reasoning_block := None\<rparr>) else None)"
| "ui_step (ToolInputAvailable i name args) u = Some (u\<lparr>ui_calls := ui_calls u @ [(i, name, args)]\<rparr>)"
| "ui_step _ u = Some u"

fun ui_run :: "stream_event list \<Rightarrow> ui \<Rightarrow> ui option" where
  "ui_run [] u = Some u"
| "ui_run (e # es) u = Option.bind (ui_step e u) (ui_run es)"

lemma ui_run_append: "ui_run (es @ fs) u = Option.bind (ui_run es u) (ui_run fs)"
proof (induction es arbitrary: u)
  case (Cons e es)
  then show ?case by (cases "ui_step e u") simp_all
qed simp

definition ui_new :: ui where
  "ui_new = \<lparr>ui_text = [], ui_thinking = [], ui_text_block = None, ui_reasoning_block = None, ui_calls = [], ui_seen = {}\<rparr>"

text \<open>The client's view agrees with the state of the parser.\<close>

definition in_step :: "(string \<times> string \<times> string) list \<Rightarrow> 'a sse_text_scheme \<Rightarrow> bool" where
  "in_step cs s \<longleftrightarrow> (sx_in_tag s \<longrightarrow> sx_reasoning_id s \<noteq> None) \<and>
     (\<exists>seen. ui_run (sx_events s) ui_new =
        Some \<lparr>ui_text = sx_text s, ui_thinking = sx_thinking s, ui_text_block = sx_text_id s,
              ui_reasoning_block = sx_reasoning_id s, ui_calls = cs, ui_seen = seen\<rparr>
      \<and> seen \<subseteq> {pre @ nat_text n |pre n. pre \<in> {''t'', ''r''} \<and> n < sx_next s})"

lemma in_stepI:
  assumes "ui_run (sx_events s) ui_new = Some \<lparr>ui_text = sx_text s, ui_thinking = sx_thinking s,
        ui_text_block = sx_text_id s, ui_reasoning_block = sx_reasoning_id s, ui_calls = cs, ui_seen = seen\<rparr>"
    and "seen \<subseteq> {pre @ nat_text n |pre n. pre \<in> {''t'', ''r''} \<and> n < sx_next s}"
    and "sx_in_tag s \<Longrightarrow> sx_reasoning_id s \<noteq> None"
  shows "in_step cs s"
  using assms unfolding in_step_def by blast

lemma next_id_new:
  assumes "seen \<subseteq> {pre @ nat_text n |pre n. pre \<in> {''t'', ''r''} \<and> n < k}" and "pre \<in> {''t'', ''r''}"
  shows "pre @ nat_text k \<notin> seen"
    and "insert (pre @ nat_text k) seen \<subseteq> {pre @ nat_text n |pre n. pre \<in> {''t'', ''r''} \<and> n < Suc k}"
  using assms by (auto 0 3 simp: less_Suc_eq)

lemma in_stepE:
  assumes "in_step cs s"
  obtains seen where "ui_run (sx_events s) ui_new = Some \<lparr>ui_text = sx_text s, ui_thinking = sx_thinking s,
        ui_text_block = sx_text_id s, ui_reasoning_block = sx_reasoning_id s, ui_calls = cs, ui_seen = seen\<rparr>"
    and "seen \<subseteq> {pre @ nat_text n |pre n. pre \<in> {''t'', ''r''} \<and> n < sx_next s}"
    and "sx_in_tag s \<Longrightarrow> sx_reasoning_id s \<noteq> None"
  using assms unfolding in_step_def by blast

lemma show_text_in_step:
  assumes "in_step cs s"
  shows "in_step cs (show_text t s)"
  using assms
proof (rule in_stepE)
  fix seen
  assume run: "ui_run (sx_events s) ui_new = Some \<lparr>ui_text = sx_text s, ui_thinking = sx_thinking s,
        ui_text_block = sx_text_id s, ui_reasoning_block = sx_reasoning_id s, ui_calls = cs, ui_seen = seen\<rparr>"
    and seen: "seen \<subseteq> {pre @ nat_text n |pre n. pre \<in> {''t'', ''r''} \<and> n < sx_next s}"
    and tag: "sx_in_tag s \<Longrightarrow> sx_reasoning_id s \<noteq> None"
  show ?thesis
  proof (cases "sx_text_id s")
    case None
    show ?thesis
      by (rule in_stepI [where seen = "insert (''t'' @ nat_text (sx_next s)) seen"])
        (use None tag next_id_new [OF seen, of "''t''"] run in \<open>simp_all add: show_text_def emit_event_def bump_def next_block_id_def Let_def ui_run_append\<close>)
  next
    case (Some i)
    show ?thesis
      by (rule in_stepI [where seen = seen])
        (use Some tag seen run in \<open>simp_all add: show_text_def emit_event_def Let_def ui_run_append\<close>)
  qed
qed

lemma open_reasoning_open [simp]: "\<exists>i. sx_reasoning_id (open_reasoning s) = Some i"
  by (auto simp: open_reasoning_def emit_event_def bump_def Let_def)

lemma open_reasoning_in_step:
  assumes "in_step cs (s\<lparr>sx_in_tag := False\<rparr>)"
  shows "in_step cs (open_reasoning s)"
proof -
  show ?thesis
    using assms
  proof (rule in_stepE, simp_all)
    fix seen
    assume run: "ui_run (sx_events s) ui_new = Some \<lparr>ui_text = sx_text s, ui_thinking = sx_thinking s,
          ui_text_block = sx_text_id s, ui_reasoning_block = sx_reasoning_id s, ui_calls = cs, ui_seen = seen\<rparr>"
      and seen: "seen \<subseteq> {pre @ nat_text n |pre n. (pre = ''t'' \<or> pre = ''r'') \<and> n < sx_next s}"
    show ?thesis
    proof (cases "sx_reasoning_id s")
      case None
      show ?thesis
        by (rule in_stepI [where seen = "insert (''r'' @ nat_text (sx_next s)) seen"])
          (use None next_id_new [of seen "sx_next s" "''r''"] seen run in
            \<open>simp_all add: open_reasoning_def emit_event_def bump_def next_block_id_def Let_def ui_run_append\<close>)
    next
      case (Some i)
      show ?thesis
        by (rule in_stepI [where seen = seen]) (use Some seen run in \<open>simp_all add: open_reasoning_def\<close>)
    qed
  qed
qed

lemma end_text_in_step: "in_step cs s \<Longrightarrow> in_step cs (end_text s)"
  by (erule in_stepE, rule in_stepI, auto simp: end_text_def emit_event_def ui_run_append split: option.split)

lemma show_thinking_in_step: "in_step cs s \<Longrightarrow> sx_reasoning_id s \<noteq> None \<Longrightarrow> in_step cs (show_thinking t s)"
  by (erule in_stepE, rule in_stepI, auto simp: show_thinking_def emit_event_def ui_run_append Let_def split: option.split)

lemma end_reasoning_in_step: "in_step cs s \<Longrightarrow> in_step cs ((end_reasoning s)\<lparr>sx_in_tag := False\<rparr>)"
  by (erule in_stepE, rule in_stepI, auto simp: end_reasoning_def emit_event_def ui_run_append split: option.split)

lemma leave_tag_in_step: "in_step cs s \<Longrightarrow> in_step cs (s\<lparr>sx_in_tag := False\<rparr>)"
  by (erule in_stepE, rule in_stepI) simp_all

lemma think_before_in_step: "in_step cs s \<Longrightarrow> sx_in_tag s \<Longrightarrow> in_step cs (think_before e rest s)"
  by (auto simp: think_before_def intro!: leave_tag_in_step show_thinking_in_step elim: in_stepE)

lemma text_before_in_step: "in_step cs s \<Longrightarrow> in_step cs (text_before start rest s)"
  by (simp add: text_before_def show_text_in_step)

lemma enter_tag_in_step: "in_step cs s \<Longrightarrow> in_step cs (enter_tag start rest s)"
  unfolding enter_tag_def
  by (rule open_reasoning_in_step) (simp add: leave_tag_in_step end_text_in_step text_before_in_step)

lemma split_content_in_step: "in_step cs s \<Longrightarrow> in_step cs (split_content rest s)"
proof (induction rest s rule: split_content.induct)
  case (1 rest s)
  note IH = "1.IH" and start = "1.prems"
  have reasoning: "sx_in_tag s \<Longrightarrow> sx_reasoning_id s \<noteq> None" using start by (rule in_stepE)
  show ?case
  proof (cases "rest = []")
    case False
    show ?thesis
    proof (cases "sx_in_tag s")
      case True
      note thinks = show_thinking_in_step [OF start reasoning [OF True]] and leaves = think_before_in_step [OF start True]
      show ?thesis
      proof (cases "find_next_internal_tag rest")
        case None
        show ?thesis
        proof (cases "find_any_close_tag rest")
          case (Some r)
          obtain e t where "r = (e, t)" by (cases r)
          with Some IH(3) [OF False _ None] leaves True None False show ?thesis
            by (subst split_content.simps) simp
        qed (use False True None thinks in \<open>subst split_content.simps, simp\<close>)
      next
        case (Some r)
        obtain e0 p tag where r: "r = (e0, p, tag)" by (cases r)
        show ?thesis
        proof (cases "where_closed rest tag")
          case (Some e)
          with IH(4) [OF False _ _ refl refl Some] \<open>find_next_internal_tag rest = Some r\<close> r leaves True False show ?thesis
            by (subst split_content.simps) simp
        qed (use False True \<open>find_next_internal_tag rest = Some r\<close> r thinks in \<open>subst split_content.simps, simp\<close>)
      qed
    next
      case outside: False
      show ?thesis
      proof (cases "find_next_internal_tag rest")
        case None
        with False outside show_text_in_step [OF start] show ?thesis by (subst split_content.simps) simp
      next
        case (Some r)
        obtain e0 p tag where r: "r = (e0, p, tag)" by (cases r)
        show ?thesis
        proof (cases e0)
          case None
          with IH(1) [OF False outside _ refl None refl] Some r outside False enter_tag_in_step [OF start] show ?thesis
            by (subst split_content.simps) simp
        next
          case skip: (Some e)
          with IH(2) [OF False outside _ refl skip refl] Some r outside False
            leave_tag_in_step [OF text_before_in_step [OF start]] show ?thesis
            by (subst split_content.simps) simp
        qed
      qed
    qed
  qed (use start in \<open>subst split_content.simps, simp\<close>)
qed

subsection \<open>The closing tag is shown\<close>

text \<open>A text in which no tag opens.\<close>

fun no_open :: "string \<Rightarrow> bool" where
  "no_open [] \<longleftrightarrow> True"
| "no_open (c # cs) \<longleftrightarrow> (if c = CHR ''<'' then prefix ''/'' cs else True) \<and> no_open cs"

lemma no_open_plain: "CHR ''<'' \<notin> set s \<Longrightarrow> no_open s"
  by (induction s) auto

lemma no_open_append: "CHR ''<'' \<notin> set s \<Longrightarrow> no_open (s @ t) = no_open t"
  by (induction s) auto

lemma no_open_here:
  assumes "no_open s" and "tag \<in> set INTERNAL_TAGS"
  shows "tag_here (open_needle tag) s = None"
proof -
  have "\<not> prefix (open_needle tag) (to_ascii_lowercase s)"
    using assms(1) tags_are_words [OF assms(2)]
    by (cases tag; cases s; cases "tl s") (auto simp: open_needle_def to_ascii_lowercase_def)
  then show ?thesis by (simp add: tag_here_def)
qed

lemma no_open_scan: "no_open s \<Longrightarrow> tag \<in> set INTERNAL_TAGS \<Longrightarrow> scan_tag (open_needle tag) s = None"
proof (induction s)
  case (Cons c cs)
  with no_open_here [of "c # cs" tag] show ?case by simp
qed simp

lemma fold_best_none: "(\<And>x. x \<in> set xs \<Longrightarrow> f x None = None) \<Longrightarrow> fold f xs None = None"
  by (induction xs) auto

lemma no_open_next: "no_open s \<Longrightarrow> find_next_internal_tag s = None"
  by (simp add: find_next_internal_tag_def fold_best_none better_tag_def no_open_scan)

lemma lower_no_open: "CHR ''<'' \<notin> set s \<Longrightarrow> CHR ''<'' \<notin> set (to_ascii_lowercase s)"
  by (auto simp: to_ascii_lowercase_def)

lemma scan_first:
  assumes "no_open t" and "tag \<in> set INTERNAL_TAGS"
  shows "scan_tag (open_needle tag) (c # t) = map_option (\<lambda>(n, selfc). (0, n, selfc)) (tag_here (open_needle tag) (c # t))"
  using no_open_scan [OF assms] by (auto split: option.split)

lemma needles:
  "map open_needle INTERNAL_TAGS =
     [''<antthinking'', ''<think'', ''<thinking'', ''<reasoning'', ''<summary'', ''<answer'', ''<final'', ''<response'', ''<output'',
      ''<result'', ''<reply'', ''<conclusion'', ''<tool_code'', ''<tool_call'', ''<respond'']"
  "map close_needle INTERNAL_TAGS =
     [''</antthinking>'', ''</think>'', ''</thinking>'', ''</reasoning>'', ''</summary>'', ''</answer>'', ''</final>'',
      ''</response>'', ''</output>'', ''</result>'', ''</reply>'', ''</conclusion>'', ''</tool_code>'', ''</tool_call>'', ''</respond>'']"
  by code_simp+

lemma lower_think: "to_ascii_lowercase (''<think>'' @ t) = ''<think>'' @ to_ascii_lowercase t"
proof -
  have "to_ascii_lowercase ''<think>'' = ''<think>''" by code_simp
  then show ?thesis by (simp add: to_ascii_lowercase_def)
qed

lemma think_here:
  assumes "tag \<in> set INTERNAL_TAGS"
  shows "tag_here (open_needle tag) (''<think>'' @ t) = (if tag = ''think'' then Some (7, False) else None)"
proof -
  have "list_all (\<lambda>tag. prefix (open_needle tag) (''<think>'' @ u) = (tag = ''think'')) INTERNAL_TAGS" for u
    using needles(1) by (simp add: INTERNAL_TAGS_def)
  with assms have "prefix (open_needle tag) (''<think>'' @ u) \<longleftrightarrow> tag = ''think''" for u
    unfolding list_all_iff by blast
  moreover have "open_needle ''think'' = ''<think''" using needles(1) by (simp add: INTERNAL_TAGS_def)
  ultimately show ?thesis unfolding tag_here_def lower_think by simp
qed

lemma next_is_think:
  assumes "no_open t"
  shows "find_next_internal_tag (''<think>'' @ t) = Some (None, 0, ''think'')"
proof -
  have t: "no_open (''think>'' @ t)" using assms by simp
  have "better_tag (''<think>'' @ t) tag best = (if tag = ''think'' \<and> (case best of None \<Rightarrow> True | Some (b, _) \<Rightarrow> 0 < b)
      then Some (0, 7, ''think'', False) else best)" if "tag \<in> set INTERNAL_TAGS" for tag best
    using scan_first [OF t that, of "CHR ''<''"] think_here [OF that, of t] by (simp add: better_tag_def)
  then show ?thesis by (simp add: find_next_internal_tag_def INTERNAL_TAGS_def)
qed

lemma lower_close_think: "to_ascii_lowercase (a @ ''</think>'' @ b) = to_ascii_lowercase a @ ''</think>'' @ to_ascii_lowercase b"
proof -
  have "to_ascii_lowercase ''</think>'' = ''</think>''" by code_simp
  then show ?thesis by (simp add: to_ascii_lowercase_def)
qed

lemma close_here:
  assumes "CHR ''<'' \<notin> set b" and "tag \<in> set INTERNAL_TAGS"
  shows "find_str (close_needle tag) (''</think>'' @ b) = (if tag = ''think'' then Some 0 else None)"
proof -
  have "find_str (close_needle tag) (''/think>'' @ b) = None"
    unfolding close_needle_def append_Cons by (rule find_str_absent) (use assms(1) in simp)
  moreover have "list_all (\<lambda>tag. prefix (close_needle tag) (''</think>'' @ b) = (tag = ''think'')) INTERNAL_TAGS"
    using needles(2) by (simp add: INTERNAL_TAGS_def)
  then have "prefix (close_needle tag) (''</think>'' @ b) \<longleftrightarrow> tag = ''think''"
    using assms(2) unfolding list_all_iff by blast
  ultimately show ?thesis by simp
qed

lemma closing_think:
  assumes "CHR ''<'' \<notin> set a" and "CHR ''<'' \<notin> set b"
  shows "find_any_close_tag (a @ ''</think>'' @ b) = Some (length a, ''think'')"
proof -
  have "find_str (close_needle tag) (to_ascii_lowercase (a @ ''</think>'' @ b)) = (if tag = ''think'' then Some (length a) else None)"
    if "tag \<in> set INTERNAL_TAGS" for tag
    using close_here [OF lower_no_open [OF assms(2)] that] find_str_skip [OF lower_no_open [OF assms(1)]]
    unfolding lower_close_think by (simp add: close_needle_def to_ascii_lowercase_def)
  then show ?thesis by (simp add: find_any_close_tag_def better_close_def INTERNAL_TAGS_def)
qed

lemma think_open_len: "find_open_tag_len (''<think>'' @ t) = 7"
  unfolding find_open_tag_len_def lower_think INTERNAL_TAGS_def by (simp add: lower_think [simplified])

text \<open>
  The closing tag of the reasoning is shown to the user.  A reply of the form
  \<open><think>a</think>b\<close> puts \<open>a\<close> into the reasoning, and the tag \<open></think>\<close> with \<open>b\<close> into the visible
  text, because the search for a closing tag returns where it begins and the rest of the text goes
  on there.
\<close>
theorem closing_tag_is_shown:
  assumes "\<not> sx_in_tag s" and "CHR ''<'' \<notin> set a" and "CHR ''<'' \<notin> set b"
  shows "sx_text (split_content (''<think>'' @ a @ ''</think>'' @ b) s) = sx_text s @ ''</think>'' @ b
    \<and> sx_thinking (split_content (''<think>'' @ a @ ''</think>'' @ b) s) = sx_thinking s @ a"
proof -
  let ?s1 = "enter_tag 0 (''<think>'' @ a @ ''</think>'' @ b) s"
  let ?s2 = "think_before (length a) (a @ ''</think>'' @ b) ?s1"
  have plain: "no_open (''</think>'' @ b)" "no_open (a @ ''</think>'' @ b)"
    using no_open_plain [OF assms(3)] no_open_append [OF assms(2)] by simp_all
  have "split_content (''<think>'' @ a @ ''</think>'' @ b) s = split_content (a @ ''</think>'' @ b) ?s1"
    using assms(1) next_is_think [OF plain(2)] think_open_len by (subst split_content.simps) simp
  also have "\<dots> = split_content (''</think>'' @ b) ?s2"
    using no_open_next [OF plain(2)] closing_think [OF assms(2,3)] by (subst split_content.simps) simp
  also have "\<dots> = show_text (''</think>'' @ b) ?s2"
    using no_open_next [OF plain(1)] by (subst split_content.simps) simp
  finally have r: "split_content (''<think>'' @ a @ ''</think>'' @ b) s = show_text (''</think>'' @ b) ?s2" .
  show ?thesis
    unfolding r by (simp add: think_before_def enter_tag_def text_before_def channel_defs Let_def split: option.split)
qed

definition sse_new :: sse_text where
  "sse_new = \<lparr>sx_text = [], sx_thinking = [], sx_in_tag = False, sx_text_id = None, sx_reasoning_id = None,
     sx_events = [], sx_next = 0\<rparr>"

theorem closing_tag_is_shown_witness:
  "sx_text (split_content (''<think>'' @ ''sum'' @ ''</think>'' @ ''five'') sse_new) = ''</think>five''"
proof -
  have "\<not> sx_in_tag sse_new" "CHR ''<'' \<notin> set ''sum''" "CHR ''<'' \<notin> set ''five''" by (simp_all add: sse_new_def)
  from closing_tag_is_shown [OF this] show ?thesis by (simp add: sse_new_def)
qed

text \<open>A delta is a piece of its own: a tag that is cut in two by the transport is not found.\<close>

lemma torn_tag_is_shown:
  "sx_text (split_content ''nk>sum'' (split_content ''<thi'' sse_new)) = ''<think>sum''"
proof -
  have plain: "find_next_internal_tag ''<thi'' = None" "find_next_internal_tag ''nk>sum'' = None"
    by code_simp+
  show ?thesis
    using plain by (simp add: split_content.simps [of "''<thi''"] split_content.simps [of "''nk>sum''"] sse_new_def channel_defs Let_def)
qed

end
