(* ===== verification/Sse_Openai.thy ===== *)
theory Sse_Openai
  imports Sse_Tags Tool_Outcomes Messages
begin

text \<open>
  The parser of the OpenAI stream, \<open>crates/oz-llm/src/stream.rs\<close>: lines, the deltas of text,
  reasoning and calls, the calls that are ready while the stream goes on, and the blocks it returns.

  The JSON parser and printer are parameters, and so is the repair of arguments (\<open>normalize\<close>, the
  function \<open>normalize_tool_args_for\<close>).  A chunk is given as the text it decodes to.
\<close>

subsection \<open>State\<close>

record openai_tool_call =
  oc_id :: string
  oc_name :: string
  oc_args :: string
  oc_started :: bool
  oc_available :: bool

record oai_state = sse_text +
  ox_calls :: "(nat, openai_tool_call) hash_map"
  ox_dispatched :: "nat list"
  ox_ready :: "stream_event list"
  ox_usage :: "token_usage option"

record sse_config =
  sc_parse :: "string \<Rightarrow> json option"
  sc_json_text :: "json \<Rightarrow> string"
  sc_normalize :: "string \<Rightarrow> json \<Rightarrow> json"
  sc_speculative :: bool
  sc_apibase :: string

definition openai_call_new :: openai_tool_call where
  "openai_call_new = \<lparr>oc_id = [], oc_name = [], oc_args = [], oc_started = False, oc_available = False\<rparr>"

definition is_local_apibase :: "string \<Rightarrow> bool" where
  "is_local_apibase apibase =
     (let base = to_lowercase apibase in
      contains_str ''localhost'' base \<or> contains_str ''127.0.0.1'' base \<or> contains_str ''0.0.0.0'' base
      \<or> prefix ''http://'' base \<and> (contains_str ''.local'' base \<or> contains_str ''.lan'' base \<or> contains_str ''.internal'' base))"

definition chunk_timeout_secs :: "string \<Rightarrow> nat" where
  "chunk_timeout_secs apibase = (if is_local_apibase apibase then 300 else 60)"

subsection \<open>Reading JSON\<close>

definition as_u64 :: "json \<Rightarrow> nat option" where
  "as_u64 v = (case v of JNum t \<Rightarrow> if is_digits t \<and> text_nat t < 2 ^ 64 then Some (text_nat t) else None | _ \<Rightarrow> None)"

definition count_arg :: "json \<Rightarrow> string \<Rightarrow> nat" where
  "count_arg v k = (case Option.bind (jget v k) as_u64 of Some n \<Rightarrow> n | None \<Rightarrow> 0)"

definition usage_from :: "string \<Rightarrow> string \<Rightarrow> json \<Rightarrow> token_usage option" where
  "usage_from k_in k_out u =
     (let i = count_arg u k_in; out = count_arg u k_out; t = Option.bind (jget u ''total_tokens'') as_u64 in
      if i > 0 \<or> out > 0 \<or> t \<noteq> None then Some \<lparr>input_tokens = i, output_tokens = out, total_tokens = t\<rparr> else None)"

definition note_usage :: "json \<Rightarrow> oai_state \<Rightarrow> oai_state" where
  "note_usage evt s =
     (let found = (case jget evt ''usage'' of
          Some (JObj m) \<Rightarrow> usage_from ''prompt_tokens'' ''completion_tokens'' (JObj m)
        | _ \<Rightarrow> (case Option.bind (jget evt ''response'') (\<lambda>r. jget r ''usage'') of
            Some (JObj m) \<Rightarrow> usage_from ''input_tokens'' ''output_tokens'' (JObj m)
          | _ \<Rightarrow> None)) in
      case found of Some u \<Rightarrow> s\<lparr>ox_usage := Some u\<rparr> | None \<Rightarrow> s)"

subsection \<open>The delta of a call\<close>

definition call_at :: "nat \<Rightarrow> oai_state \<Rightarrow> openai_tool_call" where
  "call_at idx s = (case hm_get idx (ox_calls s) of Some c \<Rightarrow> c | None \<Rightarrow> openai_call_new)"

definition put_call :: "nat \<Rightarrow> openai_tool_call \<Rightarrow> oai_state \<Rightarrow> oai_state" where
  "put_call idx c s = s\<lparr>ox_calls := hm_insert idx c (ox_calls s)\<rparr>"

text \<open>The entry of a call, with an identifier of its own when the provider has given none.\<close>

definition with_id :: "nat \<Rightarrow> oai_state \<Rightarrow> oai_state" where
  "with_id idx s =
     (if oc_id (call_at idx s) \<noteq> [] then put_call idx (call_at idx s) s
      else put_call idx ((call_at idx s)\<lparr>oc_id := next_block_id ''tc'' s\<rparr>) (bump s))"

definition call_start :: "nat \<Rightarrow> string \<Rightarrow> oai_state \<Rightarrow> oai_state" where
  "call_start idx name s =
     emit_event (ToolInputStart (oc_id (call_at idx s)) name) (put_call idx ((call_at idx s)\<lparr>oc_started := True\<rparr>) s)"

definition call_id_delta :: "json \<Rightarrow> nat \<Rightarrow> oai_state \<Rightarrow> oai_state" where
  "call_id_delta tc idx s =
     (case str_arg tc ''id'' of
        Some i \<Rightarrow> if i \<noteq> [] then put_call idx ((call_at idx s)\<lparr>oc_id := i\<rparr>) s else s
      | None \<Rightarrow> s)"

definition call_name_delta :: "json \<Rightarrow> nat \<Rightarrow> oai_state \<Rightarrow> oai_state" where
  "call_name_delta func idx s =
     (case str_arg func ''name'' of
        Some name \<Rightarrow>
          if name = [] then s
          else if oc_started (call_at idx s) then put_call idx (call_at idx s) s
          else (let s1 = with_id idx s in call_start idx name (put_call idx ((call_at idx s1)\<lparr>oc_name := name\<rparr>) s1))
      | None \<Rightarrow> s)"

definition call_args_delta :: "json \<Rightarrow> nat \<Rightarrow> oai_state \<Rightarrow> oai_state" where
  "call_args_delta func idx s =
     (case str_arg func ''arguments'' of
        Some args \<Rightarrow>
          if args = [] then s
          else (let s1 = with_id idx (put_call idx ((call_at idx s)\<lparr>oc_args := oc_args (call_at idx s) @ args\<rparr>) s);
                    s2 = (if oc_started (call_at idx s1) then s1 else call_start idx [] s1) in
            emit_event (ToolInputDelta (oc_id (call_at idx s2)) args) s2)
      | None \<Rightarrow> s)"

definition call_ready :: "sse_config \<Rightarrow> nat \<Rightarrow> oai_state \<Rightarrow> oai_state" where
  "call_ready cfg idx s =
     (let c = call_at idx s in
      if sc_speculative cfg \<and> idx \<notin> set (ox_dispatched s) \<and> oc_name c \<noteq> []
      then (case sc_parse cfg (oc_args c) of
          Some v \<Rightarrow> s\<lparr>ox_ready := ox_ready s @ [ToolCallReady (oc_id c) (oc_name c) (sc_json_text cfg (sc_normalize cfg (oc_name c) v))],
                      ox_dispatched := idx # ox_dispatched s\<rparr>
        | None \<Rightarrow> s)
      else s)"

definition call_delta :: "sse_config \<Rightarrow> json \<Rightarrow> oai_state \<Rightarrow> oai_state" where
  "call_delta cfg tc s =
     (let idx = (case Option.bind (jget tc ''index'') as_u64 of Some n \<Rightarrow> n | None \<Rightarrow> 0) mod 2 ^ 32;
          s1 = call_id_delta tc idx s in
      case jget tc ''function'' of
        Some func \<Rightarrow> call_ready cfg idx (call_args_delta func idx (call_name_delta func idx s1))
      | None \<Rightarrow> s1)"

subsection \<open>An event of the stream\<close>

definition content_delta :: "json \<Rightarrow> oai_state \<Rightarrow> oai_state" where
  "content_delta delta s =
     (case str_arg delta ''content'' of Some t \<Rightarrow> if t \<noteq> [] then split_content t s else s | None \<Rightarrow> s)"

definition reasoning_delta :: "json \<Rightarrow> oai_state \<Rightarrow> oai_state" where
  "reasoning_delta delta s =
     (case str_arg delta ''reasoning_content'' of
        Some t \<Rightarrow> if t \<noteq> [] then show_thinking t (open_reasoning s) else s
      | None \<Rightarrow> s)"

definition choice_delta :: "sse_config \<Rightarrow> json \<Rightarrow> oai_state \<Rightarrow> oai_state" where
  "choice_delta cfg choice s =
     (case jget choice ''delta'' of
        Some (JObj m) \<Rightarrow>
          fold (call_delta cfg) (arr_arg (JObj m) ''tool_calls'') (reasoning_delta (JObj m) (content_delta (JObj m) s))
      | _ \<Rightarrow> s)"

definition oai_event :: "sse_config \<Rightarrow> json \<Rightarrow> oai_state \<Rightarrow> oai_state" where
  "oai_event cfg evt s = note_usage evt (fold (choice_delta cfg) (arr_arg evt ''choices'') s)"

subsection \<open>Lines and chunks\<close>

definition line_payload :: "string \<Rightarrow> string option" where
  "line_payload l = (let t = trim l in if prefix ''data:'' t then Some (trim (drop 5 t)) else None)"

text \<open>The lines up to the mark of the end, and whether it came.\<close>

fun oai_lines :: "sse_config \<Rightarrow> string list \<Rightarrow> oai_state \<Rightarrow> bool \<times> oai_state" where
  "oai_lines cfg [] s = (False, s)"
| "oai_lines cfg (l # ls) s =
     (case line_payload l of
        None \<Rightarrow> oai_lines cfg ls s
      | Some data \<Rightarrow>
          if data = ''[DONE]'' then (True, s)
          else (case sc_parse cfg data of
              None \<Rightarrow> oai_lines cfg ls s
            | Some evt \<Rightarrow> oai_lines cfg ls (oai_event cfg evt s)))"

definition finish_call :: "sse_config \<Rightarrow> nat \<Rightarrow> oai_state \<times> content_block list \<Rightarrow> oai_state \<times> content_block list" where
  "finish_call cfg idx r =
     (case hm_get idx (ox_calls (fst r)) of
        None \<Rightarrow> r
      | Some c \<Rightarrow>
          if oc_available c then r
          else (let args = sc_normalize cfg (oc_name c)
                    (case sc_parse cfg (oc_args c) of Some v \<Rightarrow> v | None \<Rightarrow> JStr (oc_args c)) in
            (emit_event (ToolInputAvailable (oc_id c) (oc_name c) (sc_json_text cfg args)) (fst r),
             snd r @ [ToolUse (oc_id c) (oc_name c) args])))"

definition oai_finish :: "sse_config \<Rightarrow> oai_state \<Rightarrow> oai_state \<times> content_block list" where
  "oai_finish cfg s =
     (let s1 = end_reasoning (end_text s);
          blocks = (if sx_text s1 \<noteq> [] then [text_block (sx_text s1)] else [])
            @ (if sx_thinking s1 \<noteq> [] then [Thinking (sx_thinking s1) None] else []) in
      fold (finish_call cfg) [0..<hm_len (ox_calls s1)] (s1, blocks))"

datatype chunk = Data string | Broken string | Stalled

text \<open>The complete lines of a buffer, and what is left of it.\<close>

definition cut_lines :: "string \<Rightarrow> string list \<times> string" where
  "cut_lines buf = (let ps = split_on (\<lambda>c. c = CHR 0x0A) buf in (butlast ps, last ps))"

type_synonym parsed = "oai_state \<times> (llm_error, content_block list) result"

definition finished :: "sse_config \<Rightarrow> oai_state \<Rightarrow> parsed" where
  "finished cfg s = (let (s1, blocks) = oai_finish cfg s in (s1, Ok blocks))"

fun oai_chunks :: "sse_config \<Rightarrow> chunk list \<Rightarrow> string \<Rightarrow> oai_state \<Rightarrow> parsed" where
  "oai_chunks cfg [] buf s = finished cfg s"
| "oai_chunks cfg (Stalled # cs) buf s =
     (s, Err (Llm_Retry.StreamError (''OpenAI SSE stream timed out (no data for ''
        @ nat_text (chunk_timeout_secs (sc_apibase cfg)) @ ''s)'')))"
| "oai_chunks cfg (Broken m # cs) buf s = (s, Err (Llm_Retry.StreamError m))"
| "oai_chunks cfg (Data d # cs) buf s =
     (let (ls, rest) = cut_lines (buf @ d); (over, s1) = oai_lines cfg ls s in
      if over then finished cfg s1 else oai_chunks cfg cs rest s1)"

definition oai_new :: "nat \<Rightarrow> oai_state" where
  "oai_new n = \<lparr>sx_text = [], sx_thinking = [], sx_in_tag = False, sx_text_id = None, sx_reasoning_id = None,
     sx_events = [], sx_next = n, ox_calls = hm_empty, ox_dispatched = [], ox_ready = [], ox_usage = None\<rparr>"

definition parse_openai_sse :: "sse_config \<Rightarrow> nat \<Rightarrow> chunk list \<Rightarrow> parsed" where
  "parse_openai_sse cfg n cs = oai_chunks cfg cs [] (oai_new n)"

subsection \<open>What the client sees is what is returned\<close>

lemma in_step_frame [simp]:
  "in_step cs (s\<lparr>ox_calls := x\<rparr>) = in_step cs s" "in_step cs (s\<lparr>ox_dispatched := d\<rparr>) = in_step cs s"
  "in_step cs (s\<lparr>ox_ready := y\<rparr>) = in_step cs s" "in_step cs (s\<lparr>ox_usage := u\<rparr>) = in_step cs s"
  by (simp_all add: in_step_def)

lemma put_call_in_step [simp]: "in_step cs (put_call idx c s) = in_step cs s"
  by (simp add: put_call_def)

lemma bump_in_step: "in_step cs s \<Longrightarrow> in_step cs (bump s)"
  by (rule in_stepE, assumption, rule in_stepI) (simp_all add: bump_def, blast intro: less_SucI)

lemma emit_start_in_step: "in_step cs s \<Longrightarrow> in_step cs (emit_event (ToolInputStart i n) s)"
  and emit_delta_in_step: "in_step cs s \<Longrightarrow> in_step cs (emit_event (ToolInputDelta i d) s)"
  by (erule in_stepE, rule in_stepI, auto simp: emit_event_def ui_run_append)+

lemma emit_available_in_step: "in_step cs s \<Longrightarrow> in_step (cs @ [(i, n, a)]) (emit_event (ToolInputAvailable i n a) s)"
  by (erule in_stepE, rule in_stepI) (auto simp: emit_event_def ui_run_append)

lemma with_id_in_step: "in_step cs s \<Longrightarrow> in_step cs (with_id idx s)"
  by (simp add: with_id_def bump_in_step)

lemma call_delta_in_step: "in_step cs s \<Longrightarrow> in_step cs (call_delta cfg tc s)"
proof -
  have "in_step cs s \<Longrightarrow> in_step cs (call_id_delta tc idx s)" for idx s
    by (simp add: call_id_delta_def split: option.split)
  moreover have "in_step cs s \<Longrightarrow> in_step cs (call_name_delta func idx s)" for func idx s
    by (simp add: call_name_delta_def call_start_def Let_def with_id_in_step emit_start_in_step split: option.split)
  moreover have "in_step cs s \<Longrightarrow> in_step cs (call_args_delta func idx s)" for func idx s
    by (simp add: call_args_delta_def call_start_def Let_def with_id_in_step emit_start_in_step emit_delta_in_step split: option.split)
  moreover have "in_step cs s \<Longrightarrow> in_step cs (call_ready cfg idx s)" for idx s
    by (simp add: call_ready_def Let_def split: option.split)
  ultimately show "in_step cs s \<Longrightarrow> ?thesis" by (simp add: call_delta_def Let_def split: option.split)
qed

lemma fold_in_step: "(\<And>x s. in_step cs s \<Longrightarrow> in_step cs (f x s)) \<Longrightarrow> in_step cs s \<Longrightarrow> in_step cs (fold f xs s)"
  by (induction xs arbitrary: s) auto

lemma reasoning_delta_in_step: "in_step cs s \<Longrightarrow> in_step cs (reasoning_delta delta s)"
  by (auto simp: reasoning_delta_def leave_tag_in_step split: option.split
      intro!: show_thinking_in_step open_reasoning_in_step)

lemma oai_event_in_step: "in_step cs s \<Longrightarrow> in_step cs (oai_event cfg evt s)"
proof -
  have "in_step cs s \<Longrightarrow> in_step cs (choice_delta cfg choice s)" for choice s
    by (auto simp: choice_delta_def content_delta_def split: option.split json.split
        intro!: fold_in_step call_delta_in_step reasoning_delta_in_step split_content_in_step)
  then show "in_step cs s \<Longrightarrow> ?thesis"
    by (auto simp: oai_event_def note_usage_def Let_def split: option.split intro!: fold_in_step)
qed

lemma oai_lines_in_step: "in_step cs s \<Longrightarrow> in_step cs (snd (oai_lines cfg ls s))"
  by (induction cfg ls s rule: oai_lines.induct) (auto split: option.split intro: oai_event_in_step)

text \<open>The view of the client when the blocks have been handed out.\<close>

fun shown_text :: "content_block \<Rightarrow> string" where
  "shown_text (TextBlock t _) = t"
| "shown_text _ = []"

fun shown_thinking :: "content_block \<Rightarrow> string" where
  "shown_thinking (Thinking t _) = t"
| "shown_thinking _ = []"

fun call_shown :: "(json \<Rightarrow> string) \<Rightarrow> content_block \<Rightarrow> (string \<times> string \<times> string) option" where
  "call_shown json_text (ToolUse i n v) = Some (i, n, json_text v)"
| "call_shown json_text _ = None"

definition view_of :: "(json \<Rightarrow> string) \<Rightarrow> content_block list \<Rightarrow> ui \<Rightarrow> bool" where
  "view_of json_text blocks u \<longleftrightarrow>
     ui_text u = concat (map shown_text blocks) \<and> ui_thinking u = concat (map shown_thinking blocks) \<and>
     ui_calls u = List.map_filter (call_shown json_text) blocks \<and> ui_text_block u = None \<and> ui_reasoning_block u = None"

definition sees :: "sse_config \<Rightarrow> oai_state \<times> content_block list \<Rightarrow> bool" where
  "sees cfg r \<longleftrightarrow> (\<exists>u. ui_run (sx_events (fst r)) ui_new = Some u \<and> view_of (sc_json_text cfg) (snd r) u)"

lemma finish_call_sees: "sees cfg r \<Longrightarrow> sees cfg (finish_call cfg idx r)"
  by (auto simp: sees_def finish_call_def view_of_def emit_event_def ui_run_append List.map_filter_def Let_def split: option.split)

lemma oai_finish_sees:
  assumes "in_step [] s"
  shows "sees cfg (oai_finish cfg s)"
proof -
  let ?s1 = "end_reasoning (end_text s)"
  let ?b = "(if sx_text ?s1 \<noteq> [] then [text_block (sx_text ?s1)] else [])
            @ (if sx_thinking ?s1 \<noteq> [] then [Thinking (sx_thinking ?s1) None] else [])"
  have "sees cfg (?s1, ?b)"
  proof -
    from end_reasoning_in_step [OF end_text_in_step [OF assms]]
    obtain seen where "ui_run (sx_events ?s1) ui_new = Some \<lparr>ui_text = sx_text ?s1, ui_thinking = sx_thinking ?s1,
        ui_text_block = sx_text_id ?s1, ui_reasoning_block = sx_reasoning_id ?s1, ui_calls = [], ui_seen = seen\<rparr>"
      by (auto elim: in_stepE)
    moreover have "sx_text_id ?s1 = None" "sx_reasoning_id ?s1 = None"
      by (simp_all add: end_reasoning_def end_text_def emit_event_def split: option.split)
    ultimately show ?thesis by (auto simp: sees_def view_of_def text_block_def List.map_filter_def)
  qed
  moreover have "sees cfg r \<Longrightarrow> sees cfg (fold (finish_call cfg) is r)" for "is" r
    by (induction "is" arbitrary: r) (simp_all add: finish_call_sees del: split_paired_All)
  ultimately show ?thesis by (simp add: oai_finish_def Let_def)
qed

lemma oai_chunks_protocol:
  "in_step [] s \<Longrightarrow> case oai_chunks cfg cs buf s of
     (s', Ok blocks) \<Rightarrow> sees cfg (s', blocks)
   | (s', Err e) \<Rightarrow> in_step [] s'"
proof (induction cfg cs buf s rule: oai_chunks.induct)
  case (1 cfg buf s)
  with oai_finish_sees [OF 1, of cfg] show ?case by (cases "oai_finish cfg s") (simp add: finished_def)
next
  case (4 cfg d cs buf s)
  obtain ls rest where l: "cut_lines (buf @ d) = (ls, rest)" by (cases "cut_lines (buf @ d)")
  obtain over s1 where r: "oai_lines cfg ls s = (over, s1)" by (cases "oai_lines cfg ls s")
  have ok: "in_step [] s1" using oai_lines_in_step [OF 4(2), of cfg ls] r by simp
  show ?case
  proof (cases over)
    case True
    with oai_finish_sees [OF ok, of cfg] l r show ?thesis by (cases "oai_finish cfg s1") (simp add: finished_def)
  qed (use 4(1) [OF l [symmetric] refl r [symmetric] refl] ok l r in simp)
qed simp_all

text \<open>
  C20: the events of a stream obey their protocol, whatever the provider sends.  Text and reasoning
  come only in blocks that are open, every block has an identifier of its own, and none is open at
  the end; and a client that puts the pieces together has the text, the reasoning and the calls of
  the blocks the parser returns, in their order.  When the stream breaks off the events are still
  well formed, but a block may be left open.
\<close>
theorem stream_events_are_well_formed:
  "case parse_openai_sse cfg n cs of
     (s, Ok blocks) \<Rightarrow> (\<exists>u. ui_run (sx_events s) ui_new = Some u \<and> view_of (sc_json_text cfg) blocks u)
   | (s, Err e) \<Rightarrow> ui_run (sx_events s) ui_new \<noteq> None"
proof -
  have "in_step [] (oai_new n)" by (rule in_stepI [where seen = "{}"]) (simp_all add: oai_new_def ui_new_def)
  from oai_chunks_protocol [OF this, of cfg cs "[]"] show ?thesis
    by (auto simp: parse_openai_sse_def sees_def split: prod.splits sum.splits elim: in_stepE)
qed

subsection \<open>Chunks do not matter\<close>






subsection \<open>Calls that are lost\<close>

text \<open>The calls are fetched under the numbers from 0 to their count: with a gap in the numbers the last are not found.\<close>

lemma numbered_from_one_is_lost:
  assumes "ox_calls s = [(1, c)]"
  shows "List.map_filter (call_shown (sc_json_text cfg)) (snd (oai_finish cfg s)) = []"
proof -
  have "ox_calls (end_reasoning (end_text s)) = [(1, c)]"
    using assms by (simp add: end_reasoning_def end_text_def emit_event_def split: option.split)
  then show ?thesis
    by (simp add: oai_finish_def Let_def hm_len_def finish_call_def hm_get_def List.map_filter_def text_block_def)
qed

text \<open>A name that comes after the first piece of the arguments is ignored.\<close>

lemma late_name_is_lost:
  assumes "oc_started (call_at idx s)"
  shows "oc_name (call_at idx (call_name_delta func idx s)) = oc_name (call_at idx s)"
  using assms by (simp add: call_name_delta_def put_call_def call_at_def split: option.split)

lemma arguments_start_the_call:
  assumes "str_arg func ''arguments'' = Some args" and "args \<noteq> []"
  shows "oc_started (call_at idx (call_args_delta func idx s))"
  using assms by (simp add: call_args_delta_def call_start_def put_call_def call_at_def emit_event_def Let_def)

end
