(* ===== verification/Sse_Claude.thy ===== *)
theory Sse_Claude
  imports Sse_Openai Message_Format
begin

text \<open>
  The parser of the Claude stream, \<open>crates/oz-llm/src/stream.rs\<close>, and the reading of a block that it
  ends with, \<open>ContentBlock::from_json\<close> of \<open>crates/oz-core-types/src/message.rs\<close>, which panics on a
  value that is no block: \<open>None\<close> is the panic.
\<close>

subsection \<open>Reading a block\<close>

text \<open>A member that may be missing or null, and must have the right type otherwise.\<close>

definition optional :: "(json \<Rightarrow> 'a option) \<Rightarrow> json \<Rightarrow> string \<Rightarrow> 'a option option" where
  "optional read v k =
     (case jget v k of None \<Rightarrow> Some None | Some JNull \<Rightarrow> Some None | Some w \<Rightarrow> map_option Some (read w))"

text \<open>A struct with one field is read from an object, or from an array of one element.\<close>

definition cache_from_json :: "json \<Rightarrow> string option" where
  "cache_from_json v = (case v of JArr [JStr t] \<Rightarrow> Some t | _ \<Rightarrow> str_arg v ''type'')"

lemma map_of_size: "map_of kvs k = Some (w :: json) \<Longrightarrow> size w < Suc (size_list (size_prod (\<lambda>_. 0) size) kvs)"
  by (induction kvs) (auto split: if_splits)

text \<open>An enum is an object with the name of the variant as its only key.\<close>

function block_from_json :: "json \<Rightarrow> content_block option"
  and container_from_json :: "json \<Rightarrow> content_container option"
  and blocks_from_json :: "json list \<Rightarrow> content_block list option" where
  "block_from_json v =
     (case v of
        JObj [(variant, w)] \<Rightarrow>
          if variant = ''text'' then
            (case (str_arg w ''text'', optional cache_from_json w ''cache_control'') of
               (Some t, Some c) \<Rightarrow> Some (TextBlock t c) | _ \<Rightarrow> None)
          else if variant = ''tool_use'' then
            (case (str_arg w ''id'', str_arg w ''name'', jget w ''input'') of
               (Some i, Some n, Some a) \<Rightarrow> Some (ToolUse i n a) | _ \<Rightarrow> None)
          else if variant = ''tool_result'' then
            (case (w, str_arg w ''tool_use_id'', optional as_bool w ''is_error'') of
               (JObj kvs, Some i, Some e) \<Rightarrow>
                 (case map_of kvs ''content'' of
                    Some c \<Rightarrow> map_option (\<lambda>c. ToolResult i c e) (container_from_json c)
                  | None \<Rightarrow> None)
             | _ \<Rightarrow> None)
          else if variant = ''thinking'' then
            (case (str_arg w ''thinking'', optional as_str w ''signature'') of
               (Some t, Some g) \<Rightarrow> Some (Thinking t g) | _ \<Rightarrow> None)
          else if variant = ''image_url'' then
            (case (str_arg w ''url'', optional as_str w ''media_type'') of
               (Some u, Some m) \<Rightarrow> Some (ImageUrl u m) | _ \<Rightarrow> None)
          else None
      | _ \<Rightarrow> None)"
| "container_from_json v =
     (case v of
        JStr t \<Rightarrow> Some (ContentText t)
      | JArr vs \<Rightarrow> map_option ContentBlocks (blocks_from_json vs)
      | _ \<Rightarrow> None)"
| "blocks_from_json vs =
     (case vs of
        [] \<Rightarrow> Some []
      | v # ws \<Rightarrow> (case (block_from_json v, blocks_from_json ws) of (Some b, Some bs) \<Rightarrow> Some (b # bs) | _ \<Rightarrow> None))"
  by pat_completeness auto
termination
  by (relation "measure (\<lambda>x. case x of Inl v \<Rightarrow> size v | Inr (Inl v) \<Rightarrow> size v | Inr (Inr vs) \<Rightarrow> size_list size vs)")
    (auto dest: map_of_size)

declare block_from_json.simps [simp del] container_from_json.simps [simp del] blocks_from_json.simps [simp del]

lemmas block_at = block_from_json.simps [of "JObj [(variant, w)]" for variant w]

lemma from_json [simp]:
  "container_from_json (JStr t) = Some (ContentText t)"
  "container_from_json (JArr vs) = map_option ContentBlocks (blocks_from_json vs)"
  "blocks_from_json [] = Some []"
  "blocks_from_json (v # vs) =
     (case (block_from_json v, blocks_from_json vs) of (Some b, Some bs) \<Rightarrow> Some (b # bs) | _ \<Rightarrow> None)"
  by (simp_all add: container_from_json.simps blocks_from_json.simps [of "[]"] blocks_from_json.simps [of "v # vs"])

lemma blocks_read: "(\<And>b. b \<in> set bs \<Longrightarrow> block_from_json (block_value b) = Some b) \<Longrightarrow> blocks_from_json (map block_value bs) = Some bs"
  by (induction bs) simp_all

lemma block_read:
  "block_from_json (block_value b) = Some b"
  "container_from_json (container_value c) = Some c"
  by (induction b and c rule: block_value_container_value.induct)
    (simp_all add: block_at blocks_read str_arg_def optional_def cache_from_json_def split: option.split)

text \<open>
  C30: a block survives the way to JSON and back: what the derived writer makes of a block, with its
  blocks inside and the members it leaves out, is read again as the same block.
\<close>
theorem block_roundtrip: "block_from_json (block_value b) = Some b"
  by (rule block_read)

subsection \<open>State\<close>

record claude_state = sse_text +
  cl_blocks :: "content_block list"
  cl_current :: "json option"
  cl_buf :: string
  cl_call_id :: "string option"
  cl_call_name :: "string option"
  cl_usage :: "token_usage option"

definition json_index :: "json \<Rightarrow> string \<Rightarrow> json" where
  "json_index v k = (case jget v k of Some w \<Rightarrow> w | None \<Rightarrow> JNull)"

subsection \<open>An event of the stream\<close>

definition claude_start_usage :: "json \<Rightarrow> claude_state \<Rightarrow> claude_state" where
  "claude_start_usage evt s =
     (case json_index (json_index evt ''message'') ''usage'' of
        JObj m \<Rightarrow>
          (let i = count_arg (JObj m) ''input_tokens''; out = count_arg (JObj m) ''output_tokens'' in
           if i > 0 \<or> out > 0
           then s\<lparr>cl_usage := Some \<lparr>input_tokens = i, output_tokens = out, total_tokens = Some ((i + out) mod 2 ^ 64)\<rparr>\<rparr>
           else s)
      | _ \<Rightarrow> s)"

definition claude_delta_usage :: "json \<Rightarrow> claude_state \<Rightarrow> claude_state" where
  "claude_delta_usage evt s =
     (case json_index evt ''usage'' of
        JObj m \<Rightarrow>
          (let i = count_arg (JObj m) ''input_tokens''; out = count_arg (JObj m) ''output_tokens'';
               (ci, co) = (case cl_usage s of Some u \<Rightarrow> (input_tokens u, output_tokens u) | None \<Rightarrow> (0, 0));
               i' = (if i > 0 then i else ci); o' = (if out > 0 then out else co) in
           s\<lparr>cl_usage := Some \<lparr>input_tokens = i', output_tokens = o', total_tokens = Some ((i' + o') mod 2 ^ 64)\<rparr>\<rparr>)
      | _ \<Rightarrow> s)"

definition claude_block_start :: "json \<Rightarrow> claude_state \<Rightarrow> claude_state" where
  "claude_block_start evt s =
     (let block = json_index evt ''content_block''; s1 = s\<lparr>cl_current := Some block\<rparr> in
      case str_arg block ''type'' of
        None \<Rightarrow> s1
      | Some kind \<Rightarrow>
          if kind = ''tool_use'' then
            (let name = str_arg_or_empty block ''name''; i = str_arg_or_empty block ''id'';
                 tc = (if i \<noteq> [] then i else next_block_id ''tc'' s1);
                 s2 = (if i \<noteq> [] then s1 else bump s1) in
             emit_event (ToolInputStart tc name) (s2\<lparr>cl_buf := [], cl_call_id := Some tc, cl_call_name := Some name\<rparr>))
          else if kind = ''text'' then
            emit_event (TextStart (next_block_id ''t'' s1)) ((bump s1)\<lparr>sx_text_id := Some (next_block_id ''t'' s1)\<rparr>)
          else if kind = ''thinking'' then
            emit_event (ReasoningStart (next_block_id ''r'' s1)) ((bump s1)\<lparr>sx_reasoning_id := Some (next_block_id ''r'' s1)\<rparr>)
          else s1)"

definition claude_text_delta :: "json \<Rightarrow> claude_state \<Rightarrow> claude_state" where
  "claude_text_delta delta s =
     (case cl_current s of
        Some block \<Rightarrow>
          if str_arg block ''type'' = Some ''text'' then
            (let t = str_arg_or_empty delta ''text'';
                 s1 = (case sx_text_id s of Some i \<Rightarrow> if t \<noteq> [] then emit_event (TextDelta i t) s else s | None \<Rightarrow> s) in
             s1\<lparr>cl_current := Some (jinsert ''text'' (JStr (str_arg_or_empty block ''text'' @ t)) block)\<rparr>)
          else s
      | None \<Rightarrow> s)"

definition claude_thinking_delta :: "json \<Rightarrow> claude_state \<Rightarrow> claude_state" where
  "claude_thinking_delta delta s =
     (case cl_current s of
        Some block \<Rightarrow>
          if str_arg block ''type'' = Some ''thinking'' then
            (let t = str_arg_or_empty delta ''thinking'';
                 s1 = (case sx_reasoning_id s of Some i \<Rightarrow> if t \<noteq> [] then emit_event (ReasoningDelta i t) s else s | None \<Rightarrow> s) in
             s1\<lparr>cl_current := Some (jinsert ''thinking'' (JStr (str_arg_or_empty block ''thinking'' @ t)) block)\<rparr>)
          else s
      | None \<Rightarrow> s)"

definition claude_signature_delta :: "json \<Rightarrow> claude_state \<Rightarrow> claude_state" where
  "claude_signature_delta delta s =
     (case cl_current s of
        Some block \<Rightarrow>
          if str_arg block ''type'' = Some ''thinking''
          then s\<lparr>cl_current := Some (jinsert ''signature'' (JStr (str_arg_or_empty delta ''signature'')) block)\<rparr>
          else s
      | None \<Rightarrow> s)"

definition claude_input_delta :: "json \<Rightarrow> claude_state \<Rightarrow> claude_state" where
  "claude_input_delta delta s =
     (let piece = str_arg_or_empty delta ''partial_json'' in
      if piece = [] then s
      else (let s1 = s\<lparr>cl_buf := cl_buf s @ piece\<rparr> in
        case cl_call_id s1 of Some i \<Rightarrow> emit_event (ToolInputDelta i piece) s1 | None \<Rightarrow> s1))"

definition claude_block_delta :: "json \<Rightarrow> claude_state \<Rightarrow> claude_state" where
  "claude_block_delta evt s =
     (let delta = json_index evt ''delta'' in
      case str_arg delta ''type'' of
        None \<Rightarrow> s
      | Some kind \<Rightarrow>
          if kind = ''text_delta'' then claude_text_delta delta s
          else if kind = ''thinking_delta'' then claude_thinking_delta delta s
          else if kind = ''signature_delta'' then claude_signature_delta delta s
          else if kind = ''input_json_delta'' then claude_input_delta delta s
          else s)"

text \<open>A call whose name or identifier is missing is not announced; both are taken.\<close>

definition announce_call :: "string \<Rightarrow> claude_state \<Rightarrow> claude_state" where
  "announce_call args s =
     (case cl_call_id s of
        None \<Rightarrow> s
      | Some i \<Rightarrow>
          (case cl_call_name s of
             None \<Rightarrow> s\<lparr>cl_call_id := None\<rparr>
           | Some name \<Rightarrow> emit_event (ToolInputAvailable i name args) (s\<lparr>cl_call_id := None, cl_call_name := None\<rparr>)))"

definition claude_block_stop :: "sse_config \<Rightarrow> claude_state \<Rightarrow> claude_state option" where
  "claude_block_stop cfg s =
     (case cl_current s of
        None \<Rightarrow> Some s
      | Some block \<Rightarrow>
          (let s1 = s\<lparr>cl_current := None\<rparr>; kind = str_arg block ''type'';
               (block', s2) =
                 (if kind = Some ''tool_use'' then
                    (let input = (if cl_buf s = [] then JObj []
                           else case sc_parse cfg (cl_buf s) of Some v \<Rightarrow> v | None \<Rightarrow> JObj []) in
                     (jinsert ''input'' input block, announce_call (sc_json_text cfg input) (s1\<lparr>cl_buf := []\<rparr>)))
                  else if kind = Some ''text'' then (block, end_text s1)
                  else if kind = Some ''thinking'' then (block, end_reasoning s1)
                  else (block, s1)) in
           map_option (\<lambda>b. s2\<lparr>cl_blocks := cl_blocks s2 @ [b]\<rparr>) (block_from_json block')))"

text \<open>An event, or \<open>None\<close> when the parser panics.\<close>

definition claude_event :: "sse_config \<Rightarrow> json \<Rightarrow> claude_state \<Rightarrow> claude_state option" where
  "claude_event cfg evt s =
     (let kind = str_arg_or_empty evt ''type'' in
      if kind = ''message_start'' then Some (claude_start_usage evt s)
      else if kind = ''content_block_start'' then Some (claude_block_start evt s)
      else if kind = ''content_block_delta'' then Some (claude_block_delta evt s)
      else if kind = ''content_block_stop'' then claude_block_stop cfg s
      else if kind = ''message_delta'' then Some (claude_delta_usage evt s)
      else Some s)"

subsection \<open>Lines and chunks\<close>

fun claude_lines :: "sse_config \<Rightarrow> string list \<Rightarrow> claude_state \<Rightarrow> (bool \<times> claude_state) option" where
  "claude_lines cfg [] s = Some (False, s)"
| "claude_lines cfg (l # ls) s =
     (case line_payload l of
        None \<Rightarrow> claude_lines cfg ls s
      | Some data \<Rightarrow>
          if data = ''[DONE]'' then Some (True, s)
          else (case sc_parse cfg data of
              None \<Rightarrow> claude_lines cfg ls s
            | Some evt \<Rightarrow> Option.bind (claude_event cfg evt s) (claude_lines cfg ls)))"

definition claude_finish :: "claude_state \<Rightarrow> claude_state" where
  "claude_finish s = announce_call (cl_buf s) (end_reasoning (end_text s))"

type_synonym claude_parsed = "claude_state \<times> (llm_error, content_block list) result"

definition claude_result :: "claude_state \<Rightarrow> claude_parsed" where
  "claude_result s = (let s1 = claude_finish s in (s1, Ok (cl_blocks s1)))"

fun claude_chunks :: "sse_config \<Rightarrow> chunk list \<Rightarrow> string \<Rightarrow> claude_state \<Rightarrow> claude_parsed option" where
  "claude_chunks cfg [] buf s = Some (claude_result s)"
| "claude_chunks cfg (Stalled # cs) buf s =
     Some (s, Err (Llm_Retry.StreamError (''Claude SSE stream timed out (no data for ''
        @ nat_text (chunk_timeout_secs (sc_apibase cfg)) @ ''s)'')))"
| "claude_chunks cfg (Broken m # cs) buf s = Some (s, Err (Llm_Retry.StreamError m))"
| "claude_chunks cfg (Data d # cs) buf s =
     (let (ls, rest) = cut_lines (buf @ d) in
      case claude_lines cfg ls s of
        None \<Rightarrow> None
      | Some (over, s1) \<Rightarrow> if over then Some (claude_result s1) else claude_chunks cfg cs rest s1)"

definition claude_new :: "nat \<Rightarrow> claude_state" where
  "claude_new n = \<lparr>sx_text = [], sx_thinking = [], sx_in_tag = False, sx_text_id = None, sx_reasoning_id = None,
     sx_events = [], sx_next = n, cl_blocks = [], cl_current = None, cl_buf = [], cl_call_id = None,
     cl_call_name = None, cl_usage = None\<rparr>"

definition parse_claude_sse :: "sse_config \<Rightarrow> nat \<Rightarrow> chunk list \<Rightarrow> claude_parsed option" where
  "parse_claude_sse cfg n cs = claude_chunks cfg cs [] (claude_new n)"

subsection \<open>A block that ends\<close>

fun claude_events :: "sse_config \<Rightarrow> json list \<Rightarrow> claude_state \<Rightarrow> claude_state option" where
  "claude_events cfg [] s = Some s"
| "claude_events cfg (e # es) s = Option.bind (claude_event cfg e s) (claude_events cfg es)"

lemma claude_events_append:
  "claude_events cfg (es @ fs) s = Option.bind (claude_events cfg es s) (claude_events cfg fs)"
  by (induction cfg es s rule: claude_events.induct) (simp_all add: bind_assoc split: Option.bind_split)

definition typed :: "json \<Rightarrow> bool" where
  "typed v \<longleftrightarrow> jget v ''type'' \<noteq> None"

definition typed_open :: "claude_state \<Rightarrow> bool" where
  "typed_open s \<longleftrightarrow> (\<exists>b. cl_current s = Some b \<and> typed b)"

lemma typed_insert [simp]: "typed b \<Longrightarrow> typed (jinsert k v b)"
  by (cases b) (auto simp: typed_def hm_get_def [symmetric])

text \<open>An object with a member \<open>type\<close> is not of the form the reader wants.\<close>

lemma typed_is_no_block: "typed b \<Longrightarrow> block_from_json b = None"
proof (cases b)
  case (JObj kvs)
  assume "typed b"
  show ?thesis
  proof (cases kvs)
    case (Cons kv kvs')
    obtain k w where "kv = (k, w)" by (cases kv)
    with \<open>typed b\<close> JObj Cons show ?thesis
      by (cases kvs') (auto simp: typed_def block_at block_from_json.simps [of "JObj (_ # _ # _)"] split: if_splits)
  qed (simp add: JObj block_from_json.simps)
qed (simp_all add: block_from_json.simps)

lemma stop_panics: "typed_open s \<Longrightarrow> claude_block_stop cfg s = None"
  by (auto simp: typed_open_def claude_block_stop_def typed_is_no_block Let_def)

lemma start_opens:
  assumes "typed (json_index evt ''content_block'')"
  shows "typed_open (claude_block_start evt s)"
  using assms by (simp add: claude_block_start_def typed_open_def channel_defs Let_def split: option.split)

lemma channels_keep_current [simp]:
  "cl_current (emit_event ev s) = cl_current s" "cl_current (end_text s) = cl_current s" "cl_current (end_reasoning s) = cl_current s"
  by (simp_all add: channel_defs split: option.split)

lemma delta_keeps_open:
  assumes "typed_open s"
  shows "typed_open (claude_block_delta evt s)"
proof -
  obtain b where b: "cl_current s = Some b" "typed b" using assms by (auto simp: typed_open_def)
  note deltas = claude_text_delta_def claude_thinking_delta_def claude_signature_delta_def claude_input_delta_def
  show ?thesis using b
    by (simp add: claude_block_delta_def deltas typed_open_def Let_def split: option.split)
qed

lemma other_event_keeps_open:
  assumes "typed_open s" and "str_arg_or_empty evt ''type'' \<notin> {''content_block_start'', ''content_block_stop''}"
  shows "\<exists>s'. claude_event cfg evt s = Some s' \<and> typed_open s'"
proof -
  have "typed_open (claude_start_usage evt s)" "typed_open (claude_delta_usage evt s)"
    using assms(1) by (auto simp: typed_open_def claude_start_usage_def claude_delta_usage_def Let_def split: json.split prod.split)
  with assms show ?thesis by (simp add: claude_event_def Let_def delta_keeps_open)
qed

lemma others_keep_open:
  assumes "typed_open s" and "\<forall>e\<in>set es. str_arg_or_empty e ''type'' \<notin> {''content_block_start'', ''content_block_stop''}"
  shows "\<exists>s'. claude_events cfg es s = Some s' \<and> typed_open s'"
  using assms
proof (induction es arbitrary: s)
  case (Cons e es)
  obtain s1 where s1: "claude_event cfg e s = Some s1" "typed_open s1"
    using other_event_keeps_open [OF Cons.prems(1), of e cfg] Cons.prems(2) by auto
  from Cons.IH [OF s1(2)] Cons.prems(2) s1(1) show ?case by simp
qed simp

text \<open>
  C29: the parser panics when a block of a reply ends.  A block of the stream has a member \<open>type\<close>
  beside its contents, and the reader of blocks wants an object whose only key is the name of the
  variant, so that \<open>from_json\<close> fails on every block; whatever comes between the start of the block
  and its end, other blocks apart, the end is a panic.
\<close>
theorem claude_block_panics:
  assumes "str_arg start ''type'' = Some ''content_block_start''"
    and "jget (json_index start ''content_block'') ''type'' \<noteq> None"
    and "\<forall>e\<in>set between. str_arg_or_empty e ''type'' \<notin> {''content_block_start'', ''content_block_stop''}"
    and "str_arg stop ''type'' = Some ''content_block_stop''"
  shows "claude_events cfg (start # between @ [stop]) s = None"
proof -
  have "claude_event cfg start s = Some (claude_block_start start s)"
    using assms(1) by (simp add: claude_event_def str_arg_or_empty_def)
  moreover obtain s' where "claude_events cfg between (claude_block_start start s) = Some s'" "typed_open s'"
    using others_keep_open [OF start_opens assms(3), of start cfg s] assms(2) by (auto simp: typed_def)
  moreover have "claude_event cfg stop s' = claude_block_stop cfg s'"
    using assms(4) by (simp add: claude_event_def str_arg_or_empty_def)
  ultimately show ?thesis by (simp add: claude_events_append stop_panics)
qed

definition event_of :: "string \<Rightarrow> (string \<times> json) list \<Rightarrow> json" where
  "event_of kind kvs = JObj ((''type'', JStr kind) # kvs)"

definition text_start :: json where
  "text_start = event_of ''content_block_start'' [(''content_block'', JObj [(''type'', JStr ''text''), (''text'', JStr [])])]"

definition text_delta :: "string \<Rightarrow> json" where
  "text_delta t = event_of ''content_block_delta'' [(''delta'', JObj [(''type'', JStr ''text_delta''), (''text'', JStr t)])]"

definition no_calls_config :: sse_config where
  "no_calls_config = \<lparr>sc_parse = (\<lambda>_. None), sc_json_text = (\<lambda>_. []), sc_normalize = (\<lambda>_ v. v),
     sc_speculative = False, sc_apibase = []\<rparr>"

lemma claude_block_panics_witness:
  "claude_events no_calls_config [text_start, text_delta ''Hello'', event_of ''content_block_stop'' []] (claude_new 0) = None"
  using claude_block_panics [of text_start "[text_delta ''Hello'']" "event_of ''content_block_stop'' []" no_calls_config "claude_new 0"]
  by (simp add: text_start_def text_delta_def event_of_def json_index_def str_arg_def str_arg_or_empty_def)

text \<open>A block that is not ended is shown and not returned: the stream stops, or the mark comes, and the reply is empty.\<close>

lemma unfinished_text_is_dropped:
  assumes "t \<noteq> []"
  shows "map_option claude_result (claude_events cfg [text_start, text_delta t] (claude_new n)) =
     Some (the (map_option claude_finish (claude_events cfg [text_start, text_delta t] (claude_new n))), Ok [])"
    and "map_option (\<lambda>s. sx_events (claude_finish s)) (claude_events cfg [text_start, text_delta t] (claude_new n)) =
     (let i = ''t'' @ nat_text n in Some [TextStart i, TextDelta i t, TextEnd i])"
proof -
  obtain s where s: "claude_events cfg [text_start, text_delta t] (claude_new n) = Some s" "cl_blocks s = []"
    "sx_events s = [TextStart (''t'' @ nat_text n), TextDelta (''t'' @ nat_text n) t]" "sx_text_id s = Some (''t'' @ nat_text n)"
    "sx_reasoning_id s = None" "cl_call_id s = None"
    using assms by (simp add: text_start_def text_delta_def event_of_def claude_event_def claude_block_start_def
        claude_block_delta_def claude_text_delta_def json_index_def str_arg_def str_arg_or_empty_def claude_new_def
        channel_defs Let_def)
  then show "map_option claude_result (claude_events cfg [text_start, text_delta t] (claude_new n)) =
     Some (the (map_option claude_finish (claude_events cfg [text_start, text_delta t] (claude_new n))), Ok [])"
    and "map_option (\<lambda>s. sx_events (claude_finish s)) (claude_events cfg [text_start, text_delta t] (claude_new n)) =
     (let i = ''t'' @ nat_text n in Some [TextStart i, TextDelta i t, TextEnd i])"
    by (simp_all add: claude_result_def claude_finish_def announce_call_def end_text_def end_reasoning_def emit_event_def Let_def)
qed

end
