(* ===== verification/Leaked_Calls.thy ===== *)
theory Leaked_Calls
  imports Sse_Tags Audit_Trail Deliverables
begin

text \<open>
  The repair of calls a gateway has damaged, \<open>crates/oz-llm/src/stream.rs\<close>: the search for fragments
  of other call syntaxes in arguments that are no JSON, the cleaning of values into which such
  fragments have leaked, and the normalization every call of an OpenAI stream goes through.

  \<open>le_bar\<close> stands for the full-width bar of one syntax, a character outside the alphabet of these
  strings; \<open>le_parse\<close> is the JSON parser, \<open>le_first\<close> reads the first value of a text.  A slice past
  the end of a text panics: \<open>None\<close> is the panic.
\<close>

subsection \<open>Fragments\<close>

record leak_env =
  le_bar :: char
  le_parse :: "string \<Rightarrow> json option"
  le_first :: "string \<Rightarrow> json option"

definition XML_OPEN :: string where
  "XML_OPEN = ''<parameter name='' @ [CHR 0x22]"

definition XML_OPEN_ESCAPED :: string where
  "XML_OPEN_ESCAPED = ''<parameter name='' @ [CHR 0x5C, CHR 0x22]"

definition HALF_OPEN :: string where
  "HALF_OPEN = [CHR ''{'', CHR 0x22]"

definition PARAM_CLOSER :: string where
  "PARAM_CLOSER = ''</parameter>''"

definition DSML_TOKEN :: "leak_env \<Rightarrow> string" where
  "DSML_TOKEN env = le_bar env # ''DSML'' @ [le_bar env]"

definition MAX_PARAM_KEY_LEN :: nat where
  "MAX_PARAM_KEY_LEN = 80"

text \<open>The least of the indices that were found.\<close>

definition least_index :: "nat option list \<Rightarrow> nat option" where
  "least_index is = (case List.map_filter (\<lambda>i. i) is of [] \<Rightarrow> None | i # js \<Rightarrow> Some (fold min js i))"

definition dsml_marker_index :: "leak_env \<Rightarrow> string \<Rightarrow> nat option" where
  "dsml_marker_index env s =
     least_index (map (\<lambda>needle. find_str needle s)
       [''</'' @ [le_bar env] @ ''DSML'', CHR ''<'' # le_bar env # ''DSML'', le_bar env # ''/DSML'',
        CHR ''/'' # le_bar env # ''DSML'', DSML_TOKEN env, ''DSML'' @ [le_bar env]])"

definition MERGED_KEYS :: "string list" where
  "MERGED_KEYS = [''type'', ''code'', ''file_path'', ''content'', ''timeout'', ''question'']"

definition merged_calls_tail :: "string \<Rightarrow> string option \<Rightarrow> bool" where
  "merged_calls_tail t tool =
     (case Option.bind tool canonical_param_names of
        None \<Rightarrow> False
      | Some own \<Rightarrow>
          list_ex (\<lambda>k. k \<notin> set own \<and>
            (contains_str (CHR 0x22 # '', '' @ [CHR 0x22] @ k @ CHR 0x22 # ''>'') t
             \<or> contains_str (CHR '','' # CHR 0x22 # k @ CHR 0x22 # ''>'') t
             \<or> contains_str (CHR 0x22 # '', '' @ [CHR 0x22] @ k @ CHR 0x22 # '':'') t)) MERGED_KEYS)"

subsection \<open>Openers\<close>

datatype dialect = Half | Xml | Xml_Escaped

fun opener_text :: "dialect \<Rightarrow> string" where
  "opener_text Half = HALF_OPEN"
| "opener_text Xml = XML_OPEN"
| "opener_text Xml_Escaped = XML_OPEN_ESCAPED"

definition opener_quote :: "dialect \<Rightarrow> string" where
  "opener_quote d = (if d = Xml_Escaped then [CHR 0x5C, CHR 0x22] else [CHR 0x22])"

lemma opener_found:
  assumes "find_str (opener_text d) (drop pos rest) = Some p"
  shows "pos + p < length rest"
  using find_str_bound [OF assms] by (cases d) (simp_all add: HALF_OPEN_def XML_OPEN_def XML_OPEN_ESCAPED_def)

function opener_scan :: "dialect \<Rightarrow> string \<Rightarrow> nat \<Rightarrow> (nat \<times> string \<times> nat) option" where
  "opener_scan d rest pos =
     (case find_str (opener_text d) (drop pos rest) of
        None \<Rightarrow> None
      | Some p \<Rightarrow>
          (let start = pos + p; after = start + length (opener_text d) in
           case find_str (opener_quote d) (drop after rest) of
             None \<Rightarrow> None
           | Some r \<Rightarrow>
               (let key = trim (take r (drop after rest)); key_close = after + r + length (opener_quote d) in
                if key = [] \<or> length key > MAX_PARAM_KEY_LEN \<or> CHR 0x0A \<in> set key then opener_scan d rest (start + 1)
                else if d = Half then
                  (if prefix ''>'' (drop key_close rest) then Some (start, key, key_close + 1)
                   else opener_scan d rest (start + 1))
                else map_option (\<lambda>g. (start, key, key_close + g + 1)) (find_str ''>'' (drop key_close rest)))))"
  by pat_completeness auto
termination
proof (relation "measure (\<lambda>(d, rest, pos). length rest - pos)", goal_cases)
  case (2 d rest pos p start after r key key_close)
  with opener_found [of d pos rest p] show ?case by simp
next
  case (3 d rest pos p start after r key key_close)
  with opener_found [of d pos rest p] show ?case by simp
qed simp

declare opener_scan.simps [simp del]

definition better_opener :: "string \<Rightarrow> dialect \<Rightarrow> (nat \<times> string \<times> nat) option \<Rightarrow> (nat \<times> string \<times> nat) option" where
  "better_opener rest d best =
     (case opener_scan d rest 0 of
        None \<Rightarrow> best
      | Some (start, r) \<Rightarrow> if (case best of None \<Rightarrow> True | Some (b, _) \<Rightarrow> start < b) then Some (start, r) else best)"

definition next_parameter_opener :: "string \<Rightarrow> (nat \<times> string \<times> nat) option" where
  "next_parameter_opener rest = fold (better_opener rest) [Half, Xml, Xml_Escaped] None"

lemma opener_scan_bounds: "opener_scan d rest pos = Some (start, key, vs) \<Longrightarrow> start < vs \<and> start < length rest"
proof (induction d rest pos rule: opener_scan.induct)
  case (1 d rest pos)
  obtain p where p: "find_str (opener_text d) (drop pos rest) = Some p"
    using 1(3) by (subst (asm) opener_scan.simps) (auto split: option.splits)
  obtain r where r: "find_str (opener_quote d) (drop (pos + p + length (opener_text d)) rest) = Some r"
    using 1(3) p by (subst (asm) opener_scan.simps) (auto simp: Let_def split: option.splits)
  note IH = 1(1) [OF p refl refl r refl refl] 1(2) [OF p refl refl r refl refl]
  have "pos + p < length rest" by (rule opener_found [OF p])
  with 1(3) p r IH show ?case
    by (subst (asm) opener_scan.simps) (simp add: Let_def split: if_splits, auto)
qed

lemma next_opener_bounds:
  assumes "next_parameter_opener rest = Some (start, key, vs)"
  shows "0 < vs" and "rest \<noteq> []"
proof -
  have "\<exists>d. opener_scan d rest 0 = Some (start, key, vs)"
    using assms by (auto simp: next_parameter_opener_def better_opener_def split: option.splits if_splits prod.splits)
  then show "0 < vs" "rest \<noteq> []" by (auto dest: opener_scan_bounds)
qed

subsection \<open>Values\<close>

text \<open>Where a JSON string that has been opened ends.\<close>

fun quote_end :: "string \<Rightarrow> nat option" where
  "quote_end [] = None"
| "quote_end (c # cs) =
     (if c = CHR 0x5C then (case cs of [] \<Rightarrow> None | _ # ds \<Rightarrow> map_option (\<lambda>i. i + 2) (quote_end ds))
      else if c = CHR 0x22 then Some 0
      else map_option Suc (quote_end cs))"

definition parse_string :: "leak_env \<Rightarrow> string \<Rightarrow> string option" where
  "parse_string env t = Option.bind (le_parse env t) as_str"

definition extract_json_string :: "leak_env \<Rightarrow> string \<Rightarrow> string option" where
  "extract_json_string env t =
     (case strip_prefix [CHR 0x22] (trim_start t) of
        None \<Rightarrow> None
      | Some quoted \<Rightarrow>
          (case quote_end quoted of
             None \<Rightarrow> None
           | Some i \<Rightarrow> parse_string env (CHR 0x22 # take i quoted @ [CHR 0x22])))"

text \<open>The outer option tells whether the search is over.\<close>

function nameless_dsml :: "leak_env \<Rightarrow> string \<Rightarrow> string option option" where
  "nameless_dsml env s =
     (case find_str (DSML_TOKEN env) s of
        None \<Rightarrow> None
      | Some p \<Rightarrow>
          (let after = drop (p + length (DSML_TOKEN env)) s in
           if prefix ''parameter'' (trim_start after) then nameless_dsml env after
           else Some (Option.bind (strip_prefix '':'' (trim_start after)) (\<lambda>r. extract_json_string env (trim_start r)))))"
  by pat_completeness auto
termination
  by (relation "measure (\<lambda>(env, s). length s)") (auto simp: DSML_TOKEN_def dest!: find_str_bound)

declare nameless_dsml.simps [simp del]

definition nameless_opener :: "leak_env \<Rightarrow> string \<Rightarrow> string \<Rightarrow> string option" where
  "nameless_opener env s opener =
     (case find_str opener s of
        None \<Rightarrow> None
      | Some p \<Rightarrow>
          (let after = trim_start (drop (p + length opener) s) in
           extract_json_string env (trim_start
             (case strip_prefix ''>'' after of
                Some r \<Rightarrow> r
              | None \<Rightarrow> (case strip_prefix '':'' after of Some r \<Rightarrow> r | None \<Rightarrow> after)))))"

fun first_some :: "('a \<Rightarrow> 'b option) \<Rightarrow> 'a list \<Rightarrow> 'b option" where
  "first_some f [] = None"
| "first_some f (x # xs) = (case f x of Some y \<Rightarrow> Some y | None \<Rightarrow> first_some f xs)"

definition extract_nameless_dsml_value :: "leak_env \<Rightarrow> string \<Rightarrow> string option" where
  "extract_nameless_dsml_value env s =
     (case nameless_dsml env s of
        Some r \<Rightarrow> r
      | None \<Rightarrow> first_some (nameless_opener env s) [''<parameter:'', ''<parameter :'', ''<parameter >''])"

subsection \<open>Named fragments in a value\<close>

definition fragment_key :: "string \<Rightarrow> (string \<times> nat) option" where
  "fragment_key after =
     (case strip_prefix [CHR 0x5C, CHR 0x22] after of
        Some r \<Rightarrow> map_option (\<lambda>e. (take e r, e + 4)) (find_str [CHR 0x5C, CHR 0x22] r)
      | None \<Rightarrow>
          (case strip_prefix [CHR 0x22] after of
             None \<Rightarrow> None
           | Some r \<Rightarrow> map_option (\<lambda>e. (take e r, e + 2)) (find_str [CHR 0x22] r)))"

text \<open>A value that is empty is taken to be one character long, which is past the end of the text when it stops there.\<close>

definition fragment_value :: "string \<Rightarrow> string" where
  "fragment_value t = (case find_str PARAM_CLOSER t of Some e \<Rightarrow> take e t | None \<Rightarrow> t)"

function extract_dsml_params :: "leak_env \<Rightarrow> string \<Rightarrow> (string \<times> string) list option" where
  "extract_dsml_params env t =
     (case find_str (DSML_TOKEN env) t of
        None \<Rightarrow> Some []
      | Some p \<Rightarrow>
          (let seg = drop p t; skipped = drop (p + length (DSML_TOKEN env)) t in
           case find_str ''parameter name='' seg of
             None \<Rightarrow> extract_dsml_params env skipped
           | Some kpos \<Rightarrow>
               (let after = drop (kpos + 15) seg in
                case fragment_key after of
                  None \<Rightarrow> extract_dsml_params env skipped
                | Some (key, key_end) \<Rightarrow>
                    (case find_str ''>'' (drop key_end after) of
                       None \<Rightarrow> extract_dsml_params env skipped
                     | Some vrel \<Rightarrow>
                         (let vs = kpos + 15 + key_end + vrel + 1; value = fragment_value (drop vs seg);
                              next = p + vs + max (length value) 1 in
                          if next > length t then None
                          else map_option (\<lambda>r. (if key \<noteq> [] then [(key, value)] else []) @ r)
                                 (extract_dsml_params env (drop next t)))))))"
  by pat_completeness auto
termination
  by (relation "measure (\<lambda>(env, t). length t)") (auto simp: DSML_TOKEN_def dest!: find_str_bound)

declare extract_dsml_params.simps [simp del]

subsection \<open>Salvage\<close>

definition first_value :: "leak_env \<Rightarrow> string \<Rightarrow> json option" where
  "first_value env t =
     (let trimmed = trim_start t in
      case trimmed of
        [] \<Rightarrow> None
      | c # _ \<Rightarrow>
          if c \<in> set (CHR 0x22 # ''[{-tfn'') \<or> is_ascii_digit c then le_first env trimmed else None)"

definition salvage_keys :: "string option \<Rightarrow> string list" where
  "salvage_keys tool =
     (if tool = Some ''respond'' then [''response'']
      else (case Option.bind tool canonical_param_names of Some ks \<Rightarrow> ks | None \<Rightarrow> []))"

definition strip_sep :: "char \<Rightarrow> string \<Rightarrow> string" where
  "strip_sep c s = (case strip_prefix [c] s of Some r \<Rightarrow> trim_start r | None \<Rightarrow> s)"

function strip_seps :: "leak_env \<Rightarrow> string \<Rightarrow> string" where
  "strip_seps env s =
     (let t = fold strip_sep [CHR '':'', CHR ''>'', le_bar env, CHR ''|'', CHR ''=''] s in
      if length t < length s then strip_seps env t else t)"
  by pat_completeness auto
termination
  by (relation "measure (\<lambda>(env, s). length s)") auto

declare strip_seps.simps [simp del]

definition at_key_place :: "string \<Rightarrow> bool" where
  "at_key_place before \<longleftrightarrow> before = [] \<or> is_ws (last before) \<or> last before \<in> set ''{,;>]''"

definition value_boundary :: "leak_env \<Rightarrow> string \<Rightarrow> nat" where
  "value_boundary env after =
     (case least_index [find_str ''</parameter>'' after, find_str ''<parameter'' after, dsml_marker_index env after,
          find_str [CHR 0x0A] after] of
        Some i \<Rightarrow> i | None \<Rightarrow> length after)"

text \<open>What one occurrence of a key is worth: the value that follows, a quoted value after a short gap, or the bare text.\<close>

definition quoted_value :: "leak_env \<Rightarrow> string \<Rightarrow> json option" where
  "quoted_value env after =
     (case find_str [CHR 0x22] after of
        Some q \<Rightarrow> if q < value_boundary env after \<and> q \<le> 64 then first_value env (drop q after) else None
      | None \<Rightarrow> None)"

definition field_value :: "leak_env \<Rightarrow> string \<Rightarrow> json option" where
  "field_value env after =
     (if after = [] then None
      else case first_value env after of
        Some v \<Rightarrow> Some v
      | None \<Rightarrow>
          (case quoted_value env after of
             Some v \<Rightarrow> Some v
           | None \<Rightarrow>
               (let value = trim (trim_matches (\<lambda>c. c = CHR '','' \<or> c = CHR ''}'') (trim (take (value_boundary env after) after))) in
                if value \<noteq> [] \<and> length value \<le> 16 * 1024 then Some (JStr value) else None)))"

function field_values :: "leak_env \<Rightarrow> string \<Rightarrow> string \<Rightarrow> nat \<Rightarrow> json list" where
  "field_values env raw key pos =
     (let needle = CHR 0x22 # key @ [CHR 0x22] in
      case find_str needle (drop pos raw) of
        None \<Rightarrow> []
      | Some rel \<Rightarrow>
          (let next = pos + rel + length needle in
           (if at_key_place (take (pos + rel) raw)
            then (case field_value env (strip_seps env (trim_start (drop next raw))) of Some v \<Rightarrow> [v] | None \<Rightarrow> [])
            else []) @ field_values env raw key next))"
  by pat_completeness auto
termination
  by (relation "measure (\<lambda>(env, raw, key, pos). length raw - pos)") (auto dest!: find_str_bound)

declare field_values.simps [simp del]

definition pick_step :: "json \<Rightarrow> string option \<times> json option \<Rightarrow> string option \<times> json option" where
  "pick_step v best =
     (let keep = (fst best, Some (case snd best of Some w \<Rightarrow> w | None \<Rightarrow> v)) in
      case v of
        JStr s \<Rightarrow>
          if trim s \<noteq> []
          then (if (case fst best of None \<Rightarrow> True | Some b \<Rightarrow> length s > length b) then Some s else fst best, snd best)
          else keep
      | JNull \<Rightarrow> best
      | _ \<Rightarrow> keep)"

definition pick_field_value :: "json list \<Rightarrow> json option" where
  "pick_field_value vs =
     (case fold pick_step vs (None, None) of (Some s, _) \<Rightarrow> Some (JStr s) | (None, c) \<Rightarrow> c)"

definition MERGED_REASON :: string where
  "MERGED_REASON = ''the gateway merged several tool calls into one arguments blob; its fields cannot be attributed to this call''"

definition salvage_leaked_fields :: "leak_env \<Rightarrow> string \<Rightarrow> string option \<Rightarrow> (string, json) hash_map" where
  "salvage_leaked_fields env raw tool =
     (let keys = salvage_keys tool in
      if keys = [] then hm_empty
      else if merged_calls_tail raw tool then [(CORRUPT_CALL_KEY, JStr MERGED_REASON)]
      else
        (let acc = fold (\<lambda>key m. case pick_field_value (field_values env raw key 0) of Some v \<Rightarrow> hm_insert key v m | None \<Rightarrow> m)
               keys hm_empty in
         case extract_nameless_dsml_value env raw of
           Some value \<Rightarrow>
             (case find (\<lambda>k. hm_get k acc = None) keys of Some key \<Rightarrow> hm_insert key (JStr value) acc | None \<Rightarrow> acc)
         | None \<Rightarrow> acc))"

subsection \<open>Arguments that are no JSON\<close>

fun unwrap_args :: "leak_env \<Rightarrow> nat \<Rightarrow> string \<Rightarrow> string" where
  "unwrap_args env 0 s = s"
| "unwrap_args env (Suc n) s =
     (if \<not> prefix [CHR 0x22] s then s
      else case parse_string env s of
        Some inner \<Rightarrow> if CHR ''{'' \<in> set inner \<or> contains_str ''<parameter'' inner then unwrap_args env n inner else s
      | None \<Rightarrow> s)"

definition or_insert :: "'k \<times> 'v \<Rightarrow> ('k, 'v) hash_map \<Rightarrow> ('k, 'v) hash_map" where
  "or_insert kv m = (if hm_get (fst kv) m = None then hm_insert (fst kv) (snd kv) m else m)"

definition leak_marker :: "leak_env \<Rightarrow> string \<Rightarrow> bool" where
  "leak_marker env s \<longleftrightarrow>
     contains_str XML_OPEN s \<or> contains_str XML_OPEN_ESCAPED s \<or> contains_str (CHR 0x22 # ''>'') s
     \<or> contains_str [CHR 0x22, le_bar env, CHR ''>''] s \<or> contains_str (CHR 0x22 # ''|>'') s
     \<or> contains_str ''<parameter:'' s"

text \<open>The object is rebuilt from the key of the first opener and what follows from the next quote.\<close>

definition rebuilt_args :: "leak_env \<Rightarrow> string \<Rightarrow> (string, json) hash_map \<Rightarrow> (string, json) hash_map option" where
  "rebuilt_args env s salvaged =
     (case next_parameter_opener s of
        None \<Rightarrow> None
      | Some (_, key, vs) \<Rightarrow>
          (case find_str [CHR 0x22] (drop vs s) of
             None \<Rightarrow> None
           | Some q \<Rightarrow>
               if contains_str PARAM_CLOSER (take q (drop vs s)) then None
               else (let candidate = ''{'' @ [CHR 0x22] @ key @ [CHR 0x22] @ '': '' @ drop (vs + q) s;
                         whole = (if le_parse env candidate = None then candidate @ ''}'' else candidate) in
                 case le_parse env whole of
                   Some (JObj m) \<Rightarrow> Some (fold or_insert (sort_key fst salvaged) m)
                 | _ \<Rightarrow> None)))"

definition pair_end :: "string \<Rightarrow> nat" where
  "pair_end body =
     fold (\<lambda>marker e. case find_str marker body of Some p \<Rightarrow> if p < e then p else e | None \<Rightarrow> e)
       [PARAM_CLOSER, XML_OPEN, XML_OPEN_ESCAPED, HALF_OPEN] (length body)"

definition torn_value :: "string \<Rightarrow> string" where
  "torn_value value =
     (let v1 = trim_end_matches CHR 0x22 value in
      if suffix [CHR 0x22] value
      then (case strip_suffix '':'' (trim_end v1) of Some st \<Rightarrow> trim_end st | None \<Rightarrow> v1)
      else v1)"

function leaked_pairs :: "string \<Rightarrow> (string, json) hash_map \<Rightarrow> (string, json) hash_map" where
  "leaked_pairs rest acc =
     (case next_parameter_opener rest of
        None \<Rightarrow> acc
      | Some (_, key, vs) \<Rightarrow>
          (let body = drop vs rest; e = pair_end body; value = trim (take e body);
               value' = (if e = length body then torn_value value else value);
               adv = vs + e;
               adv' = (if prefix PARAM_CLOSER (drop adv rest) then adv + length PARAM_CLOSER else adv) in
           leaked_pairs (drop adv' rest) (hm_insert key (JStr value') acc)))"
  by pat_completeness auto
termination
  by (relation "measure (\<lambda>(rest, acc). length rest)") (auto dest: next_opener_bounds intro!: diff_less)

declare leaked_pairs.simps [simp del]

definition name_the_nameless :: "leak_env \<Rightarrow> string \<Rightarrow> string option \<Rightarrow> (string, json) hash_map \<Rightarrow> (string, json) hash_map" where
  "name_the_nameless env s tool acc =
     (if acc = [] then acc
      else case extract_nameless_dsml_value env s of
        None \<Rightarrow> acc
      | Some v \<Rightarrow>
          (case Option.bind tool canonical_param_names of
             None \<Rightarrow> acc
           | Some names \<Rightarrow>
               (case find (\<lambda>k. hm_get k acc = None) names of Some slot \<Rightarrow> hm_insert slot (JStr v) acc | None \<Rightarrow> acc)))"

definition repair_parameter_style_args :: "leak_env \<Rightarrow> string \<Rightarrow> string option \<Rightarrow> json option" where
  "repair_parameter_style_args env raw tool =
     (let s = trim (unwrap_args env 2 (trim raw)) in
      if s = [] then None
      else (let salvaged = salvage_leaked_fields env s tool in
        if \<not> leak_marker env s \<and> salvaged = [] then None
        else case rebuilt_args env s salvaged of
          Some m \<Rightarrow> Some (JObj m)
        | None \<Rightarrow>
            (let acc = name_the_nameless env s tool (fold or_insert (sort_key fst salvaged) (leaked_pairs s hm_empty)) in
             if acc = [] then None else Some (JObj acc))))"

subsection \<open>Values with fragments\<close>

definition pollution_at :: "leak_env \<Rightarrow> string \<Rightarrow> nat option" where
  "pollution_at env s =
     (case least_index [find_str ''</parameter>'' s, find_str ''<parameter'' s, dsml_marker_index env s] of
        None \<Rightarrow> None
      | Some b \<Rightarrow>
          if contains_str ''<parameter'' (drop b s) \<or> dsml_marker_index env (drop b s) \<noteq> None then Some b else None)"

definition clean_value :: "leak_env \<Rightarrow> json \<Rightarrow> json" where
  "clean_value env v =
     (case v of
        JStr s \<Rightarrow> (case pollution_at env s of Some b \<Rightarrow> JStr (trim_end (take b s)) | None \<Rightarrow> v)
      | _ \<Rightarrow> v)"

definition polluted_tails :: "leak_env \<Rightarrow> (string, json) hash_map \<Rightarrow> string list" where
  "polluted_tails env m =
     List.map_filter (\<lambda>(k, v). case v of JStr s \<Rightarrow> map_option (\<lambda>b. drop b s) (pollution_at env s) | _ \<Rightarrow> None) (sort_key fst m)"

fun lifted_fields :: "leak_env \<Rightarrow> string list \<Rightarrow> (string \<times> string) list option" where
  "lifted_fields env [] = Some []"
| "lifted_fields env (t # ts) =
     Option.bind (extract_dsml_params env t) (\<lambda>ps. map_option (\<lambda>qs. ps @ qs) (lifted_fields env ts))"

definition sanitize_dsml_pollution :: "leak_env \<Rightarrow> json \<Rightarrow> string option \<Rightarrow> json option" where
  "sanitize_dsml_pollution env v tool =
     (case v of
        JObj m \<Rightarrow>
          map_option (\<lambda>lifted.
            (let m1 = fold or_insert (map (\<lambda>(k, t). (k, JStr t)) lifted) (map (\<lambda>(k, v). (k, clean_value env v)) m) in
             JObj (if list_ex (\<lambda>t. merged_calls_tail t tool) (polluted_tails env m)
                   then hm_insert CORRUPT_CALL_KEY (JStr MERGED_REASON) m1 else m1)))
            (lifted_fields env (polluted_tails env m))
      | _ \<Rightarrow> Some v)"

subsection \<open>Normalization\<close>

text \<open>One round: the inner object of a wrapped one, or \<open>None\<close> inside when there is nothing to unwrap.\<close>

definition unwrap_round :: "leak_env \<Rightarrow> string option \<Rightarrow> json \<Rightarrow> json option option" where
  "unwrap_round env tool v =
     (case v of
        JStr s \<Rightarrow>
          (case le_parse env s of
             Some (JObj m) \<Rightarrow> map_option Some (sanitize_dsml_pollution env (JObj m) tool)
           | _ \<Rightarrow> Some (repair_parameter_style_args env s None))
      | JObj [(k, w)] \<Rightarrow>
          if k = ''content'' then
            (case w of
               JStr s \<Rightarrow> Some (case le_parse env s of Some (JObj m) \<Rightarrow> Some (JObj m) | _ \<Rightarrow> None)
             | JObj m \<Rightarrow> Some (Some (JObj m))
             | _ \<Rightarrow> Some None)
          else Some None
      | _ \<Rightarrow> Some None)"

fun unwrap_rounds :: "leak_env \<Rightarrow> string option \<Rightarrow> nat \<Rightarrow> json \<Rightarrow> json option" where
  "unwrap_rounds env tool 0 v = Some v"
| "unwrap_rounds env tool (Suc n) v =
     (case unwrap_round env tool v of
        None \<Rightarrow> None
      | Some None \<Rightarrow> Some v
      | Some (Some w) \<Rightarrow> unwrap_rounds env tool n w)"

definition normalize_tool_args_inner :: "leak_env \<Rightarrow> json \<Rightarrow> string option \<Rightarrow> json option" where
  "normalize_tool_args_inner env v tool =
     Option.bind (if is_object v then sanitize_dsml_pollution env v tool else Some v) (unwrap_rounds env tool 4)"

definition normalize_tool_args :: "leak_env \<Rightarrow> json \<Rightarrow> json option" where
  "normalize_tool_args env v = normalize_tool_args_inner env v None"

definition repaired_source :: "leak_env \<Rightarrow> string \<Rightarrow> json \<Rightarrow> json" where
  "repaired_source env tool v =
     (case v of
        JStr s \<Rightarrow>
          (case (case le_parse env s of Some (JStr inner) \<Rightarrow> Some inner | Some _ \<Rightarrow> None | None \<Rightarrow> Some s) of
             None \<Rightarrow> v
           | Some source \<Rightarrow>
               (case repair_parameter_style_args env source (Some tool) of Some w \<Rightarrow> w | None \<Rightarrow> v))
      | _ \<Rightarrow> v)"

definition normalize_tool_args_for :: "leak_env \<Rightarrow> string \<Rightarrow> json \<Rightarrow> json option" where
  "normalize_tool_args_for env tool v =
     map_option (canonicalize_tool_args tool) (normalize_tool_args_inner env (repaired_source env tool v) (Some tool))"

subsection \<open>Where fragments begin\<close>

lemma no_bar: "le_bar env \<notin> set s \<Longrightarrow> dsml_marker_index env s = None"
  by (simp add: dsml_marker_index_def DSML_TOKEN_def find_str_char [where c = "le_bar env"] least_index_def List.map_filter_def)


lemma clean_text: "le_bar env \<notin> set s \<Longrightarrow> CHR ''<'' \<notin> set s \<Longrightarrow> pollution_at env s = None"
  by (simp add: pollution_at_def no_bar find_str_char [where c = "CHR ''<''"] least_index_def List.map_filter_def)

lemma in_polluted_tails:
  "t \<in> set (polluted_tails env m) \<longleftrightarrow> (\<exists>k s b. (k, JStr s) \<in> set m \<and> pollution_at env s = Some b \<and> t = drop b s)"
proof -
  have "t \<in> set (List.map_filter f xs) \<longleftrightarrow> (\<exists>x \<in> set xs. f x = Some t)" for f :: "string \<times> json \<Rightarrow> string option" and xs
    by (induction xs) (auto split: option.split)
  then show ?thesis by (fastforce simp: polluted_tails_def split: json.splits)
qed

lemma lifted_panics: "t \<in> set ts \<Longrightarrow> extract_dsml_params env t = None \<Longrightarrow> lifted_fields env ts = None"
  by (induction ts) (auto split: Option.bind_split)

subsection \<open>Arguments without fragments\<close>

definition no_fragment :: "leak_env \<Rightarrow> json \<Rightarrow> bool" where
  "no_fragment env v \<longleftrightarrow> (case v of JStr s \<Rightarrow> pollution_at env s = None | _ \<Rightarrow> True)"

lemma no_fragment_value: "no_fragment env v \<Longrightarrow> clean_value env v = v"
  by (auto simp: no_fragment_def clean_value_def split: json.splits option.splits)

lemma no_fragment_sanitize:
  assumes "\<forall>kv \<in> set m. no_fragment env (snd kv)"
  shows "sanitize_dsml_pollution env (JObj m) tool = Some (JObj m)"
proof -
  have "map (\<lambda>(k, v). (k, clean_value env v)) m = m"
    using assms by (intro map_idI) (auto simp: no_fragment_value)
  moreover have "t \<notin> set (polluted_tails env m)" for t
    using assms unfolding in_polluted_tails by (force simp: no_fragment_def)
  then have "polluted_tails env m = []" using last_in_set by blast
  ultimately show ?thesis by (simp add: sanitize_dsml_pollution_def)
qed

lemma no_wrapper: "\<forall>w. m \<noteq> [(''content'', w)] \<Longrightarrow> unwrap_rounds env tool n (JObj m) = Some (JObj m)"
  by (cases n) (auto simp: unwrap_round_def split: list.split)

text \<open>
  C28: a call whose arguments are in order is only moved onto the canonical names: an object that has no
  fragment of another syntax in its texts, and is no wrapper of a single \<open>content\<close>, goes through the
  repair unchanged.
\<close>
theorem clean_call_is_kept:
  assumes "\<forall>kv \<in> set m. no_fragment env (snd kv)" and "map fst m \<noteq> [''content'']"
  shows "normalize_tool_args_for env tool (JObj m) = Some (canonicalize_tool_args tool (JObj m))"
proof -
  have "\<forall>w. m \<noteq> [(''content'', w)]" using assms(2) by auto
  then show ?thesis
    by (simp add: normalize_tool_args_for_def repaired_source_def normalize_tool_args_inner_def is_object_def
        no_fragment_sanitize [OF assms(1)] no_wrapper del: unwrap_rounds.simps)
qed

definition plain_env :: leak_env where
  "plain_env = \<lparr>le_bar = CHR 0xFF, le_parse = (\<lambda>_. None), le_first = (\<lambda>_. None)\<rparr>"

theorem clean_call_is_kept_witness:
  "normalize_tool_args_for plain_env ''run'' (JObj [(''cmd'', JStr ''ls -l'')]) =
     Some (canonicalize_tool_args ''run'' (JObj [(''cmd'', JStr ''ls -l'')]))"
proof -
  have "pollution_at plain_env ''ls -l'' = None" by (rule clean_text) (simp_all add: plain_env_def)
  then have "no_fragment plain_env (JStr ''ls -l'')" by (simp add: no_fragment_def)
  then show ?thesis using clean_call_is_kept [of "[(''cmd'', JStr ''ls -l'')]" plain_env "''run''"] by simp
qed

subsection \<open>Calls that were merged\<close>

lemma hm_get_or_insert: "hm_get k (or_insert kv m) = (case hm_get k m of Some v \<Rightarrow> Some v | None \<Rightarrow> if k = fst kv then Some (snd kv) else None)"
  by (auto simp: or_insert_def split: option.split)

lemma or_insert_nonempty: "or_insert kv m \<noteq> []"
  by (cases m) (auto simp: or_insert_def hm_get_def hm_insert_def)

lemma or_insert_keeps: "hm_get k m = Some v \<Longrightarrow> hm_get k (fold or_insert kvs m) = Some v"
  by (induction kvs arbitrary: m) (simp_all add: hm_get_or_insert)







text \<open>The same for arguments that are no JSON: what the repair makes of a merged text bears the mark.\<close>

lemma tools_with_names: "canonical_param_names tool = Some own \<Longrightarrow> own \<noteq> []"
  using groups_for_ok [of tool] by (auto simp: canonical_param_names_def table_ok_def)

lemma respond_has_no_names: "canonical_param_names ''respond'' = None"
  by code_simp

lemma merged_text_is_marked:
  assumes "merged_calls_tail (trim (unwrap_args env 2 (trim raw))) (Some tool)"
  shows "case repair_parameter_style_args env raw (Some tool) of Some (JObj m) \<Rightarrow> hm_get CORRUPT_CALL_KEY m \<noteq> None | _ \<Rightarrow> False"
proof -
  define s where "s = trim (unwrap_args env 2 (trim raw))"
  have m: "merged_calls_tail s (Some tool)" using assms by (simp add: s_def)
  then obtain own where own: "canonical_param_names tool = Some own" by (auto simp: merged_calls_tail_def split: option.splits)
  have "s \<noteq> []" using m by (auto simp: merged_calls_tail_def list_ex_iff split: option.splits)
  have salvaged: "salvage_leaked_fields env s (Some tool) = [(CORRUPT_CALL_KEY, JStr MERGED_REASON)]"
    using m own tools_with_names [OF own] respond_has_no_names
    by (auto simp: salvage_leaked_fields_def salvage_keys_def Let_def)
  let ?acc = "or_insert (CORRUPT_CALL_KEY, JStr MERGED_REASON) (leaked_pairs s hm_empty)"
  have mark: "hm_get CORRUPT_CALL_KEY (or_insert (CORRUPT_CALL_KEY, JStr MERGED_REASON) m) \<noteq> None" for m
    by (simp add: hm_get_or_insert split: option.split)
  have "hm_get k m \<noteq> None \<Longrightarrow> hm_get k (name_the_nameless env s (Some tool) m) \<noteq> None" for k and m :: "(string, json) hash_map"
    by (cases "m = []") (simp_all add: name_the_nameless_def split: option.split)
  with mark have "hm_get CORRUPT_CALL_KEY (name_the_nameless env s (Some tool) ?acc) \<noteq> None" by blast
  moreover from this have "name_the_nameless env s (Some tool) ?acc \<noteq> []" by (auto simp: hm_get_def)
  moreover have "rebuilt_args env s [(CORRUPT_CALL_KEY, JStr MERGED_REASON)] = Some m \<Longrightarrow> hm_get CORRUPT_CALL_KEY m \<noteq> None" for m
    using mark by (auto simp: rebuilt_args_def Let_def split: option.splits if_splits json.splits)
  ultimately show ?thesis
    using \<open>s \<noteq> []\<close> salvaged by (simp add: repair_parameter_style_args_def s_def [symmetric] Let_def split: option.split)
qed

subsection \<open>Texts that are cut\<close>




lemma params_panic:
  assumes "find_str (DSML_TOKEN env) t = Some p" and "find_str ''parameter name='' (drop p t) = Some kpos"
    and "fragment_key (drop (kpos + 15) (drop p t)) = Some (key, ke)"
    and "find_str ''>'' (drop ke (drop (kpos + 15) (drop p t))) = Some v"
    and "length (drop p t) = kpos + 15 + ke + v + 1"
  shows "extract_dsml_params env t = None"
proof -
  have "p \<le> length t" using find_str_bound [OF assms(1)] by simp
  with assms(5) have "length t < p + (kpos + 15 + ke + v + 1) + max n 1" for n by simp
  with assms(1-4) show ?thesis
    by (subst extract_dsml_params.simps) (simp add: Let_def del: drop_drop)
qed

lemma least_index_None: "least_index is = None \<longleftrightarrow> (\<forall>i. Some i \<notin> set is)"
proof -
  have "List.map_filter (\<lambda>i. i) is = [] \<longleftrightarrow> (\<forall>i. Some i \<notin> set is)" for "is" :: "nat option list"
    by (induction "is") (auto split: option.split)
  note this [of "is"]
  then show ?thesis by (cases "List.map_filter (\<lambda>i. i) is") (simp_all add: least_index_def)
qed

lemma least_index_Some: "least_index is = Some j \<longleftrightarrow> Some j \<in> set is \<and> (\<forall>i. Some i \<in> set is \<longrightarrow> j \<le> i)"
proof -
  have found: "i \<in> set (List.map_filter (\<lambda>i. i) is) \<longleftrightarrow> Some i \<in> set is" for i :: nat
    by (induction "is") (auto split: option.split)
  show ?thesis
  proof (cases "List.map_filter (\<lambda>i. i) is")
    case Nil
    with found show ?thesis by (auto simp: least_index_def)
  next
    case (Cons i js)
    have "fold min js i = j \<longleftrightarrow> j \<in> set (i # js) \<and> (\<forall>k \<in> set (i # js). j \<le> k)"
      unfolding Min.set_eq_fold [symmetric] by (rule Min_eq_iff) simp_all
    then have "fold min js i = j \<longleftrightarrow> Some j \<in> set is \<and> (\<forall>i. Some i \<in> set is \<longrightarrow> j \<le> i)"
      using found Cons by (metis list.set_intros(1))
    then show ?thesis using Cons by (simp add: least_index_def)
  qed
qed

text \<open>A needle is not found before its bar can be.\<close>

lemma bar_index:
  assumes "find_str (pre @ c # post) (u @ w) = Some i" and "c \<notin> set u"
  shows "length u \<le> i + length pre"
proof (rule ccontr)
  assume "\<not> length u \<le> i + length pre"
  moreover obtain r where "drop i (u @ w) = (pre @ c # post) @ r" using find_str_prefix [OF assms(1)] by (auto simp: prefix_def)
  then have "drop i (u @ w) ! length pre = c" by (simp add: nth_append)
  ultimately have "u ! (i + length pre) = c" by (simp add: nth_append less_diff_conv add.commute)
  with \<open>\<not> length u \<le> i + length pre\<close> assms(2) show False using nth_mem [of "i + length pre" u] by simp
qed

lemma marker_after:
  assumes "le_bar env \<notin> set u" and "dsml_marker_index env (u @ w) = Some i"
  shows "length u \<le> i + 4"
proof -
  note b = bar_index [where c = "le_bar env" and u = u and w = w and i = i]
  from assms(2) show ?thesis
    using b [of "''</''" "''DSML''"] b [of "''<''" "''DSML''"] b [of "[]" "''/DSML''"] b [of "''/''" "''DSML''"]
      b [of "[]" "''DSML'' @ [le_bar env]"] b [of "''DSML''" "[]"] assms(1)
    by (auto simp: dsml_marker_index_def least_index_Some DSML_TOKEN_def)
qed

text \<open>
  A call that stops at the opening of a fragment panics.  When a text of its arguments ends with
  the closing tag of a parameter and the opening tag of the next, the empty value behind it is
  taken to be one character long and the search goes on past the end of the text.
\<close>
theorem truncated_fragment_panics:
  assumes "(k, JStr (a @ ''</parameter>'' @ DSML_TOKEN env @ '' parameter name='' @ [CHR 0x22] @ key @ [CHR 0x22] @ ''>'')) \<in> set m"
    and "127 < (of_char (le_bar env) :: nat)" and "le_bar env \<notin> set a" and "CHR ''<'' \<notin> set a" and "CHR 0x22 \<notin> set key"
  shows "normalize_tool_args_for env tool (JObj m) = None"
proof -
  let ?seg = "DSML_TOKEN env @ '' parameter name='' @ [CHR 0x22] @ key @ [CHR 0x22] @ ''>''"
  let ?t = "''</parameter>'' @ ?seg"
  have ascii: "le_bar env \<noteq> c" if "(of_char c :: nat) \<le> 127" for c using assms(2) that by auto
  have bar: "le_bar env \<notin> set ''</parameter>''" using ascii by simp
  have marker: "find_str (DSML_TOKEN env) ?t = Some 12"
    using find_str_skip [OF bar, of "''DSML'' @ [le_bar env]" ?seg] by (simp add: DSML_TOKEN_def)
  have name: "find_str ''parameter name='' ?seg = Some 7"
    using find_str_skip [of "CHR ''p''" "DSML_TOKEN env @ '' ''" "''arameter name=''" "''parameter name='' @ [CHR 0x22] @ key @ [CHR 0x22] @ ''>''"]
      ascii by (simp add: DSML_TOKEN_def)
  have quote: "find_str [CHR 0x22] (key @ [CHR 0x22] @ ''>'') = Some (length key)"
    using find_str_skip [OF assms(5), of "[]" "[CHR 0x22] @ ''>''"] by simp
  have seg: "drop 12 ?t = ?seg" "drop (7 + 15) ?seg = [CHR 0x22] @ key @ [CHR 0x22] @ ''>''" by (simp_all add: DSML_TOKEN_def)
  have "fragment_key ([CHR 0x22] @ key @ [CHR 0x22] @ ''>'') = Some (key, length key + 2)"
    using quote by (simp add: fragment_key_def strip_prefix_def)
  then have params: "extract_dsml_params env ?t = None"
    using marker name
    by (rule_tac params_panic [of env ?t 12 7 key "length key + 2" 0]) (unfold seg, simp_all add: DSML_TOKEN_def)
  define T where "T = ?t"
  have "pollution_at env (a @ T) = Some (length a)"
  proof -
    have "find_str ''</parameter>'' (a @ T) = Some (length a)" unfolding T_def by (subst find_str_skip [OF assms(4)]) simp
    moreover have "length a \<le> i" if "find_str ''<parameter'' (a @ T) = Some i" for i
      using that by (subst (asm) find_str_skip [OF assms(4)]) auto
    moreover have "length a \<le> i" if "dsml_marker_index env (a @ T) = Some i" for i
      using marker_after [of env "a @ ''</parameter>''" ?seg i] that assms(3) bar by (simp add: T_def)
    ultimately have "least_index [find_str ''</parameter>'' (a @ T), find_str ''<parameter'' (a @ T), dsml_marker_index env (a @ T)]
        = Some (length a)"
      unfolding least_index_Some by simp
    moreover have "dsml_marker_index env T \<noteq> None"
      using marker by (auto simp: T_def dsml_marker_index_def least_index_None)
    ultimately show ?thesis by (simp add: pollution_at_def)
  qed
  then have "pollution_at env (a @ ?t) = Some (length a)" by (simp only: T_def)
  then have "?t \<in> set (polluted_tails env m)" using assms(1) in_polluted_tails [of ?t env m] by force
  from lifted_panics [OF this params] show ?thesis
    by (simp add: normalize_tool_args_for_def repaired_source_def normalize_tool_args_inner_def is_object_def sanitize_dsml_pollution_def)
qed

theorem truncated_fragment_panics_witness:
  "normalize_tool_args_for plain_env ''write'' (JObj [(''file_path'', JStr (''a.sh'' @ ''</parameter>'' @ DSML_TOKEN plain_env
      @ '' parameter name='' @ [CHR 0x22] @ ''content'' @ [CHR 0x22] @ ''>''))]) = None"
  by (rule truncated_fragment_panics [where k = "''file_path''" and a = "''a.sh''" and key = "''content''"])
    (simp_all add: plain_env_def)

text \<open>Of repeated containers the first is taken, an empty one included.\<close>

lemma empty_container_is_kept: "pick_field_value [JArr [], JArr [v]] = Some (JArr [])"
  by (simp add: pick_field_value_def pick_step_def)

end
