(* ===== verification/File_Tools.thy ===== *)
theory File_Tools
  imports Path_Fence Tool_Args Tool_Outcomes
begin

text \<open>
  The file tools of \<open>crates/oz-tools/src/file_ops.rs\<close>: read, write, edit, patch, glob, grep and ls,
  behind the fence of \<open>Path_Fence\<close>.

  The operating system is a record: the directory of the process, against which it resolves a
  relative path, where an absolute path really leads, and the texts of the files.  Regular
  expressions, glob patterns and the readers of documents and images are parameters.
\<close>

subsection \<open>The operating system\<close>

record os =
  os_cwd :: path
  os_canon :: file_system
  os_real :: "path \<Rightarrow> path"
  os_text :: "path \<Rightarrow> string option"
  os_size :: "path \<Rightarrow> nat option"
  os_refuses :: "path \<Rightarrow> string option"
  os_names :: "path \<Rightarrow> (string \<times> bool) list option"
  os_is_dir :: "path \<Rightarrow> bool"
  os_error :: "path \<Rightarrow> string"

definition os_place :: "os \<Rightarrow> string \<Rightarrow> path" where
  "os_place os p = os_real os (if is_absolute (path_of p) then path_of p else path_join (os_cwd os) (path_of p))"

text \<open>\<open>read_to_string\<close> and \<open>write\<close>; the directories above the file have been made.\<close>

definition read_to_string :: "os \<Rightarrow> string \<Rightarrow> (string, string) result" where
  "read_to_string os p = (case os_text os (os_place os p) of Some t \<Rightarrow> Ok t | None \<Rightarrow> Err (os_error os (os_place os p)))"

definition write_file :: "os \<Rightarrow> string \<Rightarrow> string \<Rightarrow> (string, unit) result \<times> os" where
  "write_file os p t =
     (case os_refuses os (os_place os p) of
        Some e \<Rightarrow> (Err e, os)
      | None \<Rightarrow> (Ok (), os\<lparr>os_text := (os_text os)(os_place os p := Some t)\<rparr>))"

subsection \<open>What the tools are given\<close>

record tool_context =
  tc_working_dir :: string
  tc_session :: string
  tc_paths :: path_registry

record file_env =
  fe_dash :: string
  fe_regex :: "string \<Rightarrow> (string, string \<Rightarrow> bool) result"
  fe_pattern :: "string \<Rightarrow> (string \<Rightarrow> bool) option"
  fe_glob :: "string \<Rightarrow> string list"
  fe_document :: "string \<Rightarrow> nat \<Rightarrow> nat \<Rightarrow> (string, json) result"
  fe_image :: "string \<Rightarrow> (string, string) result"

definition MAX_READ_SIZE :: nat where
  "MAX_READ_SIZE = 10 * 1024 * 1024"

definition fenced :: "os \<Rightarrow> tool_context \<Rightarrow> string \<Rightarrow> bool" where
  "fenced os ctx p \<longleftrightarrow> is_in_working_dir (os_canon os) p (tc_working_dir ctx)"

definition may_write :: "os \<Rightarrow> tool_context \<Rightarrow> string \<Rightarrow> bool" where
  "may_write os ctx p \<longleftrightarrow> write_path_permitted (os_canon os) (tc_paths ctx) (tc_session ctx) (tc_working_dir ctx) p"

text \<open>\<open>Path::new(a).join(b)\<close> as it is displayed.\<close>

definition join_text :: "string \<Rightarrow> string \<Rightarrow> string" where
  "join_text a b =
     (if prefix ''/'' b \<or> a = [] then b else if suffix ''/'' a then a @ b else a @ ''/'' @ b)"

definition outside_write_message :: "file_env \<Rightarrow> string \<Rightarrow> string \<Rightarrow> string \<Rightarrow> string" where
  "outside_write_message env tool p wd =
     (let hint = (if \<not> is_absolute (path_of p) then '' Try `'' @ join_text wd p @ ''` instead.'' else []) in
      tool @ '': path `'' @ p @ ''` is outside the workspace `'' @ wd @ ''` (or in a protected location). ''
        @ ''This is a permission boundary, not an argument error '' @ fe_dash env @ '' retrying `'' @ tool
        @ ''` on the SAME path fails the same way. The user is asked to approve out-of-workspace writes ''
        @ ''automatically; this one was not approved, so either work inside the workspace.'' @ hint)"

definition nat_json :: "nat \<Rightarrow> json" where
  "nat_json n = JNum (nat_text n)"

definition u64_arg :: "json \<Rightarrow> string \<Rightarrow> nat \<Rightarrow> nat" where
  "u64_arg args k d =
     (case jget args k of
        Some (JNum t) \<Rightarrow> if is_digits t \<and> text_nat t < 2 ^ 64 then text_nat t else d
      | _ \<Rightarrow> d)"

subsection \<open>Kinds of files\<close>

definition extension_of :: "string \<Rightarrow> string" where
  "extension_of p =
     (case file_name (path_of p) of
        None \<Rightarrow> []
      | Some n \<Rightarrow>
          (let ps = split_on (\<lambda>c. c = CHR ''.'') n in
           if length ps \<le> 1 \<or> butlast ps = [[]] then [] else to_lowercase (last ps)))"

definition is_supported_doc :: "string \<Rightarrow> bool" where
  "is_supported_doc p \<longleftrightarrow> extension_of p \<in> set [''pdf'', ''docx'', ''pptx'', ''xlsx'', ''xls'']"

definition is_image :: "string \<Rightarrow> bool" where
  "is_image p \<longleftrightarrow> extension_of p \<in> set [''png'', ''jpg'', ''jpeg'', ''gif'', ''webp'', ''svg'', ''bmp'']"

definition media_type_for :: "string \<Rightarrow> string" where
  "media_type_for ext =
     (if ext = ''png'' then ''image/png'' else if ext = ''jpg'' \<or> ext = ''jpeg'' then ''image/jpeg''
      else if ext = ''gif'' then ''image/gif'' else if ext = ''webp'' then ''image/webp''
      else if ext = ''svg'' then ''image/svg+xml'' else if ext = ''bmp'' then ''image/bmp''
      else ''application/octet-stream'')"

subsection \<open>Reading\<close>

text \<open>The first line and the line after the last of a window; the sum is taken on 64 bits, and a slice that ends before it begins panics.\<close>

definition line_window :: "nat \<Rightarrow> nat \<Rightarrow> nat \<Rightarrow> (nat \<times> nat) option" where
  "line_window n start count =
     (let a = min (start - 1) n; e = min ((a + count) mod 2 ^ 64) n in if a \<le> e then Some (a, e) else None)"

definition slice_lines :: "string \<Rightarrow> nat \<Rightarrow> nat \<Rightarrow> json option" where
  "slice_lines t start count =
     (let ls = rust_lines t in
      map_option (\<lambda>(a, e). JObj [(''content'', JStr (join_with [CHR 0x0A] (drop a (take e ls)))), (''total_lines'', nat_json (length ls)),
          (''start_line'', nat_json (a + 1)), (''end_line'', nat_json e)])
        (line_window (length ls) start count))"

definition read_image :: "file_env \<Rightarrow> string \<Rightarrow> step_outcome" where
  "read_image env p =
     (case fe_image env p of
        Inr url \<Rightarrow>
          (let mime = media_type_for (extension_of p) in
           \<lparr>oc_data = JObj [(''content'', JStr (''[image: '' @ p @ '']'')), (''type'', JStr ''image''), (''media_type'', JStr mime)],
            oc_next_prompt = Some ''[image attached above]'', should_exit = False,
            oc_images = [\<lparr>image_url = url, image_type = mime\<rparr>]\<rparr>)
      | Inl e \<Rightarrow> bad_json (''read: '' @ e))"

definition read_refusal :: "tool_context \<Rightarrow> string \<Rightarrow> string" where
  "read_refusal ctx p =
     (let hint = (if \<not> is_absolute (path_of p)
          then '' Try the absolute path `'' @ join_text (tc_working_dir ctx) p @ ''` instead.'' else []) in
      ''read: path `'' @ p @ ''` is outside working directory `'' @ tc_working_dir ctx @ ''` or in a protected location.'' @ hint)"

definition read_tool :: "file_env \<Rightarrow> tool_context \<Rightarrow> os \<Rightarrow> json \<Rightarrow> step_outcome option" where
  "read_tool env ctx os args =
     (let p = str_arg_or_empty args ''file_path'' in
      if p = [] then Some (bad_json (missing_arg_error (fe_dash env) ''read'' [''file_path''] args))
      else if (case os_size os (os_place os p) of Some n \<Rightarrow> n > MAX_READ_SIZE | None \<Rightarrow> False)
      then Some (bad_json (''read: file too large ('' @ nat_text (the (os_size os (os_place os p))) @ '' bytes, max ''
        @ nat_text MAX_READ_SIZE @ '')''))
      else if \<not> fenced os ctx p then Some (bad_json (read_refusal ctx p))
      else
        (let start = u64_arg args ''start'' 1; count = u64_arg args ''count'' 200 in
         if is_supported_doc p then
           Some (case fe_document env p start count of Inr v \<Rightarrow> step_success v | Inl e \<Rightarrow> bad_json (''read: '' @ e))
         else if is_image p then Some (read_image env p)
         else (case read_to_string os p of
             Inr t \<Rightarrow> map_option step_success (slice_lines t start count)
           | Inl e \<Rightarrow> Some (bad_json (''read failed: '' @ e
               @ ''. Use 'ls' or 'glob' to check the file exists, then retry with the correct path.'')))))"

subsection \<open>Writing\<close>

definition write_tool :: "file_env \<Rightarrow> tool_context \<Rightarrow> os \<Rightarrow> json \<Rightarrow> step_outcome \<times> os" where
  "write_tool env ctx os args =
     (let p = str_arg_or_empty args ''file_path'' in
      if p = [] then (bad_json (missing_arg_error (fe_dash env) ''write'' [''file_path''] args), os)
      else case str_arg args ''content'' of
        None \<Rightarrow> (bad_json (missing_arg_error (fe_dash env) ''write'' [''content''] args), os)
      | Some content \<Rightarrow>
          if \<not> may_write os ctx p then (bad_json (outside_write_message env ''write'' p (tc_working_dir ctx)), os)
          else (case write_file os p content of
              (Inr _, os') \<Rightarrow> (step_success (JObj [(''status'', JStr ''written'')]), os')
            | (Inl e, os') \<Rightarrow> (bad_json (''write failed: '' @ e @ ''. Check that the parent directory exists ''
                @ fe_dash env @ '' use 'code_run: mkdir -p <parent>' if needed.''), os')))"





subsection \<open>Searching\<close>

definition path_arg :: "json \<Rightarrow> string" where
  "path_arg args = (case str_arg args ''path'' of Some p \<Rightarrow> p | None \<Rightarrow> ''.'')"

definition outside_message :: "string \<Rightarrow> string \<Rightarrow> string" where
  "outside_message tool p = tool @ '': path '' @ [CHR 0x27] @ p @ [CHR 0x27] @ '' is outside the working directory''"

definition glob_files :: "file_env \<Rightarrow> tool_context \<Rightarrow> os \<Rightarrow> string \<Rightarrow> string \<Rightarrow> string list" where
  "glob_files env ctx os base pattern =
     sort (filter (fenced os ctx) (fe_glob env (trim_end_matches CHR ''/'' base @ ''/'' @ pattern)))"

definition glob_tool :: "file_env \<Rightarrow> tool_context \<Rightarrow> os \<Rightarrow> json \<Rightarrow> step_outcome" where
  "glob_tool env ctx os args =
     (let pattern = str_arg_or_empty args ''pattern''; base = path_arg args in
      if pattern = [] then bad_json (missing_arg_error (fe_dash env) ''glob'' [''pattern''] args)
      else if \<not> fenced os ctx base then bad_json (outside_message ''glob'' base)
      else step_success (JObj [(''files'', JArr (map JStr (glob_files env ctx os base pattern)))]))"

record grep_match =
  gm_file :: string
  gm_line :: nat
  gm_text :: string

definition grep_text :: "(string \<Rightarrow> bool) \<Rightarrow> string \<Rightarrow> string \<Rightarrow> grep_match list" where
  "grep_text hit p t =
     map (\<lambda>(i, l). \<lparr>gm_file = p, gm_line = i + 1, gm_text = l\<rparr>)
       (filter (\<lambda>(i, l). hit l) (enumerate 0 (rust_lines t)))"

definition grep_file :: "os \<Rightarrow> (string \<Rightarrow> bool) \<Rightarrow> string \<Rightarrow> grep_match list" where
  "grep_file os hit p = (case read_to_string os p of Inr t \<Rightarrow> grep_text hit p t | Inl _ \<Rightarrow> [])"

definition grep_entry :: "file_env \<Rightarrow> tool_context \<Rightarrow> os \<Rightarrow> (string \<Rightarrow> bool) \<Rightarrow> string option \<Rightarrow> string \<Rightarrow> string \<Rightarrow> grep_match list" where
  "grep_entry env ctx os hit inc base name =
     (let p = join_text base name in
      if os_is_dir os (os_place os p) then []
      else if (case inc of None \<Rightarrow> False | Some i \<Rightarrow> \<not> (case fe_pattern env i of Some ok \<Rightarrow> ok name | None \<Rightarrow> False)) then []
      else if \<not> fenced os ctx p then []
      else grep_file os hit p)"

definition grep_matches :: "file_env \<Rightarrow> tool_context \<Rightarrow> os \<Rightarrow> (string \<Rightarrow> bool) \<Rightarrow> string option \<Rightarrow> string \<Rightarrow> grep_match list" where
  "grep_matches env ctx os hit inc base =
     (if os_is_dir os (os_place os base)
      then concat (map (\<lambda>(name, _). grep_entry env ctx os hit inc base name)
             (case os_names os (os_place os base) of Some ns \<Rightarrow> ns | None \<Rightarrow> []))
      else grep_file os hit base)"

definition match_json :: "grep_match \<Rightarrow> json" where
  "match_json m = JObj [(''file'', JStr (gm_file m)), (''line'', nat_json (gm_line m)), (''text'', JStr (gm_text m))]"

definition grep_tool :: "file_env \<Rightarrow> tool_context \<Rightarrow> os \<Rightarrow> json \<Rightarrow> (tool_error, step_outcome) result" where
  "grep_tool env ctx os args =
     (let pattern = str_arg_or_empty args ''pattern''; base = path_arg args in
      if pattern = [] then Ok (bad_json (missing_arg_error (fe_dash env) ''grep'' [''pattern''] args))
      else if \<not> fenced os ctx base then Ok (bad_json (outside_message ''grep'' base))
      else (case fe_regex env pattern of
          Inl e \<Rightarrow> Err (Tool_Custom (''invalid regex: '' @ e))
        | Inr hit \<Rightarrow>
            (let ms = grep_matches env ctx os hit (str_arg args ''include'') base in
             Ok (step_success (JObj [(''matches'', JArr (map match_json ms)), (''count'', nat_json (length ms))])))))"

definition ls_tool :: "tool_context \<Rightarrow> os \<Rightarrow> json \<Rightarrow> step_outcome" where
  "ls_tool ctx os args =
     (let p = path_arg args in
      if \<not> fenced os ctx p then bad_json (outside_message ''ls'' p)
      else (let ns = (case os_names os (os_place os p) of Some ns \<Rightarrow> ns | None \<Rightarrow> []) in
        step_success (JObj [(''entries'', JArr (map (\<lambda>(n, d). JObj [(''name'', JStr n), (''type'', JStr (if d then ''dir'' else ''file''))])
          (sort_key fst ns)))])))"

subsection \<open>Edits\<close>





text \<open>Occurrences that overlap are counted once: a text that occurs twice is taken for unique.\<close>

lemma overlapping_is_unique: "length (split_str ''aa'' ''aaa'') - 1 = 1"
  by code_simp

subsection \<open>Reading on\<close>

definition window_lines :: "string list \<Rightarrow> nat \<Rightarrow> nat \<Rightarrow> string list" where
  "window_lines ls start count = (case line_window (length ls) start count of Some (a, e) \<Rightarrow> drop a (take e ls) | None \<Rightarrow> [])"

lemma window_is:
  assumes "start + count < 2 ^ 64"
  shows "window_lines ls start count = take count (drop (start - 1) ls)"
proof -
  define a where "a = min (start - 1) (length ls)"
  have "a + count < 2 ^ 64" using assms by (simp add: a_def)
  then have "(a + count) mod 2 ^ 64 = a + count" by (rule mod_less)
  then have "line_window (length ls) start count = Some (a, min (a + count) (length ls))"
    unfolding line_window_def Let_def a_def [symmetric] by (simp add: a_def)
  moreover have "take (min (a + count) (length ls)) ls = take (a + count) ls" by (simp add: min_def)
  then have "drop a (take (min (a + count) (length ls)) ls) = take count (drop a ls)" by (simp add: drop_take)
  moreover have "drop a ls = drop (start - 1) ls" by (simp add: a_def min_def)
  ultimately show ?thesis by (simp add: window_lines_def)
qed

text \<open>
  Reading on reads everything.  Windows of the same size, each beginning where the one before
  ended, give the lines of the file in order, none twice and none left out.
\<close>
theorem reading_on_covers_the_file:
  assumes "k * count + count < 2 ^ 64"
  shows "concat (map (\<lambda>i. window_lines ls (i * count + 1) count) [0..<k]) = take (k * count) ls"
  using assms
proof (induction k)
  case (Suc k)
  have "window_lines ls (k * count + 1) count = take count (drop (k * count) ls)"
    using Suc.prems by (cases "count = 0"; subst window_is) simp_all
  with Suc show ?case by (simp add: take_add [symmetric] add.commute)
qed simp

theorem reading_on_covers_the_file_witness:
  "concat (map (\<lambda>i. window_lines [''a'', ''b'', ''c''] (i * 2 + 1) 2) [0..<2]) = [''a'', ''b'', ''c'']"
  using reading_on_covers_the_file [of 2 2 "[''a'', ''b'', ''c'']"] by simp

lemma huge_window_panics:
  assumes "1 < start" and "0 < n" and "count < 2 ^ 64" and "2 ^ 64 \<le> min (start - 1) n + count"
  shows "line_window n start count = None"
proof -
  define a where "a = min (start - 1) n"
  have "(a + count) mod 2 ^ 64 < a"
  proof (cases "a < 2 ^ 64")
    case True
    with assms(3,4) have "(a + count) mod 2 ^ 64 = a + count - 2 ^ 64" by (intro mod_nat_eqI) (simp_all add: a_def)
    with assms(3,4) show ?thesis by (simp only: a_def) linarith
  next
    case False
    moreover have "(a + count) mod 2 ^ 64 < 2 ^ 64" by (rule mod_less_divisor) simp
    ultimately show ?thesis by linarith
  qed
  then have "\<not> a \<le> min ((a + count) mod 2 ^ 64) n" by linarith
  then show ?thesis by (simp only: line_window_def Let_def a_def [symmetric] if_False)
qed

definition read_args :: "string \<Rightarrow> string \<Rightarrow> string \<Rightarrow> json" where
  "read_args p start count = JObj [(''file_path'', JStr p), (''start'', JNum start), (''count'', JNum count)]"

text \<open>
  C25: a window that is too large panics.  With the largest count a model can write and a start behind
  the first line, the end of the window wraps around and lies before its start, for any file that has
  a line, and the slice of the lines panics.
\<close>
theorem huge_count_panics:
  assumes "p \<noteq> []" and "fenced os ctx p" and "case os_size os (os_place os p) of Some n \<Rightarrow> n \<le> MAX_READ_SIZE | None \<Rightarrow> True"
    and "\<not> is_supported_doc p" and "\<not> is_image p" and "os_text os (os_place os p) = Some t" and "rust_lines t \<noteq> []"
  shows "read_tool env ctx os (read_args p ''2'' ''18446744073709551615'') = None"
proof -
  have nums: "is_digits ''2'' \<and> text_nat ''2'' = 2" "is_digits ''18446744073709551615'' \<and> text_nat ''18446744073709551615'' = 2 ^ 64 - 1"
    by (simp_all add: is_digits_def is_ascii_digit_def text_nat_def)
  have w: "u64_arg (read_args p ''2'' ''18446744073709551615'') ''start'' 1 = 2"
    "u64_arg (read_args p ''2'' ''18446744073709551615'') ''count'' 200 = 2 ^ 64 - 1"
    using nums by (simp_all add: u64_arg_def read_args_def)
  have "line_window (length (rust_lines t)) 2 (2 ^ 64 - 1) = None"
    using assms(7) by (intro huge_window_panics) (simp_all add: Suc_le_eq)
  then have "slice_lines t 2 (2 ^ 64 - 1) = None" by (simp only: slice_lines_def Let_def option.map)
  moreover have "str_arg_or_empty (read_args p ''2'' ''18446744073709551615'') ''file_path'' = p"
    by (simp add: read_args_def str_arg_or_empty_def str_arg_def)
  ultimately show ?thesis
    unfolding read_tool_def Let_def w using assms by (simp add: read_to_string_def split: option.splits)
qed

subsection \<open>What a search shows\<close>


subsection \<open>Relative paths\<close>

definition relative_call :: "string \<Rightarrow> json" where
  "relative_call c = JObj [(''file_path'', JStr ''home/notes''), (''content'', JStr c)]"

text \<open>
  C4: a relative path leads out of the workspace.  The boundary resolves it against the workspace,
  the operating system against the directory of the process, which is another one: a write to
  \<open>home/notes\<close> with the workspace \<open>/w\<close> is not asked about, passes the fence and changes
  \<open>home/notes\<close> below the directory of the process.
\<close>
theorem relative_write_leaves_workspace:
  assumes "tc_working_dir ctx = ''/w''" and "os_canon os [RootDir, Normal ''w''] = Some [RootDir, Normal ''w'']"
    and "os_canon os [RootDir, Normal ''w'', Normal ''home''] = None"
    and "os_canon os [RootDir, Normal ''w'', Normal ''home'', Normal ''notes''] = None"
    and "is_absolute (os_cwd os)" and "os_refuses os (os_real os (os_cwd os @ [Normal ''home'', Normal ''notes''])) = None"
  shows "outside_write_gate (os_canon os) i j (Some ask) session ''write'' (relative_call c) ''/w'' reg = (Ok (), False, reg)
    \<and> os_text (snd (write_tool env ctx os (relative_call c))) =
        (os_text os)(os_real os (os_cwd os @ [Normal ''home'', Normal ''notes'']) := Some c)"
proof -
  let ?q = "[RootDir, Normal ''w'', Normal ''home'', Normal ''notes'']"
  have p: "path_of ''home/notes'' = [Normal ''home'', Normal ''notes'']" "path_of ''/w'' = [RootDir, Normal ''w'']"
    by code_simp+
  have res: "absolute_path ''home/notes'' ''/w'' = ?q"
    unfolding absolute_path_def p by (simp add: is_absolute_def path_join_def)
  have climbed: "climb_from (os_canon os) ?q = Some ?q"
    using assms(2-4) by (simp add: climb_from_def parent_def file_name_def opt_list_def climb.simps path_join_def is_absolute_def)
  then have loc: "real_location (os_canon os) ?q = Some ?q" "resolve_boundary_path (os_canon os) ?q = ?q"
    using assms(4) by (simp_all add: real_location_def resolve_boundary_path_def)
  have root: "resolve_boundary_path (os_canon os) [RootDir, Normal ''w''] = [RootDir, Normal ''w'']"
    using assms(2) by (simp add: resolve_boundary_path_def)
  have args: "str_arg (relative_call c) ''file_path'' = Some ''home/notes''" "str_arg (relative_call c) ''content'' = Some c"
    by (simp_all add: relative_call_def str_arg_def)
  have "write_target_path ''write'' (relative_call c) = Some ''home/notes''" by (simp add: write_target_path_def args)
  then have "outside_workspace_target (os_canon os) ''write'' (relative_call c) ''/w'' = None"
    by (simp add: outside_workspace_target_def res loc p root)
  moreover have checks: "\<not> contains_any (to_lowercase (path_text ?q)) SENSITIVE_ALWAYS"
    "\<not> is_protected_runtime_path ?q [RootDir, Normal ''w''] True" "\<not> in_temp ?q"
    "\<not> contains_any (to_lowercase (path_text ?q)) SENSITIVE_SYSTEM_PATHS" by code_simp+
  have "is_in_working_dir_for_write (os_canon os) ''home/notes'' ''/w''"
    unfolding is_in_working_dir_for_write_def is_in_working_dir_inner_def Let_def res loc option.case p assms(2) prod.case
    using checks by simp
  then have "may_write os ctx ''home/notes''" by (simp add: may_write_def write_path_permitted_def assms(1))
  moreover have "os_place os ''home/notes'' = os_real os (os_cwd os @ [Normal ''home'', Normal ''notes''])"
    using assms(5) unfolding os_place_def p by (auto simp: is_absolute_def path_join_def)
  ultimately show ?thesis
    using assms(6) args by (simp add: outside_write_gate_def write_tool_def str_arg_or_empty_def write_file_def)
qed

definition small_os :: os where
  "small_os = \<lparr>os_cwd = [RootDir], os_canon = small_fs, os_real = (\<lambda>p. p), os_text = (\<lambda>p. Some ''one''), os_size = (\<lambda>_. None),
     os_refuses = (\<lambda>_. None), os_names = (\<lambda>_. None), os_is_dir = (\<lambda>_. False), os_error = (\<lambda>_. [])\<rparr>"

definition small_context :: tool_context where
  "small_context = \<lparr>tc_working_dir = ''/w'', tc_session = ''s'', tc_paths = hm_empty\<rparr>"

definition plain_file_env :: file_env where
  "plain_file_env = \<lparr>fe_dash = ''-'', fe_regex = (\<lambda>_. Err []), fe_pattern = (\<lambda>_. None), fe_glob = (\<lambda>_. []),
     fe_document = (\<lambda>_ _ _. Err []), fe_image = (\<lambda>_. Err [])\<rparr>"

theorem relative_write_leaves_workspace_witness:
  "os_text (snd (write_tool plain_file_env small_context small_os (relative_call ''two''))) =
     (\<lambda>_. Some ''one'')([RootDir, Normal ''home'', Normal ''notes''] := Some ''two'')"
  using relative_write_leaves_workspace [of small_context small_os 0 0 Stop_Pressed "''s''" "''two''" hm_empty plain_file_env]
  by (simp add: small_context_def small_os_def small_fs_def is_absolute_def)

theorem huge_count_panics_witness:
  "read_tool plain_file_env small_context small_os (read_args ''/w'' ''2'' ''18446744073709551615'') = None"
proof -
  have "fenced small_os small_context ''/w''" "\<not> is_supported_doc ''/w''" "\<not> is_image ''/w''"
    by code_simp+
  then show ?thesis
    by (intro huge_count_panics [where t = "''one''"]) (simp_all add: small_os_def rust_lines_def Let_def)
qed

subsection \<open>Reading what was written\<close>




end
