(* ===== verification/Checkpoint_Files.thy ===== *)
theory Checkpoint_Files
  imports Wal Messages Stream_Events Harness "HOL-Library.List_Lexorder"
begin

text \<open>
  The checkpoint directory of \<open>crates/oz-core/src/checkpoint.rs\<close>: the file of each saved turn, the
  names by which files are found, sorted, counted and removed, the choice of the checkpoint a run
  resumes from, the purge of a deleted session, the collection of orphans, and interventions.

  The directory is the map of its \<open>.json\<close> files and the log of each session (theory Wal), under the
  safe form of the session's id.  Rendering and parsing of a checkpoint (\<open>serde_json\<close>) are the
  parameters \<open>ser\<close> and \<open>parse\<close>, as for the log.  A checkpoint's timestamp is in seconds, an
  intervention's in milliseconds.
\<close>

subsection \<open>Data\<close>

datatype intervention_kind = New_Strategy | Change_Priority | Inject_Info | Pause | Resume

fun intervention_text :: "intervention_kind \<Rightarrow> string" where
  "intervention_text New_Strategy = ''new_strategy''"
| "intervention_text Change_Priority = ''change_priority''"
| "intervention_text Inject_Info = ''inject_info''"
| "intervention_text Pause = ''pause''"
| "intervention_text Resume = ''resume''"

record intervention_event =
  iv_id :: string
  iv_timestamp :: int
  iv_kind :: intervention_kind
  iv_content :: string

record checkpoint_plan =
  plan_completed :: "string list"
  plan_in_progress :: "string option"
  plan_pending :: "string list"
  accumulated_context :: string
  plan_artifacts :: "string list"

record loop_checkpoint =
  cp_turn :: nat
  cp_timestamp :: int
  cp_messages :: "message list"
  cp_history_info :: "string list"
  cp_full_response :: string
  cp_exit_reason :: "string option"
  cp_session_id :: "string option"
  cp_plan :: checkpoint_plan
  cp_todos :: "todo_item list"
  cp_interventions :: "intervention_event list"
  cp_full_thinking :: "string option"
  cp_git_sha :: "string option"
  cp_git_branch :: "string option"
  cp_git_origin_url :: "string option"

record checkpoint_meta =
  meta_session_id :: string
  meta_turn :: nat
  meta_timestamp :: int
  meta_filename :: string
  message_count :: nat
  meta_exit_reason :: "string option"

definition plan_step :: "todo_item \<Rightarrow> checkpoint_plan \<Rightarrow> checkpoint_plan" where
  "plan_step t p =
     (if todo_status t = ''completed'' then p\<lparr>plan_completed := plan_completed p @ [todo_content t]\<rparr>
      else if todo_status t = ''in_progress'' then p\<lparr>plan_in_progress := Some (todo_content t)\<rparr>
      else p\<lparr>plan_pending := plan_pending p @ [todo_content t]\<rparr>)"

definition empty_plan :: checkpoint_plan where
  "empty_plan = \<lparr>plan_completed = [], plan_in_progress = None, plan_pending = [], accumulated_context = [],
     plan_artifacts = []\<rparr>"

definition plan_from_todos :: "todo_item list \<Rightarrow> checkpoint_plan" where
  "plan_from_todos todos = fold plan_step todos empty_plan"

text \<open>The clock is read twice, in nanoseconds; the second reading is cut to 64 bits.\<close>

definition rand_simple_id :: "nat \<Rightarrow> 64 word" where
  "rand_simple_id t = of_nat t * 6364136223846793005 + 1442695040888963407"

definition make_intervention :: "nat \<Rightarrow> nat \<Rightarrow> int \<Rightarrow> intervention_kind \<Rightarrow> string \<Rightarrow> intervention_event" where
  "make_intervention t t' millis kind said =
     \<lparr>iv_id = ''iv_'' @ nat_text t @ ''_'' @ nat_text (unat (rand_simple_id t')),
      iv_timestamp = millis, iv_kind = kind, iv_content = said\<rparr>"

definition apply_intervention :: "intervention_event \<Rightarrow> message list \<Rightarrow> message list" where
  "apply_intervention iv messages = messages @
     [user_message (''[USER INTERVENTION - '' @ intervention_text (iv_kind iv) @ '']'' @ [CHR 0x0A] @ iv_content iv)]"

subsection \<open>Names\<close>

definition sanitize_session_id :: "string \<Rightarrow> string" where
  "sanitize_session_id s =
     map (\<lambda>c. if is_alphanumeric c \<or> c = CHR ''_'' \<or> c = CHR ''-'' then c else CHR ''_'') s"

text \<open>\<open>{turn:03}\<close>\<close>

definition pad3 :: "nat \<Rightarrow> string" where
  "pad3 n = replicate (3 - length (nat_text n)) CHR ''0'' @ nat_text n"

definition session_prefix :: "string \<Rightarrow> string" where
  "session_prefix safe = ''loop_'' @ safe @ ''_''"

definition checkpoint_name :: "string \<Rightarrow> nat \<Rightarrow> string" where
  "checkpoint_name safe turn = session_prefix safe @ pad3 turn @ ''.json''"

text \<open>\<open>str::parse::<u32>\<close>\<close>

definition parse_u32 :: "string \<Rightarrow> nat option" where
  "parse_u32 s =
     (let d = (case s of c # r \<Rightarrow> if c = CHR ''+'' then r else s | [] \<Rightarrow> s) in
      if d \<noteq> [] \<and> list_all is_ascii_digit d \<and> text_nat d < 2 ^ 32 then Some (text_nat d) else None)"

text \<open>\<open>s.rsplit(c).next()\<close>, and \<open>s.rsplit_once(c)\<close>\<close>

definition last_segment :: "char \<Rightarrow> string \<Rightarrow> string" where
  "last_segment c s = rev (takeWhile (\<lambda>x. x \<noteq> c) (rev s))"

definition rsplit_once :: "char \<Rightarrow> string \<Rightarrow> (string \<times> string) option" where
  "rsplit_once c s =
     (if c \<in> set s then Some (rev (tl (dropWhile (\<lambda>x. x \<noteq> c) (rev s))), last_segment c s) else None)"

definition turn_of_name :: "string \<Rightarrow> nat option" where
  "turn_of_name name =
     Option.bind (strip_suffix ''.json'' name) (\<lambda>stem. parse_u32 (last_segment (CHR ''_'') stem))"

subsection \<open>The directory\<close>

record cp_dir =
  cp_files :: "(string, byte list) hash_map"
  cp_logs :: "(string, wal_store) hash_map"

text \<open>
  What the operating system answers: whether the directory can be made, what a write leaves under
  its name (the bytes, when it succeeds), whether a file can be removed, whether a log can grow.
\<close>

record disk_io =
  dir_made :: bool
  left_behind :: "byte list \<Rightarrow> byte list option"
  removable :: "string \<Rightarrow> bool"
  log_grows :: bool

definition healthy_disk :: disk_io where
  "healthy_disk = \<lparr>dir_made = True, left_behind = Some, removable = (\<lambda>_. True), log_grows = True\<rparr>"

definition write_named :: "disk_io \<Rightarrow> string \<Rightarrow> byte list \<Rightarrow> cp_dir \<Rightarrow> cp_dir" where
  "write_named io name bs d =
     (case left_behind io bs of Some b \<Rightarrow> d\<lparr>cp_files := hm_insert name b (cp_files d)\<rparr> | None \<Rightarrow> d)"

definition remove_named :: "disk_io \<Rightarrow> string \<Rightarrow> (string, byte list) hash_map \<Rightarrow> (string, byte list) hash_map" where
  "remove_named io name files = (if removable io name then hm_remove name files else files)"

definition log_of :: "string \<Rightarrow> cp_dir \<Rightarrow> wal_store" where
  "log_of safe d = (case hm_get safe (cp_logs d) of Some s \<Rightarrow> s | None \<Rightarrow> store_fresh)"

definition set_log :: "string \<Rightarrow> wal_store \<Rightarrow> cp_dir \<Rightarrow> cp_dir" where
  "set_log safe s d = d\<lparr>cp_logs := hm_insert safe s (cp_logs d)\<rparr>"

definition collect_checkpoints :: "string option \<Rightarrow> (string, byte list) hash_map \<Rightarrow> string list" where
  "collect_checkpoints pre files =
     sort (filter (\<lambda>n. case pre of Some p \<Rightarrow> prefix p n \<and> suffix ''.json'' n
                       | None \<Rightarrow> suffix ''.json'' n \<and> n \<noteq> ''.json'') (hm_keys files))"

subsection \<open>Saving\<close>

definition MAX_SESSION_CHECKPOINT_BYTES :: nat where
  "MAX_SESSION_CHECKPOINT_BYTES = 20 * 1024 * 1024"

definition file_size :: "string \<Rightarrow> (string, byte list) hash_map \<Rightarrow> nat" where
  "file_size n files = (case hm_get n files of Some b \<Rightarrow> length b | None \<Rightarrow> 0)"

text \<open>The files from the newest on, with the position of the first; \<open>used\<close> saturates at 64 bits.\<close>

fun byte_budget ::
  "disk_io \<Rightarrow> nat \<Rightarrow> string list \<Rightarrow> nat \<Rightarrow> (string, byte list) hash_map \<Rightarrow> (string, byte list) hash_map" where
  "byte_budget io i [] used files = files"
| "byte_budget io i (n # ns) used files =
     (let size = file_size n files;
          used' = min (used + size) (2 ^ 64 - 1) in
      if i > 0 \<and> used' > MAX_SESSION_CHECKPOINT_BYTES
      then byte_budget io (i + 1) ns (used' - size) (remove_named io n files)
      else byte_budget io (i + 1) ns used' files)"

definition cleanup_session_checkpoints ::
  "disk_io \<Rightarrow> string \<Rightarrow> nat \<Rightarrow> (string, byte list) hash_map \<Rightarrow> (string, byte list) hash_map" where
  "cleanup_session_checkpoints io safe keep files =
     (let entries = collect_checkpoints (Some (session_prefix safe)) files;
          files1 = (if length entries > keep
                    then fold (remove_named io) (take (length entries - keep) entries) files else files);
          remaining = rev (collect_checkpoints (Some (session_prefix safe)) files1) in
      byte_budget io 0 remaining 0 files1)"

text \<open>\<open>write_loop_checkpoint_bytes\<close>: the periodic save of a running loop.\<close>

definition write_loop_checkpoint_bytes ::
  "(byte list \<Rightarrow> loop_checkpoint option) \<Rightarrow> (loop_checkpoint \<Rightarrow> byte list) \<Rightarrow> disk_io \<Rightarrow> string \<Rightarrow> nat \<Rightarrow>
   byte list \<Rightarrow> cp_dir \<Rightarrow> cp_dir" where
  "write_loop_checkpoint_bytes parse ser io session_id turn json d =
     (if \<not> dir_made io then d
      else (let safe = sanitize_session_id session_id;
                d1 = write_named io (checkpoint_name safe turn) json d;
                d2 = set_log safe (append_checkpoint_wal_bytes parse ser (log_grows io) json (log_of safe d1)) d1 in
        d2\<lparr>cp_files := cleanup_session_checkpoints io safe 5 (cp_files d2)\<rparr>))"

text \<open>\<open>save_loop_checkpoint\<close> (\<open>cleanup\<close>) and \<open>save_checkpoint_persist\<close> (no clean-up, when a run stops)\<close>

definition save_loop_checkpoint_impl ::
  "(byte list \<Rightarrow> loop_checkpoint option) \<Rightarrow> (loop_checkpoint \<Rightarrow> byte list) \<Rightarrow> disk_io \<Rightarrow> bool \<Rightarrow> string \<Rightarrow>
   loop_checkpoint \<Rightarrow> cp_dir \<Rightarrow> cp_dir" where
  "save_loop_checkpoint_impl parse ser io cleanup session_id cp d =
     (if \<not> dir_made io then d
      else (let safe = sanitize_session_id session_id;
                d1 = write_named io (checkpoint_name safe (cp_turn cp)) (ser cp) d;
                d2 = set_log safe (append_checkpoint_wal parse ser (log_grows io) cp (log_of safe d1)) d1 in
        if cleanup then d2\<lparr>cp_files := cleanup_session_checkpoints io safe 5 (cp_files d2)\<rparr> else d2))"

subsection \<open>Loading\<close>

definition read_log ::
  "(byte list \<Rightarrow> loop_checkpoint option) \<Rightarrow> string \<Rightarrow> cp_dir \<Rightarrow> loop_checkpoint option \<times> cp_dir" where
  "read_log parse safe d =
     (let (w, s) = read_latest_checkpoint_wal parse (log_of safe d) in (w, set_log safe s d))"

definition read_file ::
  "(byte list \<Rightarrow> loop_checkpoint option) \<Rightarrow> (string, byte list) hash_map \<Rightarrow> string \<Rightarrow> loop_checkpoint option" where
  "read_file parse files n = Option.bind (hm_get n files) parse"

definition newer :: "loop_checkpoint option \<Rightarrow> loop_checkpoint option \<Rightarrow> loop_checkpoint option" where
  "newer file_best logged =
     (case (file_best, logged) of
        (Some f, Some w) \<Rightarrow> if cp_turn w \<ge> cp_turn f then Some w else Some f
      | (Some f, None) \<Rightarrow> Some f
      | (None, Some w) \<Rightarrow> Some w
      | (None, None) \<Rightarrow> None)"

definition load_latest_loop_checkpoint ::
  "(byte list \<Rightarrow> loop_checkpoint option) \<Rightarrow> string \<Rightarrow> cp_dir \<Rightarrow> loop_checkpoint option \<times> cp_dir" where
  "load_latest_loop_checkpoint parse session_id d =
     (let safe = sanitize_session_id session_id;
          names = collect_checkpoints (Some (session_prefix safe)) (cp_files d);
          file_latest = (if names = [] then None else read_file parse (cp_files d) (last names));
          (w, d') = read_log parse safe d in
      (newer file_latest w, d'))"

text \<open>\<open>max_by_key\<close> on the turns of the names: of equal ones, the last.\<close>

fun max_turn :: "(nat \<times> string) list \<Rightarrow> (nat \<times> string) option \<Rightarrow> (nat \<times> string) option" where
  "max_turn [] best = best"
| "max_turn (x # xs) best =
     max_turn xs (case best of Some b \<Rightarrow> if fst b \<le> fst x then Some x else best | None \<Rightarrow> Some x)"

fun slow_best ::
  "(byte list \<Rightarrow> loop_checkpoint option) \<Rightarrow> (string, byte list) hash_map \<Rightarrow> string list \<Rightarrow>
   (nat \<times> nat \<times> string) option \<Rightarrow> (nat \<times> nat \<times> string) option" where
  "slow_best parse files [] best = best"
| "slow_best parse files (n # ns) best =
     slow_best parse files ns
       (case read_file parse files n of
          None \<Rightarrow> best
        | Some cp \<Rightarrow>
            (let new = (cp_turn cp, length (cp_messages cp), n) in
             case best of
               None \<Rightarrow> Some new
             | Some (t, m, _) \<Rightarrow> if cp_turn cp > t \<or> (cp_turn cp = t \<and> length (cp_messages cp) > m)
                               then Some new else best))"

definition best_file ::
  "(byte list \<Rightarrow> loop_checkpoint option) \<Rightarrow> (string, byte list) hash_map \<Rightarrow> string list \<Rightarrow> loop_checkpoint option" where
  "best_file parse files names =
     (case Option.bind (max_turn (List.map_filter (\<lambda>n. map_option (\<lambda>t. (t, n)) (turn_of_name n)) names) None)
             (\<lambda>(_, n). read_file parse files n) of
        Some cp \<Rightarrow> Some cp
      | None \<Rightarrow> Option.bind (slow_best parse files names None) (\<lambda>(_, _, n). read_file parse files n))"

definition load_best_loop_checkpoint ::
  "(byte list \<Rightarrow> loop_checkpoint option) \<Rightarrow> string \<Rightarrow> cp_dir \<Rightarrow> loop_checkpoint option \<times> cp_dir" where
  "load_best_loop_checkpoint parse session_id d =
     (let safe = sanitize_session_id session_id;
          names = collect_checkpoints (Some (session_prefix safe)) (cp_files d) in
      if names = [] then read_log parse safe d
      else (let file_best = best_file parse (cp_files d) names;
                (w, d') = read_log parse safe d in
        (newer file_best w, d')))"

definition load_checkpoint_at_turn ::
  "(byte list \<Rightarrow> loop_checkpoint option) \<Rightarrow> string \<Rightarrow> nat \<Rightarrow> cp_dir \<Rightarrow> loop_checkpoint option" where
  "load_checkpoint_at_turn parse session_id turn d =
     read_file parse (cp_files d) (checkpoint_name (sanitize_session_id session_id) turn)"

definition meta_of :: "string \<Rightarrow> loop_checkpoint \<Rightarrow> checkpoint_meta" where
  "meta_of n cp = \<lparr>meta_session_id = (case cp_session_id cp of Some s \<Rightarrow> s | None \<Rightarrow> []), meta_turn = cp_turn cp,
     meta_timestamp = cp_timestamp cp, meta_filename = n, message_count = length (cp_messages cp),
     meta_exit_reason = cp_exit_reason cp\<rparr>"

definition list_checkpoints ::
  "(byte list \<Rightarrow> loop_checkpoint option) \<Rightarrow> string \<Rightarrow> cp_dir \<Rightarrow> checkpoint_meta list" where
  "list_checkpoints parse pre d =
     sort_key meta_turn
       (List.map_filter (\<lambda>n. map_option (meta_of n) (read_file parse (cp_files d) n))
         (collect_checkpoints (Some pre) (cp_files d)))"

definition list_session_checkpoints where
  "list_session_checkpoints parse session_id d =
     list_checkpoints parse (session_prefix (sanitize_session_id session_id)) d"

definition list_all_checkpoints where
  "list_all_checkpoints parse d = list_checkpoints parse ''loop_'' d"

subsection \<open>Removing\<close>

text \<open>
  A log's file is there when it has bytes; removing it leaves the handles that map it, which the
  purge drops for the session itself.
\<close>

definition purge_session_checkpoints :: "disk_io \<Rightarrow> string \<Rightarrow> cp_dir \<Rightarrow> nat \<times> cp_dir" where
  "purge_session_checkpoints io session_id d =
     (let safe = sanitize_session_id session_id;
          mine = filter (\<lambda>n. prefix (session_prefix safe) n \<and> removable io n) (hm_keys (cp_files d));
          wal = log_of safe d;
          log_removed = (disk wal \<noteq> [] \<and> removable io (''wal_'' @ safe @ ''.mmap'')) in
      (length mine + (if log_removed then 1 else 0),
       set_log safe \<lparr>disk = (if log_removed then [] else disk wal), handle = None\<rparr>
         (d\<lparr>cp_files := hm_retain (\<lambda>n _. n \<notin> set mine) (cp_files d)\<rparr>)))"

text \<open>The session an artifact belongs to, by its name.\<close>

definition sid_of_name :: "string \<Rightarrow> string option" where
  "sid_of_name name =
     Option.bind (strip_prefix ''loop_'' name) (\<lambda>rest. map_option fst (rsplit_once (CHR ''_'') rest))"

definition gc_orphan_checkpoints :: "disk_io \<Rightarrow> string set \<Rightarrow> (string \<Rightarrow> bool) \<Rightarrow> cp_dir \<Rightarrow> nat \<times> cp_dir" where
  "gc_orphan_checkpoints io live_ids fresh d =
     (let orphan = (\<lambda>n. (case sid_of_name n of Some sid \<Rightarrow> sid \<notin> live_ids \<and> \<not> fresh n \<and> removable io n
                        | None \<Rightarrow> False));
          orphan_log = (\<lambda>safe s. safe \<notin> live_ids \<and> disk s \<noteq> [] \<and> \<not> fresh (''wal_'' @ safe @ ''.mmap'')
                                 \<and> removable io (''wal_'' @ safe @ ''.mmap'')) in
      (length (filter orphan (hm_keys (cp_files d))) + length (filter (\<lambda>(safe, s). orphan_log safe s) (cp_logs d)),
       \<lparr>cp_files = hm_retain (\<lambda>n _. \<not> orphan n) (cp_files d),
        cp_logs = map (\<lambda>(safe, s). (safe, if orphan_log safe s then s\<lparr>disk := []\<rparr> else s)) (cp_logs d)\<rparr>))"

subsection \<open>Names and turns\<close>

lemma nat_text_digits: "list_all is_ascii_digit (nat_text n)"
proof (induction n rule: nat_text.induct)
  case (1 n)
  have "is_ascii_digit (char_of (48 + m))" if "m < 10" for m :: nat
    using that by (simp add: is_ascii_digit_def)
  with 1 show ?case by (subst nat_text.simps) simp
qed

lemma pad3_digits: "list_all is_ascii_digit (pad3 n)"
  using nat_text_digits [of n] by (auto simp: pad3_def is_ascii_digit_def list_all_iff)

lemma pad3_no_underscore: "CHR ''_'' \<notin> set (pad3 n @ ''.json'')"
  using pad3_digits [of n] by (auto simp: list_all_iff is_ascii_digit_def)

lemma text_nat_zeros: "text_nat (replicate k (CHR ''0'') @ s) = text_nat s"
proof -
  have "foldl (\<lambda>n c. 10 * n + (of_char c - 48)) 0 (replicate k (CHR ''0'')) = (0 :: nat)"
    by (induction k) simp_all
  then show ?thesis by (simp add: text_nat_def)
qed

lemma parse_pad3: "n < 2 ^ 32 \<Longrightarrow> parse_u32 (pad3 n) = Some n"
proof -
  assume n: "n < 2 ^ 32"
  have "nat_text n \<noteq> []" by (subst nat_text.simps) simp
  then have ne: "pad3 n \<noteq> []" by (simp add: pad3_def)
  then have "hd (pad3 n) \<noteq> CHR ''+''"
    using pad3_digits [of n] by (cases "pad3 n") (auto simp: is_ascii_digit_def)
  with ne have "(case pad3 n of c # r \<Rightarrow> if c = CHR ''+'' then r else pad3 n | [] \<Rightarrow> pad3 n) = pad3 n"
    by (cases "pad3 n") auto
  moreover have "text_nat (pad3 n) = n" by (simp add: pad3_def text_nat_zeros)
  ultimately show ?thesis using ne n pad3_digits [of n] by (simp add: parse_u32_def)
qed

lemma last_segment_app: "c \<notin> set y \<Longrightarrow> last_segment c (x @ c # y) = y"
proof -
  assume "c \<notin> set y"
  then have "takeWhile (\<lambda>z. z \<noteq> c) (rev y @ c # rev x) = rev y"
    by (subst takeWhile_append2) auto
  then show ?thesis by (simp add: last_segment_def)
qed

lemma rsplit_once_app: "c \<notin> set y \<Longrightarrow> rsplit_once c (x @ c # y) = Some (x, y)"
proof -
  assume c: "c \<notin> set y"
  then have "dropWhile (\<lambda>z. z \<noteq> c) (rev y @ c # rev x) = c # rev x"
    by (subst dropWhile_append2) auto
  with c show ?thesis by (simp add: rsplit_once_def last_segment_app)
qed

lemma turn_of_checkpoint_name: "t < 2 ^ 32 \<Longrightarrow> turn_of_name (checkpoint_name safe t) = Some t"
proof -
  assume t: "t < 2 ^ 32"
  have "checkpoint_name safe t = (''loop_'' @ safe @ CHR ''_'' # pad3 t) @ ''.json''"
    by (simp add: checkpoint_name_def session_prefix_def)
  then have "strip_suffix ''.json'' (checkpoint_name safe t) = Some (''loop_'' @ safe @ CHR ''_'' # pad3 t)"
    unfolding strip_suffix_def by (simp only: suffix_appendI [OF suffix_order.refl] if_True length_append) simp
  moreover have "CHR ''_'' \<notin> set (pad3 t)" using pad3_no_underscore [of t] by simp
  then have "last_segment (CHR ''_'') (''loop_'' @ safe @ CHR ''_'' # pad3 t) = pad3 t"
    using last_segment_app [of "CHR ''_''" "pad3 t" "''loop_'' @ safe"] by simp
  ultimately show ?thesis using parse_pad3 [OF t] by (simp add: turn_of_name_def)
qed

lemma sid_of_checkpoint_name: "sid_of_name (checkpoint_name safe t) = Some safe"
proof -
  have "strip_prefix ''loop_'' (checkpoint_name safe t) = Some (safe @ CHR ''_'' # (pad3 t @ ''.json''))"
    by (simp add: strip_prefix_def checkpoint_name_def session_prefix_def)
  then show ?thesis
    using rsplit_once_app [OF pad3_no_underscore, of safe t] by (simp add: sid_of_name_def)
qed

lemma checkpoint_name_inject: "t < 2 ^ 32 \<Longrightarrow> u < 2 ^ 32 \<Longrightarrow>
    checkpoint_name safe t = checkpoint_name safe u \<longleftrightarrow> t = u"
  by (metis turn_of_checkpoint_name option.inject)

lemma checkpoint_name_prefix:
  "prefix (session_prefix s) (checkpoint_name safe t) \<longleftrightarrow> s = safe \<or> prefix (s @ ''_'') safe"
proof -
  let ?rest = "pad3 t @ ''.json''"
  have "prefix (session_prefix s) (checkpoint_name safe t) \<longleftrightarrow> prefix (s @ ''_'') (safe @ CHR ''_'' # ?rest)"
    by (simp add: session_prefix_def checkpoint_name_def)
  also have "\<dots> \<longleftrightarrow> s = safe \<or> prefix (s @ ''_'') safe"
  proof
    assume "prefix (s @ ''_'') (safe @ CHR ''_'' # ?rest)"
    then consider "prefix (s @ ''_'') safe" | us where "s @ ''_'' = safe @ us" "prefix us (CHR ''_'' # ?rest)"
      by (auto simp only: prefix_append)
    then show "s = safe \<or> prefix (s @ ''_'') safe"
    proof cases
      case 2
      show ?thesis
      proof (cases us rule: rev_cases)
        case Nil
        with 2 show ?thesis by simp
      next
        case (snoc vs c)
        with 2(1) have c: "c = CHR ''_''" "s = safe @ vs" by simp_all
        show ?thesis
        proof (cases vs)
          case Nil
          with c show ?thesis by simp
        next
          case (Cons v ws)
          with snoc c 2(2) have "prefix (ws @ [CHR ''_'']) ?rest" by simp
          then have "CHR ''_'' \<in> set ?rest" by (meson in_set_conv_decomp set_mono_prefix subsetD)
          with pad3_no_underscore show ?thesis by blast
        qed
      qed
    qed simp
  qed auto
  finally show ?thesis .
qed

lemma suffix_checkpoint_name: "suffix ''.json'' (checkpoint_name safe t)"
  unfolding checkpoint_name_def by (intro suffix_appendI suffix_order.refl)

subsection \<open>What the directory holds\<close>

lemma hm_keys_get: "n \<in> set (hm_keys files) \<longleftrightarrow> hm_get n files \<noteq> None"
  by (simp add: hm_keys_def hm_get_def map_of_eq_None_iff)

lemma collect_set:
  "set (collect_checkpoints (Some p) files) = {n. hm_get n files \<noteq> None \<and> prefix p n \<and> suffix ''.json'' n}"
  by (auto simp: collect_checkpoints_def hm_keys_get)

lemma collect_distinct: "hm_wf files \<Longrightarrow> distinct (collect_checkpoints p files)"
  by (simp add: collect_checkpoints_def hm_wf_def hm_keys_def)

lemma collect_length: "length (collect_checkpoints p files) \<le> length files"
  unfolding collect_checkpoints_def length_sort hm_keys_def by (rule order_trans [OF length_filter_le]) simp

lemma collect_sorted: "sorted (collect_checkpoints p files)"
  by (simp add: collect_checkpoints_def)

lemma remove_named_get:
  "hm_get n (remove_named io m files) = (if n = m \<and> removable io m then None else hm_get n files)"
  by (simp add: remove_named_def)

lemma remove_named_wf: "hm_wf files \<Longrightarrow> hm_wf (remove_named io m files)"
  by (simp add: remove_named_def hm_remove_def hm_wf_def distinct_delete)

lemma remove_all_get:
  "hm_get n (fold (remove_named io) ns files) = (if n \<in> set ns \<and> removable io n then None else hm_get n files)"
  by (induction ns arbitrary: files) (auto simp: remove_named_get)

lemma remove_all_wf: "hm_wf files \<Longrightarrow> hm_wf (fold (remove_named io) ns files)"
  by (induction ns arbitrary: files) (simp_all add: remove_named_wf)

lemma byte_budget_sub: "hm_get n (byte_budget io i ns used files) = Some b \<Longrightarrow> hm_get n files = Some b"
proof (induction io i ns used files rule: byte_budget.induct)
  case (2 io i m ns used files)
  show ?case
  proof (cases "i > 0 \<and> min (used + file_size m files) (2 ^ 64 - 1) > MAX_SESSION_CHECKPOINT_BYTES")
    case True
    with 2 have "hm_get n (remove_named io m files) = Some b" by (simp add: Let_def)
    then show ?thesis by (simp add: remove_named_get split: if_splits)
  next
    case False
    with 2 show ?thesis by (simp add: Let_def split: if_splits)
  qed
qed simp

lemma byte_budget_other: "n \<notin> set ns \<Longrightarrow> hm_get n (byte_budget io i ns used files) = hm_get n files"
  by (induction io i ns used files rule: byte_budget.induct) (auto simp: Let_def remove_named_get)

lemma byte_budget_wf: "hm_wf files \<Longrightarrow> hm_wf (byte_budget io i ns used files)"
  by (induction io i ns used files rule: byte_budget.induct) (auto simp: Let_def remove_named_wf)

definition kept_by_count :: "disk_io \<Rightarrow> string \<Rightarrow> nat \<Rightarrow> (string, byte list) hash_map \<Rightarrow> (string, byte list) hash_map" where
  "kept_by_count io p keep files =
     (if length (collect_checkpoints (Some p) files) > keep
      then fold (remove_named io) (take (length (collect_checkpoints (Some p) files) - keep)
             (collect_checkpoints (Some p) files)) files
      else files)"

lemma cleanup_split:
  "cleanup_session_checkpoints io safe keep files =
     byte_budget io 0 (rev (collect_checkpoints (Some (session_prefix safe))
         (kept_by_count io (session_prefix safe) keep files))) 0 (kept_by_count io (session_prefix safe) keep files)"
  by (simp add: cleanup_session_checkpoints_def kept_by_count_def Let_def)

lemma cleanup_sub: "hm_get n (cleanup_session_checkpoints io safe keep files) = Some b \<Longrightarrow> hm_get n files = Some b"
  by (auto simp: cleanup_split kept_by_count_def remove_all_get dest!: byte_budget_sub split: if_splits)

lemma cleanup_other:
  "\<not> prefix (session_prefix safe) n \<Longrightarrow>
     hm_get n (cleanup_session_checkpoints io safe keep files) = hm_get n files"
  by (auto simp: cleanup_split byte_budget_other collect_set kept_by_count_def remove_all_get
      dest!: in_set_takeD)

lemma cleanup_wf: "hm_wf files \<Longrightarrow> hm_wf (cleanup_session_checkpoints io safe keep files)"
  by (simp add: cleanup_split kept_by_count_def byte_budget_wf remove_all_wf)

subsection \<open>What is loaded\<close>

lemma max_turn_from: "max_turn xs best = Some r \<Longrightarrow> r \<in> set xs \<or> best = Some r"
  by (induction xs best rule: max_turn.induct) (fastforce split: option.splits if_splits)+


lemma slow_best_from:
  "slow_best parse files ns best = Some (t, m, n) \<Longrightarrow> n \<in> set ns \<or> best = Some (t, m, n)"
  by (induction parse files ns best rule: slow_best.induct)
    (fastforce simp: Let_def split: option.splits if_splits)+

lemma best_file_reads: "best_file parse files ns = Some cp \<Longrightarrow> \<exists>n \<in> set ns. read_file parse files n = Some cp"
proof -
  assume best: "best_file parse files ns = Some cp"
  let ?xs = "List.map_filter (\<lambda>n. map_option (\<lambda>t. (t, n)) (turn_of_name n)) ns"
  have "n \<in> set ns" if "max_turn ?xs None = Some (t, n)" for t n
    using max_turn_from [OF that] by (auto simp: List.map_filter_def)
  moreover have "n \<in> set ns" if "slow_best parse files ns None = Some (t, m, n)" for t m n
    using slow_best_from [OF that] by simp
  ultimately show ?thesis
    using best by (auto simp: best_file_def bind_eq_Some_conv split: option.splits)
qed

lemma load_best_is_log:
  assumes "fst (read_log parse (sanitize_session_id sid) d) = Some w"
    and "\<And>n f. prefix (session_prefix (sanitize_session_id sid)) n \<Longrightarrow>
           read_file parse (cp_files d) n = Some f \<Longrightarrow> cp_turn f \<le> cp_turn w"
  shows "fst (load_best_loop_checkpoint parse sid d) = Some w"
proof -
  let ?names = "collect_checkpoints (Some (session_prefix (sanitize_session_id sid))) (cp_files d)"
  have "case best_file parse (cp_files d) ?names of Some f \<Rightarrow> cp_turn f \<le> cp_turn w | None \<Rightarrow> True"
    using best_file_reads [of parse "cp_files d" ?names] assms(2)
    by (fastforce simp: collect_set split: option.split)
  then show ?thesis
    using assms(1) by (auto simp: load_best_loop_checkpoint_def newer_def Let_def split_beta split: option.splits)
qed

subsection \<open>The life of a directory\<close>

text \<open>
  What happens to a checkpoint directory: periodic and stop-path saves, resumes, deleted sessions,
  the collection of orphans, and a restart of the process, which drops the cached handles.
\<close>

datatype dir_op =
    Periodic_Save string loop_checkpoint
  | Stop_Save string loop_checkpoint
  | Load_Best string
  | Purge string
  | Collect_Orphans "string set" "string \<Rightarrow> bool"
  | Process_Restart

definition drop_handles :: "cp_dir \<Rightarrow> cp_dir" where
  "drop_handles d = d\<lparr>cp_logs := hm_map (\<lambda>s. s\<lparr>handle := None\<rparr>) (cp_logs d)\<rparr>"

fun dir_step ::
  "(byte list \<Rightarrow> loop_checkpoint option) \<Rightarrow> (loop_checkpoint \<Rightarrow> byte list) \<Rightarrow> dir_op \<Rightarrow> cp_dir \<Rightarrow> cp_dir" where
  "dir_step parse ser (Periodic_Save sid cp) d =
     write_loop_checkpoint_bytes parse ser healthy_disk sid (cp_turn cp) (ser cp) d"
| "dir_step parse ser (Stop_Save sid cp) d = save_loop_checkpoint_impl parse ser healthy_disk False sid cp d"
| "dir_step parse ser (Load_Best sid) d = snd (load_best_loop_checkpoint parse sid d)"
| "dir_step parse ser (Purge sid) d = snd (purge_session_checkpoints healthy_disk sid d)"
| "dir_step parse ser (Collect_Orphans live fresh) d = snd (gc_orphan_checkpoints healthy_disk live fresh d)"
| "dir_step parse ser Process_Restart d = drop_handles d"

definition dir_fresh :: cp_dir where
  "dir_fresh = \<lparr>cp_files = hm_empty, cp_logs = hm_empty\<rparr>"

definition dir_ok :: "cp_dir \<Rightarrow> bool" where
  "dir_ok d \<longleftrightarrow> hm_wf (cp_files d) \<and> (\<forall>safe. store_ok (log_of safe d))"

definition good_dir_op ::
  "(byte list \<Rightarrow> loop_checkpoint option) \<Rightarrow> (loop_checkpoint \<Rightarrow> byte list) \<Rightarrow> dir_op \<Rightarrow> bool" where
  "good_dir_op parse ser x =
     (case x of Periodic_Save _ cp \<Rightarrow> good_record parse ser cp | Stop_Save _ cp \<Rightarrow> good_record parse ser cp | _ \<Rightarrow> True)"

lemma log_of_set [simp]: "log_of safe' (set_log safe s d) = (if safe' = safe then s else log_of safe' d)"
  by (simp add: log_of_def set_log_def)

lemma log_of_files [simp]: "log_of safe (d\<lparr>cp_files := fs\<rparr>) = log_of safe d"
  by (simp add: log_of_def)

lemma set_log_files [simp]: "cp_files (set_log safe s d) = cp_files d"
  by (simp add: set_log_def)

lemma write_named_healthy [simp]:
  "write_named healthy_disk n bs d = d\<lparr>cp_files := hm_insert n bs (cp_files d)\<rparr>"
  by (simp add: write_named_def healthy_disk_def)

lemma hm_insert_wf: "hm_wf m \<Longrightarrow> hm_wf (hm_insert k v m)"
  by (simp add: hm_wf_def hm_insert_def AList.distinct_update)

lemma hm_retain_wf: "hm_wf m \<Longrightarrow> hm_wf (hm_retain P m)"
  unfolding hm_wf_def hm_retain_def by (rule distinct_map_filter)

text \<open>The borrowed save writes the bytes an owned save would write.\<close>

lemma periodic_is_owned_save:
  "write_loop_checkpoint_bytes parse ser io sid (cp_turn cp) (ser cp) d =
     save_loop_checkpoint_impl parse ser io True sid cp d"
  by (simp add: write_loop_checkpoint_bytes_def save_loop_checkpoint_impl_def append_checkpoint_wal_def)

lemma save_log:
  "log_of safe (save_loop_checkpoint_impl parse ser healthy_disk cleanup sid cp d) =
     (if safe = sanitize_session_id sid then append_checkpoint_wal parse ser True cp (log_of safe d)
      else log_of safe d)"
  by (simp add: save_loop_checkpoint_impl_def Let_def) (simp add: healthy_disk_def)

lemma save_files:
  "cp_files (save_loop_checkpoint_impl parse ser healthy_disk cleanup sid cp d) =
     (let safe = sanitize_session_id sid; fs = hm_insert (checkpoint_name safe (cp_turn cp)) (ser cp) (cp_files d) in
      if cleanup then cleanup_session_checkpoints healthy_disk safe 5 fs else fs)"
  by (simp add: save_loop_checkpoint_impl_def Let_def) (simp add: healthy_disk_def)

lemma dir_ok_save:
  assumes "codec parse ser" and "dir_ok d" and "good_record parse ser cp"
  shows "dir_ok (save_loop_checkpoint_impl parse ser healthy_disk cleanup sid cp d)"
  using assms append_then_read(4) [OF assms(1) _ assms(3)]
  by (simp add: dir_ok_def save_log save_files Let_def cleanup_wf hm_insert_wf)

lemma read_log_ok: "codec parse ser \<Longrightarrow> dir_ok d \<Longrightarrow> dir_ok (snd (read_log parse safe d))"
  using store_ok_step [of parse ser "log_of safe d" Read_Latest]
  by (simp add: dir_ok_def read_log_def split_beta good_op_def)

lemma snd_load_best: "snd (load_best_loop_checkpoint parse sid d) = snd (read_log parse (sanitize_session_id sid) d)"
  by (simp add: load_best_loop_checkpoint_def Let_def split_beta)

lemma store_ok_changes: "store_ok s \<Longrightarrow> store_ok (s\<lparr>disk := []\<rparr>)" "store_ok s \<Longrightarrow> store_ok (s\<lparr>handle := None\<rparr>)"
  by (auto simp: store_ok_def split: option.splits)

lemma log_of_mapped:
  "log_of safe \<lparr>cp_files = fs, cp_logs = map (\<lambda>(k, s). (k, f k s)) logs\<rparr> =
     (case hm_get safe logs of Some s \<Rightarrow> f safe s | None \<Rightarrow> store_fresh)"
proof -
  have "map_of (map (\<lambda>(k, s). (k, f k s)) logs) safe = map_option (f safe) (map_of logs safe)"
    by (induction logs) auto
  then show ?thesis by (simp add: log_of_def hm_get_def split: option.split)
qed

lemma log_of_drop: "log_of safe (drop_handles d) = (log_of safe d)\<lparr>handle := None\<rparr>"
proof -
  have "hm_map f m = map (\<lambda>(k, s). (k, f s)) m" for f :: "wal_store \<Rightarrow> wal_store" and m :: "(string, wal_store) hash_map"
    by (simp add: hm_map_def AList.map_ran_def)
  then show ?thesis
    using log_of_mapped [of safe "cp_files d" "\<lambda>_ s. s\<lparr>handle := None\<rparr>" "cp_logs d"]
    by (simp add: drop_handles_def log_of_def store_fresh_def split: option.splits)
qed

lemma dir_ok_step:
  assumes "codec parse ser" and "dir_ok d" and "good_dir_op parse ser x"
  shows "dir_ok (dir_step parse ser x d)"
proof (cases x)
  case (Periodic_Save sid cp)
  then show ?thesis using assms by (simp add: good_dir_op_def periodic_is_owned_save dir_ok_save)
next
  case (Stop_Save sid cp)
  then show ?thesis using assms by (simp add: good_dir_op_def dir_ok_save)
next
  case (Load_Best sid)
  then show ?thesis using assms read_log_ok by (simp add: snd_load_best)
next
  case (Purge sid)
  have "store_ok \<lparr>disk = d', handle = None\<rparr>" if "d' = [] \<or> d' = disk s" "store_ok s" for d' s
    using that by (auto simp: store_ok_def)
  then show ?thesis
    using assms(2) Purge by (auto simp: dir_ok_def purge_session_checkpoints_def Let_def hm_retain_wf)
next
  case (Collect_Orphans live fresh)
  have emptied: "store_ok (case hm_get safe (cp_logs d) of Some s \<Rightarrow> (if P s then s\<lparr>disk := []\<rparr> else s) | None \<Rightarrow> store_fresh)"
    for P :: "wal_store \<Rightarrow> bool" and safe
    using assms(2) store_ok_changes(1) store_ok_fresh
    by (auto simp: dir_ok_def log_of_def split: option.splits dest: spec [of _ safe])
  have "hm_wf (cp_files d)" using assms(2) by (simp add: dir_ok_def)
  then show ?thesis
    unfolding Collect_Orphans dir_step.simps gc_orphan_checkpoints_def Let_def dir_ok_def snd_conv log_of_mapped
    by (intro conjI allI emptied) (simp add: hm_retain_wf)
next
  case Process_Restart
  have "store_ok (log_of safe (drop_handles d))" for safe
    using assms(2) store_ok_changes(2) by (simp add: dir_ok_def log_of_drop)
  then show ?thesis using assms(2) Process_Restart by (simp add: dir_ok_def) (simp add: drop_handles_def)
qed

lemma dir_ok_runs:
  "codec parse ser \<Longrightarrow> list_all (good_dir_op parse ser) ops \<Longrightarrow> dir_ok d \<Longrightarrow>
     dir_ok (runs (dir_step parse ser) ops d)"
  by (induction ops arbitrary: d) (simp_all add: dir_ok_step)

lemma dir_ok_fresh: "dir_ok dir_fresh"
  by (simp add: dir_ok_def dir_fresh_def hm_wf_def hm_empty_def log_of_def hm_get_def store_ok_fresh)

subsection \<open>Properties\<close>

text \<open>The turns of the checkpoints that can be read from the files of a session.\<close>

definition session_turns :: "(byte list \<Rightarrow> loop_checkpoint option) \<Rightarrow> string \<Rightarrow> cp_dir \<Rightarrow> nat set" where
  "session_turns parse sid d =
     {cp_turn f | n f. prefix (session_prefix (sanitize_session_id sid)) n \<and> read_file parse (cp_files d) n = Some f}"

text \<open>
  C35: A checkpoint that was saved is the one a later run resumes from, in the same process and
  after a restart, whatever was saved, loaded, purged or collected in the directory before, as
  long as no file of the session holds a later turn.
\<close>
theorem saved_checkpoint_is_loaded:
  assumes "codec parse ser" and "list_all (good_dir_op parse ser) ops" and "good_record parse ser cp"
    and "session_turns parse sid (runs (dir_step parse ser) ops dir_fresh) \<subseteq> {..cp_turn cp}"
  shows "let d = dir_step parse ser (Periodic_Save sid cp) (runs (dir_step parse ser) ops dir_fresh) in
           fst (load_best_loop_checkpoint parse sid d) = Some cp
         \<and> fst (load_best_loop_checkpoint parse sid (dir_step parse ser Process_Restart d)) = Some cp"
proof -
  define d0 where "d0 = runs (dir_step parse ser) ops dir_fresh"
  define d where "d = save_loop_checkpoint_impl parse ser healthy_disk True sid cp d0"
  have d: "dir_step parse ser (Periodic_Save sid cp) d0 = d" by (simp add: d_def periodic_is_owned_save)
  have "store_ok (log_of safe d0)" for safe
    using dir_ok_runs [OF assms(1,2) dir_ok_fresh] by (simp add: d0_def dir_ok_def)
  from append_then_read [OF assms(1) this assms(3)]
  have logs: "fst (read_log parse (sanitize_session_id sid) d) = Some cp"
    "fst (read_log parse (sanitize_session_id sid) (drop_handles d)) = Some cp"
    by (simp_all add: read_log_def split_beta log_of_drop d_def save_log)
  have le: "cp_turn f \<le> cp_turn cp"
    if n: "prefix (session_prefix (sanitize_session_id sid)) n" and f: "read_file parse (cp_files d) n = Some f" for n f
  proof -
    from f obtain b where b: "hm_get n (cp_files d) = Some b" "parse b = Some f"
      by (auto simp: read_file_def bind_eq_Some_conv)
    have "hm_get n (cleanup_session_checkpoints healthy_disk (sanitize_session_id sid) 5
        (hm_insert (checkpoint_name (sanitize_session_id sid) (cp_turn cp)) (ser cp) (cp_files d0))) = Some b"
      using b(1) by (simp only: d_def save_files Let_def if_True)
    note got = cleanup_sub [OF this]
    show ?thesis
    proof (cases "n = checkpoint_name (sanitize_session_id sid) (cp_turn cp)")
      case True
      with got have "b = ser cp" by simp
      with b(2) assms(3) show ?thesis by (simp add: good_record_def)
    next
      case False
      with got have "hm_get n (cp_files d0) = Some b" by simp
      with n b(2) have "cp_turn f \<in> session_turns parse sid d0"
        unfolding session_turns_def read_file_def by (intro CollectI exI [of _ n] exI [of _ f]) simp
      with assms(4) show ?thesis by (auto simp: d0_def)
    qed
  qed
  have "cp_files (drop_handles d) = cp_files d" by (simp add: drop_handles_def)
  then have "fst (load_best_loop_checkpoint parse sid (drop_handles d)) = Some cp"
    using load_best_is_log [OF logs(2)] le by simp
  moreover have "fst (load_best_loop_checkpoint parse sid d) = Some cp"
    using load_best_is_log [OF logs(1)] le by blast
  ultimately show ?thesis by (simp only: Let_def d0_def [symmetric] d) simp
qed

definition sample_checkpoint :: "nat \<Rightarrow> loop_checkpoint" where
  "sample_checkpoint t =
     \<lparr>cp_turn = t, cp_timestamp = 0, cp_messages = [], cp_history_info = [], cp_full_response = [],
      cp_exit_reason = None, cp_session_id = None, cp_plan = empty_plan, cp_todos = [], cp_interventions = [],
      cp_full_thinking = None, cp_git_sha = None, cp_git_branch = None, cp_git_origin_url = None\<rparr>"

definition sample_ser :: "loop_checkpoint \<Rightarrow> byte list" where
  "sample_ser cp = [of_nat (cp_turn cp)]"

definition sample_parse :: "byte list \<Rightarrow> loop_checkpoint option" where
  "sample_parse bs = (case bs of [b] \<Rightarrow> Some (sample_checkpoint (unat b)) | _ \<Rightarrow> None)"

lemma sample_good: "t < 256 \<Longrightarrow> good_record sample_parse sample_ser (sample_checkpoint t)"
  by (simp add: good_record_def sample_parse_def sample_ser_def sample_checkpoint_def unat_of_nat)

lemma sample_codec: "codec sample_parse sample_ser"
proof -
  have "good_record sample_parse sample_ser c" if c: "sample_parse bs = Some c" for bs c
  proof -
    from c obtain b :: byte where "c = sample_checkpoint (unat b)"
      by (auto simp: sample_parse_def split: list.splits)
    moreover have "unat b < 256" using unsigned_less [of b] by simp
    ultimately show ?thesis by (simp add: sample_good)
  qed
  then show ?thesis by (simp add: codec_def) (simp add: sample_parse_def)
qed

theorem saved_checkpoint_is_loaded_witness:
  "fst (load_best_loop_checkpoint sample_parse ''s''
     (dir_step sample_parse sample_ser (Periodic_Save ''s'' (sample_checkpoint 6))
       (runs (dir_step sample_parse sample_ser) [Purge ''s'', Process_Restart] dir_fresh))) = Some (sample_checkpoint 6)"
proof -
  have ops: "list_all (good_dir_op sample_parse sample_ser) [Purge ''s'', Process_Restart]"
    by (simp add: good_dir_op_def)
  have "cp_files (runs (dir_step sample_parse sample_ser) [Purge ''s'', Process_Restart] dir_fresh) = []"
    by (simp add: drop_handles_def purge_session_checkpoints_def Let_def dir_fresh_def hm_retain_def hm_empty_def)
  then have "session_turns sample_parse ''s''
      (runs (dir_step sample_parse sample_ser) [Purge ''s'', Process_Restart] dir_fresh) \<subseteq> {..cp_turn (sample_checkpoint 6)}"
    by (simp add: session_turns_def read_file_def hm_get_def)
  from saved_checkpoint_is_loaded [OF sample_codec ops sample_good [of 6] this] show ?thesis
    by (simp only: Let_def)
qed

text \<open>The clean-up keeps the newest names, as long as they fit.\<close>

definition session_bytes :: "string list \<Rightarrow> (string, byte list) hash_map \<Rightarrow> nat" where
  "session_bytes ns files = (\<Sum>n\<leftarrow>ns. file_size n files)"

lemma file_size_cong: "hm_get n files = hm_get n files' \<Longrightarrow> file_size n files = file_size n files'"
  by (simp add: file_size_def)

lemma session_bytes_cong:
  "(\<And>n. n \<in> set ns \<Longrightarrow> hm_get n files = hm_get n files') \<Longrightarrow> session_bytes ns files = session_bytes ns files'"
  unfolding session_bytes_def by (metis (mono_tags, lifting) file_size_cong map_eq_conv)

lemma session_bytes_mono:
  "distinct ns \<Longrightarrow> distinct ms \<Longrightarrow> set ns \<subseteq> set ms \<Longrightarrow> session_bytes ns files \<le> session_bytes ms files"
  by (simp add: session_bytes_def sum_list_distinct_conv_sum_set sum_mono2)

lemma sorted_last: "sorted xs \<Longrightarrow> x \<in> set xs \<Longrightarrow> x \<le> last xs"
  by (induction xs) (auto split: if_splits)

lemma byte_budget_sum:
  "0 < i \<Longrightarrow> distinct ns \<Longrightarrow> used + session_bytes ns files < 2 ^ 64 \<Longrightarrow>
     used + session_bytes ns (byte_budget healthy_disk i ns used files) \<le> max used MAX_SESSION_CHECKPOINT_BYTES"
proof (induction ns arbitrary: i used files)
  case Nil
  then show ?case by (simp add: session_bytes_def)
next
  case (Cons n ns)
  have sum: "session_bytes (n # ns) fs = file_size n fs + session_bytes ns fs" for fs
    by (simp add: session_bytes_def)
  have n: "n \<notin> set ns" using Cons.prems(2) by simp
  have cap: "min (used + file_size n files) (2 ^ 64 - 1) = used + file_size n files"
    using Cons.prems(3) by (simp add: sum)
  show ?case
  proof (cases "used + file_size n files > MAX_SESSION_CHECKPOINT_BYTES")
    case True
    define fs where "fs = remove_named healthy_disk n files"
    have step: "byte_budget healthy_disk i (n # ns) used files = byte_budget healthy_disk (i + 1) ns used fs"
      unfolding byte_budget.simps Let_def cap using True Cons.prems(1) by (simp add: fs_def)
    have "session_bytes ns fs = session_bytes ns files"
      using n by (intro session_bytes_cong) (auto simp: fs_def remove_named_get)
    with Cons.IH [of "i + 1" used fs] Cons.prems
    have "used + session_bytes ns (byte_budget healthy_disk (i + 1) ns used fs) \<le> max used MAX_SESSION_CHECKPOINT_BYTES"
      by (simp add: sum)
    moreover have "hm_get n (byte_budget healthy_disk (i + 1) ns used fs) = None"
      using byte_budget_other [OF n] by (simp add: fs_def remove_named_get healthy_disk_def)
    then have "file_size n (byte_budget healthy_disk (i + 1) ns used fs) = 0" by (simp add: file_size_def)
    ultimately show ?thesis by (simp only: step sum)
  next
    case False
    have step: "byte_budget healthy_disk i (n # ns) used files =
        byte_budget healthy_disk (i + 1) ns (used + file_size n files) files"
      unfolding byte_budget.simps Let_def cap using False by simp
    have "used + file_size n files + session_bytes ns (byte_budget healthy_disk (i + 1) ns (used + file_size n files) files)
        \<le> max (used + file_size n files) MAX_SESSION_CHECKPOINT_BYTES"
      using Cons by (simp add: sum)
    moreover have "file_size n (byte_budget healthy_disk (i + 1) ns (used + file_size n files) files) = file_size n files"
      using byte_budget_other [OF n] by (simp add: file_size_def)
    ultimately show ?thesis using False by (simp only: step sum)
  qed
qed

lemma kept_by_count_collect:
  assumes "hm_wf files"
  shows "set (collect_checkpoints (Some p) (kept_by_count healthy_disk p keep files)) =
      set (drop (length (collect_checkpoints (Some p) files) - keep) (collect_checkpoints (Some p) files))"
proof -
  let ?ns = "collect_checkpoints (Some p) files"
  let ?k = "length ?ns - keep"
  have "set (collect_checkpoints (Some p) (kept_by_count healthy_disk p keep files)) = set ?ns - set (take ?k ?ns)"
    by (auto simp: collect_set kept_by_count_def remove_all_get healthy_disk_def)
  moreover have "set (take ?k ?ns) \<inter> set (drop ?k ?ns) = {}"
    using collect_distinct [OF assms] by (rule set_take_disj_set_drop_if_distinct) simp
  moreover have "set (take ?k ?ns) \<union> set (drop ?k ?ns) = set ?ns"
    by (metis append_take_drop_id set_append)
  ultimately show ?thesis by blast
qed

lemma distinct_length_le: "distinct xs \<Longrightarrow> set xs \<subseteq> set ys \<Longrightarrow> length xs \<le> length ys"
  by (metis card_length card_mono distinct_card finite_set le_trans)

lemma kept_by_count_bounds:
  fixes p :: string and keep :: nat
  assumes "hm_wf files"
  defines "ns \<equiv> collect_checkpoints (Some p) (kept_by_count healthy_disk p keep files)"
  shows "length ns \<le> keep"
    and "session_bytes ns (kept_by_count healthy_disk p keep files)
           \<le> session_bytes (collect_checkpoints (Some p) files) files"
proof -
  have dist: "distinct ns"
    unfolding ns_def using assms(1) by (intro collect_distinct) (simp add: kept_by_count_def remove_all_wf)
  have set: "set ns = set (drop (length (collect_checkpoints (Some p) files) - keep) (collect_checkpoints (Some p) files))"
    unfolding ns_def by (rule kept_by_count_collect [OF assms(1)])
  then show "length ns \<le> keep" using distinct_length_le [OF dist eq_refl [OF set]] by simp
  have "hm_get n (kept_by_count healthy_disk p keep files) = hm_get n files" if "n \<in> set ns" for n
    using that by (auto simp: ns_def collect_set kept_by_count_def remove_all_get split: if_splits)
  then have "session_bytes ns (kept_by_count healthy_disk p keep files) = session_bytes ns files"
    by (rule session_bytes_cong)
  also have "\<dots> \<le> session_bytes (collect_checkpoints (Some p) files) files"
    using dist collect_distinct [OF assms(1)] by (rule session_bytes_mono) (auto simp: set dest: in_set_dropD)
  finally show "session_bytes ns (kept_by_count healthy_disk p keep files)
      \<le> session_bytes (collect_checkpoints (Some p) files) files" .
qed

text \<open>The byte budget from the last name on: the last file stays, and the others fit beside it.\<close>

lemma byte_budget_bound:
  assumes "hm_wf files" and "session_bytes (collect_checkpoints (Some p) files) files < 2 ^ 64"
  defines "fs \<equiv> byte_budget healthy_disk 0 (rev (collect_checkpoints (Some p) files)) 0 files"
  defines "ns \<equiv> collect_checkpoints (Some p) fs"
  shows "session_bytes ns fs \<le> max MAX_SESSION_CHECKPOINT_BYTES (case ns of [] \<Rightarrow> 0 | _ \<Rightarrow> file_size (last ns) fs)"
proof -
  define ns1 where "ns1 = collect_checkpoints (Some p) files"
  have dist1: "distinct ns1" and dist: "distinct ns"
    using assms(1) by (simp_all add: ns1_def ns_def fs_def collect_distinct byte_budget_wf)
  have sub: "set ns \<subseteq> set ns1"
    by (auto simp: ns_def ns1_def collect_set fs_def dest!: byte_budget_sub)
  show ?thesis
  proof (cases "rev ns1")
    case Nil
    with sub show ?thesis by (simp add: session_bytes_def)
  next
    case (Cons n rest)
    have last1: "last ns1 = n" and ns1: "ns1 = rev rest @ [n]" using Cons by (simp_all add: rev_eq_Cons_iff)
    have rest: "distinct rest" "n \<notin> set rest" "distinct (n # rest)" using dist1 by (simp_all add: ns1)
    have small: "file_size n files + session_bytes rest files < 2 ^ 64"
      using assms(2) by (simp add: ns1_def [symmetric] ns1 session_bytes_def add.commute rev_map [symmetric] sum_list_rev)
    have fs: "fs = byte_budget healthy_disk 1 rest (file_size n files) files"
      using small by (simp add: fs_def ns1_def [symmetric] Cons Let_def)
    have "file_size n files + session_bytes rest fs \<le> max (file_size n files) MAX_SESSION_CHECKPOINT_BYTES"
      unfolding fs using byte_budget_sum [OF _ rest(1) small, of 1] by simp
    moreover have n: "hm_get n fs = hm_get n files" unfolding fs using rest(2) by (rule byte_budget_other)
    then have "file_size n fs = file_size n files" by (rule file_size_cong)
    moreover have "session_bytes ns fs \<le> session_bytes (n # rest) fs"
      using dist rest(3) sub by (intro session_bytes_mono) (auto simp: ns1)
    moreover have "n \<in> set ns1" by (simp add: ns1)
    then have mem: "n \<in> set ns" using n by (simp add: ns_def ns1_def collect_set)
    have "last ns = n"
    proof (rule antisym)
      have "last ns \<in> set ns1" using sub mem last_in_set by (metis empty_iff empty_set subsetD)
      then have "last ns \<le> last ns1" unfolding ns1_def using sorted_last [OF collect_sorted] by simp
      then show "last ns \<le> n" by (simp only: last1)
      show "n \<le> last ns" using mem unfolding ns_def by (rule sorted_last [OF collect_sorted])
    qed
    ultimately show ?thesis using mem by (cases ns) (simp_all add: session_bytes_def)
  qed
qed

text \<open>
  C36: After the clean-up a session has at most as many files as it may keep, and together they are
  not larger than the byte budget, unless the one with the last name is larger by itself; the files
  of sessions whose names do not start with this one's stay as they are.
\<close>
theorem clean_up_bounds:
  assumes "hm_wf files" and "session_bytes (collect_checkpoints (Some (session_prefix safe)) files) files < 2 ^ 64"
  shows "let fs = cleanup_session_checkpoints healthy_disk safe keep files;
             ns = collect_checkpoints (Some (session_prefix safe)) fs in
           length ns \<le> keep
         \<and> session_bytes ns fs \<le> max MAX_SESSION_CHECKPOINT_BYTES (case ns of [] \<Rightarrow> 0 | _ \<Rightarrow> file_size (last ns) fs)
         \<and> {n. hm_get n fs \<noteq> hm_get n files} \<subseteq> {n. prefix (session_prefix safe) n}"
proof -
  define p where "p = session_prefix safe"
  define files1 where "files1 = kept_by_count healthy_disk p keep files"
  define fs where "fs = cleanup_session_checkpoints healthy_disk safe keep files"
  define ns where "ns = collect_checkpoints (Some p) fs"
  have fs: "fs = byte_budget healthy_disk 0 (rev (collect_checkpoints (Some p) files1)) 0 files1"
    by (simp add: fs_def files1_def p_def cleanup_split)
  have wf1: "hm_wf files1" using assms(1) by (simp add: files1_def kept_by_count_def remove_all_wf)
  note kept = kept_by_count_bounds [OF assms(1), of p keep, folded files1_def]
  have "session_bytes (collect_checkpoints (Some p) files1) files1 < 2 ^ 64"
    using kept(2) assms(2) unfolding p_def by (rule le_less_trans)
  note bytes = byte_budget_bound [OF wf1 this, folded fs ns_def]
  have "distinct ns" unfolding ns_def fs_def by (rule collect_distinct [OF cleanup_wf [OF assms(1)]])
  moreover have "set ns \<subseteq> set (collect_checkpoints (Some p) files1)"
    by (auto simp: ns_def collect_set fs dest!: byte_budget_sub)
  ultimately have "length ns \<le> keep" using distinct_length_le kept(1) by (meson order_trans)
  moreover have "{n. hm_get n fs \<noteq> hm_get n files} \<subseteq> {n. prefix p n}"
    unfolding fs_def p_def using cleanup_other [of safe] by blast
  ultimately show ?thesis
    using bytes by (simp only: Let_def fs_def [symmetric] p_def [symmetric] ns_def [symmetric])
qed

theorem clean_up_bounds_witness:
  "let fs = cleanup_session_checkpoints healthy_disk ''s'' 1 [(checkpoint_name ''s'' 3, [1]), (checkpoint_name ''s'' 6, [2])] in
     length (collect_checkpoints (Some (session_prefix ''s'')) fs) \<le> 1"
proof -
  let ?fs = "[(checkpoint_name ''s'' 3, [1]), (checkpoint_name ''s'' 6, [2])] :: (string, byte list) hash_map"
  have wf: "hm_wf ?fs" by (simp add: hm_wf_def checkpoint_name_inject)
  have "session_bytes ns ?fs \<le> length ns" for ns
    by (induction ns) (simp_all add: session_bytes_def file_size_def hm_get_def)
  then have "session_bytes (collect_checkpoints (Some (session_prefix ''s'')) ?fs) ?fs
      \<le> length (collect_checkpoints (Some (session_prefix ''s'')) ?fs)" .
  also have "\<dots> \<le> length ?fs"
    by (rule collect_length)
  also have "\<dots> < 2 ^ 64" by simp
  finally have "session_bytes (collect_checkpoints (Some (session_prefix ''s'')) ?fs) ?fs < 2 ^ 64" .
  from clean_up_bounds [OF wf this, of 1] show ?thesis by (simp only: Let_def)
qed

text \<open>The names of a session's files do not sort by turn once the turns have four digits.\<close>

lemma at_the_front:
  "sorted xs \<Longrightarrow> distinct xs \<Longrightarrow> x \<in> set xs \<Longrightarrow> k \<le> card {y \<in> set xs. x < y} \<Longrightarrow> x \<in> set (take (length xs - k) xs)"
proof -
  assume xs: "sorted xs" "distinct xs" and x: "x \<in> set xs" and k: "k \<le> card {y \<in> set xs. x < y}"
  then obtain j where j: "j < length xs" "xs ! j = x" by (auto simp: in_set_conv_nth)
  have "{y \<in> set xs. x < y} \<subseteq> set (drop (Suc j) xs)"
  proof
    fix y assume "y \<in> {y \<in> set xs. x < y}"
    then obtain i where i: "i < length xs" "xs ! i = y" "x < y" by (auto simp: in_set_conv_nth)
    then have "j < i" using xs(1) j by (metis leD not_less sorted_nth_mono)
    then have "y = drop (Suc j) xs ! (i - Suc j)" "i - Suc j < length (drop (Suc j) xs)" using i by simp_all
    then show "y \<in> set (drop (Suc j) xs)" by (metis nth_mem)
  qed
  then have "card {y \<in> set xs. x < y} \<le> length xs - Suc j"
    by (metis card_length card_mono finite_set le_trans length_drop)
  then have "j < length xs - k" using j(1) k by linarith
  then show ?thesis using j by (metis in_set_conv_nth length_take min.absorb4 min_less_iff_conj nth_take)
qed

lemma nat_text_ten: "10 \<le> n \<Longrightarrow> nat_text n = nat_text (n div 10) @ [char_of (48 + n mod 10)]"
  by (subst nat_text.simps) simp

lemma nat_text_nonempty: "nat_text n \<noteq> []"
  by (subst nat_text.simps) simp

lemma pad3_long: "100 \<le> t \<Longrightarrow> pad3 t = nat_text t"
  using nat_text_nonempty [of "t div 10 div 10"] by (simp add: pad3_def nat_text_ten Suc_le_eq)

lemma four_digits: "1000 \<le> t \<Longrightarrow> t < 9000 \<Longrightarrow> \<exists>r. pad3 t = char_of (48 + t div 1000) # r"
  by (simp add: pad3_long nat_text_ten div_mult2_eq [symmetric]) (simp add: nat_text.simps)

lemma nine_hundreds: "900 \<le> u \<Longrightarrow> u < 1000 \<Longrightarrow> \<exists>r. pad3 u = char_of (57 :: nat) # r"
proof -
  assume u: "900 \<le> u" "u < 1000"
  then have "u div 100 = 9" by simp
  with u show ?thesis
    by (simp add: pad3_long nat_text_ten div_mult2_eq [symmetric]) (simp add: nat_text.simps)
qed

lemma four_digits_first:
  assumes "1000 \<le> t" "t < 9000" "900 \<le> u" "u < 1000"
  shows "checkpoint_name safe t < checkpoint_name safe u"
proof -
  obtain r q where t: "pad3 t = char_of (48 + t div 1000) # r" and u: "pad3 u = char_of (57 :: nat) # q"
    using assms four_digits nine_hundreds by blast
  have "t div 1000 < 9" using assms(2) by auto
  then have "char_of (48 + t div 1000) < (char_of (57 :: nat) :: char)" by (simp add: less_char_def)
  then have "pad3 t @ ''.json'' < pad3 u @ ''.json''" by (simp add: t u)
  moreover have "xs < ys \<Longrightarrow> zs @ xs < zs @ ys" for xs ys zs :: string by (induction zs) simp_all
  ultimately show ?thesis by (simp only: checkpoint_name_def)
qed

text \<open>
  From turn 1000 on a run's files are removed as soon as they are written, while five files of its
  turns 900 to 999 are there: their names come later in the alphabet.
\<close>
theorem late_turns_keep_no_file:
  assumes "hm_wf (cp_files d)" and "1000 \<le> t" and "t < 9000"
    and "U \<subseteq> {900..<1000}" and "card U = 5"
    and "\<forall>u \<in> U. hm_get (checkpoint_name (sanitize_session_id sid) u) (cp_files d) \<noteq> None"
    and "cp_turn cp = t"
  shows "load_checkpoint_at_turn parse sid t (dir_step parse ser (Periodic_Save sid cp) d) = None"
proof -
  define safe where "safe = sanitize_session_id sid"
  define files where "files = hm_insert (checkpoint_name safe t) (ser cp) (cp_files d)"
  define ns where "ns = collect_checkpoints (Some (session_prefix safe)) files"
  have wf: "hm_wf files" using assms(1) by (simp add: files_def hm_insert_wf)
  have inside: "checkpoint_name safe u \<in> set ns" if "u \<in> insert t U" for u
    using that assms(6) suffix_checkpoint_name checkpoint_name_prefix
    by (auto simp: ns_def collect_set files_def safe_def)
  have "inj_on (checkpoint_name safe) U"
    using assms(4) by (intro inj_onI) (subst (asm) checkpoint_name_inject, auto)
  then have "card (checkpoint_name safe ` U) = 5" using assms(5) by (simp add: card_image)
  moreover have "checkpoint_name safe ` U \<subseteq> {y \<in> set ns. checkpoint_name safe t < y}"
    using inside four_digits_first [OF assms(2,3)] assms(4) by auto
  ultimately have "5 \<le> card {y \<in> set ns. checkpoint_name safe t < y}"
    using card_mono [of "{y \<in> set ns. checkpoint_name safe t < y}" "checkpoint_name safe ` U"] by simp
  then have front: "checkpoint_name safe t \<in> set (take (length ns - 5) ns)"
    using inside [of t] by (intro at_the_front) (simp_all add: ns_def collect_sorted collect_distinct [OF wf])
  then have "length ns > 5" by (cases "length ns > 5") simp_all
  with front have "hm_get (checkpoint_name safe t) (kept_by_count healthy_disk (session_prefix safe) 5 files) = None"
    by (simp add: kept_by_count_def ns_def [symmetric] remove_all_get healthy_disk_def)
  then have "hm_get (checkpoint_name safe t) (cleanup_session_checkpoints healthy_disk safe 5 files) = None"
    unfolding cleanup_split using byte_budget_sub by (metis not_None_eq)
  moreover have "dir_step parse ser (Periodic_Save sid cp) d = save_loop_checkpoint_impl parse ser healthy_disk True sid cp d"
    by (simp add: periodic_is_owned_save)
  ultimately show ?thesis
    by (simp only: load_checkpoint_at_turn_def read_file_def save_files Let_def safe_def [symmetric] files_def assms(7))
      simp
qed

theorem late_turns_keep_no_file_witness:
  "load_checkpoint_at_turn sample_parse ''s'' 1002
     (dir_step sample_parse sample_ser (Periodic_Save ''s'' (sample_checkpoint 1002))
       \<lparr>cp_files = [(checkpoint_name ''s'' 987, []), (checkpoint_name ''s'' 990, []), (checkpoint_name ''s'' 993, []),
          (checkpoint_name ''s'' 996, []), (checkpoint_name ''s'' 999, [])], cp_logs = []\<rparr>) = None"
proof (rule late_turns_keep_no_file [where U = "{987, 990, 993, 996, 999}"])
  let ?d = "\<lparr>cp_files = [(checkpoint_name ''s'' 987, []), (checkpoint_name ''s'' 990, []), (checkpoint_name ''s'' 993, []),
          (checkpoint_name ''s'' 996, []), (checkpoint_name ''s'' 999, [])], cp_logs = []\<rparr> :: cp_dir"
  have safe: "sanitize_session_id ''s'' = ''s''" by code_simp
  show "hm_wf (cp_files ?d)" by (simp add: hm_wf_def checkpoint_name_inject)
  show "\<forall>u \<in> {987, 990, 993, 996, 999}. hm_get (checkpoint_name (sanitize_session_id ''s'') u) (cp_files ?d) \<noteq> None"
    by (simp add: safe hm_get_def)
qed (simp_all add: sample_checkpoint_def)





lemma hm_get_retain_names: "hm_get n (hm_retain (\<lambda>n _. P n) fs) = (if P n then hm_get n fs else None)"
  by (induction fs) (auto simp: hm_get_def hm_retain_def)

text \<open>
  Deleting a session removes the checkpoint files of every session whose name starts with this
  one's and an underscore, and no other file of another session.
\<close>
theorem purge_removes:
  "hm_get (checkpoint_name t k) (cp_files (snd (purge_session_checkpoints healthy_disk sid d))) =
     (if t = sanitize_session_id sid \<or> prefix (sanitize_session_id sid @ ''_'') t then None
      else hm_get (checkpoint_name t k) (cp_files d))"
proof -
  show ?thesis
    using checkpoint_name_prefix [of "sanitize_session_id sid" t k]
    by (auto simp: purge_session_checkpoints_def Let_def set_log_def hm_get_retain_names hm_keys_get healthy_disk_def)
qed

text \<open>
  The collection of orphans keeps the files of a session only when the safe form of its id is
  among the ids of the sessions there are; an id with a colon or a dot never is.
\<close>
theorem orphans_by_safe_id:
  "hm_get (checkpoint_name t k) (cp_files (snd (gc_orphan_checkpoints healthy_disk live fresh d))) =
     (if t \<in> live \<or> fresh (checkpoint_name t k) then hm_get (checkpoint_name t k) (cp_files d) else None)"
proof -
  show ?thesis
    by (simp add: gc_orphan_checkpoints_def Let_def hm_get_retain_names sid_of_checkpoint_name healthy_disk_def)
qed

theorem live_session_collected:
  "hm_get (checkpoint_name (sanitize_session_id ''tg:7'') 3)
     (cp_files (snd (gc_orphan_checkpoints healthy_disk {''tg:7''} (\<lambda>_. False)
        (dir_step parse ser (Stop_Save ''tg:7'' cp) dir_fresh)))) = None"
proof -
  have "sanitize_session_id ''tg:7'' = ''tg_7''" by code_simp
  then show ?thesis by (simp add: orphans_by_safe_id)
qed

end
